(* ===== verification/Prelude.thy ===== *)
theory Prelude
  imports Complex_Main "HOL-Library.Word" "HOL-Library.Multiset"
begin

text \<open>
  What the component theories share: the machine types of Go, its clock, the
  byte orders of \<open>encoding/binary\<close>, buffered channels with a non-blocking send,
  and the generic lemmas on words, lists and maps.

  Go's \<open>uint8\<close> to \<open>uint64\<close> are words of that width, so \<open>+\<close> and \<open>*\<close> wrap as
  they do in Go.  A \<open>time.Time\<close> is the number of nanoseconds since Go's zero
  time, so \<open>IsZero\<close> is equality with 0; a \<open>time.Duration\<close> is an integer number
  of nanoseconds and the difference of two times saturates at the bounds of
  \<open>int64\<close>.  A \<open>float64\<close> is an exact rational: rounding is not modelled.  A Go
  \<open>error\<close> is the text its \<open>Error\<close> method returns, and \<open>None\<close> is \<open>nil\<close>.
\<close>

section \<open>Types\<close>

type_synonym u8 = "8 word"
type_synonym u16 = "16 word"
type_synonym u32 = "32 word"
type_synonym u64 = "64 word"
type_synonym i64 = "64 word"
type_synonym float64 = rat
type_synonym gotime = int
type_synonym duration = int
type_synonym error = "string option"
type_synonym bytes = "u8 list"

text \<open>The readings of the wall clock during one operation, in source order.\<close>

type_synonym clock = "nat \<Rightarrow> gotime"

named_theorems go_time \<open>definitions of the time package\<close>
named_theorems go_bytes \<open>definitions of encoding/binary\<close>

section \<open>Time\<close>

definition Nanosecond :: duration where [go_time]: "Nanosecond = 1"
definition Millisecond :: duration where [go_time]: "Millisecond = 1000000"
definition Second :: duration where [go_time]: "Second = 1000000000"
definition Minute :: duration where [go_time]: "Minute = 60000000000"
definition Hour :: duration where [go_time]: "Hour = 3600000000000"

definition dur_sat :: "int \<Rightarrow> duration" where
  "dur_sat d = max (- (2 ^ 63)) (min (2 ^ 63 - 1) d)"

definition time_Sub :: "gotime \<Rightarrow> gotime \<Rightarrow> duration" where
  "time_Sub t u = dur_sat (t - u)"

definition time_Add :: "gotime \<Rightarrow> duration \<Rightarrow> gotime" where
  [go_time]: "time_Add t d = t + d"

definition time_After :: "gotime \<Rightarrow> gotime \<Rightarrow> bool" where
  [go_time]: "time_After t u \<longleftrightarrow> u < t"

definition time_IsZero :: "gotime \<Rightarrow> bool" where
  [go_time]: "time_IsZero t \<longleftrightarrow> t = 0"

text \<open>The Unix epoch is 62135596800 seconds after Go's zero time.\<close>

definition time_Unix :: "gotime \<Rightarrow> int" where
  "time_Unix t = t div 1000000000 - 62135596800"

definition time_UnixNano :: "gotime \<Rightarrow> int" where
  "time_UnixNano t = t - 62135596800000000000"

definition dur_Seconds :: "duration \<Rightarrow> float64" where
  "dur_Seconds d = of_int d / 1000000000"

definition clk_from :: "nat \<Rightarrow> clock \<Rightarrow> clock" where
  "clk_from k clk = (\<lambda>i. clk (k + i))"

section \<open>Channels\<close>

text \<open>\<open>select { case ch <- x: ... default: ... }\<close> on a channel of capacity \<open>c\<close>.\<close>

definition chan_send :: "nat \<Rightarrow> 'a \<Rightarrow> 'a list \<Rightarrow> bool \<times> 'a list" where
  "chan_send c x q = (if length q < c then (True, q @ [x]) else (False, q))"

section \<open>Byte orders\<close>

fun put_le :: "nat \<Rightarrow> 'a::len word \<Rightarrow> bytes" where
  "put_le 0 w = []"
| "put_le (Suc n) w = ucast w # put_le n (drop_bit 8 w)"

fun get_le :: "bytes \<Rightarrow> 'a::len word" where
  "get_le [] = 0"
| "get_le (b # bs) = or (ucast b) (push_bit 8 (get_le bs))"

definition put_be :: "nat \<Rightarrow> 'a::len word \<Rightarrow> bytes" where
  "put_be n w = rev (put_le n w)"

definition get_be :: "bytes \<Rightarrow> 'a::len word" where
  "get_be bs = get_le (rev bs)"

section \<open>Lemmas on time and channels\<close>

lemma dur_sat_id [simp]: "- (2 ^ 63) \<le> d \<Longrightarrow> d < 2 ^ 63 \<Longrightarrow> dur_sat d = d"
  by (simp add: dur_sat_def)

lemma dur_sat_nonneg: "0 \<le> d \<Longrightarrow> 0 \<le> dur_sat d \<and> dur_sat d \<le> d"
  by (auto simp: dur_sat_def)

lemma time_Sub_le: "u \<le> t \<Longrightarrow> time_Sub t u \<le> t - u"
  using dur_sat_nonneg [of "t - u"] by (simp add: time_Sub_def)

lemma time_Sub_nonneg: "u \<le> t \<Longrightarrow> 0 \<le> time_Sub t u"
  using dur_sat_nonneg [of "t - u"] by (simp add: time_Sub_def)

lemma time_Sub_exact: "u \<le> t \<Longrightarrow> t - u < 2 ^ 63 \<Longrightarrow> time_Sub t u = t - u"
  by (simp add: time_Sub_def)

lemma time_Sub_less_iff: "- (2 ^ 63) < d \<Longrightarrow> d < 2 ^ 63 \<Longrightarrow> time_Sub t u < d \<longleftrightarrow> t - u < d"
  by (auto simp: time_Sub_def dur_sat_def)

lemma time_Sub_mono: "t \<le> t' \<Longrightarrow> time_Sub t u \<le> time_Sub t' u"
  by (auto simp: time_Sub_def dur_sat_def)

lemma time_Unix_mono: "t \<le> u \<Longrightarrow> time_Unix t \<le> time_Unix u"
  by (simp add: time_Unix_def zdiv_mono1)

lemma clk_from_apply [simp]: "clk_from k clk i = clk (k + i)"
  by (simp add: clk_from_def)

lemma chan_send_bound: "length q \<le> c \<Longrightarrow> chan_send c x q = (ok, q') \<Longrightarrow> length q' \<le> c"
  by (auto simp: chan_send_def split: if_splits)

lemma chan_send_prefix: "chan_send c x q = (ok, q') \<Longrightarrow> q' = q @ (if ok then [x] else [])"
  by (auto simp: chan_send_def split: if_splits)

section \<open>Lemmas on byte orders\<close>

lemma length_put_le [simp]: "length (put_le n w) = n"
  by (induction n arbitrary: w) auto

lemma length_put_be [simp]: "length (put_be n w) = n"
  by (simp add: put_be_def)

lemma get_put_le: "get_le (put_le n w) = take_bit (8 * n) w"
proof (induction n arbitrary: w)
  case (Suc n)
  show ?case
    by (rule bit_word_eqI) (auto simp: Suc bit_simps)
qed simp

lemma bit_get_le:
  "bit (get_le bs :: 'a::len word) i \<longleftrightarrow>
     i < LENGTH('a) \<and> i < 8 * length bs \<and> bit (bs ! (i div 8)) (i mod 8)"
proof (induction bs arbitrary: i)
  case (Cons b bs)
  show ?case
  proof (cases "i < 8")
    case False
    then obtain k where "i = 8 + k"
      using le_Suc_ex [of 8 i] by auto
    then show ?thesis
      by (auto simp: bit_simps Cons dest: bit_imp_le_length)
  qed (auto simp: bit_simps)
qed simp

lemma bit_put_le:
  "i < n \<Longrightarrow> j < 8 \<Longrightarrow> bit (put_le n (w :: 'a::len word) ! i) j \<longleftrightarrow> bit w (8 * i + j)"
proof (induction n arbitrary: w i)
  case (Suc n)
  then show ?case
    by (cases i) (auto simp: bit_simps add.assoc)
qed simp

lemma put_get_le:
  assumes "8 * length bs \<le> LENGTH('a)"
  shows "put_le (length bs) (get_le bs :: 'a::len word) = bs"
proof (rule nth_equalityI)
  fix i
  assume "i < length (put_le (length bs) (get_le bs :: 'a word))"
  then have i: "i < length bs" by simp
  show "put_le (length bs) (get_le bs :: 'a word) ! i = bs ! i"
  proof (rule bit_word_eqI)
    fix j
    assume "j < LENGTH(8)"
    with i assms show "bit (put_le (length bs) (get_le bs :: 'a word) ! i) j = bit (bs ! i) j"
      by (auto simp: bit_put_le bit_get_le)
  qed
qed simp

lemma get_put_le_full: "LENGTH('a) \<le> 8 * n \<Longrightarrow> get_le (put_le n w) = (w :: 'a::len word)"
  by (simp add: get_put_le take_bit_word_eq_self)

lemma get_put_be: "LENGTH('a) \<le> 8 * n \<Longrightarrow> get_be (put_be n (w :: 'a::len word)) = w"
  by (simp add: get_be_def put_be_def get_put_le take_bit_word_eq_self)

lemma put_get_be:
  "8 * length bs \<le> LENGTH('a) \<Longrightarrow> put_be (length bs) (get_be bs :: 'a::len word) = bs"
  using put_get_le [of "rev bs", where 'a = 'a] by (simp add: get_be_def put_be_def)

section \<open>Lemmas on words\<close>

lemma unat_word_of_int_nonneg:
  "0 \<le> i \<Longrightarrow> i < 2 ^ LENGTH('a) \<Longrightarrow> unat (word_of_int i :: 'a::len word) = nat i"
  by (simp add: unat_eq_nat_uint uint_word_of_int)

lemma u64_of_nat_le_iff:
  "m < 2 ^ 64 \<Longrightarrow> n < 2 ^ 64 \<Longrightarrow> (of_nat m :: u64) \<le> of_nat n \<longleftrightarrow> m \<le> n"
  by (simp add: word_of_nat_less_eq_iff take_bit_nat_eq_self)

lemma unat_less_u32: "unat (w :: u32) < 2 ^ 32"
  using unsigned_less [of w] by (rule order_less_le_trans) simp

lemma unat_u32_u64: "unat (ucast (w :: u32) :: u64) = unat w"
  by (simp add: unsigned_ucast_eq take_bit_nat_eq_self_iff order_less_le_trans [OF unat_less_u32])

lemma unat_max_u32: "unat (- 1 :: u32) = 4294967295"
  by (simp add: unsigned_minus_1_eq_mask mask_eq_exp_minus_1)

lemma unat_plus_u64: "unat (a :: u64) + unat b < 2 ^ 64 \<Longrightarrow> unat (a + b) = unat a + unat b"
  by (simp add: unat_word_ariths)

lemma unat_less_u64: "unat (a :: u64) < 2 ^ 64"
  using unsigned_less [of a] by (rule order_less_le_trans) simp

lemma unat_max_u64 [simp]: "unat (- 1 :: u64) = 18446744073709551615"
  by (simp add: unsigned_minus_1_eq_mask mask_eq_exp_minus_1)

lemma unat_not_u64: "unat (not (b :: u64)) = 2 ^ 64 - 1 - unat b"
proof -
  have "not b = - 1 - b" by (simp add: not_eq_complement)
  then show ?thesis
    using unat_sub [of b "- 1"] by (simp add: word_order.extremum)
qed

end
