(* ===== verification/GoNet.thy ===== *)
theory GoNet
  imports Prelude
begin

text \<open>
  The part of Go's \<open>net\<close> and \<open>strconv\<close> packages the program uses: \<open>net.IP\<close> as a
  slice of bytes (\<open>nil\<close> is the empty slice) with \<open>To4\<close>, \<open>To16\<close>, \<open>Equal\<close> and
  \<open>String\<close>, the parser behind \<open>net.ParseIP\<close>, and decimal printing.  The lemmas
  show that printing an IPv4 address and parsing the text gives the address
  back, so the text of an address identifies its map key.
\<close>

section \<open>Decimal and hexadecimal text\<close>

definition digit_char :: "nat \<Rightarrow> char" where
  "digit_char d = char_of (48 + d)"

fun dec :: "nat \<Rightarrow> string" where
  "dec n = (if n < 10 then [digit_char n] else dec (n div 10) @ [digit_char (n mod 10)])"

declare dec.simps [simp del]

definition dec_int :: "int \<Rightarrow> string" where
  "dec_int i = (if i < 0 then CHR ''-'' # dec (nat (- i)) else dec (nat i))"

definition hex_char :: "nat \<Rightarrow> char" where
  "hex_char d = (if d < 10 then char_of (48 + d) else char_of (87 + d))"

fun hex :: "nat \<Rightarrow> string" where
  "hex n = (if n < 16 then [hex_char n] else hex (n div 16) @ [hex_char (n mod 16)])"

declare hex.simps [simp del]

definition hex_byte :: "u8 \<Rightarrow> string" where
  "hex_byte b = [hex_char (unat b div 16), hex_char (unat b mod 16)]"

definition is_dec_digit :: "char \<Rightarrow> bool" where
  "is_dec_digit c \<longleftrightarrow> 48 \<le> (of_char c :: nat) \<and> (of_char c :: nat) \<le> 57"

definition hex_val :: "char \<Rightarrow> nat option" where
  "hex_val c = (let n = of_char c :: nat in
     if 48 \<le> n \<and> n \<le> 57 then Some (n - 48)
     else if 97 \<le> n \<and> n \<le> 102 then Some (n - 87)
     else if 65 \<le> n \<and> n \<le> 70 then Some (n - 55)
     else None)"

fun join :: "string \<Rightarrow> string list \<Rightarrow> string" where
  "join sep [] = []"
| "join sep [x] = x"
| "join sep (x # y # ys) = x @ sep @ join sep (y # ys)"

section \<open>Addresses\<close>

definition v4InV6Prefix :: bytes where
  "v4InV6Prefix = [0, 0, 0, 0, 0, 0, 0, 0, 0, 0, 0xff, 0xff]"

definition IP_To4 :: "bytes \<Rightarrow> bytes" where
  "IP_To4 ip =
     (if length ip = 4 then ip
      else if length ip = 16 \<and> take 12 ip = v4InV6Prefix then drop 12 ip
      else [])"

definition IP_To16 :: "bytes \<Rightarrow> bytes" where
  "IP_To16 ip =
     (if length ip = 4 then v4InV6Prefix @ ip
      else if length ip = 16 then ip
      else [])"

definition IP_Equal :: "bytes \<Rightarrow> bytes \<Rightarrow> bool" where
  "IP_Equal ip x \<longleftrightarrow>
     (if length ip = length x then ip = x
      else if length ip = 4 \<and> length x = 16 then take 12 x = v4InV6Prefix \<and> ip = drop 12 x
      else if length ip = 16 \<and> length x = 4 then take 12 ip = v4InV6Prefix \<and> drop 12 ip = x
      else False)"

text \<open>The eight 16-bit groups of an IPv6 address, and the first longest run of
  at least two zero groups, as (start, end).\<close>

fun groups16 :: "bytes \<Rightarrow> nat list" where
  "groups16 (a # b # bs) = (256 * unat a + unat b) # groups16 bs"
| "groups16 _ = []"

definition zero_run :: "nat list \<Rightarrow> nat \<Rightarrow> nat" where
  "zero_run gs i = length (takeWhile (\<lambda>g. g = 0) (drop i gs))"

definition longest_zero_run :: "nat list \<Rightarrow> nat \<times> nat" where
  "longest_zero_run gs =
     fold (\<lambda>i (s, l). let r = zero_run gs i in if 2 \<le> r \<and> l < r then (i, r) else (s, l))
       [0..<length gs] (255, 0)"

definition string6 :: "bytes \<Rightarrow> string" where
  "string6 ip = (let gs = groups16 ip; (s, l) = longest_zero_run gs in
     if l = 0 then join '':'' (map hex gs)
     else join '':'' (map hex (take s gs)) @ ''::'' @ join '':'' (map hex (drop (s + l) gs)))"

definition string4 :: "bytes \<Rightarrow> string" where
  "string4 p4 = join ''.'' (map (\<lambda>b. dec (unat b)) p4)"

definition IP_String :: "bytes \<Rightarrow> string" where
  "IP_String ip =
     (if ip = [] then ''<nil>''
      else if length ip \<noteq> 4 \<and> length ip \<noteq> 16 then CHR ''?'' # concat (map hex_byte ip)
      else if IP_To4 ip \<noteq> [] then string4 (IP_To4 ip)
      else string6 ip)"

section \<open>Parsing\<close>

text \<open>The loop of \<open>parseIPv4Fields\<close>: the value and the number of digits of the
  current field and the fields already finished.  An octet separator is
  preceded by another one, or first, exactly when the field has no digit.\<close>

fun parseIPv4Fields :: "string \<Rightarrow> nat \<Rightarrow> nat \<Rightarrow> bytes \<Rightarrow> bytes option" where
  "parseIPv4Fields [] val digLen fs = (if length fs < 3 then None else Some (fs @ [of_nat val]))"
| "parseIPv4Fields (c # s) val digLen fs =
     (if is_dec_digit c then
        if digLen = 1 \<and> val = 0 then None
        else let v = val * 10 + of_char c - 48 in
          if 255 < v then None else parseIPv4Fields s v (Suc digLen) fs
      else if c = CHR ''.'' then
        if digLen = 0 \<or> s = [] then None
        else if length fs = 3 then None
        else parseIPv4Fields s 0 0 (fs @ [of_nat val])
      else None)"

text \<open>One hexadecimal field of an IPv6 address: its value, its length and the
  rest, or \<open>None\<close> when it has more than four digits.\<close>

fun hex_field :: "string \<Rightarrow> nat \<Rightarrow> nat \<Rightarrow> (nat \<times> nat \<times> string) option" where
  "hex_field [] acc off = Some (acc, off, [])"
| "hex_field (c # s) acc off =
     (case hex_val c of
        None \<Rightarrow> Some (acc, off, c # s)
      | Some d \<Rightarrow> if 3 < off then None else hex_field s (acc * 16 + d) (Suc off))"

text \<open>The field loop of \<open>parseIPv6\<close>; \<open>n\<close> bounds the number of fields (eight),
  \<open>ip\<close> holds the bytes written so far and \<open>ell\<close> the position of the ellipsis.
  The result is the bytes, the ellipsis and the unread text.\<close>

fun parse6_fields :: "nat \<Rightarrow> string \<Rightarrow> bytes \<Rightarrow> nat option \<Rightarrow> (bytes \<times> nat option \<times> string) option" where
  "parse6_fields 0 s ip ell = Some (ip, ell, s)"
| "parse6_fields (Suc n) s ip ell =
     (if 16 \<le> length ip then Some (ip, ell, s)
      else case hex_field s 0 0 of
        None \<Rightarrow> None
      | Some (acc, off, rest) \<Rightarrow>
          if off = 0 then None
          else if rest \<noteq> [] \<and> hd rest = CHR ''.'' then
            if ell = None \<and> length ip \<noteq> 12 then None
            else if 16 < length ip + 4 then None
            else (case parseIPv4Fields s 0 0 [] of
                    None \<Rightarrow> None
                  | Some v4 \<Rightarrow> Some (ip @ v4, ell, []))
          else let ip' = ip @ [of_nat (acc div 256), of_nat (acc mod 256)] in
            (case rest of
               [] \<Rightarrow> Some (ip', ell, [])
             | c # r \<Rightarrow>
                 if c \<noteq> CHR '':'' then None
                 else if r = [] then None
                 else if hd r = CHR '':'' then
                   if ell \<noteq> None then None
                   else if tl r = [] then Some (ip', Some (length ip'), [])
                   else parse6_fields n (tl r) ip' (Some (length ip'))
                 else parse6_fields n r ip' ell))"

definition parseIPv6 :: "string \<Rightarrow> bytes option" where
  "parseIPv6 s =
     (let lead = take 2 s = ''::''; s' = (if lead then drop 2 s else s) in
      if lead \<and> s' = [] then Some (replicate 16 0)
      else case parse6_fields 9 s' [] (if lead then Some 0 else None) of
        None \<Rightarrow> None
      | Some (ip, ell, rest) \<Rightarrow>
          if rest \<noteq> [] then None
          else if length ip < 16 then
            (case ell of
               None \<Rightarrow> None
             | Some e \<Rightarrow> Some (take e ip @ replicate (16 - length ip) 0 @ drop e ip))
          else if ell \<noteq> None then None
          else Some ip)"

text \<open>\<open>net.ParseIP\<close>: the first of \<open>.\<close>, \<open>:\<close> and \<open>%\<close> decides; a zone is refused.\<close>

definition ParseIP :: "string \<Rightarrow> bytes" where
  "ParseIP s =
     (case filter (\<lambda>c. c \<in> set ''.:%'') s of
        [] \<Rightarrow> []
      | c # _ \<Rightarrow>
          if c = CHR ''.'' then
            (case parseIPv4Fields s 0 0 [] of None \<Rightarrow> [] | Some b \<Rightarrow> v4InV6Prefix @ b)
          else if c = CHR '':'' \<and> CHR ''%'' \<notin> set s then
            (case parseIPv6 s of None \<Rightarrow> [] | Some b \<Rightarrow> b)
          else [])"

section \<open>Round trip\<close>

lemma of_char_digit [simp]: "d < 10 \<Longrightarrow> of_char (digit_char d) = (48 + d :: nat)"
  by (simp add: digit_char_def)

lemma is_dec_digit_digit_char [simp]: "d < 10 \<Longrightarrow> is_dec_digit (digit_char d)"
  by (simp add: is_dec_digit_def)

lemma dec_digits: "c \<in> set (dec n) \<Longrightarrow> is_dec_digit c"
proof (induction n rule: dec.induct)
  case (1 n)
  then show ?case
    by (subst (asm) (2) dec.simps) (auto split: if_splits)
qed

lemma dec_nonempty [simp]: "dec n \<noteq> []"
  by (subst dec.simps) simp

lemma dec_no_mark: "c \<in> set ''.:%'' \<Longrightarrow> c \<notin> set (dec n)"
  using dec_digits by (fastforce simp: is_dec_digit_def)

lemma filter_dec_mark [simp]:
  "filter (\<lambda>c. c = CHR ''.'' \<or> c = CHR '':'' \<or> c = CHR ''%'') (dec n) = []"
  using dec_no_mark by (auto simp: filter_empty_conv)

lemma dec_small:
  assumes "n < 256"
  shows "dec n =
    (if n < 10 then [digit_char n]
     else if n < 100 then [digit_char (n div 10), digit_char (n mod 10)]
     else [digit_char (n div 100), digit_char (n div 10 mod 10), digit_char (n mod 10)])"
proof -
  have "n div 10 < 10 \<longleftrightarrow> n < 100" "n div 10 div 10 < 10" "n div 10 div 10 = n div 100"
    using assms by (auto simp: div_mult2_eq)
  then show ?thesis
    by (simp add: dec.simps [of n] dec.simps [of "n div 10"] dec.simps [of "n div 100"])
qed

lemma parse_dec_field:
  assumes "v < 256"
  shows "\<exists>k > 0. parseIPv4Fields (dec v @ s) 0 0 fs = parseIPv4Fields s v k fs"
proof -
  define q where "q = v div 10"
  define r where "r = v mod 10"
  define p where "p = q div 10"
  define t where "t = q mod 10"
  have v: "v = q * 10 + r" and r: "r < 10" and q: "q = p * 10 + t" and t: "t < 10"
    by (simp_all add: q_def r_def p_def t_def)
  have p: "v div 100 = p" "v div 10 = q" "v mod 10 = r" "q mod 10 = t"
    by (simp_all add: p_def q_def r_def t_def div_mult2_eq flip: numeral_times_numeral)
  consider "v < 10" | "10 \<le> v" "v < 100" | "100 \<le> v" by linarith
  then show ?thesis
  proof cases
    case 1
    then show ?thesis
      using assms by (auto simp: dec_small)
  next
    case 2
    then have "0 < q" "q < 10" using v r by linarith+
    then show ?thesis
      using assms v r 2 by (auto simp: dec_small p)
  next
    case 3
    then have "0 < p" "p < 10" "10 * p + t \<le> 25" using v q r t assms by linarith+
    then have "parseIPv4Fields ([digit_char p, digit_char t, digit_char r] @ s) 0 0 fs
      = parseIPv4Fields s (100 * p + 10 * t + r) 3 fs"
      using assms v q r t by (simp add: Let_def algebra_simps numeral_eq_Suc)
    moreover have "dec v = [digit_char p, digit_char t, digit_char r]"
      using assms 3 by (simp add: dec_small p)
    moreover have "v = 100 * p + 10 * t + r" using v q by simp
    ultimately show ?thesis by (metis zero_less_numeral)
  qed
qed

lemma parse_string4:
  "parseIPv4Fields (string4 [a, b, c, d]) 0 0 [] = Some [a, b, c, d]"
proof -
  have small: "unat (x :: u8) < 256" for x
    using unsigned_less [of x] by simp
  have field: "parseIPv4Fields (dec (unat x) @ CHR ''.'' # t) 0 0 fs = parseIPv4Fields t 0 0 (fs @ [x])"
    if "t \<noteq> []" "length fs < 3" for x :: u8 and t fs
    using parse_dec_field [OF small, of x "CHR ''.'' # t" fs] that
    by (auto simp: is_dec_digit_def)
  have last: "parseIPv4Fields (dec (unat d)) 0 0 [a, b, c] = Some [a, b, c, d]"
    using parse_dec_field [OF small, of d "[]" "[a, b, c]"] by auto
  show ?thesis
    by (simp add: string4_def field last)
qed

lemma length4_cases:
  assumes "length xs = 4"
  obtains a b c d where "xs = [a, b, c, d]"
  using assms by (auto simp: numeral_eq_Suc length_Suc_conv)

lemma IP_To4_length: "IP_To4 ip \<noteq> [] \<Longrightarrow> length (IP_To4 ip) = 4"
  by (auto simp: IP_To4_def split: if_splits)

lemma IP_String_v4: "IP_To4 ip \<noteq> [] \<Longrightarrow> IP_String ip = string4 (IP_To4 ip)"
  by (auto simp: IP_String_def IP_To4_def split: if_splits)

lemma ParseIP_String_v4:
  assumes "IP_To4 ip \<noteq> []"
  shows "ParseIP (IP_String ip) = v4InV6Prefix @ IP_To4 ip"
proof -
  obtain a b c d where abcd: "IP_To4 ip = [a, b, c, d]"
    using IP_To4_length [OF assms] length4_cases by blast
  show ?thesis
    using IP_String_v4 [OF assms] parse_string4 [of a b c d]
    by (simp add: abcd ParseIP_def) (simp add: string4_def)
qed

lemma IP_To4_v4InV6 [simp]: "length b = 4 \<Longrightarrow> IP_To4 (v4InV6Prefix @ b) = b"
  by (simp add: IP_To4_def v4InV6Prefix_def)

lemma IP_String_v4_eq_iff:
  "IP_To4 ip \<noteq> [] \<Longrightarrow> IP_To4 ip' \<noteq> [] \<Longrightarrow> IP_String ip = IP_String ip' \<longleftrightarrow> IP_To4 ip = IP_To4 ip'"
  by (metis IP_String_v4 ParseIP_String_v4 same_append_eq)

end
