(* ===== verification/BpfTypes.thy ===== *)
theory BpfTypes
  imports GoNet
begin

text \<open>
  The Go mirror of the kernel types (\<open>pkg/bpfmaps/types.go\<close>): the value types of
  the BPF maps, the saturating aggregation of per-CPU counters and the address
  keys.  The lemmas show that saturating addition is exact up to the largest
  64-bit value, that aggregation does not depend on the order of the CPUs, and
  that an IPv4 address and its map key determine each other.
\<close>

section \<open>Map values\<close>

record BlockEntry =
  ExpireAt :: u64
  Action :: u8
  RuleID :: u8
  ThreatScore :: u8
  BePad :: u8
  Reason :: u32

record RateBucket =
  RbTokens :: u64
  RbLastRefill :: u64
  RbCapacity :: u64
  RbRefillRate :: u64
  RbDropCount :: u64

record CoolingEntry =
  RepeatCount :: u32
  CePad :: u32
  LastBanAtNs :: u64

record SynCountEntry =
  SynCount :: u32
  AckCount :: u32

record MappedXdpStats =
  mRxPackets :: u64
  mRxBytes :: u64
  mDropped :: u64
  mDroppedBytes :: u64
  mPassed :: u64
  mPassedBytes :: u64

record XdpStats =
  RxPackets :: u64
  RxBytes :: u64
  Dropped :: u64
  RateLimited :: u64
  Passed :: u64
  Redirected :: u64
  FailsafeDrops :: u64
  ParseErrors :: u64
  MapErrors :: u64
  CoolingBans :: u64
  SynFloodBans :: u64
  LastResetNs :: u64

record FailsafeState =
  CircuitOpen :: u8
  FsPad :: "u8 list"
  CurrentPPS :: u64
  CurrentBPS :: u64
  OpenSinceNs :: u64
  PPSThreshold :: u64
  BPSThreshold :: u64
  WindowStartNs :: u64

record FalxMapConfig =
  DefaultAction :: u8
  RateLimitEnabled :: u8
  FailsafeEnabled :: u8
  AFXDPRedirect :: u8
  FcPad :: "u8 list"
  RateCapacity :: u64
  RateRefillNs :: u64
  HoneypotIP :: u32
  HoneypotPort :: u16
  FcPad2 :: "u8 list"

text \<open>The zero values of Go.\<close>

definition BlockEntry0 :: BlockEntry where
  "BlockEntry0 = \<lparr>ExpireAt = 0, Action = 0, RuleID = 0, ThreatScore = 0, BePad = 0, Reason = 0\<rparr>"

definition RateBucket0 :: RateBucket where
  "RateBucket0 = \<lparr>RbTokens = 0, RbLastRefill = 0, RbCapacity = 0, RbRefillRate = 0, RbDropCount = 0\<rparr>"

definition MappedXdpStats0 :: MappedXdpStats where
  "MappedXdpStats0 = \<lparr>mRxPackets = 0, mRxBytes = 0, mDropped = 0, mDroppedBytes = 0,
     mPassed = 0, mPassedBytes = 0\<rparr>"

definition XdpStats0 :: XdpStats where
  "XdpStats0 = \<lparr>RxPackets = 0, RxBytes = 0, Dropped = 0, RateLimited = 0, Passed = 0,
     Redirected = 0, FailsafeDrops = 0, ParseErrors = 0, MapErrors = 0, CoolingBans = 0,
     SynFloodBans = 0, LastResetNs = 0\<rparr>"

definition FailsafeState0 :: FailsafeState where
  "FailsafeState0 = \<lparr>CircuitOpen = 0, FsPad = replicate 7 0, CurrentPPS = 0, CurrentBPS = 0,
     OpenSinceNs = 0, PPSThreshold = 0, BPSThreshold = 0, WindowStartNs = 0\<rparr>"

definition FalxMapConfig0 :: FalxMapConfig where
  "FalxMapConfig0 = \<lparr>DefaultAction = 0, RateLimitEnabled = 0, FailsafeEnabled = 0,
     AFXDPRedirect = 0, FcPad = replicate 4 0, RateCapacity = 0, RateRefillNs = 0,
     HoneypotIP = 0, HoneypotPort = 0, FcPad2 = replicate 2 0\<rparr>"

section \<open>Constants\<close>

definition ActionPass :: u8 where "ActionPass = 1"
definition ActionDrop :: u8 where "ActionDrop = 2"
definition ActionRedirect :: u8 where "ActionRedirect = 3"
definition ActionRateLimit :: u8 where "ActionRateLimit = 4"

lemmas action_consts = ActionPass_def ActionDrop_def ActionRedirect_def ActionRateLimit_def

definition ReasonBlocklist :: u32 where "ReasonBlocklist = 0x0001"
definition ReasonRateLimit :: u32 where "ReasonRateLimit = 0x0002"
definition ReasonFailsafe :: u32 where "ReasonFailsafe = 0x0003"
definition ReasonParseErr :: u32 where "ReasonParseErr = 0x0004"
definition ReasonAIVerdict :: u32 where "ReasonAIVerdict = 0x0005"
definition ReasonCoolingBan :: u32 where "ReasonCoolingBan = 0x0006"

definition StatsIdx :: u32 where "StatsIdx = 0"
definition FailsafeIdx :: u32 where "FailsafeIdx = 0"
definition ConfigIdx :: u32 where "ConfigIdx = 0"

section \<open>Saturating arithmetic and aggregation\<close>

definition safeAdd :: "u64 \<Rightarrow> u64 \<Rightarrow> u64" where
  "safeAdd a b = (if a > not b then not 0 else a + b)"

definition maxU64 :: "u64 \<Rightarrow> u64 \<Rightarrow> u64" where
  "maxU64 a b = (if a > b then a else b)"

definition MappedXdpStats_Add :: "MappedXdpStats \<Rightarrow> MappedXdpStats \<Rightarrow> MappedXdpStats" where
  "MappedXdpStats_Add a b = \<lparr>
     mRxPackets = safeAdd (mRxPackets a) (mRxPackets b),
     mRxBytes = safeAdd (mRxBytes a) (mRxBytes b),
     mDropped = safeAdd (mDropped a) (mDropped b),
     mDroppedBytes = safeAdd (mDroppedBytes a) (mDroppedBytes b),
     mPassed = safeAdd (mPassed a) (mPassed b),
     mPassedBytes = safeAdd (mPassedBytes a) (mPassedBytes b)\<rparr>"

definition XdpStats_Add :: "XdpStats \<Rightarrow> XdpStats \<Rightarrow> XdpStats" where
  "XdpStats_Add a b = \<lparr>
     RxPackets = safeAdd (RxPackets a) (RxPackets b),
     RxBytes = safeAdd (RxBytes a) (RxBytes b),
     Dropped = safeAdd (Dropped a) (Dropped b),
     RateLimited = safeAdd (RateLimited a) (RateLimited b),
     Passed = safeAdd (Passed a) (Passed b),
     Redirected = safeAdd (Redirected a) (Redirected b),
     FailsafeDrops = safeAdd (FailsafeDrops a) (FailsafeDrops b),
     ParseErrors = safeAdd (ParseErrors a) (ParseErrors b),
     MapErrors = safeAdd (MapErrors a) (MapErrors b),
     CoolingBans = safeAdd (CoolingBans a) (CoolingBans b),
     SynFloodBans = safeAdd (SynFloodBans a) (SynFloodBans b),
     LastResetNs = maxU64 (LastResetNs a) (LastResetNs b)\<rparr>"

section \<open>Address keys\<close>

definition IPv4ToUint32 :: "bytes \<Rightarrow> u32 \<times> error" where
  "IPv4ToUint32 ip = (let ip4 = IP_To4 ip in
     if ip4 = [] then (0, Some ''not an IPv4 address'') else (get_be ip4, None))"

definition Uint32ToIPv4 :: "u32 \<Rightarrow> bytes" where
  "Uint32ToIPv4 n = put_be 4 n"

definition IPv6ToBytes :: "bytes \<Rightarrow> bytes \<times> error" where
  "IPv6ToBytes ip = (let ip16 = IP_To16 ip in
     if ip16 = [] then (replicate 16 0, Some ''invalid IPv6 address'') else (ip16, None))"

section \<open>Lemmas\<close>

lemma safeAdd_unat: "unat (safeAdd a b) = min (unat a + unat b) (2 ^ 64 - 1)"
proof (cases "unat a + unat b < 2 ^ 64")
  case True
  then show ?thesis
    by (auto simp: safeAdd_def word_less_nat_alt unat_not_u64 unat_plus_u64)
next
  case False
  then have "a > not b"
    using unat_less_u64 [of b] by (simp add: word_less_nat_alt unat_not_u64)
  then show ?thesis
    using False by (simp add: safeAdd_def)
qed

lemma safeAdd_comm: "safeAdd a b = safeAdd b a"
  by (simp add: word_unat_eq_iff safeAdd_unat add.commute)

lemma safeAdd_0 [simp]: "safeAdd 0 a = a" "safeAdd a 0 = a"
  by (auto simp: safeAdd_def)

lemma safeAdd_assoc: "safeAdd (safeAdd a b) c = safeAdd a (safeAdd b c)"
  by (simp add: word_unat_eq_iff safeAdd_unat)

lemma maxU64_max: "maxU64 a b = max a b"
  by (auto simp: maxU64_def max_def)

text \<open>A counter aggregated over a list of per-CPU values.\<close>

lemma foldl_safeAdd:
  assumes "\<And>a b. f (add a b) = safeAdd (f a) (f b)"
  shows "unat (f (foldl add z xs)) = min (unat (f z) + sum_list (map (unat \<circ> f) xs)) (2 ^ 64 - 1)"
proof (induction xs arbitrary: z)
  case Nil
  show ?case using unat_less_u64 [of "f z"] by simp
next
  case (Cons x xs)
  show ?case by (simp add: Cons assms safeAdd_unat)
qed

lemma foldl_maxU64:
  assumes "\<And>a b. f (add a b) = maxU64 (f a) (f b)"
  shows "f (foldl add z xs) = Max (set (f z # map f xs))"
proof -
  have "f (foldl add z xs) = fold max (map f xs) (f z)"
    by (induction xs arbitrary: z) (simp_all add: assms maxU64_max max.commute)
  then show ?thesis
    by (simp only: Max.set_eq_fold)
qed

lemma XdpStats_Add_comm: "XdpStats_Add a b = XdpStats_Add b a"
  by (simp add: XdpStats_Add_def safeAdd_comm maxU64_max max.commute)

lemma XdpStats_Add_assoc:
  "XdpStats_Add (XdpStats_Add a b) c = XdpStats_Add a (XdpStats_Add b c)"
  by (simp add: XdpStats_Add_def safeAdd_assoc maxU64_max max.assoc)

lemma MappedXdpStats_Add_comm: "MappedXdpStats_Add a b = MappedXdpStats_Add b a"
  by (simp add: MappedXdpStats_Add_def safeAdd_comm)

lemma MappedXdpStats_Add_assoc:
  "MappedXdpStats_Add (MappedXdpStats_Add a b) c = MappedXdpStats_Add a (MappedXdpStats_Add b c)"
  by (simp add: MappedXdpStats_Add_def safeAdd_assoc)

lemma foldl_comm_mset:
  assumes "\<And>a b. f a b = f b a" "\<And>a b c. f (f a b) c = f a (f b c)" "mset xs = mset ys"
  shows "foldl f z xs = foldl f z ys"
proof -
  have "f (f a x) y = f (f a y) x" for a x y
    by (metis assms(1,2))
  then have "fold (\<lambda>x a. f a x) xs = fold (\<lambda>x a. f a x) ys"
    by (intro fold_multiset_equiv) (auto simp: fun_eq_iff assms(3))
  then show ?thesis
    by (simp add: foldl_conv_fold)
qed

lemmas foldl_XdpStats_mset = foldl_comm_mset [OF XdpStats_Add_comm XdpStats_Add_assoc]
lemmas foldl_MappedXdpStats_mset =
  foldl_comm_mset [OF MappedXdpStats_Add_comm MappedXdpStats_Add_assoc]

lemma IPv4ToUint32_ok:
  "IPv4ToUint32 ip = (k, None) \<longleftrightarrow> IP_To4 ip \<noteq> [] \<and> k = get_be (IP_To4 ip)"
  by (auto simp: IPv4ToUint32_def Let_def)

lemma IPv4ToUint32_err:
  "IPv4ToUint32 ip = (k, Some e) \<longleftrightarrow> IP_To4 ip = [] \<and> k = 0 \<and> e = ''not an IPv4 address''"
  by (auto simp: IPv4ToUint32_def Let_def)

lemma Uint32ToIPv4_IPv4ToUint32:
  assumes "IPv4ToUint32 ip = (k, None)"
  shows "Uint32ToIPv4 k = IP_To4 ip"
proof -
  have "IP_To4 ip \<noteq> []" and k: "k = get_be (IP_To4 ip)"
    using assms by (auto simp: IPv4ToUint32_ok)
  then have "length (IP_To4 ip) = 4" by (simp add: IP_To4_length)
  then show ?thesis
    using put_get_be [of "IP_To4 ip", where 'a = 32] by (simp add: Uint32ToIPv4_def k)
qed

lemma IPv4ToUint32_Uint32ToIPv4: "IPv4ToUint32 (Uint32ToIPv4 n) = (n, None)"
proof -
  have "IP_To4 (put_be 4 n) = put_be 4 n" by (simp add: IP_To4_def)
  moreover have "put_be 4 n \<noteq> []" by (metis length_put_be list.size(3) zero_neq_numeral)
  ultimately show ?thesis
    by (simp add: IPv4ToUint32_ok Uint32ToIPv4_def get_put_be)
qed

text \<open>The text of an IPv4 address, the cache key of the writers above the map,
  determines its map key and is determined by it.\<close>

lemma IP_String_key_iff:
  assumes "IPv4ToUint32 ip = (k, None)" "IPv4ToUint32 ip' = (k', None)"
  shows "IP_String ip = IP_String ip' \<longleftrightarrow> k = k'"
  using assms Uint32ToIPv4_IPv4ToUint32 [OF assms(1)] Uint32ToIPv4_IPv4ToUint32 [OF assms(2)]
  by (metis IP_String_v4_eq_iff IPv4ToUint32_ok)

lemma IPv4ToUint32_ParseIP_String:
  assumes "IPv4ToUint32 ip = (k, None)"
  shows "IPv4ToUint32 (ParseIP (IP_String ip)) = (k, None)"
  using assms by (simp add: IPv4ToUint32_ok ParseIP_String_v4 IP_To4_length)

end
