(* ===== verification/RateLimiter.thy ===== *)
theory RateLimiter
  imports BpfTypes
begin

text \<open>
  The write rate limiter of the BPF maps (\<open>pkg/bpfmaps/ratelimiter.go\<close>): a token
  bucket per operation type.  The locale \<open>token_bucket\<close> is the contract of a
  bucket that is refilled from the clock and pays one token per accepted call;
  inside it the throughput bound and the absence of starvation are proved once.
  The map limiter here and the connection limiter of the IPC server are its
  interpretations.
\<close>

section \<open>The contract of a token bucket\<close>

text \<open>The number of calls a limiter accepts at the times of a list.\<close>

fun accepted :: "(gotime \<Rightarrow> 'b \<Rightarrow> bool \<times> 'b) \<Rightarrow> gotime list \<Rightarrow> 'b \<Rightarrow> nat" where
  "accepted al [] b = 0"
| "accepted al (t # ts) b = (let (ok, b') = al t b in of_bool ok + accepted al ts b')"

locale token_bucket =
  fixes allow :: "gotime \<Rightarrow> 'b \<Rightarrow> bool \<times> 'b"
    and tokens :: "'b \<Rightarrow> rat"
    and cap :: "'b \<Rightarrow> rat"
    and rate :: "'b \<Rightarrow> rat"
    and last_refill :: "'b \<Rightarrow> gotime"
  assumes allow_last: "allow t b = (ok, b') \<Longrightarrow> last_refill b' = t"
    and allow_cap: "allow t b = (ok, b') \<Longrightarrow> cap b' = cap b"
    and allow_rate: "allow t b = (ok, b') \<Longrightarrow> rate b' = rate b"
    and allow_tokens: "allow t b = (ok, b') \<Longrightarrow> last_refill b \<le> t \<Longrightarrow> 0 \<le> rate b \<Longrightarrow>
      tokens b' + of_bool ok \<le> min (cap b) (tokens b + rate b * of_int (t - last_refill b))"
    and allow_nonneg: "allow t b = (ok, b') \<Longrightarrow> last_refill b \<le> t \<Longrightarrow> 0 \<le> rate b \<Longrightarrow>
      0 \<le> cap b \<Longrightarrow> 0 \<le> tokens b \<Longrightarrow> 0 \<le> tokens b'"
    and allow_ready: "allow t b = (ok, b') \<Longrightarrow> last_refill b \<le> t \<Longrightarrow> t - last_refill b < 2 ^ 63 \<Longrightarrow>
      1 \<le> cap b \<Longrightarrow> 1 \<le> tokens b + rate b * of_int (t - last_refill b) \<Longrightarrow> ok"
begin

lemma accepted_le_tokens:
  assumes "sorted (last_refill b # ts)" "0 \<le> rate b" "0 \<le> cap b" "0 \<le> tokens b"
    and "\<forall>t\<in>set ts. t \<le> t1" "last_refill b \<le> t1"
  shows "of_nat (accepted allow ts b) \<le> tokens b + rate b * of_int (t1 - last_refill b)"
  using assms
proof (induction ts arbitrary: b)
  case Nil
  then show ?case by simp
next
  case (Cons t ts)
  obtain ok b' where b': "allow t b = (ok, b')" by fastforce
  have le: "last_refill b \<le> t" using Cons.prems(1) by simp
  note laws = allow_last [OF b'] allow_cap [OF b'] allow_rate [OF b']
  have nn: "0 \<le> tokens b'" using allow_nonneg [OF b' le] Cons.prems by simp
  have "of_nat (accepted allow ts b') \<le> tokens b' + rate b' * of_int (t1 - last_refill b')"
    by (rule Cons.IH) (use Cons.prems laws nn in auto)
  moreover have "tokens b' + of_bool ok \<le> tokens b + rate b * of_int (t - last_refill b)"
    using allow_tokens [OF b' le] Cons.prems by simp
  ultimately show ?case
    by (simp add: b' laws algebra_simps)
qed

lemma accepted_window:
  assumes "sorted (last_refill b # ts)" "0 \<le> rate b" "0 \<le> cap b" "0 \<le> tokens b"
    and "\<forall>t\<in>set ts. t0 \<le> t \<and> t \<le> t1" "t0 \<le> t1"
  shows "of_nat (accepted allow ts b) \<le> cap b + rate b * of_int (t1 - t0)"
proof (cases ts)
  case Nil
  then show ?thesis using assms by (simp add: add_nonneg_nonneg)
next
  case (Cons t us)
  obtain ok b' where b': "allow t b = (ok, b')" by fastforce
  have le: "last_refill b \<le> t" using assms(1) Cons by simp
  note laws = allow_last [OF b'] allow_cap [OF b'] allow_rate [OF b']
  have nn: "0 \<le> tokens b'" using allow_nonneg [OF b' le] assms by simp
  have "of_nat (accepted allow us b') \<le> tokens b' + rate b' * of_int (t1 - last_refill b')"
    by (rule accepted_le_tokens) (use assms laws nn Cons in auto)
  moreover have "tokens b' + of_bool ok \<le> cap b"
    using allow_tokens [OF b' le] assms by simp
  moreover have "rate b * of_int (t1 - t) \<le> rate b * of_int (t1 - t0)"
    using assms Cons by (intro mult_left_mono) auto
  ultimately show ?thesis
    using Cons by (simp add: b' laws)
qed

lemma no_starvation:
  assumes "1 \<le> cap b" "0 \<le> tokens b" "last_refill b \<le> t" "t - last_refill b < 2 ^ 63"
    and "1 \<le> rate b * of_int (t - last_refill b)"
  shows "fst (allow t b)"
proof -
  obtain ok b' where b': "allow t b = (ok, b')" by fastforce
  then show ?thesis using allow_ready [OF b'] assms by simp
qed

end

section \<open>Token bucket of the map limiter\<close>

record tokenBucket =
  tb_tokens :: float64
  tb_capacity :: float64
  tb_refillRate :: float64
  tb_lastRefill :: gotime
  tb_dropped :: i64
  tb_accepted :: i64

definition newTokenBucket :: "gotime \<Rightarrow> int \<Rightarrow> tokenBucket" where
  "newTokenBucket now rps = (let capacity = of_int rps in
     \<lparr>tb_tokens = capacity, tb_capacity = capacity,
      tb_refillRate = of_int rps / of_int Second,
      tb_lastRefill = now, tb_dropped = 0, tb_accepted = 0\<rparr>)"

definition tokenBucket_Allow :: "gotime \<Rightarrow> tokenBucket \<Rightarrow> bool \<times> tokenBucket" where
  "tokenBucket_Allow now b =
     (let elapsed = time_Sub now (tb_lastRefill b);
          b = b\<lparr>tb_lastRefill := now\<rparr>;
          b = b\<lparr>tb_tokens := tb_tokens b + dur_Seconds elapsed * of_int Second * tb_refillRate b\<rparr>;
          b = (if tb_tokens b > tb_capacity b then b\<lparr>tb_tokens := tb_capacity b\<rparr> else b)
      in if tb_tokens b < 1 then (False, b\<lparr>tb_dropped := tb_dropped b + 1\<rparr>)
         else (True, b\<lparr>tb_tokens := tb_tokens b - 1, tb_accepted := tb_accepted b + 1\<rparr>))"

section \<open>Map rate limiter\<close>

type_synonym MapOpType = u8

definition OpBlockIP :: MapOpType where "OpBlockIP = 0"
definition OpUnblockIP :: MapOpType where "OpUnblockIP = 1"
definition OpUpdateConfig :: MapOpType where "OpUpdateConfig = 2"
definition OpFailsafe :: MapOpType where "OpFailsafe = 3"
definition OpRateLimit :: MapOpType where "OpRateLimit = 4"

lemmas op_consts = OpBlockIP_def OpUnblockIP_def OpUpdateConfig_def OpFailsafe_def OpRateLimit_def

definition MapOpType_String :: "MapOpType \<Rightarrow> string" where
  "MapOpType_String o' =
     (if o' = OpBlockIP then ''block_ip''
      else if o' = OpUnblockIP then ''unblock_ip''
      else if o' = OpUpdateConfig then ''update_config''
      else if o' = OpFailsafe then ''failsafe''
      else if o' = OpRateLimit then ''rate_limit''
      else ''unknown'')"

record RateLimitConfig =
  BlockIPRPS :: int
  UnblockIPRPS :: int
  UpdateConfigRPS :: int
  FailsafeRPS :: int
  RateLimitRPS :: int

definition DefaultRateLimitConfig :: RateLimitConfig where
  "DefaultRateLimitConfig = \<lparr>BlockIPRPS = 10000, UnblockIPRPS = 10000, UpdateConfigRPS = 100,
     FailsafeRPS = 10, RateLimitRPS = 5000\<rparr>"

type_synonym MapRateLimiter = "MapOpType \<rightharpoonup> tokenBucket"

text \<open>Each of the five buckets reads the clock on its own.\<close>

definition NewMapRateLimiter :: "clock \<Rightarrow> RateLimitConfig \<Rightarrow> MapRateLimiter" where
  "NewMapRateLimiter clk cfg =
     [OpBlockIP \<mapsto> newTokenBucket (clk 0) (BlockIPRPS cfg),
      OpUnblockIP \<mapsto> newTokenBucket (clk 1) (UnblockIPRPS cfg),
      OpUpdateConfig \<mapsto> newTokenBucket (clk 2) (UpdateConfigRPS cfg),
      OpFailsafe \<mapsto> newTokenBucket (clk 3) (FailsafeRPS cfg),
      OpRateLimit \<mapsto> newTokenBucket (clk 4) (RateLimitRPS cfg)]"

definition MapRateLimiter_Check ::
    "MapOpType \<Rightarrow> gotime \<Rightarrow> MapRateLimiter \<Rightarrow> error \<times> MapRateLimiter" where
  "MapRateLimiter_Check op' now r =
     (case r op' of
        None \<Rightarrow> (Some (''unknown operation type: '' @ dec (unat op')), r)
      | Some bucket \<Rightarrow>
          let (ok, bucket') = tokenBucket_Allow now bucket; r' = r(op' \<mapsto> bucket') in
          if \<not> ok then (Some (''rate limit exceeded for operation '' @ MapOpType_String op'), r')
          else (None, r'))"

text \<open>\<open>Stats\<close> reports the two counters of each bucket under the operation's name;
  the five names are distinct, so the order of Go's map iteration is immaterial.\<close>

definition MapRateLimiter_Stats :: "MapRateLimiter \<Rightarrow> string \<rightharpoonup> i64 \<times> i64" where
  "MapRateLimiter_Stats r =
     map_of [(MapOpType_String op', (tb_accepted b, tb_dropped b)).
       op' \<leftarrow> [OpBlockIP, OpUnblockIP, OpUpdateConfig, OpFailsafe, OpRateLimit],
       b \<leftarrow> (case r op' of None \<Rightarrow> [] | Some b \<Rightarrow> [b])]"

text \<open>A history of checks, with the operation and the time of each.\<close>

fun MapRateLimiter_run :: "(MapOpType \<times> gotime) list \<Rightarrow> MapRateLimiter \<Rightarrow> error list \<times> MapRateLimiter" where
  "MapRateLimiter_run [] r = ([], r)"
| "MapRateLimiter_run ((op', t) # cs) r =
     (let (e, r') = MapRateLimiter_Check op' t r; (es, r'') = MapRateLimiter_run cs r' in (e # es, r''))"

text \<open>How many checks of one operation a history accepts.\<close>

definition accepted_ops :: "MapOpType \<Rightarrow> (MapOpType \<times> gotime) list \<Rightarrow> MapRateLimiter \<Rightarrow> nat" where
  "accepted_ops op' cs r =
     length (filter (\<lambda>((o', t), e). o' = op' \<and> e = None) (zip cs (fst (MapRateLimiter_run cs r))))"

section \<open>The bucket meets its contract\<close>

lemma tokenBucket_Allow_eq:
  "tokenBucket_Allow now b =
     (let tk = min (tb_capacity b) (tb_tokens b + tb_refillRate b * of_int (time_Sub now (tb_lastRefill b)))
      in (1 \<le> tk, b\<lparr>tb_lastRefill := now, tb_tokens := (if 1 \<le> tk then tk - 1 else tk),
            tb_dropped := tb_dropped b + of_bool (tk < 1),
            tb_accepted := tb_accepted b + of_bool (1 \<le> tk)\<rparr>))"
  by (auto simp: tokenBucket_Allow_def Let_def dur_Seconds_def Second_def min_def mult.commute)

lemma refill_le:
  assumes "last' \<le> now" "(0::rat) \<le> rate"
  shows "rate * of_int (time_Sub now last') \<le> rate * of_int (now - last')"
  using assms time_Sub_le by (intro mult_left_mono) (auto simp del: of_int_diff)

interpretation tb: token_bucket tokenBucket_Allow tb_tokens tb_capacity tb_refillRate tb_lastRefill
proof (unfold_locales, goal_cases)
  case (4 t b ok b')
  then show ?case
    using refill_le [of "tb_lastRefill b" t "tb_refillRate b"]
    by (auto simp: tokenBucket_Allow_eq Let_def min_def split: if_splits)
next
  case (5 t b ok b')
  then have "0 \<le> tb_refillRate b * of_int (time_Sub t (tb_lastRefill b))"
    by (simp add: time_Sub_nonneg)
  with 5 show ?case
    by (auto simp: tokenBucket_Allow_eq Let_def min_def split: if_splits)
next
  case (6 t b ok b')
  then show ?case
    using time_Sub_exact [of "tb_lastRefill b" t]
    by (auto simp: tokenBucket_Allow_eq Let_def)
qed (auto simp: tokenBucket_Allow_eq Let_def)

text \<open>A bucket as \<open>newTokenBucket\<close> makes it for a rate and \<open>Allow\<close> keeps it.\<close>

definition bucket_for :: "int \<Rightarrow> tokenBucket \<Rightarrow> bool" where
  "bucket_for rps b \<longleftrightarrow> tb_capacity b = of_int rps \<and> tb_refillRate b = of_int rps / 1000000000
     \<and> 0 \<le> tb_tokens b"

lemma bucket_for_new: "0 \<le> rps \<Longrightarrow> bucket_for rps (newTokenBucket now rps)"
  by (simp add: bucket_for_def newTokenBucket_def Second_def Let_def)

lemma bucket_for_Allow:
  assumes "bucket_for rps b" "0 \<le> rps" "tb_lastRefill b \<le> t" "tokenBucket_Allow t b = (ok, b')"
  shows "bucket_for rps b'" "tb_lastRefill b' = t"
  using assms tb.allow_cap [OF assms(4)] tb.allow_rate [OF assms(4)] tb.allow_nonneg [OF assms(4)]
    tb.allow_last [OF assms(4)]
  by (auto simp: bucket_for_def)

section \<open>Histories of checks\<close>

lemma Check_known:
  "r op' = Some b \<Longrightarrow> tokenBucket_Allow t b = (ok, b') \<Longrightarrow>
   MapRateLimiter_Check op' t r =
     (if ok then None else Some (''rate limit exceeded for operation '' @ MapOpType_String op'), r(op' \<mapsto> b'))"
  by (simp add: MapRateLimiter_Check_def)

lemma Check_other: "o' \<noteq> op' \<Longrightarrow> snd (MapRateLimiter_Check o' t r) op' = r op'"
  by (auto simp: MapRateLimiter_Check_def Let_def split: option.splits prod.splits)

lemma Check_dom: "dom (snd (MapRateLimiter_Check o' t r)) = dom r"
  by (auto simp: MapRateLimiter_Check_def Let_def split: option.splits prod.splits)

lemma length_run: "length (fst (MapRateLimiter_run cs r)) = length cs"
  by (induction cs r rule: MapRateLimiter_run.induct) (auto split: prod.splits)

abbreviation op_times :: "MapOpType \<Rightarrow> (MapOpType \<times> gotime) list \<Rightarrow> gotime list" where
  "op_times op' cs \<equiv> map snd (filter (\<lambda>c. fst c = op') cs)"

text \<open>The checks of other operations do not touch the bucket of this one.\<close>

lemma accepted_ops_bucket:
  "r op' = Some b \<Longrightarrow> accepted_ops op' cs r = accepted tokenBucket_Allow (op_times op' cs) b"
proof (induction cs arbitrary: r b)
  case Nil
  then show ?case by (simp add: accepted_ops_def)
next
  case (Cons c cs)
  obtain o' t where c: "c = (o', t)" by fastforce
  obtain e r' where r': "MapRateLimiter_Check o' t r = (e, r')" by fastforce
  have step: "accepted_ops op' (c # cs) r = of_bool (o' = op' \<and> e = None) + accepted_ops op' cs r'"
    by (simp add: accepted_ops_def c r' split: prod.splits)
  show ?case
  proof (cases "o' = op'")
    case True
    obtain ok b' where b': "tokenBucket_Allow t b = (ok, b')" by fastforce
    have "r' op' = Some b'" "(e = None) = ok"
      using r' Check_known [of r op' b t ok b'] Cons.prems b' True by (auto split: if_splits)
    then show ?thesis using True step by (simp add: c b' Cons.IH)
  next
    case False
    then have "r' op' = Some b" using Check_other [of o' op' t r] r' Cons.prems by simp
    then show ?thesis using False step by (simp add: c Cons.IH)
  qed
qed

lemma run_bucket_for:
  assumes "r op' = Some b" "bucket_for rps b" "0 \<le> rps" "sorted (map snd cs)"
    and "\<forall>c\<in>set cs. tb_lastRefill b \<le> snd c"
  shows "\<exists>b'. snd (MapRateLimiter_run cs r) op' = Some b' \<and> bucket_for rps b' \<and>
     (tb_lastRefill b' = tb_lastRefill b \<or> (\<exists>c\<in>set cs. tb_lastRefill b' = snd c))"
  using assms
proof (induction cs arbitrary: r b)
  case (Cons c cs)
  obtain o' t where c: "c = (o', t)" by fastforce
  obtain e r' where r': "MapRateLimiter_Check o' t r = (e, r')" by fastforce
  have run: "snd (MapRateLimiter_run (c # cs) r) = snd (MapRateLimiter_run cs r')"
    by (simp add: c r' split: prod.splits)
  show ?case
  proof (cases "o' = op'")
    case True
    obtain ok b' where b': "tokenBucket_Allow t b = (ok, b')" by fastforce
    have "r' op' = Some b'" using r' Check_known [of r op' b t ok b'] Cons.prems(1) b' True by auto
    moreover have "bucket_for rps b'" "tb_lastRefill b' = t"
      using bucket_for_Allow [OF _ _ _ b'] Cons.prems c by auto
    ultimately show ?thesis
      using Cons.IH [of r' b'] Cons.prems c run by auto
  next
    case False
    then have "r' op' = Some b" using Check_other [of o' op' t r] r' Cons.prems by simp
    then show ?thesis
      using Cons.IH [of r' b] Cons.prems c run by auto
  qed
qed simp

text \<open>The rate an operation is configured with.\<close>

definition configured_rps :: "RateLimitConfig \<Rightarrow> MapOpType \<rightharpoonup> int" where
  "configured_rps cfg =
     [OpBlockIP \<mapsto> BlockIPRPS cfg, OpUnblockIP \<mapsto> UnblockIPRPS cfg,
      OpUpdateConfig \<mapsto> UpdateConfigRPS cfg, OpFailsafe \<mapsto> FailsafeRPS cfg,
      OpRateLimit \<mapsto> RateLimitRPS cfg]"

lemma NewMapRateLimiter_bucket:
  assumes "configured_rps cfg op' = Some rps"
  shows "\<exists>i. NewMapRateLimiter clk cfg op' = Some (newTokenBucket (clk i) rps)"
  using assms by (auto simp: configured_rps_def NewMapRateLimiter_def op_consts split: if_splits)

section \<open>Properties\<close>

text \<open>C13. After any history of checks on a new limiter, and for any further
  history whose times lie in a window from \<open>t0\<close> to \<open>t1\<close>, the checks of one
  operation that are accepted in the window are at most its configured rate
  \<open>rps\<close> (the burst) plus \<open>rps\<close> per second of the window, whatever checks of other
  operations are interleaved.\<close>

theorem rate_limit_window:
  assumes "configured_rps cfg op' = Some rps" "0 \<le> rps"
    and "sorted (map snd (pre @ win))" "\<forall>i. \<forall>c\<in>set (pre @ win). clk i \<le> snd c"
    and "\<forall>c\<in>set win. t0 \<le> snd c \<and> snd c \<le> t1" "t0 \<le> t1"
  shows "rat_of_nat (accepted_ops op' win (snd (MapRateLimiter_run pre (NewMapRateLimiter clk cfg))))
     \<le> of_int rps + of_int rps * of_int (t1 - t0) / 1000000000"
proof -
  obtain i where new: "NewMapRateLimiter clk cfg op' = Some (newTokenBucket (clk i) rps)"
    using NewMapRateLimiter_bucket [OF assms(1)] by blast
  let ?r = "snd (MapRateLimiter_run pre (NewMapRateLimiter clk cfg))"
  have last0: "tb_lastRefill (newTokenBucket (clk i) rps) = clk i"
    by (simp add: newTokenBucket_def Let_def)
  obtain b where b: "?r op' = Some b" "bucket_for rps b"
    and l: "tb_lastRefill b = clk i \<or> (\<exists>c\<in>set pre. tb_lastRefill b = snd c)"
    using run_bucket_for [of "NewMapRateLimiter clk cfg" op' "newTokenBucket (clk i) rps" rps pre]
      new bucket_for_new [OF assms(2)] assms(2-4) last0
    by (auto simp: sorted_append)
  have "\<forall>c\<in>set win. tb_lastRefill b \<le> snd c"
    using l
  proof
    assume "tb_lastRefill b = clk i"
    then show ?thesis using assms(4) by simp
  next
    assume "\<exists>c\<in>set pre. tb_lastRefill b = snd c"
    then show ?thesis using assms(3) by (auto simp: sorted_append) force
  qed
  then have "sorted (tb_lastRefill b # op_times op' win)"
    using assms(3) by (auto simp: sorted_append intro!: sorted_filter)
  then have "of_nat (accepted tokenBucket_Allow (op_times op' win) b)
      \<le> tb_capacity b + tb_refillRate b * of_int (t1 - t0)"
    by (rule tb.accepted_window) (use b assms in \<open>auto simp: bucket_for_def\<close>)
  moreover have "tb_capacity b = of_int rps" "tb_refillRate b = of_int rps / 1000000000"
    using b(2) unfolding bucket_for_def by blast+
  ultimately show ?thesis
    by (simp add: accepted_ops_bucket [where b = b] b(1))
qed

text \<open>The default limit of ten failsafe writes a second, with thirteen attempts
  within a tenth of a second after a configuration update.\<close>

theorem rate_limit_window_witness:
  "rat_of_nat (accepted_ops OpFailsafe (replicate 13 (OpFailsafe, 100000000))
     (snd (MapRateLimiter_run [(OpUpdateConfig, 50)] (NewMapRateLimiter (\<lambda>_. 0) DefaultRateLimitConfig))))
   \<le> 11"
  using rate_limit_window [of DefaultRateLimitConfig OpFailsafe 10 "[(OpUpdateConfig, 50)]"
      "replicate 13 (OpFailsafe, 100000000)" "\<lambda>_. 0" 0 100000000]
  by (simp add: configured_rps_def DefaultRateLimitConfig_def op_consts)

text \<open>No operation starves: once the time since its bucket was last refilled
  is at least the time in which one token accrues (and within the range of a
  duration), the check is accepted, whatever the bucket held.\<close>

theorem rate_limit_no_starvation:
  assumes "r op' = Some b" "bucket_for rps b" "1 \<le> rps"
    and "tb_lastRefill b \<le> t" "t - tb_lastRefill b < 2 ^ 63"
    and "1000000000 \<le> rps * (t - tb_lastRefill b)"
  shows "fst (MapRateLimiter_Check op' t r) = None"
proof -
  have "(1::rat) \<le> of_int (rps * (t - tb_lastRefill b)) / 1000000000"
    using assms(6) by (simp del: of_int_mult of_int_diff)
  also have "\<dots> = tb_refillRate b * of_int (t - tb_lastRefill b)"
    using assms(2) by (simp add: bucket_for_def)
  finally have "1 \<le> tb_refillRate b * of_int (t - tb_lastRefill b)" .
  then have "fst (tokenBucket_Allow t b)"
    using assms by (intro tb.no_starvation) (auto simp: bucket_for_def simp del: of_int_diff)
  then show ?thesis
    using assms(1) by (auto simp: MapRateLimiter_Check_def split: prod.splits)
qed

theorem rate_limit_no_starvation_witness:
  "fst (MapRateLimiter_Check OpFailsafe 100000000
     (NewMapRateLimiter (\<lambda>_. 0) DefaultRateLimitConfig)) = None"
  using rate_limit_no_starvation [of "NewMapRateLimiter (\<lambda>_. 0) DefaultRateLimitConfig" OpFailsafe
      "newTokenBucket 0 10" 10 100000000]
  by (simp add: NewMapRateLimiter_def DefaultRateLimitConfig_def op_consts bucket_for_new)
     (simp add: newTokenBucket_def Let_def)

end
