(* ===== verification/AuditLog.thy ===== *)
theory AuditLog
  imports BpfTypes
begin

text \<open>
  The audit trail of map writes (\<open>pkg/bpfmaps/audit.go\<close>).  The log file is the
  list of the events written to it, one JSON line each in the program; whether
  the i-th write reaches the disk is the function \<open>al_disk\<close>.  The telemetry
  channel holds at most 4096 events and an event that finds it full is dropped.
\<close>

record AuditEvent =
  ae_Timestamp :: gotime
  ae_Operation :: string
  ae_SrcIP :: string
  ae_Action :: string
  ae_RuleID :: u8
  ae_ThreatScore :: u8
  ae_TTLSeconds :: u64
  ae_Reason :: string
  ae_Actor :: string
  ae_Success :: bool
  ae_Error :: string
  ae_CircuitState :: string
  ae_CurrentPPS :: u64

definition AuditEvent0 :: AuditEvent where
  "AuditEvent0 = \<lparr>ae_Timestamp = 0, ae_Operation = [], ae_SrcIP = [], ae_Action = [], ae_RuleID = 0,
     ae_ThreatScore = 0, ae_TTLSeconds = 0, ae_Reason = [], ae_Actor = [], ae_Success = False,
     ae_Error = [], ae_CircuitState = [], ae_CurrentPPS = 0\<rparr>"

record AuditLogger =
  al_file :: "AuditEvent list"
  al_writes :: nat
  al_disk :: "nat \<Rightarrow> bool"
  al_EventCh :: "AuditEvent list"

definition NewAuditLogger :: "(nat \<Rightarrow> bool) \<Rightarrow> AuditEvent list \<Rightarrow> AuditLogger" where
  "NewAuditLogger disk old = \<lparr>al_file = old, al_writes = 0, al_disk = disk, al_EventCh = []\<rparr>"

definition AuditLogger_Log :: "gotime \<Rightarrow> AuditEvent \<Rightarrow> AuditLogger \<Rightarrow> AuditLogger" where
  "AuditLogger_Log now ev a =
     (let ev = ev\<lparr>ae_Timestamp := now\<rparr>;
          a = (if al_disk a (al_writes a) then a\<lparr>al_file := al_file a @ [ev]\<rparr> else a);
          a = a\<lparr>al_writes := al_writes a + 1\<rparr>;
          (sent, ch) = chan_send 4096 ev (al_EventCh a)
      in a\<lparr>al_EventCh := ch\<rparr>)"

definition actionName :: "u8 \<Rightarrow> string" where
  "actionName a =
     (if a = ActionPass then ''pass''
      else if a = ActionDrop then ''drop''
      else if a = ActionRedirect then ''redirect''
      else if a = ActionRateLimit then ''rate_limit''
      else ''unknown'')"

definition LogBlockIP ::
    "gotime \<Rightarrow> bytes \<Rightarrow> BlockEntry \<Rightarrow> string \<Rightarrow> error \<Rightarrow> AuditLogger \<Rightarrow> AuditLogger" where
  "LogBlockIP now ip entry actor err =
     AuditLogger_Log now (AuditEvent0\<lparr>ae_Operation := ''block_ip'', ae_SrcIP := IP_String ip,
       ae_Action := actionName (Action entry), ae_RuleID := RuleID entry,
       ae_ThreatScore := ThreatScore entry, ae_TTLSeconds := ExpireAt entry, ae_Actor := actor,
       ae_Success := err = None, ae_Error := (case err of None \<Rightarrow> [] | Some e \<Rightarrow> e)\<rparr>)"

definition LogUnblockIP :: "gotime \<Rightarrow> bytes \<Rightarrow> string \<Rightarrow> error \<Rightarrow> AuditLogger \<Rightarrow> AuditLogger" where
  "LogUnblockIP now ip actor err =
     AuditLogger_Log now (AuditEvent0\<lparr>ae_Operation := ''unblock_ip'', ae_SrcIP := IP_String ip,
       ae_Actor := actor, ae_Success := err = None,
       ae_Error := (case err of None \<Rightarrow> [] | Some e \<Rightarrow> e)\<rparr>)"

definition LogCircuitChange :: "gotime \<Rightarrow> bool \<Rightarrow> u64 \<Rightarrow> string \<Rightarrow> AuditLogger \<Rightarrow> AuditLogger" where
  "LogCircuitChange now open' pps reason =
     AuditLogger_Log now (AuditEvent0\<lparr>ae_Operation := ''circuit_breaker'',
       ae_CircuitState := (if open' then ''opened'' else ''closed''), ae_CurrentPPS := pps,
       ae_Reason := reason, ae_Actor := ''failsafe-engine'', ae_Success := True\<rparr>)"

definition LogConfigUpdate :: "gotime \<Rightarrow> string \<Rightarrow> error \<Rightarrow> AuditLogger \<Rightarrow> AuditLogger" where
  "LogConfigUpdate now actor err =
     AuditLogger_Log now (AuditEvent0\<lparr>ae_Operation := ''config_update'', ae_Actor := actor,
       ae_Success := err = None, ae_Error := (case err of None \<Rightarrow> [] | Some e \<Rightarrow> e)\<rparr>)"

section \<open>Lemmas\<close>

definition audit_ok :: "AuditLogger \<Rightarrow> bool" where
  "audit_ok a \<longleftrightarrow> length (al_EventCh a) \<le> 4096"

lemma audit_ok_Log: "audit_ok a \<Longrightarrow> audit_ok (AuditLogger_Log now ev a)"
  by (auto simp: audit_ok_def AuditLogger_Log_def Let_def chan_send_def)

lemma Log_file:
  "al_file (AuditLogger_Log now ev a) =
     al_file a @ (if al_disk a (al_writes a) then [ev\<lparr>ae_Timestamp := now\<rparr>] else [])"
  by (simp add: AuditLogger_Log_def Let_def split: prod.split)

lemma Log_writes [simp]:
  "al_writes (AuditLogger_Log now ev a) = al_writes a + 1"
  "al_disk (AuditLogger_Log now ev a) = al_disk a"
  by (simp_all add: AuditLogger_Log_def Let_def split: prod.split)

lemmas audit_log_defs = LogBlockIP_def LogUnblockIP_def LogCircuitChange_def LogConfigUpdate_def

lemma audit_writes [simp]:
  "al_writes (LogBlockIP now ip en actor err a) = al_writes a + 1"
  "al_writes (LogUnblockIP now ip actor err a) = al_writes a + 1"
  "al_writes (LogCircuitChange now op' pps reason a) = al_writes a + 1"
  "al_writes (LogConfigUpdate now actor err a) = al_writes a + 1"
  by (simp_all add: audit_log_defs)

lemma audit_ok_logs [simp]:
  "audit_ok a \<Longrightarrow> audit_ok (LogBlockIP now ip en actor err a)"
  "audit_ok a \<Longrightarrow> audit_ok (LogUnblockIP now ip actor err a)"
  "audit_ok a \<Longrightarrow> audit_ok (LogCircuitChange now op' pps reason a)"
  "audit_ok a \<Longrightarrow> audit_ok (LogConfigUpdate now actor err a)"
  by (simp_all add: audit_log_defs audit_ok_Log)

end
