(* ===== verification/Ebpf.thy ===== *)
theory Ebpf
  imports Prelude "HOL-Library.AList"
begin

text \<open>
  The interface of a kernel map as the program uses it through
  \<open>github.com/cilium/ebpf\<close>: \<open>Update\<close> with \<open>UpdateAny\<close>, \<open>Delete\<close>, \<open>Lookup\<close> and
  \<open>Iterate\<close>.  The library and the kernel are not part of the repository, so the
  four operations are a record of functions, a parameter of the model, and the
  locales state what is documented about them: \<open>ebpf_map\<close> for every map type,
  including least-recently-used maps that may evict other keys on an insert,
  \<open>ebpf_reliable\<close> when no call fails for a reason other than a missing key, and
  \<open>ebpf_array\<close> for arrays, whose keys are fixed.  The two instances follow the
  types in \<open>falxMapSpecs\<close>: a bounded LRU hash and an array.

  The clean-up loops of the program share one shape, collect the keys of an
  iteration and delete them one by one; it is proved correct here once.
\<close>

section \<open>Maps and their operations\<close>

text \<open>The elements in iteration order, and a counter the kernel may use to make
  the outcome of a call depend on anything else.\<close>

record ('k, 'v) kmap =
  km_data :: "('k \<times> 'v) list"
  km_env :: nat

abbreviation km_view :: "('k, 'v) kmap \<Rightarrow> 'k \<rightharpoonup> 'v" where
  "km_view s \<equiv> map_of (km_data s)"

record ('k, 'v) ebpf =
  e_update :: "'k \<Rightarrow> 'v \<Rightarrow> ('k, 'v) kmap \<Rightarrow> error \<times> ('k, 'v) kmap"
  e_delete :: "'k \<Rightarrow> ('k, 'v) kmap \<Rightarrow> error \<times> ('k, 'v) kmap"
  e_lookup :: "'k \<Rightarrow> ('k, 'v) kmap \<Rightarrow> string + 'v"
  e_iterate :: "('k, 'v) kmap \<Rightarrow> ('k \<times> 'v) list \<times> error"

text \<open>Delete the keys of a list one by one, counting the deletions that succeed.\<close>

fun km_delete_all :: "('k, 'v) ebpf \<Rightarrow> 'k list \<Rightarrow> ('k, 'v) kmap \<Rightarrow> int \<times> ('k, 'v) kmap" where
  "km_delete_all M [] s = (0, s)"
| "km_delete_all M (k # ks) s =
     (let (e, s') = e_delete M k s; (n, s'') = km_delete_all M ks s' in
      (if e = None then n + 1 else n, s''))"

section \<open>Contracts\<close>

locale ebpf_map =
  fixes M :: "('k, 'v) ebpf"
  assumes update_ok: "e_update M k v s = (None, s') \<Longrightarrow> km_view s' k = Some v"
    and update_frame: "e_update M k v s = (None, s') \<Longrightarrow> k' \<noteq> k \<Longrightarrow>
      km_view s' k' = km_view s k' \<or> km_view s' k' = None"
    and update_err: "e_update M k v s = (Some e, s') \<Longrightarrow> km_view s' = km_view s"
    and delete_ok: "e_delete M k s = (None, s') \<Longrightarrow>
      km_view s k \<noteq> None \<and> km_view s' = (km_view s)(k := None)"
    and delete_err: "e_delete M k s = (Some e, s') \<Longrightarrow> km_view s' = km_view s"
    and lookup_sound: "e_lookup M k s = Inr v \<Longrightarrow> km_view s k = Some v"
    and iterate_ok: "e_iterate M s = (kvs, None) \<Longrightarrow>
      distinct (map fst kvs) \<and> map_of kvs = km_view s"
    and iterate_sound: "e_iterate M s = (kvs, err) \<Longrightarrow> (k, v) \<in> set kvs \<Longrightarrow> km_view s k = Some v"
begin

lemma delete_all_view:
  "km_delete_all M ks s = (n, s') \<Longrightarrow>
   km_view s' k = km_view s k \<or> k \<in> set ks \<and> km_view s' k = None"
proof (induction ks arbitrary: s n)
  case (Cons x ks)
  obtain e s1 where d: "e_delete M x s = (e, s1)" by fastforce
  obtain n1 where r: "km_delete_all M ks s1 = (n1, s')"
    using Cons.prems by (auto simp: d split: prod.splits)
  have "km_view s1 k = km_view s k \<or> k = x \<and> km_view s1 k = None"
    using delete_ok [of x s s1] delete_err [of x s _ s1] d by (cases e) auto
  then show ?case
    using Cons.IH [OF r] by auto
qed simp

lemma delete_all_other: "km_delete_all M ks s = (n, s') \<Longrightarrow> k \<notin> set ks \<Longrightarrow> km_view s' k = km_view s k"
  using delete_all_view by blast

lemma delete_all_count: "km_delete_all M ks s = (n, s') \<Longrightarrow> 0 \<le> n \<and> n \<le> int (length ks)"
proof (induction ks arbitrary: s n)
  case (Cons x ks)
  then show ?case
    by (fastforce split: prod.splits if_splits)
qed simp

text \<open>Collect-and-delete keeps every element the predicate does not select, also when
  the iteration was cut short by an error.\<close>

lemma sweep_keeps:
  assumes "e_iterate M s = (kvs, err)"
    and "km_delete_all M (map fst (filter (\<lambda>kv. P (snd kv)) kvs)) s = (n, s')"
    and "km_view s k = Some v" "\<not> P v"
  shows "km_view s' k = Some v"
proof -
  have "k \<notin> set (map fst (filter (\<lambda>kv. P (snd kv)) kvs))"
    using iterate_sound [OF assms(1)] assms(3,4) by fastforce
  then show ?thesis
    using delete_all_other [OF assms(2)] assms(3) by simp
qed

lemma sweep_no_new:
  assumes "km_delete_all M ks s = (n, s')"
  shows "km_view s' k = km_view s k \<or> km_view s' k = None"
  using delete_all_view [OF assms, of k] by auto

end

locale ebpf_reliable = ebpf_map +
  assumes lookup_complete: "km_view s k = Some v \<Longrightarrow> e_lookup M k s = Inr v"
    and delete_complete: "km_view s k = Some v \<Longrightarrow> fst (e_delete M k s) = None"
begin

lemma delete_all_exact:
  assumes "km_delete_all M ks s = (n, s')" "distinct ks" "set ks \<subseteq> dom (km_view s)"
  shows "n = int (length ks) \<and> km_view s' = (km_view s) |` (- set ks)"
  using assms
proof (induction ks arbitrary: s n)
  case Nil
  then show ?case by (simp add: restrict_map_def fun_eq_iff)
next
  case (Cons x ks)
  obtain e s1 where d: "e_delete M x s = (e, s1)" by fastforce
  obtain n1 where r: "km_delete_all M ks s1 = (n1, s')"
    using Cons.prems by (auto simp: d split: prod.splits)
  have e: "e = None"
    using Cons.prems(3) delete_complete [of s x] d by auto
  then have v: "km_view s1 = (km_view s)(x := None)"
    using delete_ok d by blast
  have "n1 = int (length ks) \<and> km_view s' = (km_view s1) |` (- set ks)"
    by (rule Cons.IH [OF r]) (use Cons.prems v in auto)
  moreover have "n = n1 + 1" using Cons.prems(1) d r e by simp
  ultimately show ?case
    by (auto simp: v restrict_map_def fun_eq_iff)
qed

text \<open>Collect-and-delete removes exactly the elements the predicate selects.\<close>

lemma sweep_exact:
  assumes "e_iterate M s = (kvs, None)"
    and "km_delete_all M (map fst (filter (\<lambda>kv. P (snd kv)) kvs)) s = (n, s')"
  shows "km_view s' k = (case km_view s k of Some v \<Rightarrow> if P v then None else Some v | None \<Rightarrow> None)"
    and "n = int (card {k. \<exists>v. km_view s k = Some v \<and> P v})"
    and "n = int (length (filter (\<lambda>kv. P (snd kv)) kvs))"
proof -
  let ?ks = "map fst (filter (\<lambda>kv. P (snd kv)) kvs)"
  have dist: "distinct (map fst kvs)" and view: "map_of kvs = km_view s"
    using iterate_ok [OF assms(1)] by auto
  have dks: "distinct ?ks" using dist by (rule distinct_map_filter)
  have set_ks: "set ?ks = {k. \<exists>v. km_view s k = Some v \<and> P v}"
    using dist by (force simp flip: view)
  have ex: "n = int (length ?ks) \<and> km_view s' = (km_view s) |` (- set ?ks)"
    by (rule delete_all_exact [OF assms(2) dks]) (auto simp: set_ks simp del: set_map set_filter)
  show "km_view s' k = (case km_view s k of Some v \<Rightarrow> if P v then None else Some v | None \<Rightarrow> None)"
    using ex by (auto simp: restrict_map_def set_ks simp del: set_map set_filter split: option.split)
  show "n = int (card {k. \<exists>v. km_view s k = Some v \<and> P v})"
    using ex distinct_card [OF dks] by (simp add: set_ks del: set_map set_filter)
  show "n = int (length (filter (\<lambda>kv. P (snd kv)) kvs))"
    using ex by simp
qed

end

locale ebpf_array = ebpf_map +
  assumes update_exact: "e_update M k v s = (None, s') \<Longrightarrow> km_view s' = (km_view s)(k \<mapsto> v)"
    and lookup_present: "km_view s k = Some v \<Longrightarrow> e_lookup M k s = Inr v"

section \<open>Instances\<close>

text \<open>A least-recently-used hash with room for \<open>Suc n\<close> elements, newest first.\<close>

definition lru_ops :: "nat \<Rightarrow> ('k, 'v) ebpf" where
  "lru_ops n = \<lparr>
     e_update = (\<lambda>k v s. (None, s\<lparr>km_data := (k, v) # take n (filter (\<lambda>p. fst p \<noteq> k) (km_data s))\<rparr>)),
     e_delete = (\<lambda>k s. if map_of (km_data s) k = None then (Some ''delete: key does not exist'', s)
                       else (None, s\<lparr>km_data := filter (\<lambda>p. fst p \<noteq> k) (km_data s)\<rparr>)),
     e_lookup = (\<lambda>k s. case map_of (km_data s) k of None \<Rightarrow> Inl ''lookup: key does not exist'' | Some v \<Rightarrow> Inr v),
     e_iterate = (\<lambda>s. (AList.clearjunk (km_data s), None))\<rparr>"

text \<open>An array: the keys it was created with are always present.\<close>

definition array_ops :: "('k, 'v) ebpf" where
  "array_ops = \<lparr>
     e_update = (\<lambda>k v s. if map_of (km_data s) k = None then (Some ''update: argument list too long'', s)
                         else (None, s\<lparr>km_data := AList.update k v (km_data s)\<rparr>)),
     e_delete = (\<lambda>k s. (Some ''delete: invalid argument'', s)),
     e_lookup = (\<lambda>k s. case map_of (km_data s) k of None \<Rightarrow> Inl ''lookup: key does not exist'' | Some v \<Rightarrow> Inr v),
     e_iterate = (\<lambda>s. (AList.clearjunk (km_data s), None))\<rparr>"

lemma map_of_filter_key: "map_of (filter (\<lambda>p. fst p \<noteq> k) xs) = (map_of xs)(k := None)"
  by (induction xs) (auto simp: fun_eq_iff)

lemma map_of_take: "map_of (take n xs) k = map_of xs k \<or> map_of (take n xs) k = None"
  by (induction xs arbitrary: n) (auto simp: take_Cons' split: if_splits)

lemma clearjunk_sound: "(k, v) \<in> set (AList.clearjunk xs) \<Longrightarrow> map_of xs k = Some v"
  by (metis distinct_clearjunk map_of_clearjunk map_of_is_SomeI)

interpretation lru: ebpf_reliable "lru_ops n"
proof (unfold_locales, goal_cases)
  case (2 k v s s' k')
  then show ?case
    using map_of_take [of n "filter (\<lambda>p. fst p \<noteq> k) (km_data s)" k']
    by (auto simp: lru_ops_def map_of_filter_key)
qed (auto simp: lru_ops_def map_of_filter_key map_of_clearjunk distinct_clearjunk clearjunk_sound
      split: if_splits option.splits)

interpretation arr: ebpf_array array_ops
  by unfold_locales
    (auto simp: array_ops_def update_conv' map_of_clearjunk distinct_clearjunk clearjunk_sound
      split: if_splits option.splits)

end
