(* ===== verification/BpfManager.thy ===== *)
theory BpfManager
  imports RateLimiter AuditLog Ebpf
begin

text \<open>
  The BPF map manager (\<open>pkg/bpfmaps/manager.go\<close>): the only writer of the
  blocklists, the failsafe state and the configuration from Go.  Every write is
  rate limited, turned into a map operation and audited.  The state is a record
  of the limiter, the audit log and the maps; the kernel is the parameter \<open>K\<close>,
  one record of operations per map.  An operation takes the readings of the
  clock it makes as \<open>clk\<close>: index 0 is the limiter's, 1 the operation's own, 2
  the audit log's.
\<close>

section \<open>State\<close>

record kernel =
  k_v4 :: "(u32, BlockEntry) ebpf"
  k_v6 :: "(bytes, BlockEntry) ebpf"
  k_rate :: "(u32, RateBucket) ebpf"
  k_xdp :: "(u32, XdpStats list) ebpf"
  k_mapped :: "(u32, MappedXdpStats list) ebpf"
  k_failsafe :: "(u32, FailsafeState) ebpf"
  k_config :: "(u32, FalxMapConfig) ebpf"
  k_xsk :: "(u32, u32) ebpf"

record Manager =
  m_rl :: MapRateLimiter
  m_audit :: AuditLogger
  m_v4 :: "(u32, BlockEntry) kmap"
  m_v6 :: "(bytes, BlockEntry) kmap"
  m_rate :: "(u32, RateBucket) kmap"
  m_xdp :: "(u32, XdpStats list) kmap"
  m_mapped :: "(u32, MappedXdpStats list) kmap"
  m_failsafe :: "(u32, FailsafeState) kmap"
  m_config :: "(u32, FalxMapConfig) kmap"
  m_xsk :: "(u32, u32) kmap"

section \<open>Defaults of new maps\<close>

definition initDefaultMapValues :: "kernel \<Rightarrow> Manager \<Rightarrow> Manager" where
  "initDefaultMapValues K m =
     (let key = 0;
          needState = (case e_lookup (k_failsafe K) key (m_failsafe m) of
                         Inl _ \<Rightarrow> True | Inr state \<Rightarrow> PPSThreshold state = 0);
          m = (if needState then
                 m\<lparr>m_failsafe := snd (e_update (k_failsafe K) key
                     (FailsafeState0\<lparr>PPSThreshold := 500000, BPSThreshold := 10000000000\<rparr>) (m_failsafe m))\<rparr>
               else m);
          needCfg = (case e_lookup (k_config K) key (m_config m) of
                       Inl _ \<Rightarrow> True | Inr cfg \<Rightarrow> DefaultAction cfg = 0)
      in if needCfg then
           m\<lparr>m_config := snd (e_update (k_config K) key
               (FalxMapConfig0\<lparr>DefaultAction := ActionPass, RateLimitEnabled := 1, FailsafeEnabled := 1\<rparr>)
               (m_config m))\<rparr>
         else m)"

section \<open>Blocklists\<close>

text \<open>A small non-zero expiry is a time to live in seconds from now.\<close>

definition unix_u64 :: "gotime \<Rightarrow> u64" where
  "unix_u64 now = word_of_int (time_Unix now)"

definition resolve_ttl :: "gotime \<Rightarrow> BlockEntry \<Rightarrow> BlockEntry" where
  "resolve_ttl now entry =
     (if ExpireAt entry > 0 \<and> ExpireAt entry < 1000000000
      then entry\<lparr>ExpireAt := unix_u64 now + ExpireAt entry\<rparr> else entry)"

definition Manager_BlockIPv4 ::
    "kernel \<Rightarrow> clock \<Rightarrow> bytes \<Rightarrow> BlockEntry \<Rightarrow> string \<Rightarrow> Manager \<Rightarrow> error \<times> Manager" where
  "Manager_BlockIPv4 K clk ip entry actor m =
     (let (err, rl) = MapRateLimiter_Check OpBlockIP (clk 0) (m_rl m); m = m\<lparr>m_rl := rl\<rparr> in
      case err of
        Some e \<Rightarrow>
          (Some (''rate limited: '' @ e),
           m\<lparr>m_audit := LogBlockIP (clk 2) ip entry actor (Some e) (m_audit m)\<rparr>)
      | None \<Rightarrow>
          (case IPv4ToUint32 ip of
             (key, Some e) \<Rightarrow> (Some (''invalid IPv4: '' @ e), m)
           | (key, None) \<Rightarrow>
               let entry = resolve_ttl (clk 1) entry;
                   (opErr, v4) = e_update (k_v4 K) key entry (m_v4 m);
                   m = m\<lparr>m_v4 := v4, m_audit := LogBlockIP (clk 2) ip entry actor opErr (m_audit m)\<rparr>
               in case opErr of
                    Some e \<Rightarrow> (Some (''map update failed: '' @ e), m)
                  | None \<Rightarrow> (None, m)))"

definition Manager_UnblockIPv4 ::
    "kernel \<Rightarrow> clock \<Rightarrow> bytes \<Rightarrow> string \<Rightarrow> Manager \<Rightarrow> error \<times> Manager" where
  "Manager_UnblockIPv4 K clk ip actor m =
     (let (err, rl) = MapRateLimiter_Check OpUnblockIP (clk 0) (m_rl m); m = m\<lparr>m_rl := rl\<rparr> in
      case err of
        Some e \<Rightarrow>
          (Some (''rate limited: '' @ e),
           m\<lparr>m_audit := LogUnblockIP (clk 2) ip actor (Some e) (m_audit m)\<rparr>)
      | None \<Rightarrow>
          (case IPv4ToUint32 ip of
             (key, Some e) \<Rightarrow> (Some (''invalid IPv4: '' @ e), m)
           | (key, None) \<Rightarrow>
               let (opErr, v4) = e_delete (k_v4 K) key (m_v4 m);
                   m = m\<lparr>m_v4 := v4, m_audit := LogUnblockIP (clk 2) ip actor opErr (m_audit m)\<rparr>
               in case opErr of
                    Some e \<Rightarrow> (Some (''map delete failed: '' @ e), m)
                  | None \<Rightarrow> (None, m)))"

definition Manager_IsBlockedIPv4 ::
    "kernel \<Rightarrow> gotime \<Rightarrow> bytes \<Rightarrow> Manager \<Rightarrow> bool \<times> BlockEntry \<times> error" where
  "Manager_IsBlockedIPv4 K now ip m =
     (case IPv4ToUint32 ip of
        (key, Some e) \<Rightarrow> (False, BlockEntry0, Some e)
      | (key, None) \<Rightarrow>
          (case e_lookup (k_v4 K) key (m_v4 m) of
             Inl _ \<Rightarrow> (False, BlockEntry0, None)
           | Inr entry \<Rightarrow>
               if ExpireAt entry \<noteq> 0 \<and> unix_u64 now \<ge> ExpireAt entry then (False, BlockEntry0, None)
               else (True, entry, None)))"

definition Manager_BlockIPv6 ::
    "kernel \<Rightarrow> clock \<Rightarrow> bytes \<Rightarrow> BlockEntry \<Rightarrow> string \<Rightarrow> Manager \<Rightarrow> error \<times> Manager" where
  "Manager_BlockIPv6 K clk ip entry actor m =
     (let (err, rl) = MapRateLimiter_Check OpBlockIP (clk 0) (m_rl m); m = m\<lparr>m_rl := rl\<rparr> in
      case err of
        Some e \<Rightarrow> (Some (''rate limited: '' @ e), m)
      | None \<Rightarrow>
          (case IPv6ToBytes ip of
             (key, Some e) \<Rightarrow> (Some e, m)
           | (key, None) \<Rightarrow>
               let entry = resolve_ttl (clk 1) entry;
                   (opErr, v6) = e_update (k_v6 K) key entry (m_v6 m)
               in (opErr, m\<lparr>m_v6 := v6, m_audit := LogBlockIP (clk 2) ip entry actor opErr (m_audit m)\<rparr>)))"

definition Manager_UnblockIPv6 ::
    "kernel \<Rightarrow> clock \<Rightarrow> bytes \<Rightarrow> string \<Rightarrow> Manager \<Rightarrow> error \<times> Manager" where
  "Manager_UnblockIPv6 K clk ip actor m =
     (let (err, rl) = MapRateLimiter_Check OpUnblockIP (clk 0) (m_rl m); m = m\<lparr>m_rl := rl\<rparr> in
      case err of
        Some e \<Rightarrow> (Some (''rate limited: '' @ e), m)
      | None \<Rightarrow>
          (case IPv6ToBytes ip of
             (key, Some e) \<Rightarrow> (Some e, m)
           | (key, None) \<Rightarrow>
               let (opErr, v6) = e_delete (k_v6 K) key (m_v6 m)
               in (opErr, m\<lparr>m_v6 := v6, m_audit := LogUnblockIP (clk 2) ip actor opErr (m_audit m)\<rparr>)))"

section \<open>Statistics\<close>

definition Manager_ReadStats :: "kernel \<Rightarrow> Manager \<Rightarrow> string + XdpStats" where
  "Manager_ReadStats K m =
     (case e_lookup (k_xdp K) StatsIdx (m_xdp m) of
        Inl e \<Rightarrow> Inl (''xdp_stats lookup failed: '' @ e)
      | Inr coldPerCPU \<Rightarrow>
          let cold = foldl XdpStats_Add XdpStats0 coldPerCPU in
          (case e_lookup (k_mapped K) StatsIdx (m_mapped m) of
             Inl e \<Rightarrow> Inl (''mapped_xdp_stats lookup failed: '' @ e)
           | Inr hotPerCPU \<Rightarrow>
               let hot = foldl MappedXdpStats_Add MappedXdpStats0 hotPerCPU in
               Inr \<lparr>RxPackets = mRxPackets hot, RxBytes = mRxBytes hot, Dropped = mDropped hot,
                    RateLimited = RateLimited cold, Passed = mPassed hot,
                    Redirected = Redirected cold, FailsafeDrops = FailsafeDrops cold,
                    ParseErrors = ParseErrors cold, MapErrors = MapErrors cold,
                    CoolingBans = CoolingBans cold, SynFloodBans = SynFloodBans cold,
                    LastResetNs = LastResetNs cold\<rparr>))"

section \<open>Failsafe state and configuration\<close>

definition Manager_ReadFailsafeState :: "kernel \<Rightarrow> Manager \<Rightarrow> string + FailsafeState" where
  "Manager_ReadFailsafeState K m =
     (case e_lookup (k_failsafe K) FailsafeIdx (m_failsafe m) of
        Inl e \<Rightarrow> Inl (''failsafe state lookup failed: '' @ e)
      | Inr state \<Rightarrow> Inr state)"

definition Manager_SetCircuitOpen ::
    "kernel \<Rightarrow> clock \<Rightarrow> bool \<Rightarrow> string \<Rightarrow> Manager \<Rightarrow> error \<times> Manager" where
  "Manager_SetCircuitOpen K clk open' reason m =
     (let (err, rl) = MapRateLimiter_Check OpFailsafe (clk 0) (m_rl m); m = m\<lparr>m_rl := rl\<rparr> in
      case err of
        Some e \<Rightarrow> (Some (''rate limited: '' @ e), m)
      | None \<Rightarrow>
          (case Manager_ReadFailsafeState K m of
             Inl e \<Rightarrow> (Some e, m)
           | Inr state \<Rightarrow>
               let state = (if open' then
                      state\<lparr>CircuitOpen := 1, OpenSinceNs := word_of_int (time_UnixNano (clk 1))\<rparr>
                    else state\<lparr>CircuitOpen := 0, OpenSinceNs := 0, CurrentPPS := 0, CurrentBPS := 0\<rparr>);
                   (opErr, fs) = e_update (k_failsafe K) FailsafeIdx state (m_failsafe m);
                   m = m\<lparr>m_failsafe := fs,
                     m_audit := LogCircuitChange (clk 2) open' (CurrentPPS state) reason (m_audit m)\<rparr>
               in case opErr of
                    Some e \<Rightarrow> (Some (''failsafe state update failed: '' @ e), m)
                  | None \<Rightarrow> (None, m)))"

definition Manager_UpdateFailsafeThresholds ::
    "kernel \<Rightarrow> gotime \<Rightarrow> u64 \<Rightarrow> u64 \<Rightarrow> Manager \<Rightarrow> error \<times> Manager" where
  "Manager_UpdateFailsafeThresholds K now ppsThr bpsThr m =
     (let (err, rl) = MapRateLimiter_Check OpFailsafe now (m_rl m); m = m\<lparr>m_rl := rl\<rparr> in
      case err of
        Some e \<Rightarrow> (Some (''rate limited: '' @ e), m)
      | None \<Rightarrow>
          (case Manager_ReadFailsafeState K m of
             Inl e \<Rightarrow> (Some e, m)
           | Inr state \<Rightarrow>
               let state = state\<lparr>PPSThreshold := ppsThr, BPSThreshold := bpsThr\<rparr>;
                   (opErr, fs) = e_update (k_failsafe K) FailsafeIdx state (m_failsafe m)
               in (opErr, m\<lparr>m_failsafe := fs\<rparr>)))"

definition Manager_UpdateConfig ::
    "kernel \<Rightarrow> clock \<Rightarrow> FalxMapConfig \<Rightarrow> string \<Rightarrow> Manager \<Rightarrow> error \<times> Manager" where
  "Manager_UpdateConfig K clk cfg actor m =
     (let (err, rl) = MapRateLimiter_Check OpUpdateConfig (clk 0) (m_rl m); m = m\<lparr>m_rl := rl\<rparr> in
      case err of
        Some e \<Rightarrow>
          (Some (''rate limited: '' @ e),
           m\<lparr>m_audit := LogConfigUpdate (clk 2) actor (Some e) (m_audit m)\<rparr>)
      | None \<Rightarrow>
          let (opErr, c) = e_update (k_config K) ConfigIdx cfg (m_config m);
              m = m\<lparr>m_config := c, m_audit := LogConfigUpdate (clk 2) actor opErr (m_audit m)\<rparr>
          in case opErr of
               Some e \<Rightarrow> (Some (''config update failed: '' @ e), m)
             | None \<Rightarrow> (None, m))"

section \<open>Sweeps of expired entries\<close>

definition expired :: "u64 \<Rightarrow> BlockEntry \<Rightarrow> bool" where
  "expired nowSec entry \<longleftrightarrow> ExpireAt entry \<noteq> 0 \<and> nowSec \<ge> ExpireAt entry"

definition sweepBlocklistV4 :: "kernel \<Rightarrow> u64 \<Rightarrow> int \<Rightarrow> Manager \<Rightarrow> error \<times> int \<times> Manager" where
  "sweepBlocklistV4 K nowSec removed m =
     (case e_iterate (k_v4 K) (m_v4 m) of
        (kvs, Some e) \<Rightarrow> (Some e, removed, m)
      | (kvs, None) \<Rightarrow>
          let toDelete = map fst (filter (\<lambda>kv. expired nowSec (snd kv)) kvs);
              (n, v4) = km_delete_all (k_v4 K) toDelete (m_v4 m)
          in (None, removed + n, m\<lparr>m_v4 := v4\<rparr>))"

definition sweepBlocklistV6 :: "kernel \<Rightarrow> u64 \<Rightarrow> int \<Rightarrow> Manager \<Rightarrow> error \<times> int \<times> Manager" where
  "sweepBlocklistV6 K nowSec removed m =
     (case e_iterate (k_v6 K) (m_v6 m) of
        (kvs, Some e) \<Rightarrow> (Some e, removed, m)
      | (kvs, None) \<Rightarrow>
          let toDelete = map fst (filter (\<lambda>kv. expired nowSec (snd kv)) kvs);
              (n, v6) = km_delete_all (k_v6 K) toDelete (m_v6 m)
          in (None, removed + n, m\<lparr>m_v6 := v6\<rparr>))"

text \<open>One tick of the expiry daemon (\<open>pkg/bpfmaps/expiry.go\<close>), with the number of
  entries it removed.\<close>

definition ExpiryDaemon_sweep :: "kernel \<Rightarrow> gotime \<Rightarrow> Manager \<Rightarrow> int \<times> Manager" where
  "ExpiryDaemon_sweep K now m =
     (let nowSec = unix_u64 now;
          (e4, removed, m) = sweepBlocklistV4 K nowSec 0 m;
          (e6, removed, m) = sweepBlocklistV6 K nowSec removed m
      in (removed, m))"

section \<open>Rate buckets, AF_XDP sockets and batches\<close>

definition Manager_ResetRateBucket ::
    "kernel \<Rightarrow> gotime \<Rightarrow> bytes \<Rightarrow> Manager \<Rightarrow> error \<times> Manager" where
  "Manager_ResetRateBucket K now ip m =
     (let (err, rl) = MapRateLimiter_Check OpRateLimit now (m_rl m); m = m\<lparr>m_rl := rl\<rparr> in
      case err of
        Some e \<Rightarrow> (Some (''rate limited: '' @ e), m)
      | None \<Rightarrow>
          (case IPv4ToUint32 ip of
             (key, Some e) \<Rightarrow> (Some e, m)
           | (key, None) \<Rightarrow>
               let (opErr, rb) = e_delete (k_rate K) key (m_rate m) in (None, m\<lparr>m_rate := rb\<rparr>)))"

definition Manager_ReadRateBucket :: "kernel \<Rightarrow> bytes \<Rightarrow> Manager \<Rightarrow> RateBucket \<times> bool \<times> error" where
  "Manager_ReadRateBucket K ip m =
     (case IPv4ToUint32 ip of
        (key, Some e) \<Rightarrow> (RateBucket0, False, Some e)
      | (key, None) \<Rightarrow>
          (case e_lookup (k_rate K) key (m_rate m) of
             Inl _ \<Rightarrow> (RateBucket0, False, None)
           | Inr bucket \<Rightarrow> (bucket, True, None)))"

definition Manager_RegisterXSK :: "kernel \<Rightarrow> u32 \<Rightarrow> int \<Rightarrow> Manager \<Rightarrow> error \<times> Manager" where
  "Manager_RegisterXSK K queueID fd m =
     (let (opErr, x) = e_update (k_xsk K) queueID (word_of_int fd) (m_xsk m); m = m\<lparr>m_xsk := x\<rparr> in
      case opErr of
        Some e \<Rightarrow> (Some (''XSK_MAP update failed for queue '' @ dec (unat queueID) @ '': '' @ e), m)
      | None \<Rightarrow> (None, m))"

record BlockDecision =
  bd_IP :: bytes
  bd_Entry :: BlockEntry

text \<open>The loop over the decisions; decision \<open>i\<close> makes the clock readings \<open>2 i\<close> and
  \<open>2 i + 1\<close>.\<close>

definition batch_step ::
    "kernel \<Rightarrow> clock \<Rightarrow> string \<Rightarrow> BlockDecision \<Rightarrow> Manager \<Rightarrow> error \<times> Manager" where
  "batch_step K clk actor d m =
     (case IPv4ToUint32 (bd_IP d) of
        (key, Some e) \<Rightarrow> (Some e, m)
      | (key, None) \<Rightarrow>
          let entry = resolve_ttl (clk 0) (bd_Entry d);
              (opErr, v4) = e_update (k_v4 K) key entry (m_v4 m)
          in (opErr, m\<lparr>m_v4 := v4, m_audit := LogBlockIP (clk 1) (bd_IP d) entry actor opErr (m_audit m)\<rparr>))"

fun batch_loop ::
    "kernel \<Rightarrow> clock \<Rightarrow> string \<Rightarrow> BlockDecision list \<Rightarrow> Manager \<Rightarrow> error list \<times> Manager" where
  "batch_loop K clk actor [] m = ([], m)"
| "batch_loop K clk actor (d # ds) m =
     (let (err, m') = batch_step K clk actor d m;
          (errs, m'') = batch_loop K (clk_from 2 clk) actor ds m'
      in (err # errs, m''))"

definition Manager_BlockIPv4Batch ::
    "kernel \<Rightarrow> clock \<Rightarrow> BlockDecision list \<Rightarrow> string \<Rightarrow> Manager \<Rightarrow> error list \<times> Manager" where
  "Manager_BlockIPv4Batch K clk decisions actor m =
     (let (err, rl) = MapRateLimiter_Check OpBlockIP (clk 0) (m_rl m); m = m\<lparr>m_rl := rl\<rparr> in
      case err of
        Some e \<Rightarrow> (replicate (length decisions) (Some (''batch rate limited: '' @ e)), m)
      | None \<Rightarrow> batch_loop K (clk_from 1 clk) actor decisions m)"

section \<open>A concrete kernel\<close>

text \<open>The map types of \<open>falxMapSpecs\<close>, with the array elements preallocated.\<close>

definition falx_kernel :: kernel where
  "falx_kernel = \<lparr>k_v4 = lru_ops 65535, k_v6 = lru_ops 65535, k_rate = lru_ops 65535,
     k_xdp = array_ops, k_mapped = array_ops, k_failsafe = array_ops, k_config = array_ops,
     k_xsk = lru_ops 63\<rparr>"

definition falx_manager :: "clock \<Rightarrow> RateLimitConfig \<Rightarrow> Manager" where
  "falx_manager clk cfg = \<lparr>m_rl = NewMapRateLimiter clk cfg, m_audit = NewAuditLogger (\<lambda>_. True) [],
     m_v4 = \<lparr>km_data = [], km_env = 0\<rparr>, m_v6 = \<lparr>km_data = [], km_env = 0\<rparr>,
     m_rate = \<lparr>km_data = [], km_env = 0\<rparr>,
     m_xdp = \<lparr>km_data = [(0, [XdpStats0, XdpStats0])], km_env = 0\<rparr>,
     m_mapped = \<lparr>km_data = [(0, [MappedXdpStats0, MappedXdpStats0])], km_env = 0\<rparr>,
     m_failsafe = \<lparr>km_data = [(0, FailsafeState0)], km_env = 0\<rparr>,
     m_config = \<lparr>km_data = [(0, FalxMapConfig0)], km_env = 0\<rparr>,
     m_xsk = \<lparr>km_data = [], km_env = 0\<rparr>\<rparr>"

lemma falx_kernel_v4: "ebpf_reliable (k_v4 falx_kernel)" "ebpf_map (k_v4 falx_kernel)"
  by (simp_all add: falx_kernel_def lru.ebpf_reliable_axioms lru.ebpf_map_axioms)

lemma falx_kernel_v6: "ebpf_reliable (k_v6 falx_kernel)" "ebpf_map (k_v6 falx_kernel)"
  by (simp_all add: falx_kernel_def lru.ebpf_reliable_axioms lru.ebpf_map_axioms)

lemma falx_kernel_failsafe: "ebpf_array (k_failsafe falx_kernel)"
  by (simp add: falx_kernel_def arr.ebpf_array_axioms)

lemma get_be_4 [simp]: "get_be [a, b, c, d] =
    or (ucast d) (push_bit 8 (or (ucast c) (push_bit 8 (or (ucast b) (push_bit 8 (ucast a))))))"
  by (simp add: get_be_def)

lemmas limiter_eval = NewMapRateLimiter_def DefaultRateLimitConfig_def newTokenBucket_def op_consts
  MapRateLimiter_Check_def tokenBucket_Allow_def Let_def Second_def dur_Seconds_def time_Sub_def dur_sat_def

lemmas manager_eval = falx_kernel_def falx_manager_def lru_ops_def array_ops_def
  Manager_BlockIPv4_def Manager_UnblockIPv4_def Manager_IsBlockedIPv4_def resolve_ttl_def
  unix_u64_def time_Unix_def IPv4ToUint32_def IP_To4_def v4InV6Prefix_def limiter_eval

section \<open>Outcomes of the writes\<close>

lemma BlockIPv4_ok:
  assumes "Manager_BlockIPv4 K clk ip entry actor m = (None, m')"
  obtains key where "IPv4ToUint32 ip = (key, None)"
    "e_update (k_v4 K) key (resolve_ttl (clk 1) entry) (m_v4 m) = (None, m_v4 m')"
  using assms
  by (auto simp: Manager_BlockIPv4_def Let_def split: prod.splits option.splits)

lemma BlockIPv4_err:
  assumes "Manager_BlockIPv4 K clk ip entry actor m = (Some err, m')"
  shows "m_v4 m' = m_v4 m \<or> (\<exists>key e. IPv4ToUint32 ip = (key, None) \<and>
    e_update (k_v4 K) key (resolve_ttl (clk 1) entry) (m_v4 m) = (Some e, m_v4 m'))"
  using assms
  by (auto simp: Manager_BlockIPv4_def Let_def split: prod.splits option.splits)

lemma BlockIPv4_frame:
  assumes "Manager_BlockIPv4 K clk ip entry actor m = (r, m')"
  shows "m_v6 m' = m_v6 m" "m_failsafe m' = m_failsafe m" "m_config m' = m_config m" "m_rate m' = m_rate m"
  using assms
  by (auto simp: Manager_BlockIPv4_def Let_def split: prod.splits option.splits)

lemma UnblockIPv4_ok:
  assumes "Manager_UnblockIPv4 K clk ip actor m = (None, m')"
  obtains key where "IPv4ToUint32 ip = (key, None)" "e_delete (k_v4 K) key (m_v4 m) = (None, m_v4 m')"
  using assms
  by (auto simp: Manager_UnblockIPv4_def Let_def split: prod.splits option.splits)

lemma UnblockIPv4_err:
  assumes "Manager_UnblockIPv4 K clk ip actor m = (Some err, m')"
  shows "m_v4 m' = m_v4 m \<or> (\<exists>key e. IPv4ToUint32 ip = (key, None) \<and>
    e_delete (k_v4 K) key (m_v4 m) = (Some e, m_v4 m'))"
  using assms
  by (auto simp: Manager_UnblockIPv4_def Let_def split: prod.splits option.splits)

text \<open>The answer of a query is determined by the map, whatever form the address has.\<close>

definition query_entry :: "gotime \<Rightarrow> BlockEntry option \<Rightarrow> bool \<times> BlockEntry \<times> error" where
  "query_entry now oe =
     (case oe of
        None \<Rightarrow> (False, BlockEntry0, None)
      | Some e \<Rightarrow> if expired (unix_u64 now) e then (False, BlockEntry0, None) else (True, e, None))"

lemma IsBlockedIPv4_view:
  assumes "ebpf_reliable (k_v4 K)" "IPv4ToUint32 ip = (key, None)"
  shows "Manager_IsBlockedIPv4 K now ip m = query_entry now (km_view (m_v4 m) key)"
proof (cases "km_view (m_v4 m) key")
  case None
  then have "\<exists>e. e_lookup (k_v4 K) key (m_v4 m) = Inl e"
    using ebpf_map.lookup_sound [OF ebpf_reliable.axioms(1) [OF assms(1)]]
    by (metis option.distinct(1) sum.exhaust)
  with None show ?thesis
    by (auto simp: Manager_IsBlockedIPv4_def assms(2) query_entry_def)
next
  case (Some e)
  then show ?thesis
    by (simp add: Manager_IsBlockedIPv4_def assms(2) query_entry_def expired_def
        ebpf_reliable.lookup_complete [OF assms(1)])
qed

text \<open>The Unix time up to which an entry written at \<open>now\<close> blocks, if it is not
  permanent.\<close>

definition blocked_until :: "gotime \<Rightarrow> BlockEntry \<Rightarrow> int option" where
  "blocked_until now entry =
     (if ExpireAt entry = 0 then None
      else if ExpireAt entry < 1000000000 then Some (time_Unix now + uint (ExpireAt entry))
      else Some (uint (ExpireAt entry)))"

lemma uint_unix_u64:
  "0 \<le> time_Unix now \<Longrightarrow> time_Unix now < 2 ^ 63 \<Longrightarrow> uint (unix_u64 now) = time_Unix now"
  by (simp add: unix_u64_def uint_word_of_int)

lemma resolve_ttl_small:
  assumes "0 \<le> time_Unix now" "time_Unix now < 2 ^ 63" "ExpireAt entry < 1000000000"
  shows "uint (unix_u64 now + ExpireAt entry) = time_Unix now + uint (ExpireAt entry)"
proof -
  have "uint (ExpireAt entry) < 1000000000"
    using assms(3) by (simp add: word_less_def)
  then show ?thesis
    using assms by (simp add: uint_plus_if_size uint_unix_u64 word_size)
qed

lemma expired_resolve_ttl:
  assumes "0 \<le> time_Unix t" "time_Unix t < 2 ^ 63" "0 \<le> time_Unix now" "time_Unix now < 2 ^ 63"
  shows "expired (unix_u64 now) (resolve_ttl t entry) \<longleftrightarrow>
    (case blocked_until t entry of None \<Rightarrow> False | Some u \<Rightarrow> u \<le> time_Unix now)"
proof (cases "0 < ExpireAt entry \<and> ExpireAt entry < 1000000000")
  case True
  then have "uint (unix_u64 t + ExpireAt entry) \<noteq> 0"
    using resolve_ttl_small [of t entry] assms by (simp add: word_less_def)
  then have "unix_u64 t + ExpireAt entry \<noteq> 0" by auto
  then show ?thesis
    using True resolve_ttl_small [of t entry] assms
    by (auto simp: expired_def resolve_ttl_def blocked_until_def word_le_def uint_unix_u64)
next
  case False
  then show ?thesis
    using assms
    by (auto simp: expired_def resolve_ttl_def blocked_until_def word_le_def uint_unix_u64 word_gt_0)
qed

section \<open>Properties\<close>

lemma blocked_query:
  assumes "ebpf_reliable (k_v4 K)"
    and "Manager_BlockIPv4 K clk ip entry actor m = (None, m')"
    and "IP_To4 ip' = IP_To4 ip"
    and "0 \<le> time_Unix (clk 1)" "time_Unix (clk 1) < 2 ^ 63"
    and "0 \<le> time_Unix now" "time_Unix now < 2 ^ 63"
  shows "Manager_IsBlockedIPv4 K now ip' m' =
    (if (case blocked_until (clk 1) entry of None \<Rightarrow> True | Some u \<Rightarrow> time_Unix now < u)
     then (True, resolve_ttl (clk 1) entry, None) else (False, BlockEntry0, None))"
proof -
  obtain key where key: "IPv4ToUint32 ip = (key, None)"
    and up: "e_update (k_v4 K) key (resolve_ttl (clk 1) entry) (m_v4 m) = (None, m_v4 m')"
    using BlockIPv4_ok [OF assms(2)] .
  have "IPv4ToUint32 ip' = (key, None)"
    using key assms(3) by (simp add: IPv4ToUint32_def)
  then have "Manager_IsBlockedIPv4 K now ip' m' = query_entry now (Some (resolve_ttl (clk 1) entry))"
    using IsBlockedIPv4_view [OF assms(1)] ebpf_map.update_ok [OF ebpf_reliable.axioms(1) [OF assms(1)] up]
    by simp
  then show ?thesis
    using expired_resolve_ttl [OF assms(4-7), of entry]
    by (auto simp: query_entry_def not_le split: option.splits)
qed

text \<open>C9. A successful \<open>BlockIPv4\<close> makes every query for the address, in whatever
  byte form, answer with the written entry exactly until it expires: for ever
  when the expiry is 0, for that many seconds from the write when it is below
  \<open>10\<^sup>9\<close>, and until that Unix time otherwise.\<close>

theorem block_then_query:
  assumes "ebpf_reliable (k_v4 K)"
    and "Manager_BlockIPv4 K clk ip entry actor m = (None, m')"
    and "IP_To4 ip' = IP_To4 ip"
    and "0 \<le> time_Unix (clk 1)" "time_Unix (clk 1) < 2 ^ 63"
    and "0 \<le> time_Unix now" "time_Unix now < 2 ^ 63"
  shows "Manager_IsBlockedIPv4 K now ip' m' =
    (if (case blocked_until (clk 1) entry of None \<Rightarrow> True | Some u \<Rightarrow> time_Unix now < u)
     then (True, resolve_ttl (clk 1) entry, None) else (False, BlockEntry0, None))"
  by (rule blocked_query [OF assms])

theorem block_then_query_witness:
  "Manager_IsBlockedIPv4 falx_kernel 62135597700000000000 (v4InV6Prefix @ [10, 0, 0, 1])
     (snd (Manager_BlockIPv4 falx_kernel (\<lambda>_. 62135597000000000000) [10, 0, 0, 1]
        (BlockEntry0\<lparr>ExpireAt := 600, Action := ActionDrop\<rparr>) ''soc''
        (falx_manager (\<lambda>_. 0) DefaultRateLimitConfig)))
   = (False, BlockEntry0, None)"
proof -
  let ?b = "Manager_BlockIPv4 falx_kernel (\<lambda>_. 62135597000000000000) [10, 0, 0, 1]
        (BlockEntry0\<lparr>ExpireAt := 600, Action := ActionDrop\<rparr>) ''soc''
        (falx_manager (\<lambda>_. 0) DefaultRateLimitConfig)"
  have "fst ?b = None" by (simp add: manager_eval BlockEntry0_def)
  then have "?b = (None, snd ?b)" by (metis prod.collapse)
  from block_then_query [OF falx_kernel_v4(1) this, of "v4InV6Prefix @ [10, 0, 0, 1]" 62135597700000000000]
  show ?thesis
    by (simp add: time_Unix_def blocked_until_def BlockEntry0_def) (simp add: IP_To4_def v4InV6Prefix_def)
qed

text \<open>A block affects no other address: for an address with another map key
  the query answers as before, or the address is no longer blocked because the
  kernel evicted it.  A block that fails changes no answer at all.\<close>

theorem block_other_address:
  assumes "ebpf_reliable (k_v4 K)"
    and "Manager_BlockIPv4 K clk ip entry actor m = (r, m')"
    and "r \<noteq> None \<or> IP_To4 ip' \<noteq> IP_To4 ip"
  shows "Manager_IsBlockedIPv4 K now ip' m' = Manager_IsBlockedIPv4 K now ip' m \<or>
    r = None \<and> Manager_IsBlockedIPv4 K now ip' m' = (False, BlockEntry0, None)"
proof (cases "IPv4ToUint32 ip'")
  case (Pair key' e')
  note em = ebpf_reliable.axioms(1) [OF assms(1)]
  show ?thesis
  proof (cases e')
    case (Some e)
    then show ?thesis by (simp add: Manager_IsBlockedIPv4_def Pair)
  next
    case None
    with Pair have k': "IPv4ToUint32 ip' = (key', None)" by simp
    note view = IsBlockedIPv4_view [OF assms(1) k']
    show ?thesis
    proof (cases r)
      case (Some err)
      then have "km_view (m_v4 m') = km_view (m_v4 m)"
        using BlockIPv4_err [of K clk ip entry actor m err m'] assms(2) ebpf_map.update_err [OF em] by auto
      then show ?thesis by (simp add: view)
    next
      case None
      obtain key where key: "IPv4ToUint32 ip = (key, None)"
        and up: "e_update (k_v4 K) key (resolve_ttl (clk 1) entry) (m_v4 m) = (None, m_v4 m')"
        using BlockIPv4_ok assms(2) None by blast
      have "key' \<noteq> key"
        using assms(3) None Uint32ToIPv4_IPv4ToUint32 [OF key] Uint32ToIPv4_IPv4ToUint32 [OF k'] by auto
      then show ?thesis
        using ebpf_map.update_frame [OF em up, of key'] None by (auto simp: view query_entry_def)
    qed
  qed
qed

theorem block_other_address_witness:
  "Manager_IsBlockedIPv4 falx_kernel 0 [10, 0, 0, 2]
     (snd (Manager_BlockIPv4 falx_kernel (\<lambda>_. 0) [10, 0, 0, 1] BlockEntry0 ''ai''
        (falx_manager (\<lambda>_. 0) DefaultRateLimitConfig)))
   = (False, BlockEntry0, None)"
proof -
  let ?m = "falx_manager (\<lambda>_. 0) DefaultRateLimitConfig"
  let ?b = "Manager_BlockIPv4 falx_kernel (\<lambda>_. 0) [10, 0, 0, 1] BlockEntry0 ''ai'' ?m"
  have "?b = (fst ?b, snd ?b)" by simp
  from block_other_address [OF falx_kernel_v4(1) this, of "[10, 0, 0, 2]" 0]
  have "Manager_IsBlockedIPv4 falx_kernel 0 [10, 0, 0, 2] (snd ?b)
      = Manager_IsBlockedIPv4 falx_kernel 0 [10, 0, 0, 2] ?m
    \<or> Manager_IsBlockedIPv4 falx_kernel 0 [10, 0, 0, 2] (snd ?b) = (False, BlockEntry0, None)"
    by (auto simp: IP_To4_def)
  moreover have "Manager_IsBlockedIPv4 falx_kernel 0 [10, 0, 0, 2] ?m = (False, BlockEntry0, None)"
    by (simp add: manager_eval)
  ultimately show ?thesis by simp
qed

text \<open>C4. A successful \<open>UnblockIPv4\<close> removes exactly that address: its queries
  answer not blocked and the map keeps every other key.\<close>

theorem unblock_exact:
  assumes "ebpf_reliable (k_v4 K)"
    and "Manager_UnblockIPv4 K clk ip actor m = (None, m')"
    and "IPv4ToUint32 ip = (key, None)"
  shows "Manager_IsBlockedIPv4 K now ip m' = (False, BlockEntry0, None) \<and>
    km_view (m_v4 m') = (km_view (m_v4 m))(key := None)"
proof -
  have "km_view (m_v4 m') = (km_view (m_v4 m))(key := None)"
    using UnblockIPv4_ok [OF assms(2)] assms(3)
      ebpf_map.delete_ok [OF ebpf_reliable.axioms(1) [OF assms(1)]] by (metis Pair_inject)
  then show ?thesis
    by (simp add: IsBlockedIPv4_view [OF assms(1,3)] query_entry_def)
qed

theorem unblock_exact_witness:
  "Manager_IsBlockedIPv4 falx_kernel 0 [10, 0, 0, 1]
     (snd (Manager_UnblockIPv4 falx_kernel (\<lambda>_. 1) [10, 0, 0, 1] ''soc''
        (snd (Manager_BlockIPv4 falx_kernel (\<lambda>_. 0) [10, 0, 0, 1] BlockEntry0 ''ai''
          (falx_manager (\<lambda>_. 0) DefaultRateLimitConfig)))))
   = (False, BlockEntry0, None)"
proof -
  let ?b = "Manager_UnblockIPv4 falx_kernel (\<lambda>_. 1) [10, 0, 0, 1] ''soc''
        (snd (Manager_BlockIPv4 falx_kernel (\<lambda>_. 0) [10, 0, 0, 1] BlockEntry0 ''ai''
          (falx_manager (\<lambda>_. 0) DefaultRateLimitConfig)))"
  have "fst ?b = None" by (simp add: manager_eval BlockEntry0_def)
  then have "?b = (None, snd ?b)" by (metis prod.collapse)
  moreover have "IPv4ToUint32 [10, 0, 0, 1] = (167772161, None)"
    by (simp add: IPv4ToUint32_def IP_To4_def)
  ultimately show ?thesis using unblock_exact [OF falx_kernel_v4(1)] by blast
qed

text \<open>C3. \<open>ReadStats\<close> returns, for every counter, the sum over the CPUs of the map
  the counter lives in, capped at the largest 64-bit value instead of wrapping
  around, and the latest reset time.\<close>

theorem read_stats_sums:
  assumes "e_lookup (k_xdp K) StatsIdx (m_xdp m) = Inr cold"
    and "e_lookup (k_mapped K) StatsIdx (m_mapped m) = Inr hot"
  shows "\<exists>st. Manager_ReadStats K m = Inr st
    \<and> unat (RxPackets st) = min (sum_list (map (unat \<circ> mRxPackets) hot)) (2 ^ 64 - 1)
    \<and> unat (RxBytes st) = min (sum_list (map (unat \<circ> mRxBytes) hot)) (2 ^ 64 - 1)
    \<and> unat (Dropped st) = min (sum_list (map (unat \<circ> mDropped) hot)) (2 ^ 64 - 1)
    \<and> unat (Passed st) = min (sum_list (map (unat \<circ> mPassed) hot)) (2 ^ 64 - 1)
    \<and> unat (RateLimited st) = min (sum_list (map (unat \<circ> RateLimited) cold)) (2 ^ 64 - 1)
    \<and> unat (Redirected st) = min (sum_list (map (unat \<circ> Redirected) cold)) (2 ^ 64 - 1)
    \<and> unat (FailsafeDrops st) = min (sum_list (map (unat \<circ> FailsafeDrops) cold)) (2 ^ 64 - 1)
    \<and> unat (ParseErrors st) = min (sum_list (map (unat \<circ> ParseErrors) cold)) (2 ^ 64 - 1)
    \<and> unat (MapErrors st) = min (sum_list (map (unat \<circ> MapErrors) cold)) (2 ^ 64 - 1)
    \<and> unat (CoolingBans st) = min (sum_list (map (unat \<circ> CoolingBans) cold)) (2 ^ 64 - 1)
    \<and> unat (SynFloodBans st) = min (sum_list (map (unat \<circ> SynFloodBans) cold)) (2 ^ 64 - 1)
    \<and> LastResetNs st = Max (set (0 # map LastResetNs cold))"
  by (simp add: Manager_ReadStats_def assms Let_def foldl_safeAdd foldl_maxU64 [of LastResetNs]
      XdpStats_Add_def MappedXdpStats_Add_def XdpStats0_def MappedXdpStats0_def del: set_simps)

theorem read_stats_sums_witness:
  "\<exists>st. Manager_ReadStats falx_kernel (falx_manager (\<lambda>_. 0) DefaultRateLimitConfig
      \<lparr>m_xdp := \<lparr>km_data = [(0, [XdpStats0\<lparr>MapErrors := 3\<rparr>, XdpStats0\<lparr>MapErrors := 4\<rparr>])], km_env = 0\<rparr>,
       m_mapped := \<lparr>km_data = [(0, [MappedXdpStats0\<lparr>mPassed := - 1\<rparr>, MappedXdpStats0\<lparr>mPassed := 5\<rparr>])], km_env = 0\<rparr>\<rparr>)
     = Inr st \<and> unat (MapErrors st) = 7 \<and> unat (Passed st) = 2 ^ 64 - 1"
  using read_stats_sums [of falx_kernel "falx_manager (\<lambda>_. 0) DefaultRateLimitConfig
      \<lparr>m_xdp := \<lparr>km_data = [(0, [XdpStats0\<lparr>MapErrors := 3\<rparr>, XdpStats0\<lparr>MapErrors := 4\<rparr>])], km_env = 0\<rparr>,
       m_mapped := \<lparr>km_data = [(0, [MappedXdpStats0\<lparr>mPassed := - 1\<rparr>, MappedXdpStats0\<lparr>mPassed := 5\<rparr>])], km_env = 0\<rparr>\<rparr>"
      "[XdpStats0\<lparr>MapErrors := 3\<rparr>, XdpStats0\<lparr>MapErrors := 4\<rparr>]"
      "[MappedXdpStats0\<lparr>mPassed := - 1\<rparr>, MappedXdpStats0\<lparr>mPassed := 5\<rparr>]"]
  by (auto simp: falx_kernel_def array_ops_def StatsIdx_def XdpStats0_def MappedXdpStats0_def)

text \<open>C7. The result of \<open>ReadStats\<close> does not depend on the order in which the
  kernel lists the CPUs.\<close>

theorem read_stats_cpu_order:
  assumes "e_lookup (k_xdp K) StatsIdx (m_xdp m) = Inr cold"
    and "e_lookup (k_mapped K) StatsIdx (m_mapped m) = Inr hot"
    and "e_lookup (k_xdp K) StatsIdx (m_xdp m') = Inr cold'"
    and "e_lookup (k_mapped K) StatsIdx (m_mapped m') = Inr hot'"
    and "mset cold' = mset cold" "mset hot' = mset hot"
  shows "Manager_ReadStats K m' = Manager_ReadStats K m"
  using foldl_XdpStats_mset [OF assms(5), of XdpStats0]
    foldl_MappedXdpStats_mset [OF assms(6), of MappedXdpStats0]
  by (simp add: Manager_ReadStats_def assms(1-4))

theorem read_stats_cpu_order_witness:
  "Manager_ReadStats falx_kernel (falx_manager (\<lambda>_. 0) DefaultRateLimitConfig
      \<lparr>m_xdp := \<lparr>km_data = [(0, [XdpStats0\<lparr>MapErrors := 4\<rparr>, XdpStats0])], km_env = 0\<rparr>\<rparr>)
   = Manager_ReadStats falx_kernel (falx_manager (\<lambda>_. 0) DefaultRateLimitConfig
      \<lparr>m_xdp := \<lparr>km_data = [(0, [XdpStats0, XdpStats0\<lparr>MapErrors := 4\<rparr>])], km_env = 0\<rparr>\<rparr>)"
  by (rule read_stats_cpu_order [of _ _ "[XdpStats0, XdpStats0\<lparr>MapErrors := 4\<rparr>]"
        "[MappedXdpStats0, MappedXdpStats0]" _ "[XdpStats0\<lparr>MapErrors := 4\<rparr>, XdpStats0]"
        "[MappedXdpStats0, MappedXdpStats0]"])
     (simp_all add: falx_kernel_def falx_manager_def array_ops_def StatsIdx_def)

lemma SetCircuitOpen_read:
  assumes "ebpf_array (k_failsafe K)"
    and "Manager_ReadFailsafeState K m = Inr st"
    and "Manager_SetCircuitOpen K clk open' reason m = (r, m')"
  shows "Manager_ReadFailsafeState K m' = Inr (if r \<noteq> None then st
     else if open' then st\<lparr>CircuitOpen := 1, OpenSinceNs := word_of_int (time_UnixNano (clk 1))\<rparr>
     else st\<lparr>CircuitOpen := 0, OpenSinceNs := 0, CurrentPPS := 0, CurrentBPS := 0\<rparr>)"
proof -
  note em = ebpf_array.axioms(1) [OF assms(1)]
  have lk: "e_lookup (k_failsafe K) FailsafeIdx (m_failsafe m) = Inr st"
    using assms(2) by (auto simp: Manager_ReadFailsafeState_def split: sum.splits)
  have "e_lookup (k_failsafe K) FailsafeIdx s = Inr st" if "km_view s = km_view (m_failsafe m)" for s
    using that ebpf_map.lookup_sound [OF em lk] ebpf_array.lookup_present [OF assms(1)] by simp
  then show ?thesis
    using assms(3) lk ebpf_map.update_ok [OF em] ebpf_map.update_err [OF em]
      ebpf_array.lookup_present [OF assms(1)]
    by (cases r) (auto simp: Manager_SetCircuitOpen_def Manager_ReadFailsafeState_def Let_def
        split: prod.splits option.splits sum.splits if_splits)
qed

lemma UpdateFailsafeThresholds_read:
  assumes "ebpf_array (k_failsafe K)"
    and "Manager_ReadFailsafeState K m = Inr st"
    and "Manager_UpdateFailsafeThresholds K now ppsThr bpsThr m = (r, m')"
  shows "Manager_ReadFailsafeState K m' =
    Inr (if r = None then st\<lparr>PPSThreshold := ppsThr, BPSThreshold := bpsThr\<rparr> else st)"
proof -
  note em = ebpf_array.axioms(1) [OF assms(1)]
  have lk: "e_lookup (k_failsafe K) FailsafeIdx (m_failsafe m) = Inr st"
    using assms(2) by (auto simp: Manager_ReadFailsafeState_def split: sum.splits)
  have "e_lookup (k_failsafe K) FailsafeIdx s = Inr st" if "km_view s = km_view (m_failsafe m)" for s
    using that ebpf_map.lookup_sound [OF em lk] ebpf_array.lookup_present [OF assms(1)] by simp
  then show ?thesis
    using assms(3) lk ebpf_map.update_ok [OF em] ebpf_map.update_err [OF em]
      ebpf_array.lookup_present [OF assms(1)]
    by (cases r) (auto simp: Manager_UpdateFailsafeThresholds_def Manager_ReadFailsafeState_def Let_def
        split: prod.splits option.splits sum.splits if_splits)
qed

text \<open>C6. A successful \<open>SetCircuitOpen\<close> is what the next read of the failsafe state
  sees: opening sets the flag and the opening time, closing clears both and the
  rolling counters, and neither touches the thresholds or the window.  When it
  fails the state is as it was.\<close>

theorem set_circuit_open_effect:
  assumes "ebpf_array (k_failsafe K)"
    and "Manager_ReadFailsafeState K m = Inr st"
    and "Manager_SetCircuitOpen K clk open' reason m = (r, m')"
  shows "Manager_ReadFailsafeState K m' = Inr (if r \<noteq> None then st
     else if open' then st\<lparr>CircuitOpen := 1, OpenSinceNs := word_of_int (time_UnixNano (clk 1))\<rparr>
     else st\<lparr>CircuitOpen := 0, OpenSinceNs := 0, CurrentPPS := 0, CurrentBPS := 0\<rparr>)"
  using assms by (rule SetCircuitOpen_read)

theorem set_circuit_open_effect_witness:
  "Manager_ReadFailsafeState falx_kernel (snd (Manager_SetCircuitOpen falx_kernel
      (\<lambda>_. 62135596800000000007) True ''pps'' (falx_manager (\<lambda>_. 0) DefaultRateLimitConfig)))
   = Inr (FailsafeState0\<lparr>CircuitOpen := 1, OpenSinceNs := 7\<rparr>)"
proof -
  let ?m = "falx_manager (\<lambda>_. 0) DefaultRateLimitConfig"
  let ?b = "Manager_SetCircuitOpen falx_kernel (\<lambda>_. 62135596800000000007) True ''pps'' ?m"
  have "fst ?b = None"
    by (simp add: manager_eval Manager_SetCircuitOpen_def Manager_ReadFailsafeState_def FailsafeIdx_def)
  then have "?b = (None, snd ?b)" by (metis prod.collapse)
  moreover have "Manager_ReadFailsafeState falx_kernel ?m = Inr FailsafeState0"
    by (simp add: manager_eval Manager_ReadFailsafeState_def FailsafeIdx_def)
  ultimately show ?thesis
    using set_circuit_open_effect [OF falx_kernel_failsafe, of ?m FailsafeState0 _ True "''pps''" None "snd ?b"]
    by (simp add: time_UnixNano_def)
qed

text \<open>Updating the thresholds never changes whether the circuit is open, and
  on success the next read has the new thresholds and every other field as it
  was; on failure the state is as it was.\<close>

theorem update_thresholds_effect:
  assumes "ebpf_array (k_failsafe K)"
    and "Manager_ReadFailsafeState K m = Inr st"
    and "Manager_UpdateFailsafeThresholds K now ppsThr bpsThr m = (r, m')"
  shows "Manager_ReadFailsafeState K m' =
    Inr (if r = None then st\<lparr>PPSThreshold := ppsThr, BPSThreshold := bpsThr\<rparr> else st)"
  using assms by (rule UpdateFailsafeThresholds_read)

theorem update_thresholds_effect_witness:
  "Manager_ReadFailsafeState falx_kernel (snd (Manager_UpdateFailsafeThresholds falx_kernel 0 100 200
      (falx_manager (\<lambda>_. 0) DefaultRateLimitConfig)))
   = Inr (FailsafeState0\<lparr>PPSThreshold := 100, BPSThreshold := 200\<rparr>)"
proof -
  let ?m = "falx_manager (\<lambda>_. 0) DefaultRateLimitConfig"
  let ?b = "Manager_UpdateFailsafeThresholds falx_kernel 0 100 200 ?m"
  have "fst ?b = None"
    by (simp add: manager_eval Manager_UpdateFailsafeThresholds_def Manager_ReadFailsafeState_def FailsafeIdx_def)
  then have "?b = (None, snd ?b)" by (metis prod.collapse)
  moreover have "Manager_ReadFailsafeState falx_kernel ?m = Inr FailsafeState0"
    by (simp add: manager_eval Manager_ReadFailsafeState_def FailsafeIdx_def)
  ultimately show ?thesis
    using update_thresholds_effect [OF falx_kernel_failsafe, of ?m FailsafeState0 0 100 200 None "snd ?b"]
    by simp
qed

section \<open>Properties of the sweeps\<close>

lemma sweepBlocklistV4_frame:
  "sweepBlocklistV4 K t r m = (e, r', m') \<Longrightarrow> m_v6 m' = m_v6 m \<and> m_failsafe m' = m_failsafe m"
  by (auto simp: sweepBlocklistV4_def Let_def split: prod.splits option.splits)

lemma sweepBlocklistV6_frame:
  "sweepBlocklistV6 K t r m = (e, r', m') \<Longrightarrow> m_v4 m' = m_v4 m \<and> m_failsafe m' = m_failsafe m"
  by (auto simp: sweepBlocklistV6_def Let_def split: prod.splits option.splits)

lemma sweepBlocklistV4_keeps:
  assumes "ebpf_map (k_v4 K)" "sweepBlocklistV4 K t r m = (e, r', m')"
    and "km_view (m_v4 m) k = Some v" "\<not> expired t v"
  shows "km_view (m_v4 m') k = Some v"
  using assms ebpf_map.sweep_keeps [OF assms(1), where P = "expired t"]
  by (auto simp: sweepBlocklistV4_def Let_def split: prod.splits option.splits)

lemma sweepBlocklistV6_keeps:
  assumes "ebpf_map (k_v6 K)" "sweepBlocklistV6 K t r m = (e, r', m')"
    and "km_view (m_v6 m) k = Some v" "\<not> expired t v"
  shows "km_view (m_v6 m') k = Some v"
  using assms ebpf_map.sweep_keeps [OF assms(1), where P = "expired t"]
  by (auto simp: sweepBlocklistV6_def Let_def split: prod.splits option.splits)

text \<open>What a sweep at time \<open>t\<close> leaves of an entry.\<close>

definition swept :: "u64 \<Rightarrow> BlockEntry option \<Rightarrow> BlockEntry option" where
  "swept t oe = (case oe of Some v \<Rightarrow> if expired t v then None else Some v | None \<Rightarrow> None)"

lemma sweepBlocklistV4_exact:
  assumes "ebpf_reliable (k_v4 K)" "e_iterate (k_v4 K) (m_v4 m) = (kvs, None)"
    and "sweepBlocklistV4 K t r m = (e, r', m')"
  shows "km_view (m_v4 m') k = swept t (km_view (m_v4 m) k)"
    and "r' = r + int (card {k. \<exists>v. km_view (m_v4 m) k = Some v \<and> expired t v})"
  using assms(3) ebpf_reliable.sweep_exact [OF assms(1,2), where P = "expired t"]
  by (auto simp: sweepBlocklistV4_def assms(2) Let_def swept_def split: prod.splits)

lemma sweepBlocklistV6_exact:
  assumes "ebpf_reliable (k_v6 K)" "e_iterate (k_v6 K) (m_v6 m) = (kvs, None)"
    and "sweepBlocklistV6 K t r m = (e, r', m')"
  shows "km_view (m_v6 m') k = swept t (km_view (m_v6 m) k)"
    and "r' = r + int (card {k. \<exists>v. km_view (m_v6 m) k = Some v \<and> expired t v})"
  using assms(3) ebpf_reliable.sweep_exact [OF assms(1,2), where P = "expired t"]
  by (auto simp: sweepBlocklistV6_def assms(2) Let_def swept_def split: prod.splits)

text \<open>A sweep of the expiry daemon never removes a permanent entry or one that
  has not expired, from either blocklist, even when the kernel fails an
  iteration or a deletion.\<close>

theorem expiry_sweep_safe:
  assumes "ebpf_map (k_v4 K)" "ebpf_map (k_v6 K)"
    and "ExpiryDaemon_sweep K now m = (n, m')"
  shows "(km_view (m_v4 m) k4 = Some v \<and> \<not> expired (unix_u64 now) v \<longrightarrow> km_view (m_v4 m') k4 = Some v)
    \<and> (km_view (m_v6 m) k6 = Some v \<and> \<not> expired (unix_u64 now) v \<longrightarrow> km_view (m_v6 m') k6 = Some v)"
proof -
  obtain e4 r4 m4 where s4: "sweepBlocklistV4 K (unix_u64 now) 0 m = (e4, r4, m4)"
    by (metis prod_cases3)
  obtain e6 r6 where s6: "sweepBlocklistV6 K (unix_u64 now) r4 m4 = (e6, r6, m')"
    using assms(3) s4 by (auto simp: ExpiryDaemon_sweep_def Let_def split: prod.splits)
  show ?thesis
    using sweepBlocklistV4_keeps [OF assms(1) s4] sweepBlocklistV6_keeps [OF assms(2) s6]
      sweepBlocklistV4_frame [OF s4] sweepBlocklistV6_frame [OF s6] by auto
qed

theorem expiry_sweep_safe_witness:
  "km_view (m_v4 (snd (ExpiryDaemon_sweep falx_kernel 62135596900000000000
      (falx_manager (\<lambda>_. 0) DefaultRateLimitConfig
         \<lparr>m_v4 := \<lparr>km_data = [(1, BlockEntry0), (2, BlockEntry0\<lparr>ExpireAt := 50\<rparr>)], km_env = 0\<rparr>\<rparr>)))) 1
   = Some BlockEntry0"
proof -
  let ?m = "falx_manager (\<lambda>_. 0) DefaultRateLimitConfig
         \<lparr>m_v4 := \<lparr>km_data = [(1, BlockEntry0), (2, BlockEntry0\<lparr>ExpireAt := 50\<rparr>)], km_env = 0\<rparr>\<rparr>"
  let ?s = "ExpiryDaemon_sweep falx_kernel 62135596900000000000 ?m"
  have "?s = (fst ?s, snd ?s)" by simp
  from expiry_sweep_safe [OF falx_kernel_v4(2) falx_kernel_v6(2) this, of 1 BlockEntry0]
  show ?thesis by (simp add: expired_def BlockEntry0_def)
qed

text \<open>When the kernel reports no error a sweep removes exactly the expired
  entries of both blocklists, counts them, and is invisible to queries: for any
  address and any later time the answer is the one without the sweep.\<close>

theorem expiry_sweep_exact:
  assumes "ebpf_reliable (k_v4 K)" "ebpf_reliable (k_v6 K)"
    and "e_iterate (k_v4 K) (m_v4 m) = (kvs4, None)" "e_iterate (k_v6 K) (m_v6 m) = (kvs6, None)"
    and "ExpiryDaemon_sweep K now m = (n, m')"
    and "0 \<le> time_Unix now" "now \<le> now'" "time_Unix now' < 2 ^ 63"
  shows "(\<forall>k. km_view (m_v4 m') k = swept (unix_u64 now) (km_view (m_v4 m) k))
    \<and> (\<forall>k. km_view (m_v6 m') k = swept (unix_u64 now) (km_view (m_v6 m) k))
    \<and> n = int (card {k. \<exists>v. km_view (m_v4 m) k = Some v \<and> expired (unix_u64 now) v}
             + card {k. \<exists>v. km_view (m_v6 m) k = Some v \<and> expired (unix_u64 now) v})
    \<and> Manager_IsBlockedIPv4 K now' ip m' = Manager_IsBlockedIPv4 K now' ip m"
proof -
  obtain e4 r4 m4 where s4: "sweepBlocklistV4 K (unix_u64 now) 0 m = (e4, r4, m4)"
    by (metis prod_cases3)
  obtain e6 where s6: "sweepBlocklistV6 K (unix_u64 now) r4 m4 = (e6, n, m')"
    using assms(5) s4 by (auto simp: ExpiryDaemon_sweep_def Let_def split: prod.splits)
  note f4 = sweepBlocklistV4_frame [OF s4] and f6 = sweepBlocklistV6_frame [OF s6]
  have it6: "e_iterate (k_v6 K) (m_v6 m4) = (kvs6, None)" using f4 assms(4) by simp
  note x4 = sweepBlocklistV4_exact [OF assms(1,3) s4] and x6 = sweepBlocklistV6_exact [OF assms(2) it6 s6]
  have "time_Unix now \<le> time_Unix now'" using assms(7) by (rule time_Unix_mono)
  then have le: "unix_u64 now \<le> unix_u64 now'"
    using assms(6,8) by (simp add: word_le_def uint_unix_u64)
  have "query_entry now' (swept (unix_u64 now) oe) = query_entry now' oe" for oe
    using le by (auto simp: query_entry_def swept_def expired_def split: option.splits)
  then have "Manager_IsBlockedIPv4 K now' ip m' = Manager_IsBlockedIPv4 K now' ip m"
    using IsBlockedIPv4_view [OF assms(1)] x4(1) f6
    by (cases "IPv4ToUint32 ip"; cases "snd (IPv4ToUint32 ip)") (auto simp: Manager_IsBlockedIPv4_def)
  then show ?thesis
    using x4 x6 f4 f6 by simp
qed

theorem expiry_sweep_exact_witness:
  "fst (ExpiryDaemon_sweep falx_kernel 62135596900000000000
      (falx_manager (\<lambda>_. 0) DefaultRateLimitConfig
         \<lparr>m_v4 := \<lparr>km_data = [(1, BlockEntry0), (2, BlockEntry0\<lparr>ExpireAt := 50\<rparr>)], km_env = 0\<rparr>\<rparr>)) = 1"
proof -
  let ?m = "falx_manager (\<lambda>_. 0) DefaultRateLimitConfig
         \<lparr>m_v4 := \<lparr>km_data = [(1, BlockEntry0), (2, BlockEntry0\<lparr>ExpireAt := 50\<rparr>)], km_env = 0\<rparr>\<rparr>"
  let ?s = "ExpiryDaemon_sweep falx_kernel 62135596900000000000 ?m"
  let ?gone = "\<lambda>s. {k. \<exists>v. km_view s k = Some v \<and> expired (unix_u64 62135596900000000000) v}"
  have v4: "?gone (m_v4 ?m) = {2}"
    by (auto simp: expired_def BlockEntry0_def unix_u64_def time_Unix_def split: if_splits)
  have v6: "?gone (m_v6 ?m) = {}"
    by (auto simp: falx_manager_def)
  obtain kvs4 kvs6 where it: "e_iterate (k_v4 falx_kernel) (m_v4 ?m) = (kvs4, None)"
      "e_iterate (k_v6 falx_kernel) (m_v6 ?m) = (kvs6, None)"
    by (simp add: falx_kernel_def lru_ops_def)
  have "?s = (fst ?s, snd ?s)" by simp
  from expiry_sweep_exact [OF falx_kernel_v4(1) falx_kernel_v6(1) it this, of 62135596900000000000 "[]"]
  have "fst ?s = int (card (?gone (m_v4 ?m)) + card (?gone (m_v6 ?m)))"
    by (simp add: time_Unix_def)
  then show ?thesis
    unfolding v4 v6 by simp
qed

section \<open>Properties of batches\<close>

lemma batch_step_results:
  assumes "ebpf_map (k_v4 K)" "batch_step K clk actor d m = (e, m1)"
  shows "m_rl m1 = m_rl m"
    and "IP_To4 (bd_IP d) = [] \<Longrightarrow> e = Some ''not an IPv4 address''"
    and "km_view (m_v4 m1) k = Some v \<Longrightarrow> km_view (m_v4 m) k = Some v \<or>
      IPv4ToUint32 (bd_IP d) = (k, None) \<and> v = resolve_ttl (clk 0) (bd_Entry d)"
proof -
  show "m_rl m1 = m_rl m" "IP_To4 (bd_IP d) = [] \<Longrightarrow> e = Some ''not an IPv4 address''"
    using assms(2)
    by (auto simp: batch_step_def IPv4ToUint32_def Let_def split: prod.splits option.splits)
  assume k: "km_view (m_v4 m1) k = Some v"
  show "km_view (m_v4 m) k = Some v \<or>
      IPv4ToUint32 (bd_IP d) = (k, None) \<and> v = resolve_ttl (clk 0) (bd_Entry d)"
  proof (cases "snd (IPv4ToUint32 (bd_IP d))")
    case None
    then obtain key where key: "IPv4ToUint32 (bd_IP d) = (key, None)" by (metis prod.collapse)
    have up: "e_update (k_v4 K) key (resolve_ttl (clk 0) (bd_Entry d)) (m_v4 m) = (e, m_v4 m1)"
      using assms(2) key by (auto simp: batch_step_def Let_def split: prod.splits)
    show ?thesis
    proof (cases e)
      case None
      then show ?thesis
        using k key ebpf_map.update_ok [OF assms(1)] ebpf_map.update_frame [OF assms(1)] up
        by (metis option.distinct(1) option.inject)
    next
      case (Some a)
      then show ?thesis
        using k up ebpf_map.update_err [OF assms(1)] by auto
    qed
  next
    case (Some a)
    then show ?thesis
      using assms(2) k by (auto simp: batch_step_def split: prod.splits)
  qed
qed

lemma batch_loop_results:
  assumes "ebpf_map (k_v4 K)" "batch_loop K clk actor ds m = (errs, m')"
  shows "length errs = length ds \<and> m_rl m' = m_rl m \<and>
    (\<forall>i < length ds. IP_To4 (bd_IP (ds ! i)) = [] \<longrightarrow> errs ! i = Some ''not an IPv4 address'') \<and>
    (\<forall>k v. km_view (m_v4 m') k = Some v \<longrightarrow> km_view (m_v4 m) k = Some v \<or>
       (\<exists>d \<in> set ds. \<exists>t. IPv4ToUint32 (bd_IP d) = (k, None) \<and> v = resolve_ttl t (bd_Entry d)))"
  using assms(2)
proof (induction ds arbitrary: clk m errs)
  case (Cons d ds)
  obtain e m1 where r: "batch_step K clk actor d m = (e, m1)" by fastforce
  obtain es where l: "batch_loop K (clk_from 2 clk) actor ds m1 = (es, m')" and es: "errs = e # es"
    using Cons.prems r by (auto split: prod.splits)
  show ?case
    using Cons.IH [OF l] es batch_step_results [OF assms(1) r]
    by (auto simp: nth_Cons split: nat.split) blast+
qed simp

text \<open>A batch takes one token of the limiter whatever its length and returns
  one result per decision.  When the limiter refuses it nothing is written; when
  it accepts, every decision without an IPv4 address reports that error, and
  every entry of the blocklist after the batch was there before it or is the
  entry of one of the decisions with its expiry made absolute.\<close>

theorem batch_results:
  assumes "ebpf_map (k_v4 K)"
    and "Manager_BlockIPv4Batch K clk ds actor m = (errs, m')"
  shows "length errs = length ds
    \<and> m_rl m' = snd (MapRateLimiter_Check OpBlockIP (clk 0) (m_rl m))
    \<and> (case fst (MapRateLimiter_Check OpBlockIP (clk 0) (m_rl m)) of
        Some e \<Rightarrow> errs = replicate (length ds) (Some (''batch rate limited: '' @ e)) \<and> m_v4 m' = m_v4 m
      | None \<Rightarrow>
          (\<forall>i < length ds. IP_To4 (bd_IP (ds ! i)) = [] \<longrightarrow> errs ! i = Some ''not an IPv4 address'')
          \<and> (\<forall>k v. km_view (m_v4 m') k = Some v \<longrightarrow> km_view (m_v4 m) k = Some v \<or>
              (\<exists>d \<in> set ds. \<exists>t. IPv4ToUint32 (bd_IP d) = (k, None) \<and> v = resolve_ttl t (bd_Entry d))))"
proof (cases "MapRateLimiter_Check OpBlockIP (clk 0) (m_rl m)")
  case (Pair e rl)
  show ?thesis
  proof (cases e)
    case None
    then have "batch_loop K (clk_from 1 clk) actor ds (m\<lparr>m_rl := rl\<rparr>) = (errs, m')"
      using assms(2) Pair by (simp add: Manager_BlockIPv4Batch_def)
    from batch_loop_results [OF assms(1) this] show ?thesis
      using Pair None by simp
  next
    case (Some a)
    then show ?thesis
      using assms(2) Pair by (auto simp: Manager_BlockIPv4Batch_def)
  qed
qed

theorem batch_results_witness:
  "fst (Manager_BlockIPv4Batch falx_kernel (\<lambda>_. 0)
      [\<lparr>bd_IP = [1], bd_Entry = BlockEntry0\<rparr>, \<lparr>bd_IP = [10, 0, 0, 1], bd_Entry = BlockEntry0\<rparr>] ''ai''
      (falx_manager (\<lambda>_. 0) DefaultRateLimitConfig)) ! 0 = Some ''not an IPv4 address''"
proof -
  let ?ds = "[\<lparr>bd_IP = [1], bd_Entry = BlockEntry0\<rparr>, \<lparr>bd_IP = [10, 0, 0, 1], bd_Entry = BlockEntry0\<rparr>]"
  let ?m = "falx_manager (\<lambda>_. 0) DefaultRateLimitConfig"
  let ?b = "Manager_BlockIPv4Batch falx_kernel (\<lambda>_. 0) ?ds ''ai'' ?m"
  have "?b = (fst ?b, snd ?b)" by simp
  from batch_results [OF falx_kernel_v4(2) this]
  have "\<forall>i < length ?ds. IP_To4 (bd_IP (?ds ! i)) = [] \<longrightarrow> fst ?b ! i = Some ''not an IPv4 address''"
    by (simp add: falx_manager_def limiter_eval)
  from this [rule_format, of 0] show ?thesis by (simp add: IP_To4_def)
qed

end
