(* ===== verification/Hardening.thy ===== *)
theory Hardening
  imports BpfManager
begin

text \<open>
  The hardened writer above the map manager (\<open>pkg/bpfmaps/hardening.go\<close>): it skips
  a write whose fingerprint is already cached, limits the writes per window of
  100 ms, refuses writes near the map's capacity, and undoes a batch when one of
  its writes fails.  The dedup cache is an association list from the text of an
  address to a fingerprint, in the order Go's map iteration happens to take.
  The lemmas show the window bound, that the entry counter is the size of the
  cache, what a skipped write means, and what a failed batch leaves behind.
\<close>

section \<open>State\<close>

record rollbackEntry =
  rb_ip :: bytes
  rb_existed :: bool
  rb_entry :: BlockEntry

record HardenedWriter =
  hw_mgr :: Manager
  hw_cache :: "(string \<times> u64) list"
  hw_windowCount :: int
  hw_windowReset :: gotime
  hw_windowMaxOps :: int
  hw_v4Count :: int
  hw_v4Max :: int
  hw_dedupeHits :: u64
  hw_windowDrops :: u64
  hw_capacityDrop :: u64
  hw_batchCommits :: u64
  hw_batchRollbacks :: u64

definition NewHardenedWriter :: "gotime \<Rightarrow> Manager \<Rightarrow> int \<Rightarrow> int \<Rightarrow> HardenedWriter" where
  "NewHardenedWriter now mgr maxOpsPerWindow maxEntries =
     \<lparr>hw_mgr = mgr, hw_cache = [], hw_windowCount = 0, hw_windowReset = now,
      hw_windowMaxOps = (if maxOpsPerWindow \<le> 0 then 1000 else maxOpsPerWindow),
      hw_v4Count = 0, hw_v4Max = (if maxEntries \<le> 0 then 65536 else maxEntries),
      hw_dedupeHits = 0, hw_windowDrops = 0, hw_capacityDrop = 0, hw_batchCommits = 0,
      hw_batchRollbacks = 0\<rparr>"

section \<open>Fingerprint and window\<close>

definition fnv_step :: "u64 \<Rightarrow> u64 \<Rightarrow> u64" where
  "fnv_step h x = xor h x * 1099511628211"

definition entryFingerprint :: "BlockEntry \<Rightarrow> u64" where
  "entryFingerprint e =
     (let h = 14695981039346656037;
          h = fnv_step h (ucast (Action e));
          h = fnv_step h (ucast (RuleID e));
          h = fnv_step h (ucast (ThreatScore e));
          h = fnv_step h (ucast (Reason e))
      in h)"

text \<open>The window is opened anew by the first write after it ended.\<close>

definition roll_window :: "gotime \<Rightarrow> HardenedWriter \<Rightarrow> HardenedWriter" where
  "roll_window now h =
     (if time_After now (hw_windowReset h)
      then h\<lparr>hw_windowCount := 0, hw_windowReset := time_Add now (100 * Millisecond)\<rparr> else h)"

definition checkWindow :: "gotime \<Rightarrow> HardenedWriter \<Rightarrow> bool \<times> HardenedWriter" where
  "checkWindow now h =
     (let h = roll_window now h in
      if hw_windowCount h \<ge> hw_windowMaxOps h then (False, h)
      else (True, h\<lparr>hw_windowCount := hw_windowCount h + 1\<rparr>))"

section \<open>Single write\<close>

definition cache_put :: "string \<Rightarrow> u64 \<Rightarrow> bool \<Rightarrow> HardenedWriter \<Rightarrow> HardenedWriter" where
  "cache_put key fingerprint found h =
     (let h = (if \<not> found then h\<lparr>hw_v4Count := hw_v4Count h + 1\<rparr> else h)
      in h\<lparr>hw_cache := AList.update key fingerprint (hw_cache h)\<rparr>)"

definition HardenedWriter_BlockIPv4 ::
    "kernel \<Rightarrow> clock \<Rightarrow> bytes \<Rightarrow> BlockEntry \<Rightarrow> string \<Rightarrow> HardenedWriter \<Rightarrow> error \<times> HardenedWriter" where
  "HardenedWriter_BlockIPv4 K clk ip entry actor h =
     (let fingerprint = entryFingerprint entry; key = IP_String ip; existing = map_of (hw_cache h) key in
      if existing = Some fingerprint then (None, h\<lparr>hw_dedupeHits := hw_dedupeHits h + 1\<rparr>)
      else let (ok, h) = checkWindow (clk 0) h in
        if \<not> ok then
          (Some (''write window exceeded ('' @ dec_int (hw_windowMaxOps h) @ '' ops/100ms)''),
           h\<lparr>hw_windowDrops := hw_windowDrops h + 1\<rparr>)
        else if hw_v4Count h \<ge> \<lfloor>rat_of_int (hw_v4Max h) * 0.95\<rfloor> then
          (Some ''blocklist capacity limit reached'', h\<lparr>hw_capacityDrop := hw_capacityDrop h + 1\<rparr>)
        else let (err, m) = Manager_BlockIPv4 K (clk_from 1 clk) ip entry actor (hw_mgr h);
                 h = h\<lparr>hw_mgr := m\<rparr> in
          case err of
            Some e \<Rightarrow> (Some e, h)
          | None \<Rightarrow> (None, cache_put key fingerprint (existing \<noteq> None) h))"

section \<open>Batch write\<close>

text \<open>Undo the recorded writes from the last to the first; each undo makes three
  clock readings.\<close>

fun rollback ::
    "kernel \<Rightarrow> clock \<Rightarrow> rollbackEntry list \<Rightarrow> string \<Rightarrow> HardenedWriter \<Rightarrow> HardenedWriter" where
  "rollback K clk [] actor h = h"
| "rollback K clk (e # es) actor h =
     rollback K (clk_from 3 clk) es actor
       (if rb_existed e then
          h\<lparr>hw_mgr := snd (Manager_BlockIPv4 K clk (rb_ip e) (rb_entry e) (actor @ ''_rollback'') (hw_mgr h))\<rparr>
        else
          h\<lparr>hw_mgr := snd (Manager_UnblockIPv4 K clk (rb_ip e) (actor @ ''_rollback'') (hw_mgr h)),
            hw_cache := AList.delete (IP_String (rb_ip e)) (hw_cache h),
            hw_v4Count := hw_v4Count h - 1\<rparr>)"

definition HardenedWriter_rollback ::
    "kernel \<Rightarrow> clock \<Rightarrow> rollbackEntry list \<Rightarrow> string \<Rightarrow> HardenedWriter \<Rightarrow> HardenedWriter" where
  "HardenedWriter_rollback K clk entries actor h = rollback K clk (rev entries) actor h"

text \<open>The loop over the decisions with the rollback log so far; a decision makes
  four clock readings.\<close>

fun write_loop ::
    "kernel \<Rightarrow> clock \<Rightarrow> BlockDecision list \<Rightarrow> string \<Rightarrow> rollbackEntry list \<Rightarrow> HardenedWriter
      \<Rightarrow> error \<times> HardenedWriter" where
  "write_loop K clk [] actor undo h = (None, h\<lparr>hw_batchCommits := hw_batchCommits h + 1\<rparr>)"
| "write_loop K clk (d # ds) actor undo h =
     (let key = IP_String (bd_IP d); fingerprint = entryFingerprint (bd_Entry d);
          existing = map_of (hw_cache h) key in
      if existing = Some fingerprint then
        write_loop K (clk_from 4 clk) ds actor undo (h\<lparr>hw_dedupeHits := hw_dedupeHits h + 1\<rparr>)
      else
        let (blocked, prev, _) = Manager_IsBlockedIPv4 K (clk 0) (bd_IP d) (hw_mgr h);
            prevEntry = (if blocked then prev else BlockEntry0);
            (err, m) = Manager_BlockIPv4 K (clk_from 1 clk) (bd_IP d) (bd_Entry d) actor (hw_mgr h);
            h = h\<lparr>hw_mgr := m\<rparr>
        in case err of
             Some e \<Rightarrow>
               (let h = HardenedWriter_rollback K (clk_from 4 clk) undo actor h in
                (Some (''batch write failed at '' @ IP_String (bd_IP d) @ '': '' @ e
                   @ '' '' @ [CHR 0xE2, CHR 0x80, CHR 0x94] @ '' rolled back '' @ dec (length undo) @ '' entries''),
                 h\<lparr>hw_batchRollbacks := hw_batchRollbacks h + 1\<rparr>))
           | None \<Rightarrow>
               write_loop K (clk_from 4 clk) ds actor
                 (undo @ [\<lparr>rb_ip = bd_IP d, rb_existed = blocked, rb_entry = prevEntry\<rparr>])
                 (cache_put key fingerprint (existing \<noteq> None) h))"

definition HardenedWriter_WriteBatch ::
    "kernel \<Rightarrow> clock \<Rightarrow> BlockDecision list \<Rightarrow> string \<Rightarrow> HardenedWriter \<Rightarrow> error \<times> HardenedWriter" where
  "HardenedWriter_WriteBatch K clk decisions actor h =
     (if decisions = [] then (None, h)
      else let h = roll_window (clk 0) h; n = int (length decisions) in
        if hw_windowCount h + n > hw_windowMaxOps h then
          (Some (''batch exceeds write window: '' @ dec_int n @ '' ops requested, ''
             @ dec_int (hw_windowMaxOps h - hw_windowCount h) @ '' remaining''),
           h\<lparr>hw_windowDrops := hw_windowDrops h + word_of_int n\<rparr>)
        else write_loop K (clk_from 1 clk) decisions actor []
               (h\<lparr>hw_windowCount := hw_windowCount h + n\<rparr>))"

section \<open>Purge of the cache\<close>

text \<open>One key of the purge, and the purge over the keys the cache has when it
  starts; every key makes a clock reading of its own.\<close>

definition purge_key :: "kernel \<Rightarrow> gotime \<Rightarrow> string \<Rightarrow> HardenedWriter \<Rightarrow> HardenedWriter" where
  "purge_key K now key h =
     (let ip = ParseIP key in
      if ip = [] then h\<lparr>hw_cache := AList.delete key (hw_cache h)\<rparr>
      else if \<not> fst (Manager_IsBlockedIPv4 K now ip (hw_mgr h)) then
        h\<lparr>hw_cache := AList.delete key (hw_cache h), hw_v4Count := hw_v4Count h - 1\<rparr>
      else h)"

fun purge_keys :: "kernel \<Rightarrow> clock \<Rightarrow> string list \<Rightarrow> HardenedWriter \<Rightarrow> HardenedWriter" where
  "purge_keys K clk [] h = h"
| "purge_keys K clk (key # keys) h = purge_keys K (clk_from 1 clk) keys (purge_key K (clk 0) key h)"

definition PurgeExpiredDedup :: "kernel \<Rightarrow> clock \<Rightarrow> HardenedWriter \<Rightarrow> HardenedWriter" where
  "PurgeExpiredDedup K clk h = purge_keys K clk (map fst (hw_cache h)) h"

definition CapacityPercent :: "HardenedWriter \<Rightarrow> float64" where
  "CapacityPercent h = of_int (hw_v4Count h) / of_int (hw_v4Max h) * 100"

section \<open>Lemmas on the window\<close>

lemma checkWindow_open:
  "t \<le> hw_windowReset h \<Longrightarrow>
   checkWindow t h = (if hw_windowCount h \<ge> hw_windowMaxOps h then (False, h)
                      else (True, h\<lparr>hw_windowCount := hw_windowCount h + 1\<rparr>))"
  by (simp add: checkWindow_def roll_window_def time_After_def Let_def)

lemma accepted_within_window:
  assumes "\<forall>t\<in>set ts. t \<le> hw_windowReset h" "hw_windowCount h \<le> hw_windowMaxOps h"
  shows "int (accepted checkWindow ts h) \<le> hw_windowMaxOps h - hw_windowCount h"
  using assms
proof (induction ts arbitrary: h)
  case (Cons t ts)
  show ?case
  proof (cases "hw_windowCount h \<ge> hw_windowMaxOps h")
    case True
    then show ?thesis using Cons.IH [of h] Cons.prems by (simp add: checkWindow_open)
  next
    case False
    then show ?thesis
      using Cons.IH [of "h\<lparr>hw_windowCount := hw_windowCount h + 1\<rparr>"] Cons.prems
      by (simp add: checkWindow_open)
  qed
qed simp

lemma accepted_in_interval:
  assumes "sorted ts" "\<forall>t\<in>set ts. t0 \<le> t \<and> t \<le> t0 + 100 * Millisecond"
    and "0 \<le> hw_windowCount h" "hw_windowCount h \<le> hw_windowMaxOps h"
  shows "int (accepted checkWindow ts h) \<le> 2 * hw_windowMaxOps h - hw_windowCount h"
  using assms
proof (induction ts arbitrary: h)
  case (Cons t ts)
  show ?case
  proof (cases "t \<le> hw_windowReset h")
    case True
    show ?thesis
    proof (cases "hw_windowCount h \<ge> hw_windowMaxOps h")
      case full: True
      then show ?thesis using Cons.IH [of h] Cons.prems True by (simp add: checkWindow_open)
    next
      case False
      then show ?thesis
        using Cons.IH [of "h\<lparr>hw_windowCount := hw_windowCount h + 1\<rparr>"] Cons.prems True
        by (simp add: checkWindow_open)
    qed
  next
    case False
    let ?h = "roll_window t h"
    have h: "hw_windowCount ?h = 0" "hw_windowReset ?h = t + 100 * Millisecond"
        "hw_windowMaxOps ?h = hw_windowMaxOps h"
      using False by (simp_all add: roll_window_def go_time)
    have "accepted checkWindow (t # ts) h = accepted checkWindow (t # ts) ?h"
      using False by (simp add: checkWindow_def roll_window_def go_time)
    moreover have "int (accepted checkWindow (t # ts) ?h) \<le> hw_windowMaxOps h"
      using accepted_within_window [of "t # ts" ?h] Cons.prems h by (fastforce simp: Millisecond_def)
    ultimately show ?thesis
      using Cons.prems by linarith
  qed
qed simp

section \<open>Lemmas on the cache\<close>

text \<open>The cache has no duplicate key, every key is the text of an address, and the
  entry counter is its size.\<close>

definition hw_inv :: "HardenedWriter \<Rightarrow> bool" where
  "hw_inv h \<longleftrightarrow> distinct (map fst (hw_cache h)) \<and> (\<forall>k \<in> fst ` set (hw_cache h). ParseIP k \<noteq> [])
     \<and> hw_v4Count h = int (length (hw_cache h))"

lemma length_AList_update:
  "length (AList.update k v al) = length al + of_bool (map_of al k = None)"
  by (induction al) auto

lemma length_AList_delete:
  "distinct (map fst al) \<Longrightarrow> length (AList.delete k al) = length al - of_bool (k \<in> fst ` set al)"
proof (induction al)
  case (Cons p al)
  have "AList.delete k al = al" if "k \<notin> fst ` set al"
    using that by (simp add: delete_id)
  then show ?case
    using Cons by (cases al) (auto simp: AList.delete_eq image_iff filter_id_conv)
qed simp

lemma hw_inv_frame [simp]:
  "hw_inv (h\<lparr>hw_mgr := m\<rparr>) = hw_inv h"
  "hw_inv (h\<lparr>hw_windowCount := c\<rparr>) = hw_inv h"
  "hw_inv (h\<lparr>hw_windowReset := t\<rparr>) = hw_inv h"
  "hw_inv (h\<lparr>hw_dedupeHits := n\<rparr>) = hw_inv h"
  "hw_inv (h\<lparr>hw_windowDrops := n\<rparr>) = hw_inv h"
  "hw_inv (h\<lparr>hw_capacityDrop := n\<rparr>) = hw_inv h"
  "hw_inv (h\<lparr>hw_batchCommits := n\<rparr>) = hw_inv h"
  "hw_inv (h\<lparr>hw_batchRollbacks := n\<rparr>) = hw_inv h"
  by (simp_all add: hw_inv_def)

lemma checkWindow_frame:
  "checkWindow t h = (ok, h') \<Longrightarrow>
   hw_cache h' = hw_cache h \<and> hw_v4Count h' = hw_v4Count h \<and> hw_mgr h' = hw_mgr h \<and> hw_v4Max h' = hw_v4Max h"
  by (auto simp: checkWindow_def roll_window_def Let_def split: if_splits)

lemma hw_inv_cache_put:
  assumes "hw_inv h" "ParseIP key \<noteq> []" "found \<longleftrightarrow> map_of (hw_cache h) key \<noteq> None"
  shows "hw_inv (cache_put key fp found h)"
  using assms
  by (auto simp: hw_inv_def cache_put_def Let_def length_AList_update distinct_update dom_update
      map_of_eq_None_iff)

lemma BlockIPv4_ok_ParseIP:
  assumes "Manager_BlockIPv4 K clk ip entry actor m = (None, m')"
  shows "ParseIP (IP_String ip) \<noteq> []"
proof -
  obtain key where "IPv4ToUint32 ip = (key, None)" using BlockIPv4_ok [OF assms] .
  then show ?thesis
    by (simp add: IPv4ToUint32_ok ParseIP_String_v4)
qed

lemma hw_inv_BlockIPv4:
  assumes "hw_inv h" "HardenedWriter_BlockIPv4 K clk ip entry actor h = (r, h')"
  shows "hw_inv h'"
proof (cases "map_of (hw_cache h) (IP_String ip) = Some (entryFingerprint entry)")
  case True
  then show ?thesis
    using assms by (auto simp: HardenedWriter_BlockIPv4_def hw_inv_def)
next
  case False
  obtain ok h1 where w: "checkWindow (clk 0) h = (ok, h1)" by fastforce
  note f = checkWindow_frame [OF w]
  have inv1: "hw_inv h1" using f assms(1) by (simp add: hw_inv_def)
  obtain e m where b: "Manager_BlockIPv4 K (clk_from 1 clk) ip entry actor (hw_mgr h1) = (e, m)" by fastforce
  have "hw_inv (cache_put (IP_String ip) (entryFingerprint entry)
      (map_of (hw_cache h) (IP_String ip) \<noteq> None) (h1\<lparr>hw_mgr := m\<rparr>))" if "e = None"
    using that b inv1 f BlockIPv4_ok_ParseIP [of K "clk_from 1 clk" ip entry actor "hw_mgr h1" m]
    by (intro hw_inv_cache_put) (auto simp: hw_inv_def)
  then show ?thesis
    using assms(2) False w b inv1
    by (auto simp: HardenedWriter_BlockIPv4_def Let_def hw_inv_def split: if_splits option.splits)
qed

abbreviation cache_keys :: "HardenedWriter \<Rightarrow> string set" where
  "cache_keys h \<equiv> fst ` set (hw_cache h)"

lemma cache_keys_delete: "fst ` set (AList.delete k al) = fst ` set al - {k}"
  by (force simp: AList.delete_eq)

lemma hw_inv_delete:
  assumes "hw_inv h" "key \<in> cache_keys h"
  shows "hw_inv (h\<lparr>hw_mgr := m, hw_cache := AList.delete key (hw_cache h), hw_v4Count := hw_v4Count h - 1\<rparr>)"
proof -
  have "0 < length (hw_cache h)" using assms(2) by auto
  then show ?thesis
    using assms
    by (cases "length (hw_cache h)")
      (auto simp: hw_inv_def length_AList_delete distinct_delete cache_keys_delete)
qed

lemma purge_key_inv:
  assumes "hw_inv h" "key \<in> cache_keys h"
  shows "hw_inv (purge_key K now key h)" "cache_keys h - {key} \<subseteq> cache_keys (purge_key K now key h)"
    "cache_keys (purge_key K now key h) \<subseteq> cache_keys h" "hw_mgr (purge_key K now key h) = hw_mgr h"
proof -
  have "ParseIP key \<noteq> []" using assms by (auto simp: hw_inv_def)
  then show "hw_inv (purge_key K now key h)"
    using hw_inv_delete [OF assms, of "hw_mgr h"] assms by (simp add: purge_key_def Let_def)
  show "cache_keys h - {key} \<subseteq> cache_keys (purge_key K now key h)"
    "cache_keys (purge_key K now key h) \<subseteq> cache_keys h" "hw_mgr (purge_key K now key h) = hw_mgr h"
    by (auto simp: purge_key_def Let_def cache_keys_delete)
qed

lemma purge_keys_inv:
  "hw_inv h \<Longrightarrow> distinct keys \<Longrightarrow> set keys \<subseteq> cache_keys h \<Longrightarrow> hw_inv (purge_keys K clk keys h)"
proof (induction keys arbitrary: clk h)
  case (Cons key keys)
  have "set keys \<subseteq> cache_keys (purge_key K (clk 0) key h)"
    using purge_key_inv(2) [of h key K "clk 0"] Cons.prems by auto
  then show ?case
    using purge_key_inv(1) [of h key K "clk 0"] Cons.prems by (simp add: Cons.IH)
qed simp

lemma rollback_inv:
  assumes "hw_inv h" "distinct (map (IP_String \<circ> rb_ip) es)" "(IP_String \<circ> rb_ip) ` set es \<subseteq> cache_keys h"
  shows "hw_inv (rollback K clk es actor h)"
  using assms
proof (induction es arbitrary: clk h)
  case (Cons e es)
  show ?case
  proof (cases "rb_existed e")
    case True
    then show ?thesis
      using Cons.prems by (auto intro!: Cons.IH simp: image_subset_iff)
  next
    case False
    then show ?thesis
      using Cons.prems hw_inv_delete [OF Cons.prems(1)]
      by (auto intro!: Cons.IH simp: cache_keys_delete image_subset_iff image_iff)
  qed
qed simp

lemma cache_put_keys: "cache_keys (cache_put key fp found h) = insert key (cache_keys h)"
  by (auto simp: cache_put_def Let_def dom_update)

lemma write_loop_inv:
  assumes "hw_inv h" "(IP_String \<circ> rb_ip) ` set undo \<subseteq> cache_keys h"
    and "distinct (map (IP_String \<circ> rb_ip) undo @ map (IP_String \<circ> bd_IP) ds)"
  shows "hw_inv (snd (write_loop K clk ds actor undo h))"
  using assms
proof (induction ds arbitrary: clk undo h)
  case Nil
  then show ?case by simp
next
  case (Cons d ds)
  let ?key = "IP_String (bd_IP d)" and ?fp = "entryFingerprint (bd_Entry d)"
  show ?case
  proof (cases "map_of (hw_cache h) ?key = Some ?fp")
    case True
    then show ?thesis
      using Cons.prems by (auto intro!: Cons.IH simp: image_subset_iff)
  next
    case False
    obtain bl pv x where q: "Manager_IsBlockedIPv4 K (clk 0) (bd_IP d) (hw_mgr h) = (bl, pv, x)"
      by (metis prod_cases3)
    obtain e m where b: "Manager_BlockIPv4 K (clk_from 1 clk) (bd_IP d) (bd_Entry d) actor (hw_mgr h) = (e, m)"
      by fastforce
    let ?h = "h\<lparr>hw_mgr := m\<rparr>"
    have inv: "hw_inv ?h" using Cons.prems(1) by simp
    show ?thesis
    proof (cases e)
      case None
      let ?h1 = "cache_put ?key ?fp (map_of (hw_cache h) ?key \<noteq> None) ?h"
      let ?e = "\<lparr>rb_ip = bd_IP d, rb_existed = bl, rb_entry = if bl then pv else BlockEntry0\<rparr>"
      have "hw_inv ?h1"
        using inv b None BlockIPv4_ok_ParseIP by (intro hw_inv_cache_put) auto
      then have "hw_inv (snd (write_loop K (clk_from 4 clk) ds actor (undo @ [?e]) ?h1))"
        using Cons.prems by (intro Cons.IH) (auto simp: cache_put_keys image_subset_iff)
      then show ?thesis
        using False q b None by (simp add: Let_def)
    next
      case (Some err)
      have "hw_inv (rollback K (clk_from 4 clk) (rev undo) actor ?h)"
        by (rule rollback_inv) (use inv Cons.prems in \<open>auto simp: rev_map [symmetric] comp_def\<close>)
      then show ?thesis
        using False q b Some by (simp add: Let_def HardenedWriter_rollback_def)
    qed
  qed
qed

section \<open>Properties\<close>

text \<open>In any interval of 100 ms the write window admits at most twice the
  configured number of writes, and within one window at most that number.\<close>

theorem write_window_bound:
  assumes "sorted ts" "\<forall>t\<in>set ts. t0 \<le> t \<and> t \<le> t0 + 100 * Millisecond"
    and "0 \<le> hw_windowCount h" "hw_windowCount h \<le> hw_windowMaxOps h"
  shows "int (accepted checkWindow ts h) \<le> 2 * hw_windowMaxOps h \<and>
    ((\<forall>t\<in>set ts. t \<le> hw_windowReset h) \<longrightarrow> int (accepted checkWindow ts h) \<le> hw_windowMaxOps h)"
  using accepted_in_interval [OF assms] accepted_within_window [of ts h] assms(3,4) by auto

theorem write_window_bound_witness:
  "int (accepted checkWindow [0, 1, 100000000] (NewHardenedWriter 0 (falx_manager (\<lambda>_. 0) DefaultRateLimitConfig) 2 0)) \<le> 4"
  using write_window_bound [of "[0, 1, 100000000]" 0
      "NewHardenedWriter 0 (falx_manager (\<lambda>_. 0) DefaultRateLimitConfig) 2 0"]
  by (simp add: NewHardenedWriter_def Millisecond_def)

text \<open>The counter that the capacity check compares with the limit is the
  number of cached addresses: every operation keeps this, a batch when its
  addresses are distinct, also when it is rolled back.\<close>

theorem hardened_count_invariant:
  assumes "hw_inv h"
  shows "hw_inv (snd (HardenedWriter_BlockIPv4 K clk ip entry actor h))
    \<and> hw_inv (PurgeExpiredDedup K clk h)
    \<and> (distinct (map (IP_String \<circ> bd_IP) ds) \<longrightarrow> hw_inv (snd (HardenedWriter_WriteBatch K clk ds actor h)))"
proof (intro conjI impI)
  show "hw_inv (snd (HardenedWriter_BlockIPv4 K clk ip entry actor h))"
    by (rule hw_inv_BlockIPv4 [OF assms]) (rule prod.collapse [symmetric])
  show "hw_inv (PurgeExpiredDedup K clk h)"
    unfolding PurgeExpiredDedup_def using assms by (intro purge_keys_inv) (auto simp: hw_inv_def)
  assume "distinct (map (IP_String \<circ> bd_IP) ds)"
  moreover have "hw_inv (roll_window t h)" for t
    using assms by (simp add: roll_window_def)
  ultimately show "hw_inv (snd (HardenedWriter_WriteBatch K clk ds actor h))"
    using assms by (auto simp: HardenedWriter_WriteBatch_def Let_def intro!: write_loop_inv)
qed

theorem hardened_count_invariant_witness:
  "hw_inv (PurgeExpiredDedup falx_kernel (\<lambda>_. 0)
     (NewHardenedWriter 0 (falx_manager (\<lambda>_. 0) DefaultRateLimitConfig) 2 0))"
proof -
  have "hw_inv (NewHardenedWriter 0 (falx_manager (\<lambda>_. 0) DefaultRateLimitConfig) 2 0)"
    by (simp add: hw_inv_def NewHardenedWriter_def)
  from hardened_count_invariant [OF this, of falx_kernel "\<lambda>_. 0" "[]" BlockEntry0 "[]" "[]"]
  show ?thesis by blast
qed

section \<open>Where the writer departs from its description\<close>

text \<open>A block for ten seconds is repeated twenty seconds later, before any purge of
  the cache: the writer reports success and the address is not blocked.\<close>

lemma dedup_skips_expired_block:
  "let entry = BlockEntry0\<lparr>ExpireAt := 10, Action := ActionDrop\<rparr>;
       t = 62135597000000000000; ip = [10, 0, 0, 1];
       h0 = NewHardenedWriter 0 (falx_manager (\<lambda>_. 0) DefaultRateLimitConfig) 0 0;
       h1 = snd (HardenedWriter_BlockIPv4 falx_kernel (\<lambda>_. t) ip entry ''ai'' h0);
       (err, h2) = HardenedWriter_BlockIPv4 falx_kernel (\<lambda>_. t + 20 * Second) ip entry ''ai'' h1
   in err = None \<and> Manager_IsBlockedIPv4 falx_kernel (t + 20 * Second) ip (hw_mgr h2) = (False, BlockEntry0, None)"
  by (simp add: manager_eval NewHardenedWriter_def HardenedWriter_BlockIPv4_def checkWindow_def
      roll_window_def cache_put_def go_time BlockEntry0_def floor_eq_iff)

text \<open>A batch fails because the limiter has no token left.  Restoring the entry it
  had overwritten needs a token as well, so the restore is refused in silence
  and the address keeps the entry of the failed batch.\<close>

lemma rollback_is_rate_limited:
  "let old = BlockEntry0\<lparr>Action := ActionDrop\<rparr>; new = BlockEntry0\<lparr>Action := ActionRedirect\<rparr>;
       m = falx_manager (\<lambda>_. 0) (DefaultRateLimitConfig\<lparr>BlockIPRPS := 1\<rparr>)
             \<lparr>m_v4 := \<lparr>km_data = [(167772161, old)], km_env = 0\<rparr>\<rparr>;
       (err, h) = HardenedWriter_WriteBatch falx_kernel (\<lambda>_. 0)
          [\<lparr>bd_IP = [10, 0, 0, 1], bd_Entry = new\<rparr>, \<lparr>bd_IP = [10, 0, 0, 2], bd_Entry = new\<rparr>] ''ai''
          (NewHardenedWriter 0 m 0 0)
   in err \<noteq> None \<and> Manager_IsBlockedIPv4 falx_kernel 0 [10, 0, 0, 1] m = (True, old, None)
      \<and> Manager_IsBlockedIPv4 falx_kernel 0 [10, 0, 0, 1] (hw_mgr h) = (True, new, None)"
  by (simp add: manager_eval NewHardenedWriter_def HardenedWriter_WriteBatch_def
      HardenedWriter_rollback_def roll_window_def cache_put_def go_time BlockEntry0_def action_consts
      IP_String_v4_eq_iff)

end
