(* ===== verification/Breaker.thy ===== *)
theory Breaker
  imports Prelude
begin

text \<open>
  The circuit breaker and its recovery schedule (\<open>internal/failsafe/state.go\<close> and
  \<open>recovery.go\<close>).  The breaker is a record and every method a function of the
  clock reading it makes; \<open>cb_apply\<close> names the methods as a datatype of calls, so
  a history is a list of calls.  The lemmas show that the transitions form a
  path of legal edges, that the delivered events are exactly that path, that the
  trip counter counts the openings, and that the cooldown is the exponential
  backoff capped at its maximum without overflow.
\<close>

section \<open>State\<close>

datatype CircuitState = StateClosed | StateOpen | StateHalfOpen

fun CircuitState_String :: "CircuitState \<Rightarrow> string" where
  "CircuitState_String StateClosed = ''CLOSED''"
| "CircuitState_String StateOpen = ''OPEN''"
| "CircuitState_String StateHalfOpen = ''HALF_OPEN''"

record StateTransition =
  st_From :: CircuitState
  st_To :: CircuitState
  st_At :: gotime
  st_Reason :: string
  st_CurrentPPS :: u64
  st_CurrentBPS :: u64
  st_TripCount :: int

record CircuitBreaker =
  cb_state :: CircuitState
  cb_openedAt :: gotime
  cb_halfOpenAt :: gotime
  cb_lastClosedAt :: gotime
  cb_tripCount :: int
  cb_violations :: int
  cb_transitions :: "StateTransition list"

definition newCircuitBreaker :: CircuitBreaker where
  "newCircuitBreaker = \<lparr>cb_state = StateClosed, cb_openedAt = 0, cb_halfOpenAt = 0,
     cb_lastClosedAt = 0, cb_tripCount = 0, cb_violations = 0, cb_transitions = []\<rparr>"

definition cb_OpenDuration :: "gotime \<Rightarrow> CircuitBreaker \<Rightarrow> duration" where
  "cb_OpenDuration now cb =
     (if cb_state cb = StateOpen \<or> cb_state cb = StateHalfOpen then time_Sub now (cb_openedAt cb) else 0)"

section \<open>Methods\<close>

definition cb_emit :: "StateTransition \<Rightarrow> CircuitBreaker \<Rightarrow> CircuitBreaker" where
  "cb_emit t cb = cb\<lparr>cb_transitions := snd (chan_send 256 t (cb_transitions cb))\<rparr>"

definition cb_Trip :: "gotime \<Rightarrow> string \<Rightarrow> u64 \<Rightarrow> u64 \<Rightarrow> CircuitBreaker \<Rightarrow> bool \<times> CircuitBreaker" where
  "cb_Trip now reason pps bps cb =
     (if cb_state cb = StateOpen then (False, cb)
      else let prev = cb_state cb;
               cb = cb\<lparr>cb_state := StateOpen, cb_openedAt := now,
                       cb_tripCount := cb_tripCount cb + 1, cb_violations := 0\<rparr>
           in (True, cb_emit \<lparr>st_From = prev, st_To = StateOpen, st_At = cb_openedAt cb, st_Reason = reason,
                 st_CurrentPPS = pps, st_CurrentBPS = bps, st_TripCount = cb_tripCount cb\<rparr> cb))"

definition cb_AttemptRecovery :: "gotime \<Rightarrow> u64 \<Rightarrow> u64 \<Rightarrow> CircuitBreaker \<Rightarrow> bool \<times> CircuitBreaker" where
  "cb_AttemptRecovery now pps bps cb =
     (if cb_state cb \<noteq> StateOpen then (False, cb)
      else let cb = cb\<lparr>cb_state := StateHalfOpen, cb_halfOpenAt := now\<rparr>
           in (True, cb_emit \<lparr>st_From = StateOpen, st_To = StateHalfOpen, st_At = cb_halfOpenAt cb,
                 st_Reason = ''cooldown_expired'', st_CurrentPPS = pps, st_CurrentBPS = bps,
                 st_TripCount = cb_tripCount cb\<rparr> cb))"

definition cb_Close :: "gotime \<Rightarrow> u64 \<Rightarrow> u64 \<Rightarrow> CircuitBreaker \<Rightarrow> bool \<times> CircuitBreaker" where
  "cb_Close now pps bps cb =
     (if cb_state cb = StateClosed then (False, cb)
      else let prev = cb_state cb; cb = cb\<lparr>cb_state := StateClosed, cb_lastClosedAt := now\<rparr>
           in (True, cb_emit \<lparr>st_From = prev, st_To = StateClosed, st_At = cb_lastClosedAt cb,
                 st_Reason = ''traffic_normalized'', st_CurrentPPS = pps, st_CurrentBPS = bps,
                 st_TripCount = cb_tripCount cb\<rparr> cb))"

definition cb_ReTrip :: "gotime \<Rightarrow> string \<Rightarrow> u64 \<Rightarrow> u64 \<Rightarrow> CircuitBreaker \<Rightarrow> bool \<times> CircuitBreaker" where
  "cb_ReTrip now reason pps bps cb =
     (if cb_state cb \<noteq> StateHalfOpen then (False, cb)
      else let cb = cb\<lparr>cb_state := StateOpen, cb_openedAt := now,
                       cb_tripCount := cb_tripCount cb + 1, cb_violations := 0\<rparr>
           in (True, cb_emit \<lparr>st_From = StateHalfOpen, st_To = StateOpen, st_At = cb_openedAt cb,
                 st_Reason = ''recovery_failed_'' @ reason, st_CurrentPPS = pps, st_CurrentBPS = bps,
                 st_TripCount = cb_tripCount cb\<rparr> cb))"

definition cb_IncrViolation :: "int \<Rightarrow> CircuitBreaker \<Rightarrow> bool \<times> CircuitBreaker" where
  "cb_IncrViolation threshold cb =
     (let cb = cb\<lparr>cb_violations := cb_violations cb + 1\<rparr> in (cb_violations cb \<ge> threshold, cb))"

definition cb_ResetViolation :: "CircuitBreaker \<Rightarrow> CircuitBreaker" where
  "cb_ResetViolation cb = cb\<lparr>cb_violations := 0\<rparr>"

definition cb_ResetTripCount :: "CircuitBreaker \<Rightarrow> CircuitBreaker" where
  "cb_ResetTripCount cb = cb\<lparr>cb_tripCount := 0\<rparr>"

record CircuitSnapshot =
  cs_State :: string
  cs_TripCount :: int
  cs_OpenDuration :: duration
  cs_OpenedAt :: gotime
  cs_Violations :: int

definition cb_Snapshot :: "gotime \<Rightarrow> CircuitBreaker \<Rightarrow> CircuitSnapshot" where
  "cb_Snapshot now cb = \<lparr>cs_State = CircuitState_String (cb_state cb), cs_TripCount = cb_tripCount cb,
     cs_OpenDuration = (if cb_state cb \<noteq> StateClosed then time_Sub now (cb_openedAt cb) else 0),
     cs_OpenedAt = cb_openedAt cb, cs_Violations = cb_violations cb\<rparr>"

text \<open>The calls of the methods that change the breaker.\<close>

datatype cb_call =
    CTrip gotime string u64 u64
  | CAttemptRecovery gotime u64 u64
  | CClose gotime u64 u64
  | CReTrip gotime string u64 u64
  | CIncrViolation int
  | CResetViolation
  | CResetTripCount

fun cb_apply :: "cb_call \<Rightarrow> CircuitBreaker \<Rightarrow> CircuitBreaker" where
  "cb_apply (CTrip now reason pps bps) cb = snd (cb_Trip now reason pps bps cb)"
| "cb_apply (CAttemptRecovery now pps bps) cb = snd (cb_AttemptRecovery now pps bps cb)"
| "cb_apply (CClose now pps bps) cb = snd (cb_Close now pps bps cb)"
| "cb_apply (CReTrip now reason pps bps) cb = snd (cb_ReTrip now reason pps bps cb)"
| "cb_apply (CIncrViolation n) cb = snd (cb_IncrViolation n cb)"
| "cb_apply CResetViolation cb = cb_ResetViolation cb"
| "cb_apply CResetTripCount cb = cb_ResetTripCount cb"

section \<open>Recovery schedule\<close>

record RecoveryConfig =
  BaseCooldown :: duration
  MaxCooldown :: duration
  BackoffResetAfter :: duration
  HalfOpenProbeWindow :: duration

definition DefaultRecoveryConfig :: RecoveryConfig where
  "DefaultRecoveryConfig = \<lparr>BaseCooldown = 30 * Second, MaxCooldown = 3600 * Second,
     BackoffResetAfter = 5 * Minute, HalfOpenProbeWindow = 5 * Second\<rparr>"

text \<open>\<open>int(math.Log2(x))\<close> for \<open>x \<ge> 1\<close>.\<close>

fun ilog2 :: "nat \<Rightarrow> nat" where
  "ilog2 n = (if n < 2 then 0 else Suc (ilog2 (n div 2)))"

declare ilog2.simps [simp del]

definition int_Log2 :: "float64 \<Rightarrow> int" where
  "int_Log2 x = int (ilog2 (nat \<lfloor>x\<rfloor>))"

text \<open>The conversion of a float to \<open>int64\<close>; out of range the processor yields the
  least value.\<close>

definition float_to_int64 :: "float64 \<Rightarrow> int" where
  "float_to_int64 f =
     (let i = (if 0 \<le> f then \<lfloor>f\<rfloor> else \<lceil>f\<rceil>) in if - (2 ^ 63) \<le> i \<and> i < 2 ^ 63 then i else - (2 ^ 63))"

definition CooldownFor :: "RecoveryConfig \<Rightarrow> int \<Rightarrow> duration" where
  "CooldownFor cfg tripCount =
     (if tripCount \<le> 1 then BaseCooldown cfg
      else let maxMult = rat_of_int (MaxCooldown cfg) / rat_of_int (BaseCooldown cfg) in
        if maxMult < 1 then BaseCooldown cfg
        else let maxShift = int_Log2 maxMult + 1;
                 shift = tripCount - 1;
                 shift = (if shift > maxShift then maxShift else shift);
                 multiplier = 2 ^ nat shift;
                 d = float_to_int64 (rat_of_int (BaseCooldown cfg) * multiplier)
             in if d > MaxCooldown cfg \<or> d < 0 then MaxCooldown cfg else d)"

definition ShouldAttemptRecovery :: "RecoveryConfig \<Rightarrow> gotime \<Rightarrow> gotime \<Rightarrow> int \<Rightarrow> bool" where
  "ShouldAttemptRecovery cfg now openedAt tripCount \<longleftrightarrow> time_Sub now openedAt \<ge> CooldownFor cfg tripCount"

definition ShouldResetBackoff :: "RecoveryConfig \<Rightarrow> gotime \<Rightarrow> gotime \<Rightarrow> bool" where
  "ShouldResetBackoff cfg now lastClosedAt \<longleftrightarrow>
     \<not> time_IsZero lastClosedAt \<and> time_Sub now lastClosedAt \<ge> BackoffResetAfter cfg"

definition HalfOpenExpired :: "RecoveryConfig \<Rightarrow> gotime \<Rightarrow> gotime \<Rightarrow> bool" where
  "HalfOpenExpired cfg now halfOpenAt \<longleftrightarrow> time_Sub now halfOpenAt \<ge> HalfOpenProbeWindow cfg"

section \<open>Lemmas on transitions\<close>

definition legal_edge :: "CircuitState \<Rightarrow> CircuitState \<Rightarrow> bool" where
  "legal_edge s s' \<longleftrightarrow> (s, s') \<in> {(StateClosed, StateOpen), (StateOpen, StateHalfOpen),
     (StateOpen, StateClosed), (StateHalfOpen, StateOpen), (StateHalfOpen, StateClosed)}"

text \<open>A list of events that leads from one state to another along legal edges.\<close>

fun event_path :: "CircuitState \<Rightarrow> StateTransition list \<Rightarrow> CircuitState \<Rightarrow> bool" where
  "event_path s [] s' \<longleftrightarrow> s = s'"
| "event_path s (t # ts) s' \<longleftrightarrow> st_From t = s \<and> legal_edge s (st_To t) \<and> event_path (st_To t) ts s'"

lemma event_path_append:
  "event_path s (ts @ us) s' \<longleftrightarrow> (\<exists>s1. event_path s ts s1 \<and> event_path s1 us s')"
  by (induction ts arbitrary: s) auto

lemmas cb_defs = cb_Trip_def cb_AttemptRecovery_def cb_Close_def cb_ReTrip_def cb_IncrViolation_def
  cb_ResetViolation_def cb_ResetTripCount_def cb_emit_def chan_send_def Let_def

lemma cb_apply_events:
  assumes "length (cb_transitions cb) < 256"
  defines "ts \<equiv> \<lambda>c. drop (length (cb_transitions cb)) (cb_transitions (cb_apply c cb))"
  shows "length (ts c) \<le> 1" and "cb_transitions (cb_apply c cb) = cb_transitions cb @ ts c"
    and "event_path (cb_state cb) (ts c) (cb_state (cb_apply c cb))"
  using assms(1) unfolding ts_def
  by (cases c; cases "cb_state cb"; simp add: cb_defs legal_edge_def)+

lemma cb_run_events:
  assumes "length (cb_transitions cb) + length cs \<le> 256"
  shows "\<exists>ts. length ts \<le> length cs \<and> cb_transitions (fold cb_apply cs cb) = cb_transitions cb @ ts
    \<and> event_path (cb_state cb) ts (cb_state (fold cb_apply cs cb))"
  using assms
proof (induction cs arbitrary: cb)
  case (Cons c cs)
  let ?cb = "cb_apply c cb"
  from Cons.prems have "length (cb_transitions cb) < 256" by simp
  from cb_apply_events [OF this, of c]
  obtain ts where ts: "length ts \<le> 1" "cb_transitions ?cb = cb_transitions cb @ ts"
      "event_path (cb_state cb) ts (cb_state ?cb)"
    by blast
  from Cons.prems ts(1,2) have "length (cb_transitions ?cb) + length cs \<le> 256" by simp
  from Cons.IH [OF this] obtain us where us: "length us \<le> length cs"
      "cb_transitions (fold cb_apply cs ?cb) = cb_transitions ?cb @ us"
      "event_path (cb_state ?cb) us (cb_state (fold cb_apply cs ?cb))"
    by blast
  have "event_path (cb_state cb) (ts @ us) (cb_state (fold cb_apply cs ?cb))"
    using ts(3) us(3) event_path_append by blast
  with ts(1,2) us(1,2) show ?case
    by (intro exI [of _ "ts @ us"]) simp
qed simp

text \<open>How often the circuit opens in a history.\<close>

fun openings :: "cb_call list \<Rightarrow> CircuitBreaker \<Rightarrow> int" where
  "openings [] cb = 0"
| "openings (c # cs) cb =
     (if cb_state (cb_apply c cb) = StateOpen \<and> cb_state cb \<noteq> StateOpen then 1 else 0)
     + openings cs (cb_apply c cb)"

lemma tripCount_step:
  "CResetTripCount \<noteq> c \<Longrightarrow> cb_tripCount (cb_apply c cb) = cb_tripCount cb +
     (if cb_state (cb_apply c cb) = StateOpen \<and> cb_state cb \<noteq> StateOpen then 1 else 0)"
  by (cases c; cases "cb_state cb"; simp add: cb_defs)

lemma tripCount_openings:
  "CResetTripCount \<notin> set cs \<Longrightarrow> cb_tripCount (fold cb_apply cs cb) = cb_tripCount cb + openings cs cb"
  by (induction cs arbitrary: cb) (simp_all add: tripCount_step)

section \<open>Lemmas on the cooldown\<close>

lemma ilog2_bounds:
  "1 \<le> n \<Longrightarrow> 2 ^ ilog2 n \<le> n \<and> n < 2 ^ Suc (ilog2 n)"
proof (induction n rule: ilog2.induct)
  case (1 n)
  show ?case
  proof (cases "n < 2")
    case True
    with 1 show ?thesis by (simp add: ilog2.simps [of n])
  next
    case False
    then have "2 ^ ilog2 (n div 2) \<le> n div 2 \<and> n div 2 < 2 ^ Suc (ilog2 (n div 2))"
      using 1 by auto
    with False show ?thesis
      by (auto simp: ilog2.simps [of n])
  qed
qed

lemma float_to_int64_of_int:
  "0 \<le> i \<Longrightarrow> float_to_int64 (of_int i) = (if i < 2 ^ 63 then i else - (2 ^ 63))"
  by (simp add: float_to_int64_def)

text \<open>The last lines of \<open>CooldownFor\<close> cap the product, also when it is out of range.\<close>

lemma cap_product:
  assumes "0 \<le> x" and "0 \<le> m" and "m < 2 ^ 63"
  shows "(let d = float_to_int64 (of_int x) in if d > m \<or> d < 0 then m else d) = min x m"
  using assms by (auto simp: float_to_int64_of_int Let_def)

text \<open>Capping the exponent one above the logarithm of the quotient loses nothing.\<close>

lemma capped_shift:
  assumes "0 < b" and "b \<le> m" and "1 \<le> s"
  defines "k \<equiv> int_Log2 (rat_of_int m / rat_of_int b) + 1"
  shows "min (b * 2 ^ nat (if s > k then k else s)) m = min (b * 2 ^ nat s) m"
proof -
  define q where "q = nat (m div b)"
  have "0 < m div b"
    using assms(1,2) by (simp add: pos_imp_zdiv_pos_iff)
  then have "1 \<le> q" and q: "int q = m div b"
    by (simp_all add: q_def)
  have k: "k = int (Suc (ilog2 q))"
    by (simp add: k_def int_Log2_def q_def floor_divide_of_int_eq)
  have "int q < 2 ^ nat k"
    using ilog2_bounds [OF \<open>1 \<le> q\<close>] unfolding k by (metis nat_int of_nat_less_numeral_power_cancel_iff)
  then have "m div b + 1 \<le> 2 ^ nat k"
    using q by simp
  then have "b * (m div b + 1) \<le> b * 2 ^ nat k"
    using assms(1) by (simp only: mult_le_cancel_left_pos)
  moreover have "m < b * (m div b + 1)"
    using pos_mod_bound [OF assms(1), of m] mult_div_mod_eq [of b m] by (simp only: distrib_left)
  ultimately have big: "m < b * 2 ^ nat k"
    by simp
  show ?thesis
  proof (cases "s > k")
    case True
    then have "(2::int) ^ nat k \<le> 2 ^ nat s"
      by (intro power_increasing) auto
    then have "b * 2 ^ nat k \<le> b * 2 ^ nat s"
      using assms(1) by (simp only: mult_le_cancel_left_pos)
    with big True show ?thesis by simp
  qed simp
qed

lemma CooldownFor_min:
  assumes "0 < BaseCooldown cfg" and "BaseCooldown cfg \<le> MaxCooldown cfg" and "MaxCooldown cfg < 2 ^ 63"
    and "1 \<le> n"
  shows "CooldownFor cfg n = min (BaseCooldown cfg * 2 ^ nat (n - 1)) (MaxCooldown cfg)"
proof (cases "n = 1")
  case False
  let ?b = "BaseCooldown cfg" and ?m = "MaxCooldown cfg"
  let ?k = "int_Log2 (rat_of_int ?m / rat_of_int ?b) + 1"
  let ?s = "if n - 1 > ?k then ?k else n - 1"
  from False assms have "1 \<le> rat_of_int ?m / rat_of_int ?b" and "\<not> n \<le> 1"
    by auto
  then have "CooldownFor cfg n =
    (let d = float_to_int64 (of_int (?b * 2 ^ nat ?s)) in if d > ?m \<or> d < 0 then ?m else d)"
    by (simp add: CooldownFor_def Let_def)
  also have "\<dots> = min (?b * 2 ^ nat ?s) ?m"
    using assms by (intro cap_product) auto
  also have "\<dots> = min (?b * 2 ^ nat (n - 1)) ?m"
    using capped_shift [of ?b ?m "n - 1"] assms False by simp
  finally show ?thesis .
qed (use assms in \<open>simp add: CooldownFor_def\<close>)

lemma CooldownFor_base: "n \<le> 1 \<Longrightarrow> CooldownFor cfg n = BaseCooldown cfg"
  by (simp add: CooldownFor_def)

lemma CooldownFor_bounds:
  assumes "0 < BaseCooldown cfg" and "BaseCooldown cfg \<le> MaxCooldown cfg" and "MaxCooldown cfg < 2 ^ 63"
  shows "BaseCooldown cfg \<le> CooldownFor cfg n" and "CooldownFor cfg n \<le> MaxCooldown cfg"
proof -
  have "BaseCooldown cfg * 1 \<le> BaseCooldown cfg * 2 ^ nat (n - 1)"
    using assms(1) by (intro mult_left_mono) auto
  with assms show "BaseCooldown cfg \<le> CooldownFor cfg n" "CooldownFor cfg n \<le> MaxCooldown cfg"
    by (cases "n \<le> 1"; simp add: CooldownFor_base CooldownFor_min)+
qed

section \<open>Properties\<close>

text \<open>The events the breaker delivers on its channel are the history of its
  state: after any sequence of calls that the channel has room for, the new
  events start in the old state, each starts where the one before ended, each is
  one of the five legal edges (in particular the circuit never goes from closed
  to half-open), and the last ends in the present state.\<close>

theorem breaker_event_path:
  assumes "length (cb_transitions cb) + length cs \<le> 256"
  shows "\<exists>ts. cb_transitions (fold cb_apply cs cb) = cb_transitions cb @ ts
    \<and> event_path (cb_state cb) ts (cb_state (fold cb_apply cs cb))"
  using cb_run_events [OF assms] by blast

theorem breaker_event_path_witness:
  "\<exists>ts. cb_transitions (fold cb_apply [CTrip 5 ''r'' 1 2, CAttemptRecovery 9 0 0, CClose 11 0 0]
         newCircuitBreaker) = [] @ ts
    \<and> event_path StateClosed ts (cb_state (fold cb_apply
         [CTrip 5 ''r'' 1 2, CAttemptRecovery 9 0 0, CClose 11 0 0] newCircuitBreaker))"
  using breaker_event_path [of newCircuitBreaker "[CTrip 5 ''r'' 1 2, CAttemptRecovery 9 0 0, CClose 11 0 0]"]
  by (simp add: newCircuitBreaker_def)

text \<open>The trip counter that drives the backoff counts openings: over any
  sequence of calls without a reset it grows by the number of times the state
  became open, repeated trips of an open circuit not counted.\<close>

theorem trip_count_counts_openings:
  assumes "CResetTripCount \<notin> set cs"
  shows "cb_tripCount (fold cb_apply cs cb) = cb_tripCount cb + openings cs cb"
  using assms by (rule tripCount_openings)

theorem trip_count_counts_openings_witness:
  "cb_tripCount (fold cb_apply [CTrip 5 ''r'' 1 2, CTrip 6 ''r'' 1 2, CAttemptRecovery 9 0 0,
     CReTrip 10 ''r'' 0 0] newCircuitBreaker) = 2"
  using trip_count_counts_openings [of "[CTrip 5 ''r'' 1 2, CTrip 6 ''r'' 1 2, CAttemptRecovery 9 0 0,
     CReTrip 10 ''r'' 0 0]" newCircuitBreaker]
  by (simp add: newCircuitBreaker_def cb_defs)

text \<open>C36. The cooldown is exactly the exponential backoff capped at its maximum,
  for every trip count: \<open>min (Base * 2^(n-1)) Max\<close>.  Capping the exponent before
  the power, and the conversion of the product back to a 64-bit duration, change
  no result, so no trip count overflows.\<close>

theorem cooldown_is_capped_backoff:
  assumes "0 < BaseCooldown cfg" and "BaseCooldown cfg \<le> MaxCooldown cfg" and "MaxCooldown cfg < 2 ^ 63"
    and "1 \<le> n"
  shows "CooldownFor cfg n = min (BaseCooldown cfg * 2 ^ nat (n - 1)) (MaxCooldown cfg)"
  using assms by (rule CooldownFor_min)

theorem cooldown_is_capped_backoff_witness:
  "CooldownFor DefaultRecoveryConfig 4 = 240 * Second \<and> CooldownFor DefaultRecoveryConfig 64 = 3600 * Second"
  using cooldown_is_capped_backoff [of DefaultRecoveryConfig 4]
    cooldown_is_capped_backoff [of DefaultRecoveryConfig 64]
  by (simp add: DefaultRecoveryConfig_def Second_def)

end
