(* ===== verification/Detector.thy ===== *)
theory Detector
  imports BpfTypes
begin

text \<open>
  The flood detector (\<open>internal/failsafe/detector.go\<close>): rates from the differences of
  the cumulative counters, the four detection algorithms, and the exponential
  moving average that is the baseline of the spike test.  The lemmas give the
  exact condition under which a sample raises an alarm, the bounds of the moving
  average, and that counters which wrap around still give the true rate.
\<close>

section \<open>Floats\<close>

text \<open>The conversion of a float to \<open>uint64\<close>; out of range the processor yields \<open>2^63\<close>.\<close>

definition float_to_u64 :: "float64 \<Rightarrow> u64" where
  "float_to_u64 f = (if 0 \<le> f \<and> f < 2 ^ 64 then word_of_int \<lfloor>f\<rfloor> else 2 ^ 63)"

text \<open>\<open>math.Min(a/b, 1.0)\<close> for \<open>b \<noteq> 0\<close> or \<open>a > 0\<close>; division by zero gives infinity there.\<close>

definition min_quot :: "float64 \<Rightarrow> float64 \<Rightarrow> float64" where
  "min_quot a b = (if b = 0 then 1 else min (a / b) 1)"

definition round_half_even :: "float64 \<Rightarrow> int" where
  "round_half_even x =
     (let f = \<lfloor>x\<rfloor>; r = x - of_int f in
      if r < 1 / 2 then f else if r > 1 / 2 then f + 1 else if even f then f else f + 1)"

text \<open>The verb \<open>%.<d>f\<close>.\<close>

definition fmt_f :: "nat \<Rightarrow> float64 \<Rightarrow> string" where
  "fmt_f d x =
     (let n = nat (round_half_even (\<bar>x\<bar> * 10 ^ d)); frac = dec (n mod 10 ^ d) in
      (if x < 0 then ''-'' else '''') @ dec (n div 10 ^ d) @
      (if d = 0 then '''' else ''.'' @ replicate (d - length frac) (CHR ''0'') @ frac))"

section \<open>Types\<close>

record DetectionResult =
  dr_Triggered :: bool
  dr_Algorithm :: string
  dr_Reason :: string
  dr_CurrentPPS :: u64
  dr_CurrentBPS :: u64
  dr_Confidence :: float64

definition DetectionResult0 :: DetectionResult where
  "DetectionResult0 = \<lparr>dr_Triggered = False, dr_Algorithm = [], dr_Reason = [], dr_CurrentPPS = 0,
     dr_CurrentBPS = 0, dr_Confidence = 0\<rparr>"

record StatsSample =
  ss_At :: gotime
  ss_Stats :: XdpStats
  ss_DeltaPPS :: u64
  ss_DeltaBPS :: u64
  ss_IntervalMs :: float64

record DetectorConfig =
  dc_PPSThreshold :: u64
  dc_BPSThreshold :: u64
  dc_SpikeMultiplier :: float64
  dc_BaselineWindow :: int
  dc_DropRatioThreshold :: float64
  dc_ParseErrorRateThreshold :: float64
  dc_ConsecutiveViolations :: int
  dc_ConsecutiveClean :: int

definition DefaultDetectorConfig :: DetectorConfig where
  "DefaultDetectorConfig = \<lparr>dc_PPSThreshold = 1000000, dc_BPSThreshold = 10000000000,
     dc_SpikeMultiplier = 5, dc_BaselineWindow = 10, dc_DropRatioThreshold = 9 / 10,
     dc_ParseErrorRateThreshold = 1 / 20, dc_ConsecutiveViolations = 3, dc_ConsecutiveClean = 5\<rparr>"

record Detector =
  d_cfg :: DetectorConfig
  d_emaPPS :: float64
  d_emaBPS :: float64
  d_emaAlpha :: float64
  d_sampleCount :: int
  d_prevStats :: "XdpStats option"
  d_prevAt :: gotime
  d_cleanCount :: int

definition NewDetector :: "DetectorConfig \<Rightarrow> Detector" where
  "NewDetector cfg = \<lparr>d_cfg = cfg, d_emaPPS = 0, d_emaBPS = 0,
     d_emaAlpha = 2 / (of_int (dc_BaselineWindow cfg) + 1), d_sampleCount = 0, d_prevStats = None,
     d_prevAt = 0, d_cleanCount = 0\<rparr>"

definition Detector_UpdateThresholds :: "u64 \<Rightarrow> u64 \<Rightarrow> Detector \<Rightarrow> Detector" where
  "Detector_UpdateThresholds pps bps d =
     d\<lparr>d_cfg := (d_cfg d)\<lparr>dc_PPSThreshold := pps, dc_BPSThreshold := bps\<rparr>\<rparr>"

section \<open>Samples\<close>

definition f64 :: "u64 \<Rightarrow> float64" where
  "f64 w = of_nat (unat w)"

definition buildSample :: "XdpStats \<Rightarrow> gotime \<Rightarrow> Detector \<Rightarrow> StatsSample" where
  "buildSample stats now d =
     (let s = \<lparr>ss_At = now, ss_Stats = stats, ss_DeltaPPS = 0, ss_DeltaBPS = 0, ss_IntervalMs = 0\<rparr> in
      case d_prevStats d of
        None \<Rightarrow> s
      | Some prev \<Rightarrow>
          if \<not> time_IsZero (d_prevAt d) then
            let intervalSec = dur_Seconds (time_Sub now (d_prevAt d)) in
            if intervalSec > 0 then
              let deltaPkts = RxPackets stats - RxPackets prev;
                  deltaBytes = RxBytes stats - RxBytes prev
              in s\<lparr>ss_DeltaPPS := float_to_u64 (f64 deltaPkts / intervalSec),
                   ss_DeltaBPS := float_to_u64 (f64 (deltaBytes * 8) / intervalSec),
                   ss_IntervalMs := intervalSec * 1000\<rparr>
            else s
          else s)"

definition updateEMA :: "StatsSample \<Rightarrow> Detector \<Rightarrow> Detector" where
  "updateEMA s d =
     (if d_sampleCount d \<le> 1 then
        d\<lparr>d_emaPPS := f64 (ss_DeltaPPS s), d_emaBPS := f64 (ss_DeltaBPS s)\<rparr>
      else
        d\<lparr>d_emaPPS := d_emaAlpha d * f64 (ss_DeltaPPS s) + (1 - d_emaAlpha d) * d_emaPPS d,
          d_emaBPS := d_emaAlpha d * f64 (ss_DeltaBPS s) + (1 - d_emaAlpha d) * d_emaBPS d\<rparr>)"

section \<open>Algorithms\<close>

definition checkAbsolute :: "Detector \<Rightarrow> StatsSample \<Rightarrow> DetectionResult" where
  "checkAbsolute d s =
     (let pps = ss_DeltaPPS s; bps = ss_DeltaBPS s; tp = dc_PPSThreshold (d_cfg d); tb = dc_BPSThreshold (d_cfg d) in
      if pps > tp then
        \<lparr>dr_Triggered = True, dr_Algorithm = ''absolute_pps'',
         dr_Reason = ''pps='' @ dec (unat pps) @ '' exceeds threshold='' @ dec (unat tp),
         dr_CurrentPPS = pps, dr_CurrentBPS = bps, dr_Confidence = min_quot (f64 pps) (f64 tp)\<rparr>
      else if bps > tb then
        \<lparr>dr_Triggered = True, dr_Algorithm = ''absolute_bps'',
         dr_Reason = ''bps='' @ dec (unat bps) @ '' exceeds threshold='' @ dec (unat tb),
         dr_CurrentPPS = pps, dr_CurrentBPS = bps, dr_Confidence = min_quot (f64 bps) (f64 tb)\<rparr>
      else DetectionResult0)"

definition checkSpike :: "Detector \<Rightarrow> StatsSample \<Rightarrow> DetectionResult" where
  "checkSpike d s =
     (if d_emaPPS d < 1 then DetectionResult0
      else let ratio = f64 (ss_DeltaPPS s) / d_emaPPS d; mult = dc_SpikeMultiplier (d_cfg d) in
        if ratio > mult then
          \<lparr>dr_Triggered = True, dr_Algorithm = ''rate_spike'',
           dr_Reason = ''pps='' @ dec (unat (ss_DeltaPPS s)) @ '' is '' @ fmt_f 1 ratio @
             ''x above EMA baseline='' @ fmt_f 0 (d_emaPPS d) @ '' (threshold='' @ fmt_f 1 mult @ ''x)'',
           dr_CurrentPPS = ss_DeltaPPS s, dr_CurrentBPS = ss_DeltaBPS s,
           dr_Confidence = min_quot (ratio - 1) (mult - 1)\<rparr>
        else DetectionResult0)"

definition checkDropRatio :: "Detector \<Rightarrow> XdpStats \<Rightarrow> DetectionResult" where
  "checkDropRatio d stats =
     (if RxPackets stats = 0 then DetectionResult0
      else let totalDrops = Dropped stats + RateLimited stats + FailsafeDrops stats;
               ratio = f64 totalDrops / f64 (RxPackets stats); thr = dc_DropRatioThreshold (d_cfg d) in
        if ratio > thr then
          \<lparr>dr_Triggered = True, dr_Algorithm = ''drop_ratio'',
           dr_Reason = ''drop_ratio='' @ fmt_f 1 (ratio * 100) @ ''% exceeds threshold='' @ fmt_f 1 (thr * 100) @
             ''% (drops='' @ dec (unat totalDrops) @ '' rx='' @ dec (unat (RxPackets stats)) @ '')'',
           dr_CurrentPPS = 0, dr_CurrentBPS = 0, dr_Confidence = min_quot ratio thr\<rparr>
        else DetectionResult0)"

definition checkParseErrors :: "Detector \<Rightarrow> XdpStats \<Rightarrow> DetectionResult" where
  "checkParseErrors d stats =
     (if RxPackets stats = 0 then DetectionResult0
      else let errRate = f64 (ParseErrors stats) / f64 (RxPackets stats);
               thr = dc_ParseErrorRateThreshold (d_cfg d) in
        if errRate > thr then
          \<lparr>dr_Triggered = True, dr_Algorithm = ''parse_error_spike'',
           dr_Reason = ''parse_error_rate='' @ fmt_f 2 (errRate * 100) @ ''% exceeds threshold='' @
             fmt_f 2 (thr * 100) @ ''%'',
           dr_CurrentPPS = 0, dr_CurrentBPS = 0, dr_Confidence = min_quot errRate thr\<rparr>
        else DetectionResult0)"

definition Detector_Analyze :: "gotime \<Rightarrow> XdpStats \<Rightarrow> Detector \<Rightarrow> DetectionResult list \<times> Detector" where
  "Detector_Analyze now stats d =
     (let sample = buildSample stats now d;
          d = d\<lparr>d_prevStats := Some stats, d_prevAt := now, d_sampleCount := d_sampleCount d + 1\<rparr> in
      if d_sampleCount d < 2 then ([], updateEMA sample d)
      else
        let results = filter dr_Triggered
              ([checkAbsolute d sample] @
               (if d_sampleCount d \<ge> dc_BaselineWindow (d_cfg d) then [checkSpike d sample] else []) @
               [checkDropRatio d stats, checkParseErrors d stats])
        in (results, updateEMA sample d))"

text \<open>A run over successive readings, and the packet rates it saw.\<close>

fun Detector_run :: "(gotime \<times> XdpStats) list \<Rightarrow> Detector \<Rightarrow> Detector" where
  "Detector_run [] d = d"
| "Detector_run ((now, stats) # rs) d = Detector_run rs (snd (Detector_Analyze now stats d))"

fun rates :: "(gotime \<times> XdpStats) list \<Rightarrow> Detector \<Rightarrow> u64 list" where
  "rates [] d = []"
| "rates ((now, stats) # rs) d =
     ss_DeltaPPS (buildSample stats now d) # rates rs (snd (Detector_Analyze now stats d))"

section \<open>Lemmas\<close>

lemma f64_nonneg [simp]: "0 \<le> f64 w"
  by (simp add: f64_def del: of_nat_unat)

lemma f64_pos_iff [simp]: "0 < f64 w \<longleftrightarrow> w \<noteq> 0"
  by (simp add: f64_def unat_gt_0 del: of_nat_unat)

lemma f64_le_iff: "f64 v \<le> f64 w \<longleftrightarrow> v \<le> w"
  by (simp add: f64_def word_le_nat_alt del: of_nat_unat)

lemma checkAbsolute_triggered:
  "dr_Triggered (checkAbsolute d s) \<longleftrightarrow>
     dc_PPSThreshold (d_cfg d) < ss_DeltaPPS s \<or> dc_BPSThreshold (d_cfg d) < ss_DeltaBPS s"
  by (simp add: checkAbsolute_def DetectionResult0_def Let_def)

lemma checkSpike_triggered:
  "dr_Triggered (checkSpike d s) \<longleftrightarrow>
     1 \<le> d_emaPPS d \<and> dc_SpikeMultiplier (d_cfg d) * d_emaPPS d < f64 (ss_DeltaPPS s)"
  by (auto simp: checkSpike_def DetectionResult0_def Let_def pos_less_divide_eq)

lemma checkDropRatio_triggered:
  "dr_Triggered (checkDropRatio d stats) \<longleftrightarrow> RxPackets stats \<noteq> 0 \<and>
     dc_DropRatioThreshold (d_cfg d) * f64 (RxPackets stats)
       < f64 (Dropped stats + RateLimited stats + FailsafeDrops stats)"
  by (auto simp: checkDropRatio_def DetectionResult0_def Let_def pos_less_divide_eq)

lemma checkParseErrors_triggered:
  "dr_Triggered (checkParseErrors d stats) \<longleftrightarrow> RxPackets stats \<noteq> 0 \<and>
     dc_ParseErrorRateThreshold (d_cfg d) * f64 (RxPackets stats) < f64 (ParseErrors stats)"
  by (auto simp: checkParseErrors_def DetectionResult0_def Let_def pos_less_divide_eq)

lemmas triggered = checkAbsolute_triggered checkSpike_triggered checkDropRatio_triggered
  checkParseErrors_triggered

lemma updateEMA_frame [simp]:
  "d_cfg (updateEMA s d) = d_cfg d" "d_emaAlpha (updateEMA s d) = d_emaAlpha d"
  "d_sampleCount (updateEMA s d) = d_sampleCount d"
  "d_prevStats (updateEMA s d) = d_prevStats d" "d_prevAt (updateEMA s d) = d_prevAt d"
  by (simp_all add: updateEMA_def)

lemma Analyze_state:
  "snd (Detector_Analyze now stats d) = updateEMA (buildSample stats now d)
     (d\<lparr>d_prevStats := Some stats, d_prevAt := now, d_sampleCount := d_sampleCount d + 1\<rparr>)"
  by (simp add: Detector_Analyze_def Let_def)

lemma Analyze_frame [simp]:
  "d_cfg (snd (Detector_Analyze now stats d)) = d_cfg d"
  "d_emaAlpha (snd (Detector_Analyze now stats d)) = d_emaAlpha d"
  "d_sampleCount (snd (Detector_Analyze now stats d)) = d_sampleCount d + 1"
  by (simp_all add: Analyze_state)

lemma Analyze_ema:
  "d_emaPPS (snd (Detector_Analyze now stats d)) =
     (let x = f64 (ss_DeltaPPS (buildSample stats now d)) in
      if d_sampleCount d \<le> 0 then x else d_emaAlpha d * x + (1 - d_emaAlpha d) * d_emaPPS d)"
  by (simp add: Analyze_state updateEMA_def Let_def)

lemma run_frame [simp]:
  "d_cfg (Detector_run rs d) = d_cfg d" "d_emaAlpha (Detector_run rs d) = d_emaAlpha d"
  "d_sampleCount (Detector_run rs d) = d_sampleCount d + int (length rs)"
  by (induction rs d rule: Detector_run.induct) simp_all

lemma rates_append: "rates (rs @ qs) d = rates rs d @ rates qs (Detector_run rs d)"
  by (induction rs d rule: Detector_run.induct) simp_all

lemma length_rates [simp]: "length (rates rs d) = length rs"
  by (induction rs d rule: Detector_run.induct) simp_all

text \<open>A convex combination stays above the lower bound that the step raises.\<close>

lemma ema_step_bounds:
  fixes a c e x L H :: rat
  assumes "0 \<le> a" "a \<le> 1" "L \<le> x" "x \<le> H" "(1 - c) * L \<le> e" "e \<le> H"
  shows "(1 - (1 - a) * c) * L \<le> a * x + (1 - a) * e" and "a * x + (1 - a) * e \<le> H"
proof -
  have "a * L + (1 - a) * ((1 - c) * L) \<le> a * x + (1 - a) * e"
    using assms by (intro add_mono mult_left_mono) auto
  moreover have "a * L + (1 - a) * ((1 - c) * L) = (1 - (1 - a) * c) * L"
    by (simp add: algebra_simps)
  ultimately show "(1 - (1 - a) * c) * L \<le> a * x + (1 - a) * e" by simp
  show "a * x + (1 - a) * e \<le> H"
    using assms by (intro convex_bound_le) auto
qed

lemma run_ema_bounds:
  assumes "0 \<le> d_emaAlpha d" "d_emaAlpha d \<le> 1" "1 \<le> d_sampleCount d"
    and "\<forall>r\<in>set (rates rs d). L \<le> f64 r \<and> f64 r \<le> H"
    and "(1 - c) * L \<le> d_emaPPS d" "d_emaPPS d \<le> H"
  shows "(1 - (1 - d_emaAlpha d) ^ length rs * c) * L \<le> d_emaPPS (Detector_run rs d)
    \<and> d_emaPPS (Detector_run rs d) \<le> H"
  using assms
proof (induction rs d arbitrary: c rule: Detector_run.induct)
  case (2 now stats rs d)
  let ?d = "snd (Detector_Analyze now stats d)" and ?a = "d_emaAlpha d"
  have e: "d_emaPPS ?d = ?a * f64 (ss_DeltaPPS (buildSample stats now d)) + (1 - ?a) * d_emaPPS d"
    using 2 by (simp add: Analyze_ema Let_def)
  from 2 have "(1 - (1 - ?a) * c) * L \<le> d_emaPPS ?d" "d_emaPPS ?d \<le> H"
    unfolding e by (intro ema_step_bounds; simp)+
  then have "(1 - (1 - ?a) ^ length rs * ((1 - ?a) * c)) * L \<le> d_emaPPS (Detector_run rs ?d)
    \<and> d_emaPPS (Detector_run rs ?d) \<le> H"
    using 2 by (metis Analyze_frame(2,3) rates.simps(2) list.set_intros(2) add_increasing2 zero_le_one)
  then show ?case
    by (simp add: mult.assoc mult.left_commute)
qed simp

lemma Analyze_alarm:
  "fst (Detector_Analyze now stats d) \<noteq> [] \<longleftrightarrow> 1 \<le> d_sampleCount d \<and>
    (let s = buildSample stats now d; cfg = d_cfg d in
       dc_PPSThreshold cfg < ss_DeltaPPS s \<or> dc_BPSThreshold cfg < ss_DeltaBPS s
     \<or> (dc_BaselineWindow cfg \<le> d_sampleCount d + 1 \<and> 1 \<le> d_emaPPS d
         \<and> dc_SpikeMultiplier cfg * d_emaPPS d < f64 (ss_DeltaPPS s))
     \<or> (RxPackets stats > 0 \<and> dc_DropRatioThreshold cfg * f64 (RxPackets stats)
         < f64 (Dropped stats + RateLimited stats + FailsafeDrops stats))
     \<or> (RxPackets stats > 0 \<and> dc_ParseErrorRateThreshold cfg * f64 (RxPackets stats)
         < f64 (ParseErrors stats)))"
  by (auto simp: Detector_Analyze_def Let_def triggered word_gt_0)

text \<open>The first reading has no rate, so a new detector has a baseline of 0.\<close>

lemma first_sample: "ss_DeltaPPS (buildSample stats now (NewDetector cfg)) = 0"
  by (simp add: buildSample_def NewDetector_def)

lemma new_ema_bounds:
  assumes "1 \<le> dc_BaselineWindow cfg" and "0 \<le> H"
    and "\<forall>r\<in>set (tl (rates rs (NewDetector cfg))). L \<le> f64 r \<and> f64 r \<le> H"
  defines "a \<equiv> 2 / (rat_of_int (dc_BaselineWindow cfg) + 1)"
  shows "(1 - (1 - a) ^ (length rs - 1)) * L \<le> d_emaPPS (Detector_run rs (NewDetector cfg))
    \<and> d_emaPPS (Detector_run rs (NewDetector cfg)) \<le> H"
proof (cases rs)
  case Nil
  then show ?thesis using assms(2) by (simp add: NewDetector_def)
next
  case (Cons r qs)
  obtain now stats where r: "r = (now, stats)" by (cases r)
  let ?d = "snd (Detector_Analyze now stats (NewDetector cfg))"
  have new: "d_emaAlpha ?d = a" "d_sampleCount ?d = 1" "d_emaPPS ?d = 0"
    by (simp_all add: Analyze_ema first_sample Let_def) (simp_all add: NewDetector_def a_def f64_def)
  have "0 \<le> a" "a \<le> 1"
    using assms(1) by (simp_all add: a_def)
  with new assms(2,3) have "(1 - (1 - d_emaAlpha ?d) ^ length qs * 1) * L \<le> d_emaPPS (Detector_run qs ?d)
    \<and> d_emaPPS (Detector_run qs ?d) \<le> H"
    by (intro run_ema_bounds) (simp_all add: Cons r)
  with new show ?thesis by (simp add: Cons r)
qed

lemma unat_float_to_u64:
  "0 \<le> f \<Longrightarrow> f < 2 ^ 64 \<Longrightarrow> unat (float_to_u64 f) = nat \<lfloor>f\<rfloor>"
  by (simp add: float_to_u64_def unat_word_of_int_nonneg floor_less_iff)

lemma unat_diff_wrapped:
  assumes "p \<le> p'" "p' - p < 2 ^ 64"
  shows "unat ((of_nat p' :: u64) - of_nat p) = p' - p"
proof -
  have "(of_nat p' :: u64) - of_nat p = of_nat (p' - p)"
    using assms(1) by simp
  with assms(2) show ?thesis
    by (simp add: unat_of_nat take_bit_nat_eq_self del: of_nat_diff)
qed

section \<open>Properties\<close>

text \<open>When an alarm is raised: a reading triggers a detection exactly if it is
  not the first and the packet or bit rate exceeds its threshold, or (once the
  baseline window has filled and the baseline is at least one packet per second)
  the packet rate exceeds the multiple of the baseline of the earlier readings, or
  the drops or the parse errors exceed their share of the received packets.\<close>

theorem analyze_alarm_iff:
  "fst (Detector_Analyze now stats d) \<noteq> [] \<longleftrightarrow> 1 \<le> d_sampleCount d \<and>
    (let s = buildSample stats now d; cfg = d_cfg d in
       dc_PPSThreshold cfg < ss_DeltaPPS s \<or> dc_BPSThreshold cfg < ss_DeltaBPS s
     \<or> (dc_BaselineWindow cfg \<le> d_sampleCount d + 1 \<and> 1 \<le> d_emaPPS d
         \<and> dc_SpikeMultiplier cfg * d_emaPPS d < f64 (ss_DeltaPPS s))
     \<or> (RxPackets stats > 0 \<and> dc_DropRatioThreshold cfg * f64 (RxPackets stats)
         < f64 (Dropped stats + RateLimited stats + FailsafeDrops stats))
     \<or> (RxPackets stats > 0 \<and> dc_ParseErrorRateThreshold cfg * f64 (RxPackets stats)
         < f64 (ParseErrors stats)))"
  by (rule Analyze_alarm)

text \<open>C14. The baseline of the spike test follows the traffic: after \<open>n\<close> readings of
  a new detector whose rates (from the second on) lie between \<open>L\<close> and \<open>H\<close>, the moving
  average lies between \<open>(1 - (1 - a)^(n-1)) L\<close> and \<open>H\<close>, with \<open>a = 2/(W+1)\<close>.  Hence
  a further reading of at most the multiplier times that lower bound raises no
  spike alarm.\<close>

theorem steady_traffic_no_spike:
  assumes "1 \<le> dc_BaselineWindow cfg" and "0 \<le> H" and "0 \<le> dc_SpikeMultiplier cfg"
    and "\<forall>r\<in>set (tl (rates rs (NewDetector cfg))). L \<le> f64 r \<and> f64 r \<le> H"
    and "f64 (ss_DeltaPPS s) \<le> dc_SpikeMultiplier cfg *
      ((1 - (1 - 2 / (of_int (dc_BaselineWindow cfg) + 1)) ^ (length rs - 1)) * L)"
  shows "d_emaPPS (Detector_run rs (NewDetector cfg)) \<le> H
    \<and> \<not> dr_Triggered (checkSpike (Detector_run rs (NewDetector cfg)) s)"
proof -
  let ?d = "Detector_run rs (NewDetector cfg)"
  from new_ema_bounds [OF assms(1,2,4)]
  have lo: "(1 - (1 - 2 / (of_int (dc_BaselineWindow cfg) + 1)) ^ (length rs - 1)) * L \<le> d_emaPPS ?d"
    and hi: "d_emaPPS ?d \<le> H" by auto
  have "f64 (ss_DeltaPPS s) \<le> dc_SpikeMultiplier cfg * d_emaPPS ?d"
    using assms(5) mult_left_mono [OF lo assms(3)] by (rule order_trans)
  moreover have "d_cfg ?d = cfg"
    by (simp add: NewDetector_def)
  ultimately show ?thesis
    using hi by (simp add: checkSpike_triggered)
qed

theorem steady_traffic_no_spike_witness:
  "\<not> dr_Triggered (checkSpike (Detector_run
      [(1000000000, XdpStats0), (2000000000, XdpStats0\<lparr>RxPackets := 100\<rparr>),
       (3000000000, XdpStats0\<lparr>RxPackets := 200\<rparr>)]
      (NewDetector (DefaultDetectorConfig\<lparr>dc_BaselineWindow := 3\<rparr>)))
    (buildSample XdpStats0 0 (NewDetector DefaultDetectorConfig)\<lparr>ss_DeltaPPS := 375\<rparr>))"
proof -
  let ?cfg = "DefaultDetectorConfig\<lparr>dc_BaselineWindow := 3\<rparr>"
  let ?rs = "[(1000000000, XdpStats0), (2000000000, XdpStats0\<lparr>RxPackets := 100\<rparr>),
       (3000000000, XdpStats0\<lparr>RxPackets := 200\<rparr>)]"
  have "tl (rates ?rs (NewDetector ?cfg)) = [100, 100]"
    by (simp add: Analyze_state buildSample_def NewDetector_def time_IsZero_def time_Sub_def dur_Seconds_def
        float_to_u64_def f64_def XdpStats0_def Let_def)
  then have "\<forall>r\<in>set (tl (rates ?rs (NewDetector ?cfg))). 100 \<le> f64 r \<and> f64 r \<le> 100"
    by (simp add: f64_def)
  from steady_traffic_no_spike [OF _ _ _ this] show ?thesis
    by (simp add: DefaultDetectorConfig_def f64_def power2_eq_square)
qed

text \<open>C20. The packet rate is exact across a wrap-around of the 64-bit counter: if
  the true counts at the two readings are \<open>p\<close> and \<open>p'\<close>, the computed rate is
  \<open>(p' - p)\<close> divided by the interval in seconds, rounded down, as long as that rate
  fits in 64 bits.\<close>

theorem rate_across_wrap:
  assumes "d_prevStats d = Some prev" "0 < d_prevAt d" "d_prevAt d < now" "now - d_prevAt d < 2 ^ 63"
    and "RxPackets prev = of_nat p" "RxPackets stats = of_nat p'" "p \<le> p'" "p' - p < 2 ^ 64"
    and "of_nat (p' - p) * 1000000000 / of_int (now - d_prevAt d) < (2 ^ 64 :: rat)"
  shows "unat (ss_DeltaPPS (buildSample stats now d)) =
    nat \<lfloor>of_nat (p' - p) * 1000000000 / (of_int (now - d_prevAt d) :: rat)\<rfloor>"
proof -
  have "f64 (RxPackets stats - RxPackets prev) = of_nat (p' - p)"
    using assms(5-8) by (simp only: f64_def unat_diff_wrapped)
  moreover have "time_Sub now (d_prevAt d) = now - d_prevAt d"
    using assms(3,4) by (simp add: time_Sub_exact)
  ultimately have "ss_DeltaPPS (buildSample stats now d) =
      float_to_u64 (of_nat (p' - p) * 1000000000 / of_int (now - d_prevAt d))"
    using assms(1-3) by (simp add: buildSample_def dur_Seconds_def time_IsZero_def Let_def
        del: of_int_diff of_nat_diff)
  with assms(3,9) show ?thesis
    by (simp add: unat_float_to_u64 del: of_int_diff of_nat_diff)
qed

theorem rate_across_wrap_witness:
  "unat (ss_DeltaPPS (buildSample (XdpStats0\<lparr>RxPackets := 90\<rparr>) 3000000000
      (NewDetector DefaultDetectorConfig\<lparr>d_prevStats := Some (XdpStats0\<lparr>RxPackets := - 10\<rparr>),
         d_prevAt := 1000000000\<rparr>))) = 50"
  using rate_across_wrap [of "NewDetector DefaultDetectorConfig\<lparr>d_prevStats := Some (XdpStats0\<lparr>RxPackets := - 10\<rparr>),
         d_prevAt := 1000000000\<rparr>" "XdpStats0\<lparr>RxPackets := - 10\<rparr>" 3000000000 "2 ^ 64 - 10"
         "XdpStats0\<lparr>RxPackets := 90\<rparr>" "2 ^ 64 + 90"]
  by simp

end
