(* ===== verification/FailsafeEngine.thy ===== *)
theory FailsafeEngine
  imports BpfManager Breaker Detector
begin

text \<open>
  The failsafe engine (\<open>internal/failsafe/engine.go\<close>): the polling tick that
  feeds the detector and drives the breaker, the writes of the circuit flag to
  the kernel, the queue of operator commands and the latch that holds the circuit
  closed after an operator closed it.  One goroutine runs ticks and commands, so
  a history is a sequence of them, interleaved with what other parts of the
  process do to the statistics, the queue and the sentinel file (\<open>engine_step\<close>), and
  with the other writers of the failsafe map (\<open>engine_history\<close>).  Panics are not modelled: no operation here can raise one.
\<close>

section \<open>State\<close>

definition adminOverrideCooldown :: duration where
  "adminOverrideCooldown = 5 * Minute"

definition ErrEngineBusy :: string where
  "ErrEngineBusy = ''failsafe engine override channel full '' @ [CHR 0xE2, CHR 0x80, CHR 0x94] @ '' try again''"

record EngineConfig =
  PollInterval :: duration
  ec_Detector :: DetectorConfig
  ec_Recovery :: RecoveryConfig

definition DefaultEngineConfig :: EngineConfig where
  "DefaultEngineConfig = \<lparr>PollInterval = 200 * Millisecond, ec_Detector = DefaultDetectorConfig,
     ec_Recovery = DefaultRecoveryConfig\<rparr>"

record adminOverrideLatch =
  l_active :: bool
  l_until :: gotime

datatype overrideKind = overrideForceOpen | overrideForceClose | overrideThresholdUpdate

record overrideCmd =
  oc_kind :: overrideKind
  oc_reason :: string
  oc_ppsThreshold :: u64
  oc_bpsThreshold :: u64

text \<open>What the engine publishes on the event bus.\<close>

datatype circuit_event = CircuitOpenEvent u64 string | CircuitClosedEvent u64

text \<open>\<open>en_bus\<close> is \<open>None\<close> for the nil bus and otherwise the events published so far;
  \<open>en_sentinel\<close> is the modification time of the sentinel file, if it exists.\<close>

record Engine =
  en_cfg :: EngineConfig
  en_mgr :: Manager
  en_cb :: CircuitBreaker
  en_detector :: Detector
  en_recovery :: RecoveryConfig
  en_bus :: "circuit_event list option"
  en_totalTrips :: u64
  en_totalCloses :: u64
  en_bpfWriteFailures :: u64
  en_overrideCh :: "overrideCmd list"
  en_adminLatch :: adminOverrideLatch
  en_lastClosedAt :: gotime
  en_halfOpenAt :: gotime
  en_sentinel :: "gotime option"

section \<open>The override latch\<close>

definition latch_Arm :: "gotime \<Rightarrow> duration \<Rightarrow> adminOverrideLatch \<Rightarrow> adminOverrideLatch" where
  "latch_Arm now d l = l\<lparr>l_active := True, l_until := time_Add now d\<rparr>"

definition latch_Clear :: "adminOverrideLatch \<Rightarrow> adminOverrideLatch" where
  "latch_Clear l = l\<lparr>l_active := False, l_until := 0\<rparr>"

definition latch_IsActive :: "gotime \<Rightarrow> adminOverrideLatch \<Rightarrow> bool \<times> adminOverrideLatch" where
  "latch_IsActive now l =
     (if \<not> l_active l then (False, l)
      else if time_After now (l_until l) then (False, l\<lparr>l_active := False\<rparr>)
      else (True, l))"

definition adminOverrideFileActive :: "gotime \<Rightarrow> gotime option \<Rightarrow> bool" where
  "adminOverrideFileActive now sentinel =
     (case sentinel of None \<Rightarrow> False | Some mtime \<Rightarrow> time_Sub now mtime < adminOverrideCooldown)"

section \<open>Opening and closing\<close>

definition publishTransition :: "CircuitState \<Rightarrow> string \<Rightarrow> u64 \<Rightarrow> Engine \<Rightarrow> Engine" where
  "publishTransition to reason pps e =
     (case en_bus e of
        None \<Rightarrow> e
      | Some evs \<Rightarrow>
          (case to of
             StateOpen \<Rightarrow> e\<lparr>en_bus := Some (evs @ [CircuitOpenEvent pps reason])\<rparr>
           | StateClosed \<Rightarrow> e\<lparr>en_bus := Some (evs @ [CircuitClosedEvent pps])\<rparr>
           | StateHalfOpen \<Rightarrow> e))"

text \<open>The write of the flag with the count of its failures, shared by the four callers.\<close>

definition write_circuit :: "kernel \<Rightarrow> clock \<Rightarrow> bool \<Rightarrow> string \<Rightarrow> Engine \<Rightarrow> Engine" where
  "write_circuit K clk open' reason e =
     (let (err, m) = Manager_SetCircuitOpen K clk open' reason (en_mgr e); e = e\<lparr>en_mgr := m\<rparr> in
      if err \<noteq> None then e\<lparr>en_bpfWriteFailures := en_bpfWriteFailures e + 1\<rparr> else e)"

definition openCircuit :: "kernel \<Rightarrow> clock \<Rightarrow> DetectionResult \<Rightarrow> Engine \<Rightarrow> Engine" where
  "openCircuit K clk r e =
     (let (ok, cb) = cb_Trip (clk 0) (dr_Reason r) (dr_CurrentPPS r) (dr_CurrentBPS r) (en_cb e);
          e = e\<lparr>en_cb := cb\<rparr> in
      if \<not> ok then e
      else
        let e = e\<lparr>en_totalTrips := en_totalTrips e + 1\<rparr>;
            e = publishTransition StateOpen (dr_Reason r) (dr_CurrentPPS r) e
        in write_circuit K (clk_from 1 clk) True (dr_Reason r) e)"

definition closeCircuit :: "kernel \<Rightarrow> clock \<Rightarrow> u64 \<Rightarrow> u64 \<Rightarrow> Engine \<Rightarrow> Engine" where
  "closeCircuit K clk pps bps e =
     (let (ok, cb) = cb_Close (clk 0) pps bps (en_cb e); e = e\<lparr>en_cb := cb\<rparr> in
      if \<not> ok then e
      else
        let e = e\<lparr>en_lastClosedAt := clk 1, en_totalCloses := en_totalCloses e + 1\<rparr>;
            e = publishTransition StateClosed ''traffic_normalized'' pps e
        in write_circuit K (clk_from 2 clk) False ''traffic_normalized'' e)"

section \<open>The tick\<close>

definition tickClosed :: "kernel \<Rightarrow> clock \<Rightarrow> XdpStats \<Rightarrow> Engine \<Rightarrow> Engine" where
  "tickClosed K clk stats e =
     (let (act, l) = latch_IsActive (clk 0) (en_adminLatch e); e = e\<lparr>en_adminLatch := l\<rparr>;
          (results, d) = Detector_Analyze (clk 2) stats (en_detector e) in
      if act \<or> adminOverrideFileActive (clk 1) (en_sentinel e) then
        e\<lparr>en_detector := d, en_cb := cb_ResetViolation (en_cb e)\<rparr>
      else
        let e = e\<lparr>en_detector := d\<rparr>;
            e = (if \<not> time_IsZero (en_lastClosedAt e) \<and> ShouldResetBackoff (en_recovery e) (clk 3) (en_lastClosedAt e)
                    \<and> cb_tripCount (en_cb e) > 0
                 then e\<lparr>en_cb := cb_ResetTripCount (en_cb e)\<rparr> else e)
        in case filter dr_Triggered results of
             r # _ \<Rightarrow>
               let (reached, cb) = cb_IncrViolation (dc_ConsecutiveViolations (ec_Detector (en_cfg e))) (en_cb e);
                   e = e\<lparr>en_cb := cb\<rparr>
               in if reached then openCircuit K (clk_from 4 clk) r e else e
           | [] \<Rightarrow> e\<lparr>en_cb := cb_ResetViolation (en_cb e)\<rparr>)"

definition tickOpen :: "clock \<Rightarrow> XdpStats \<Rightarrow> Engine \<Rightarrow> Engine" where
  "tickOpen clk stats e =
     (let snap = cb_Snapshot (clk 0) (en_cb e) in
      if ShouldAttemptRecovery (en_recovery e) (clk 1) (cs_OpenedAt snap) (cb_tripCount (en_cb e)) then
        let pps = ss_DeltaPPS (buildSample stats (clk 2) (en_detector e));
            bps = ss_DeltaBPS (buildSample stats (clk 3) (en_detector e));
            (ok, cb) = cb_AttemptRecovery (clk 4) pps bps (en_cb e);
            e = e\<lparr>en_cb := cb\<rparr>
        in if ok then e\<lparr>en_halfOpenAt := clk 5\<rparr> else e
      else e)"

definition tickHalfOpen :: "kernel \<Rightarrow> clock \<Rightarrow> XdpStats \<Rightarrow> Engine \<Rightarrow> Engine" where
  "tickHalfOpen K clk stats e =
     (let (results, d) = Detector_Analyze (clk 0) stats (en_detector e); e = e\<lparr>en_detector := d\<rparr> in
      case filter dr_Triggered results of
        r # _ \<Rightarrow>
          let (ok, cb) = cb_ReTrip (clk 1) (dr_Algorithm r) (dr_CurrentPPS r) (dr_CurrentBPS r) (en_cb e)
          in e\<lparr>en_cb := cb, en_totalTrips := en_totalTrips e + 1\<rparr>
      | [] \<Rightarrow>
          if HalfOpenExpired (en_recovery e) (clk 1) (en_halfOpenAt e) then
            let sample = buildSample stats (clk 2) (en_detector e)
            in closeCircuit K (clk_from 3 clk) (ss_DeltaPPS sample) (ss_DeltaBPS sample) e
          else e)"

definition Engine_tick :: "kernel \<Rightarrow> clock \<Rightarrow> Engine \<Rightarrow> Engine" where
  "Engine_tick K clk e =
     (case Manager_ReadStats K (en_mgr e) of
        Inl _ \<Rightarrow> e
      | Inr stats \<Rightarrow>
          (case cb_state (en_cb e) of
             StateClosed \<Rightarrow> tickClosed K clk stats e
           | StateOpen \<Rightarrow> tickOpen clk stats e
           | StateHalfOpen \<Rightarrow> tickHalfOpen K clk stats e))"

section \<open>Operator commands\<close>

definition override_send :: "overrideCmd \<Rightarrow> Engine \<Rightarrow> error \<times> Engine" where
  "override_send cmd e =
     (let (ok, ch) = chan_send 8 cmd (en_overrideCh e) in
      if ok then (None, e\<lparr>en_overrideCh := ch\<rparr>) else (Some ErrEngineBusy, e))"

definition ForceOpen :: "string \<Rightarrow> Engine \<Rightarrow> error \<times> Engine" where
  "ForceOpen reason = override_send \<lparr>oc_kind = overrideForceOpen, oc_reason = ''soc_manual:'' @ reason,
     oc_ppsThreshold = 0, oc_bpsThreshold = 0\<rparr>"

definition ForceClose :: "string \<Rightarrow> Engine \<Rightarrow> error \<times> Engine" where
  "ForceClose reason = override_send \<lparr>oc_kind = overrideForceClose, oc_reason = ''soc_manual:'' @ reason,
     oc_ppsThreshold = 0, oc_bpsThreshold = 0\<rparr>"

definition Engine_UpdateThresholds ::
    "kernel \<Rightarrow> gotime \<Rightarrow> u64 \<Rightarrow> u64 \<Rightarrow> Engine \<Rightarrow> error \<times> Engine" where
  "Engine_UpdateThresholds K now ppsThr bpsThr e =
     (case override_send \<lparr>oc_kind = overrideThresholdUpdate,
          oc_reason = ''threshold_update pps='' @ dec (unat ppsThr) @ '' bps='' @ dec (unat bpsThr),
          oc_ppsThreshold = ppsThr, oc_bpsThreshold = bpsThr\<rparr> e of
        (Some err, e) \<Rightarrow> (Some err, e)
      | (None, e) \<Rightarrow>
          let (err, m) = Manager_UpdateFailsafeThresholds K now ppsThr bpsThr (en_mgr e)
          in (err, e\<lparr>en_mgr := m\<rparr>))"

text \<open>\<open>fsok\<close>: whether removing or writing the sentinel file succeeds; the code
  ignores its errors.\<close>

definition applyOverride :: "kernel \<Rightarrow> bool \<Rightarrow> clock \<Rightarrow> overrideCmd \<Rightarrow> Engine \<Rightarrow> Engine" where
  "applyOverride K fsok clk cmd e =
     (case oc_kind cmd of
        overrideForceOpen \<Rightarrow>
          let e = e\<lparr>en_adminLatch := latch_Clear (en_adminLatch e),
                    en_sentinel := (if fsok then None else en_sentinel e)\<rparr>;
              (ok, cb) = cb_Trip (clk 0) (oc_reason cmd) 0 0 (en_cb e);
              e = e\<lparr>en_cb := cb\<rparr>;
              e = (if ok then publishTransition StateOpen (oc_reason cmd) 0 e else e)
          in write_circuit K (clk_from 1 clk) True (oc_reason cmd) e
      | overrideForceClose \<Rightarrow>
          let e = e\<lparr>en_adminLatch := latch_Arm (clk 0) adminOverrideCooldown (en_adminLatch e),
                    en_sentinel := (if fsok then Some (clk 1) else en_sentinel e)\<rparr>;
              (ok, cb) = cb_Close (clk 2) 0 0 (en_cb e);
              e = e\<lparr>en_cb := cb\<rparr>;
              e = (if ok then publishTransition StateClosed (oc_reason cmd) 0 e else e);
              e = write_circuit K (clk_from 3 clk) False (oc_reason cmd) e
          in e\<lparr>en_lastClosedAt := clk 6\<rparr>
      | overrideThresholdUpdate \<Rightarrow>
          e\<lparr>en_cfg := (en_cfg e)\<lparr>ec_Detector := (ec_Detector (en_cfg e))
                \<lparr>dc_PPSThreshold := oc_ppsThreshold cmd, dc_BPSThreshold := oc_bpsThreshold cmd\<rparr>\<rparr>,
            en_detector := Detector_UpdateThresholds (oc_ppsThreshold cmd) (oc_bpsThreshold cmd) (en_detector e)\<rparr>)"

section \<open>Start and metrics\<close>

definition time_of_UnixNano :: "i64 \<Rightarrow> gotime" where
  "time_of_UnixNano ns = sint ns + 62135596800000000000"

definition syncStateFromKernel :: "kernel \<Rightarrow> Engine \<Rightarrow> Engine" where
  "syncStateFromKernel K e =
     (case Manager_ReadFailsafeState K (en_mgr e) of
        Inl _ \<Rightarrow> e
      | Inr state \<Rightarrow>
          if CircuitOpen state = 1 then
            e\<lparr>en_cb := (en_cb e)\<lparr>cb_state := StateOpen, cb_openedAt := time_of_UnixNano (OpenSinceNs state)\<rparr>\<rparr>
          else e)"

definition NewEngine :: "kernel \<Rightarrow> EngineConfig \<Rightarrow> gotime option \<Rightarrow> Manager \<Rightarrow> Engine" where
  "NewEngine K cfg sentinel mgr = syncStateFromKernel K
     \<lparr>en_cfg = cfg, en_mgr = mgr, en_cb = newCircuitBreaker, en_detector = NewDetector (ec_Detector cfg),
      en_recovery = ec_Recovery cfg, en_bus = None, en_totalTrips = 0, en_totalCloses = 0,
      en_bpfWriteFailures = 0, en_overrideCh = [], en_adminLatch = \<lparr>l_active = False, l_until = 0\<rparr>,
      en_lastClosedAt = 0, en_halfOpenAt = 0, en_sentinel = sentinel\<rparr>"

definition SetBus :: "Engine \<Rightarrow> Engine" where
  "SetBus e = e\<lparr>en_bus := Some []\<rparr>"

section \<open>Histories\<close>

text \<open>A step of the engine, or of what runs beside it in the daemon: other users of the manager, who
  leave the failsafe map alone, and readers of the event channel or writers of the sentinel
  file.\<close>

inductive engine_step :: "kernel \<Rightarrow> Engine \<Rightarrow> Engine \<Rightarrow> bool" for K where
  tick: "engine_step K e (Engine_tick K clk e)"
| override: "en_overrideCh e = cmd # cmds \<Longrightarrow>
    engine_step K e (applyOverride K fsok clk cmd (e\<lparr>en_overrideCh := cmds\<rparr>))"
| force_open: "engine_step K e (snd (ForceOpen reason e))"
| force_close: "engine_step K e (snd (ForceClose reason e))"
| thresholds: "engine_step K e (snd (Engine_UpdateThresholds K now pps bps e))"
| manager: "m_failsafe m = m_failsafe (en_mgr e) \<Longrightarrow> engine_step K e (e\<lparr>en_mgr := m\<rparr>)"
| outside: "engine_step K e (e\<lparr>en_cb := (en_cb e)\<lparr>cb_transitions := q\<rparr>, en_sentinel := s\<rparr>)"

text \<open>A step decides about the circuit if it moves between closed and not closed or carries out a
  command to open or close.\<close>

definition decides :: "kernel \<Rightarrow> Engine \<Rightarrow> Engine \<Rightarrow> bool" where
  "decides K e e' \<longleftrightarrow> (cb_state (en_cb e) = StateClosed) \<noteq> (cb_state (en_cb e') = StateClosed)
     \<or> (\<exists>cmd cmds fsok clk. en_overrideCh e = cmd # cmds \<and> oc_kind cmd \<noteq> overrideThresholdUpdate
          \<and> e' = applyOverride K fsok clk cmd (e\<lparr>en_overrideCh := cmds\<rparr>))"

text \<open>Histories with other writers of the failsafe map: the XDP program, the handlers of the SOC
  backend and the loader may leave anything in it between two steps.  The flag \<open>due\<close> says whether
  the engine has had the last word: it is set at the start and by a step that decides,
  and lost when another writer intervenes or a write of the engine fails.\<close>

inductive engine_history :: "kernel \<Rightarrow> bool \<Rightarrow> Engine \<Rightarrow> Engine \<Rightarrow> bool" for K where
  start: "engine_history K True e e"
| own: "engine_history K due e e1 \<Longrightarrow> engine_step K e1 e2 \<Longrightarrow>
    due' = (en_bpfWriteFailures e2 = en_bpfWriteFailures e1 \<and> (due \<or> decides K e1 e2)) \<Longrightarrow> engine_history K due' e e2"
| foreign: "engine_history K due e e1 \<Longrightarrow> m = (en_mgr e1)\<lparr>m_failsafe := fs\<rparr> \<Longrightarrow>
    Manager_ReadFailsafeState K m = Inr st \<Longrightarrow> engine_history K False e (e1\<lparr>en_mgr := m\<rparr>)"

text \<open>A sequence of ticks; each has its clock readings and the state in which the
  rest of the process has left the manager.  \<open>alarms\<close> lists what the detector said
  at the ticks that could read the statistics.\<close>

fun ticks :: "kernel \<Rightarrow> (clock \<times> Manager) list \<Rightarrow> Engine \<Rightarrow> Engine" where
  "ticks K [] e = e"
| "ticks K ((clk, m) # xs) e = ticks K xs (Engine_tick K clk (e\<lparr>en_mgr := m\<rparr>))"

fun alarms :: "kernel \<Rightarrow> (clock \<times> Manager) list \<Rightarrow> Engine \<Rightarrow> bool list" where
  "alarms K [] e = []"
| "alarms K ((clk, m) # xs) e =
     (case Manager_ReadStats K m of
        Inl _ \<Rightarrow> []
      | Inr stats \<Rightarrow> [fst (Detector_Analyze (clk 2) stats (en_detector e)) \<noteq> []])
     @ alarms K xs (Engine_tick K clk (e\<lparr>en_mgr := m\<rparr>))"

definition trailing :: "bool list \<Rightarrow> nat" where
  "trailing bs = length (takeWhile id (rev bs))"

text \<open>The readings of each tick are in order and follow those of the one before.\<close>

fun mono_ticks :: "gotime \<Rightarrow> (clock \<times> Manager) list \<Rightarrow> bool" where
  "mono_ticks t [] \<longleftrightarrow> True"
| "mono_ticks t ((clk, m) # xs) \<longleftrightarrow>
     t \<le> clk 0 \<and> sorted (map clk [0..<9]) \<and> mono_ticks (clk 8) xs"

section \<open>Lemmas on single operations\<close>

lemma Analyze_triggered:
  "filter dr_Triggered (fst (Detector_Analyze now stats d)) = fst (Detector_Analyze now stats d)"
  by (simp add: Detector_Analyze_def Let_def)

lemma publishTransition_frame [simp]:
  "en_cfg (publishTransition to reason pps e) = en_cfg e" "en_mgr (publishTransition to reason pps e) = en_mgr e"
  "en_cb (publishTransition to reason pps e) = en_cb e"
  "en_detector (publishTransition to reason pps e) = en_detector e"
  "en_recovery (publishTransition to reason pps e) = en_recovery e"
  "en_bpfWriteFailures (publishTransition to reason pps e) = en_bpfWriteFailures e"
  "en_overrideCh (publishTransition to reason pps e) = en_overrideCh e"
  "en_adminLatch (publishTransition to reason pps e) = en_adminLatch e"
  "en_halfOpenAt (publishTransition to reason pps e) = en_halfOpenAt e"
  "en_sentinel (publishTransition to reason pps e) = en_sentinel e"
  by (simp_all add: publishTransition_def split: option.split CircuitState.split)

lemma write_circuit_frame [simp]:
  "en_cfg (write_circuit K clk b reason e) = en_cfg e" "en_cb (write_circuit K clk b reason e) = en_cb e"
  "en_detector (write_circuit K clk b reason e) = en_detector e"
  "en_recovery (write_circuit K clk b reason e) = en_recovery e"
  "en_overrideCh (write_circuit K clk b reason e) = en_overrideCh e"
  "en_adminLatch (write_circuit K clk b reason e) = en_adminLatch e"
  "en_halfOpenAt (write_circuit K clk b reason e) = en_halfOpenAt e"
  "en_sentinel (write_circuit K clk b reason e) = en_sentinel e"
  by (simp_all add: write_circuit_def Let_def split: prod.split)

lemma cb_state_ops [simp]:
  "cb_state (snd (cb_Trip now reason pps bps cb)) = StateOpen"
  "cb_state (snd (cb_Close now pps bps cb)) = StateClosed"
  "cb_state cb = StateOpen \<Longrightarrow> cb_state (snd (cb_AttemptRecovery now pps bps cb)) = StateHalfOpen"
  "cb_state cb = StateHalfOpen \<Longrightarrow> cb_state (snd (cb_ReTrip now reason pps bps cb)) = StateOpen"
  "cb_state (snd (cb_IncrViolation n cb)) = cb_state cb"
  "cb_state (cb_ResetViolation cb) = cb_state cb" "cb_state (cb_ResetTripCount cb) = cb_state cb"
  by (simp_all add: cb_defs)

lemma cb_ok [simp]:
  "fst (cb_Trip now reason pps bps cb) \<longleftrightarrow> cb_state cb \<noteq> StateOpen"
  "fst (cb_Close now pps bps cb) \<longleftrightarrow> cb_state cb \<noteq> StateClosed"
  "fst (cb_AttemptRecovery now pps bps cb) \<longleftrightarrow> cb_state cb = StateOpen"
  by (simp_all add: cb_defs)

lemma openCircuit_state [simp]: "cb_state (en_cb (openCircuit K clk r e)) = StateOpen"
  by (simp add: openCircuit_def Let_def split_beta)

lemma closeCircuit_state [simp]: "cb_state (en_cb (closeCircuit K clk pps bps e)) = StateClosed"
  by (simp add: closeCircuit_def Let_def split_beta)

section \<open>The next state\<close>

definition latched :: "clock \<Rightarrow> Engine \<Rightarrow> bool" where
  "latched clk e \<longleftrightarrow> l_active (en_adminLatch e) \<and> clk 0 \<le> l_until (en_adminLatch e)
     \<or> (\<exists>mtime. en_sentinel e = Some mtime \<and> time_Sub (clk 1) mtime < 5 * Minute)"

definition alarm :: "gotime \<Rightarrow> XdpStats \<Rightarrow> Engine \<Rightarrow> bool" where
  "alarm now stats e \<longleftrightarrow> fst (Detector_Analyze now stats (en_detector e)) \<noteq> []"

text \<open>The circuit state after a tick that could read the statistics.\<close>

definition next_state :: "clock \<Rightarrow> XdpStats \<Rightarrow> Engine \<Rightarrow> CircuitState" where
  "next_state clk stats e =
     (case cb_state (en_cb e) of
        StateClosed \<Rightarrow>
          if \<not> latched clk e \<and> alarm (clk 2) stats e
             \<and> cb_violations (en_cb e) + 1 \<ge> dc_ConsecutiveViolations (ec_Detector (en_cfg e))
          then StateOpen else StateClosed
      | StateOpen \<Rightarrow>
          if time_Sub (clk 1) (cb_openedAt (en_cb e)) \<ge> CooldownFor (en_recovery e) (cb_tripCount (en_cb e))
          then StateHalfOpen else StateOpen
      | StateHalfOpen \<Rightarrow>
          if alarm (clk 0) stats e then StateOpen
          else if time_Sub (clk 1) (en_halfOpenAt e) \<ge> HalfOpenProbeWindow (en_recovery e) then StateClosed
          else StateHalfOpen)"

lemma latched_iff:
  "latched clk e \<longleftrightarrow> fst (latch_IsActive (clk 0) (en_adminLatch e))
     \<or> adminOverrideFileActive (clk 1) (en_sentinel e)"
  by (auto simp: latched_def latch_IsActive_def adminOverrideFileActive_def adminOverrideCooldown_def
      time_After_def split: option.split)

text \<open>The three ticks with the result of the analysis named.\<close>

lemma tickClosed_cases:
  obtains (latched) d l where "latched clk e" "tickClosed K clk stats e =
      e\<lparr>en_adminLatch := l, en_detector := d, en_cb := cb_ResetViolation (en_cb e)\<rparr>"
  | (quiet) d l cb where "\<not> latched clk e" "\<not> alarm (clk 2) stats e" "cb = en_cb e \<or> cb = cb_ResetTripCount (en_cb e)"
      "tickClosed K clk stats e = e\<lparr>en_adminLatch := l, en_detector := d, en_cb := cb_ResetViolation cb\<rparr>"
  | (count) d l cb n where "\<not> latched clk e" "alarm (clk 2) stats e" "cb = en_cb e \<or> cb = cb_ResetTripCount (en_cb e)"
      "n = dc_ConsecutiveViolations (ec_Detector (en_cfg e))" "cb_violations (en_cb e) + 1 < n"
      "tickClosed K clk stats e = e\<lparr>en_adminLatch := l, en_detector := d, en_cb := snd (cb_IncrViolation n cb)\<rparr>"
  | (trip) d l cb n r where "\<not> latched clk e" "alarm (clk 2) stats e" "cb = en_cb e \<or> cb = cb_ResetTripCount (en_cb e)"
      "n = dc_ConsecutiveViolations (ec_Detector (en_cfg e))" "n \<le> cb_violations (en_cb e) + 1"
      "tickClosed K clk stats e = openCircuit K (clk_from 4 clk) r
         (e\<lparr>en_adminLatch := l, en_detector := d, en_cb := snd (cb_IncrViolation n cb)\<rparr>)"
proof -
  let ?l = "snd (latch_IsActive (clk 0) (en_adminLatch e))"
  let ?rs = "fst (Detector_Analyze (clk 2) stats (en_detector e))"
  let ?d = "snd (Detector_Analyze (clk 2) stats (en_detector e))"
  let ?n = "dc_ConsecutiveViolations (ec_Detector (en_cfg e))"
  define cb where "cb = (if \<not> time_IsZero (en_lastClosedAt e) \<and> ShouldResetBackoff (en_recovery e) (clk 3) (en_lastClosedAt e)
      \<and> cb_tripCount (en_cb e) > 0 then cb_ResetTripCount (en_cb e) else en_cb e)"
  have cb: "cb = en_cb e \<or> cb = cb_ResetTripCount (en_cb e)"
    by (simp add: cb_def)
  have v: "cb_violations cb = cb_violations (en_cb e)"
    using cb by (auto simp: cb_ResetTripCount_def)
  have T: "tickClosed K clk stats e =
    (if latched clk e then e\<lparr>en_adminLatch := ?l, en_detector := ?d, en_cb := cb_ResetViolation (en_cb e)\<rparr>
     else case ?rs of
       [] \<Rightarrow> e\<lparr>en_adminLatch := ?l, en_detector := ?d, en_cb := cb_ResetViolation cb\<rparr>
     | r # _ \<Rightarrow>
         let e' = e\<lparr>en_adminLatch := ?l, en_detector := ?d, en_cb := snd (cb_IncrViolation ?n cb)\<rparr> in
         if ?n \<le> cb_violations (en_cb e) + 1 then openCircuit K (clk_from 4 clk) r e' else e')"
    unfolding tickClosed_def latched_iff
    by (simp add: Let_def split_beta Analyze_triggered cb_def [symmetric] cb_IncrViolation_def
        split: list.split)
       (simp add: cb_def cb_ResetTripCount_def cb_IncrViolation_def)
  show thesis
  proof (cases "latched clk e")
    case False
    show thesis
    proof (cases ?rs)
      case Nil
      with False T cb show thesis by (intro quiet [where cb = cb and l = ?l and d = ?d]) (simp_all add: alarm_def)
    next
      case (Cons r rs)
      show thesis
      proof (cases "?n \<le> cb_violations (en_cb e) + 1")
        case True
        with False T cb Cons show thesis by (intro trip [where cb = cb and n = ?n and l = ?l and d = ?d and r = r]) (simp_all add: alarm_def)
      next
        case no: False
        with False T cb Cons show thesis by (intro count [where cb = cb and n = ?n and l = ?l and d = ?d]) (simp_all add: alarm_def)
      qed
    qed
  qed (use T latched in simp)
qed

lemma tickClosed_state:
  "cb_state (en_cb e) = StateClosed \<Longrightarrow> cb_state (en_cb (tickClosed K clk stats e)) = next_state clk stats e"
  by (rule tickClosed_cases [of clk e K stats]) (auto simp: next_state_def)

lemma tickOpen_state:
  "cb_state (en_cb e) = StateOpen \<Longrightarrow> cb_state (en_cb (tickOpen clk stats e)) = next_state clk stats e"
  by (simp add: tickOpen_def next_state_def Let_def split_beta ShouldAttemptRecovery_def cb_Snapshot_def)

lemma tickHalfOpen_state:
  "cb_state (en_cb e) = StateHalfOpen \<Longrightarrow> cb_state (en_cb (tickHalfOpen K clk stats e)) = next_state clk stats e"
  by (simp add: tickHalfOpen_def next_state_def Let_def split_beta Analyze_triggered alarm_def
      HalfOpenExpired_def split: list.split)

lemma tick_state:
  "Manager_ReadStats K (en_mgr e) = Inr stats \<Longrightarrow>
   cb_state (en_cb (Engine_tick K clk e)) = next_state clk stats e"
  by (cases "cb_state (en_cb e)") (simp_all add: Engine_tick_def tickClosed_state tickOpen_state tickHalfOpen_state)

lemma tick_unreadable: "Manager_ReadStats K (en_mgr e) = Inl err \<Longrightarrow> Engine_tick K clk e = e"
  by (simp add: Engine_tick_def)

section \<open>Agreement with the kernel\<close>

definition circuit_agrees :: "kernel \<Rightarrow> Engine \<Rightarrow> bool" where
  "circuit_agrees K e \<longleftrightarrow> (\<exists>st. Manager_ReadFailsafeState K (en_mgr e) = Inr st \<and>
     CircuitOpen st = (if cb_state (en_cb e) = StateClosed then 0 else 1))"

lemma circuit_agrees_cong:
  assumes "m_failsafe (en_mgr e') = m_failsafe (en_mgr e)"
    and "cb_state (en_cb e') = StateClosed \<longleftrightarrow> cb_state (en_cb e) = StateClosed"
  shows "circuit_agrees K e' \<longleftrightarrow> circuit_agrees K e"
  using assms by (simp add: circuit_agrees_def Manager_ReadFailsafeState_def)

text \<open>A write that does not fail establishes the agreement.\<close>

lemma write_circuit_agrees:
  assumes "ebpf_array (k_failsafe K)" and "Manager_ReadFailsafeState K (en_mgr e) = Inr st"
    and "en_bpfWriteFailures (write_circuit K clk b reason e) = en_bpfWriteFailures e"
    and "cb_state (en_cb e) = (if b then StateOpen else StateClosed)"
  shows "circuit_agrees K (write_circuit K clk b reason e)"
proof -
  obtain r m where w: "Manager_SetCircuitOpen K clk b reason (en_mgr e) = (r, m)" by fastforce
  with assms(3) have "r = None"
    by (auto simp: write_circuit_def Let_def split: if_splits)
  with w SetCircuitOpen_read [OF assms(1,2) w] assms(4) show ?thesis
    by (simp add: circuit_agrees_def write_circuit_def)
qed

text \<open>The operations that write the flag end with that write; \<open>writes\<close> says so
  and carries the two consequences.\<close>

definition writes :: "kernel \<Rightarrow> Engine \<Rightarrow> Engine \<Rightarrow> bool" where
  "writes K e e' \<longleftrightarrow> (\<exists>clk b reason e1 t. e' = (write_circuit K clk b reason e1)\<lparr>en_lastClosedAt := t\<rparr> \<and>
     m_failsafe (en_mgr e1) = m_failsafe (en_mgr e) \<and> en_bpfWriteFailures e1 = en_bpfWriteFailures e \<and>
     cb_state (en_cb e1) = (if b then StateOpen else StateClosed))"

lemma writesI:
  assumes "e' = (write_circuit K clk b reason e1)\<lparr>en_lastClosedAt := t\<rparr>"
    and "m_failsafe (en_mgr e1) = m_failsafe (en_mgr e)" and "en_bpfWriteFailures e1 = en_bpfWriteFailures e"
    and "cb_state (en_cb e1) = (if b then StateOpen else StateClosed)"
  shows "writes K e e'"
  using assms unfolding writes_def by blast

lemma writesI_id:
  assumes "e' = write_circuit K clk b reason e1"
    and "m_failsafe (en_mgr e1) = m_failsafe (en_mgr e)" and "en_bpfWriteFailures e1 = en_bpfWriteFailures e"
    and "cb_state (en_cb e1) = (if b then StateOpen else StateClosed)"
  shows "writes K e e'"
  by (rule writesI [of e' "en_lastClosedAt e'" K clk b reason e1]) (use assms in simp_all)

lemma writes_readable:
  assumes "writes K e e'" and "ebpf_array (k_failsafe K)" and "Manager_ReadFailsafeState K (en_mgr e) = Inr st"
  shows "\<exists>st'. Manager_ReadFailsafeState K (en_mgr e') = Inr st'"
    and "en_bpfWriteFailures e' = en_bpfWriteFailures e \<Longrightarrow> circuit_agrees K e'"
proof -
  from assms(1) obtain clk b reason e1 t where e': "e' = (write_circuit K clk b reason e1)\<lparr>en_lastClosedAt := t\<rparr>"
    and e1: "m_failsafe (en_mgr e1) = m_failsafe (en_mgr e)" "en_bpfWriteFailures e1 = en_bpfWriteFailures e"
      "cb_state (en_cb e1) = (if b then StateOpen else StateClosed)"
    unfolding writes_def by blast
  have st: "Manager_ReadFailsafeState K (en_mgr e1) = Inr st"
    using assms(3) e1(1) by (simp add: Manager_ReadFailsafeState_def)
  obtain r m where w: "Manager_SetCircuitOpen K clk b reason (en_mgr e1) = (r, m)" by fastforce
  from SetCircuitOpen_read [OF assms(2) st w] show "\<exists>st'. Manager_ReadFailsafeState K (en_mgr e') = Inr st'"
    by (simp add: e' write_circuit_def w Let_def)
  assume "en_bpfWriteFailures e' = en_bpfWriteFailures e"
  with write_circuit_agrees [OF assms(2) st _ e1(3)] e1(2)
  have "circuit_agrees K (write_circuit K clk b reason e1)" by (simp add: e')
  then show "circuit_agrees K e'" by (simp add: e' circuit_agrees_def)
qed

lemma openCircuit_writes:
  assumes "cb_state (en_cb e) \<noteq> StateOpen"
  shows "writes K e (openCircuit K clk r e)"
  by (rule writesI_id [of _ K "clk_from 1 clk" True "dr_Reason r" "publishTransition StateOpen (dr_Reason r)
        (dr_CurrentPPS r) (e\<lparr>en_cb := snd (cb_Trip (clk 0) (dr_Reason r) (dr_CurrentPPS r) (dr_CurrentBPS r) (en_cb e)),
          en_totalTrips := en_totalTrips e + 1\<rparr>)"])
     (simp_all add: openCircuit_def Let_def split_beta assms)

lemma closeCircuit_writes:
  assumes "cb_state (en_cb e) \<noteq> StateClosed"
  shows "writes K e (closeCircuit K clk pps bps e)"
  by (rule writesI_id [of _ K "clk_from 2 clk" False "''traffic_normalized''"
        "publishTransition StateClosed ''traffic_normalized'' pps (e\<lparr>en_cb := snd (cb_Close (clk 0) pps bps (en_cb e)),
          en_lastClosedAt := clk 1, en_totalCloses := en_totalCloses e + 1\<rparr>)"])
     (simp_all add: closeCircuit_def Let_def split_beta assms)

lemma applyOverride_writes:
  assumes "oc_kind cmd \<noteq> overrideThresholdUpdate"
  shows "writes K e (applyOverride K fsok clk cmd e)"
proof (cases "oc_kind cmd")
  case overrideForceOpen
  let ?e = "e\<lparr>en_adminLatch := latch_Clear (en_adminLatch e), en_sentinel := (if fsok then None else en_sentinel e),
    en_cb := snd (cb_Trip (clk 0) (oc_reason cmd) 0 0 (en_cb e))\<rparr>"
  show ?thesis
    by (rule writesI_id [of _ K "clk_from 1 clk" True "oc_reason cmd"
          "if cb_state (en_cb e) \<noteq> StateOpen then publishTransition StateOpen (oc_reason cmd) 0 ?e else ?e"])
       (simp_all add: applyOverride_def overrideForceOpen Let_def split_beta)
next
  case overrideForceClose
  let ?e = "e\<lparr>en_adminLatch := latch_Arm (clk 0) adminOverrideCooldown (en_adminLatch e),
    en_sentinel := (if fsok then Some (clk 1) else en_sentinel e),
    en_cb := snd (cb_Close (clk 2) 0 0 (en_cb e))\<rparr>"
  show ?thesis
    by (rule writesI [of _ "clk 6" K "clk_from 3 clk" False "oc_reason cmd"
          "if cb_state (en_cb e) \<noteq> StateClosed then publishTransition StateClosed (oc_reason cmd) 0 ?e else ?e"])
       (simp_all add: applyOverride_def overrideForceClose Let_def split_beta)
qed (use assms in simp)

text \<open>An operation that does not write the flag leaves the map and the count of
  failures alone and does not move between closed and not closed.\<close>

definition silent :: "Engine \<Rightarrow> Engine \<Rightarrow> bool" where
  "silent e e' \<longleftrightarrow> m_failsafe (en_mgr e') = m_failsafe (en_mgr e) \<and>
     en_bpfWriteFailures e' = en_bpfWriteFailures e \<and>
     (cb_state (en_cb e') = StateClosed \<longleftrightarrow> cb_state (en_cb e) = StateClosed)"

lemma writes_cong:
  "m_failsafe (en_mgr e1) = m_failsafe (en_mgr e) \<Longrightarrow> en_bpfWriteFailures e1 = en_bpfWriteFailures e \<Longrightarrow>
   writes K e1 e' \<longleftrightarrow> writes K e e'"
  by (simp add: writes_def)

lemma tickClosed_writes:
  assumes "cb_state (en_cb e) = StateClosed"
  shows "silent e (tickClosed K clk stats e) \<or> writes K e (tickClosed K clk stats e)"
proof (rule tickClosed_cases [of clk e K stats])
  fix d l cb n r
  let ?e = "e\<lparr>en_adminLatch := l, en_detector := d, en_cb := snd (cb_IncrViolation n cb)\<rparr>"
  assume "cb = en_cb e \<or> cb = cb_ResetTripCount (en_cb e)"
    and t: "tickClosed K clk stats e = openCircuit K (clk_from 4 clk) r ?e"
  with assms have "writes K ?e (tickClosed K clk stats e)"
    unfolding t by (intro openCircuit_writes) auto
  then show ?thesis by (simp add: writes_cong [of ?e e])
qed (use assms in \<open>auto simp: silent_def\<close>)

lemma tickOpen_silent:
  "cb_state (en_cb e) = StateOpen \<Longrightarrow> silent e (tickOpen clk stats e)"
  by (auto simp: silent_def tickOpen_def Let_def split_beta)

lemma tickHalfOpen_writes:
  assumes "cb_state (en_cb e) = StateHalfOpen"
  shows "silent e (tickHalfOpen K clk stats e) \<or> writes K e (tickHalfOpen K clk stats e)"
proof -
  let ?e = "e\<lparr>en_detector := snd (Detector_Analyze (clk 0) stats (en_detector e))\<rparr>"
  have "writes K e (closeCircuit K clk' pps bps ?e)" for clk' pps bps
    using closeCircuit_writes [of ?e K clk' pps bps] assms by (simp add: writes_cong [of ?e e])
  with assms show ?thesis
    by (simp add: tickHalfOpen_def Let_def split_beta silent_def split: list.split)
qed

lemma step_writes:
  assumes "engine_step K e e'" and "ebpf_array (k_failsafe K)"
  shows "silent e e' \<or> writes K e e' \<or> (\<exists>now pps bps. e' = snd (Engine_UpdateThresholds K now pps bps e))"
  using assms(1)
proof cases
  case (tick clk)
  show ?thesis
    using tickClosed_writes [of e K clk] tickOpen_silent [of e clk] tickHalfOpen_writes [of e K clk]
    by (cases "cb_state (en_cb e)") (auto simp: tick Engine_tick_def silent_def split: sum.split)
next
  case (override cmd cmds fsok clk)
  let ?e = "e\<lparr>en_overrideCh := cmds\<rparr>"
  show ?thesis
  proof (cases "oc_kind cmd = overrideThresholdUpdate")
    case True
    then show ?thesis by (simp add: override silent_def applyOverride_def)
  next
    case False
    then have "writes K ?e e'" by (simp add: override applyOverride_writes)
    then show ?thesis by (simp add: writes_cong [of ?e e])
  qed
qed (auto simp: silent_def ForceOpen_def ForceClose_def override_send_def Let_def split_beta)

lemma thresholds_read:
  assumes "ebpf_array (k_failsafe K)" and "Manager_ReadFailsafeState K (en_mgr e) = Inr st"
  shows "\<exists>st'. Manager_ReadFailsafeState K (en_mgr (snd (Engine_UpdateThresholds K now pps bps e))) = Inr st'
    \<and> CircuitOpen st' = CircuitOpen st"
    and "cb_state (en_cb (snd (Engine_UpdateThresholds K now pps bps e))) = cb_state (en_cb e)"
proof -
  obtain r m where "Manager_UpdateFailsafeThresholds K now pps bps (en_mgr e) = (r, m)" by fastforce
  with UpdateFailsafeThresholds_read [OF assms this] assms(2)
  show "\<exists>st'. Manager_ReadFailsafeState K (en_mgr (snd (Engine_UpdateThresholds K now pps bps e))) = Inr st'
      \<and> CircuitOpen st' = CircuitOpen st"
    by (auto simp: Engine_UpdateThresholds_def override_send_def Let_def split: prod.splits option.splits if_splits)
  show "cb_state (en_cb (snd (Engine_UpdateThresholds K now pps bps e))) = cb_state (en_cb e)"
    by (auto simp: Engine_UpdateThresholds_def override_send_def Let_def split: prod.splits option.splits if_splits)
qed

text \<open>A step keeps the map readable and the agreement, and a step that decides establishes it.\<close>

lemma step_agrees:
  assumes "engine_step K e e'" and "ebpf_array (k_failsafe K)" and "Manager_ReadFailsafeState K (en_mgr e) = Inr st"
  shows "\<exists>st'. Manager_ReadFailsafeState K (en_mgr e') = Inr st'"
    and "circuit_agrees K e \<Longrightarrow> en_bpfWriteFailures e' = en_bpfWriteFailures e \<Longrightarrow> circuit_agrees K e'"
proof -
  have "(\<exists>st'. Manager_ReadFailsafeState K (en_mgr e') = Inr st')
    \<and> (circuit_agrees K e \<longrightarrow> en_bpfWriteFailures e' = en_bpfWriteFailures e \<longrightarrow> circuit_agrees K e')"
    using step_writes [OF assms(1,2)]
  proof (elim disjE exE)
    assume "silent e e'"
    with assms(3) circuit_agrees_cong [of e' e K] show ?thesis by (auto simp: silent_def Manager_ReadFailsafeState_def)
  next
    assume "writes K e e'"
    from writes_readable [OF this assms(2,3)] show ?thesis by blast
  next
    fix now pps bps
    assume "e' = snd (Engine_UpdateThresholds K now pps bps e)"
    with thresholds_read(1) [OF assms(2,3), of now pps bps] thresholds_read(2) [OF assms(2,3), of now pps bps] assms(3)
    show ?thesis unfolding circuit_agrees_def by force
  qed
  then show "\<exists>st'. Manager_ReadFailsafeState K (en_mgr e') = Inr st'"
    and "circuit_agrees K e \<Longrightarrow> en_bpfWriteFailures e' = en_bpfWriteFailures e \<Longrightarrow> circuit_agrees K e'" by blast+
qed

lemma decides_agrees:
  assumes "engine_step K e e'" and "ebpf_array (k_failsafe K)" and "Manager_ReadFailsafeState K (en_mgr e) = Inr st"
    and "decides K e e'" and "en_bpfWriteFailures e' = en_bpfWriteFailures e"
  shows "circuit_agrees K e'"
proof -
  have "writes K e e'"
    using assms(4) unfolding decides_def
  proof
    assume "(cb_state (en_cb e) = StateClosed) \<noteq> (cb_state (en_cb e') = StateClosed)"
    with step_writes [OF assms(1,2)] thresholds_read(2) [OF assms(2,3)] show ?thesis by (auto simp: silent_def)
  next
    assume "\<exists>cmd cmds fsok clk. en_overrideCh e = cmd # cmds \<and> oc_kind cmd \<noteq> overrideThresholdUpdate
      \<and> e' = applyOverride K fsok clk cmd (e\<lparr>en_overrideCh := cmds\<rparr>)"
    then obtain cmd cmds fsok clk where "oc_kind cmd \<noteq> overrideThresholdUpdate"
      "e' = applyOverride K fsok clk cmd (e\<lparr>en_overrideCh := cmds\<rparr>)" by blast
    then show ?thesis using applyOverride_writes [of cmd K "e\<lparr>en_overrideCh := cmds\<rparr>" fsok clk] by (simp add: writes_def)
  qed
  from writes_readable(2) [OF this assms(2,3,5)] show ?thesis .
qed

lemma history_agrees:
  assumes "engine_history K due e0 e" and "ebpf_array (k_failsafe K)" and "circuit_agrees K e0"
  shows "(\<exists>st. Manager_ReadFailsafeState K (en_mgr e) = Inr st) \<and> (due \<longrightarrow> circuit_agrees K e)"
  using assms
proof (induction rule: engine_history.induct)
  case (own due e e1 e2 due')
  then obtain st where st: "Manager_ReadFailsafeState K (en_mgr e1) = Inr st" by auto
  from own step_agrees [OF own.hyps(2) assms(2) st] decides_agrees [OF own.hyps(2) assms(2) st] show ?case by blast
qed (auto simp: circuit_agrees_def)

lemma NewEngine_agrees:
  assumes "Manager_ReadFailsafeState K m = Inr st" and "CircuitOpen st = 0 \<or> CircuitOpen st = 1"
  shows "circuit_agrees K (NewEngine K cfg sentinel m)"
    and "en_bpfWriteFailures (NewEngine K cfg sentinel m) = 0"
  using assms by (auto simp: NewEngine_def syncStateFromKernel_def circuit_agrees_def newCircuitBreaker_def)

section \<open>Lemmas on sequences of ticks\<close>

lemma ticks_append: "ticks K (xs @ ys) e = ticks K ys (ticks K xs e)"
  by (induction K xs e rule: ticks.induct) simp_all

lemma alarms_append: "alarms K (xs @ ys) e = alarms K xs e @ alarms K ys (ticks K xs e)"
  by (induction K xs e rule: ticks.induct) simp_all

lemma trailing_simps [simp]:
  "trailing [] = 0" "trailing (bs @ [True]) = Suc (trailing bs)" "trailing (bs @ [False]) = 0"
  by (simp_all add: trailing_def)

lemma open_close_frame [simp]:
  "en_cfg (openCircuit K clk r e) = en_cfg e" "en_recovery (openCircuit K clk r e) = en_recovery e"
  "en_cfg (closeCircuit K clk pps bps e) = en_cfg e" "en_recovery (closeCircuit K clk pps bps e) = en_recovery e"
  "en_adminLatch (openCircuit K clk r e) = en_adminLatch e" "en_sentinel (openCircuit K clk r e) = en_sentinel e"
  "en_detector (openCircuit K clk r e) = en_detector e"
  by (simp_all add: openCircuit_def closeCircuit_def Let_def split_beta)

lemma tickClosed_frame:
  "en_cfg (tickClosed K clk stats e) = en_cfg e" "en_recovery (tickClosed K clk stats e) = en_recovery e"
  "en_sentinel (tickClosed K clk stats e) = en_sentinel e"
  by (rule tickClosed_cases [of clk e K stats]; simp)+

lemma tick_frame [simp]:
  "en_cfg (Engine_tick K clk e) = en_cfg e" "en_recovery (Engine_tick K clk e) = en_recovery e"
  by (auto simp: Engine_tick_def tickClosed_frame tickOpen_def tickHalfOpen_def Let_def split_beta
      split: sum.split CircuitState.split list.split)

lemma ticks_frame [simp]:
  "en_cfg (ticks K xs e) = en_cfg e" "en_recovery (ticks K xs e) = en_recovery e"
  by (induction K xs e rule: ticks.induct) simp_all

lemma cb_violations_ops [simp]:
  "cb_violations (cb_ResetViolation cb) = 0" "cb_violations (cb_ResetTripCount cb) = cb_violations cb"
  "cb_violations (snd (cb_IncrViolation n cb)) = cb_violations cb + 1"
  by (simp_all add: cb_defs)

lemma tickClosed_violations:
  assumes "0 \<le> cb_violations (en_cb e)" and "cb_state (en_cb (tickClosed K clk stats e)) = StateClosed"
  shows "0 \<le> cb_violations (en_cb (tickClosed K clk stats e))
    \<and> cb_violations (en_cb (tickClosed K clk stats e))
      \<le> (if alarm (clk 2) stats e then cb_violations (en_cb e) + 1 else 0)"
  by (rule tickClosed_cases [of clk e K stats]) (use assms in auto)

text \<open>While the circuit stays closed the counter never exceeds the number of alarms in a
  row, so it opens only after that many.\<close>

lemma closed_ticks_violations:
  assumes "cb_state (en_cb e) = StateClosed" and "cb_violations (en_cb e) = 0"
    and "\<forall>k \<le> length xs. cb_state (en_cb (ticks K (take k xs) e)) = StateClosed"
  shows "0 \<le> cb_violations (en_cb (ticks K xs e))
    \<and> cb_violations (en_cb (ticks K xs e)) \<le> int (trailing (alarms K xs e))"
  using assms
proof (induction xs rule: rev_induct)
  case (snoc x xs)
  obtain clk m where x: "x = (clk, m)" by fastforce
  let ?e = "ticks K xs e\<lparr>en_mgr := m\<rparr>"
  have "\<forall>k \<le> length xs. cb_state (en_cb (ticks K (take k xs) e)) = StateClosed"
  proof (intro allI impI)
    fix k
    assume "k \<le> length xs"
    with snoc.prems(3) [rule_format, of k] show "cb_state (en_cb (ticks K (take k xs) e)) = StateClosed" by simp
  qed
  from snoc.IH [OF snoc.prems(1,2) this]
  have v: "0 \<le> cb_violations (en_cb ?e)" "cb_violations (en_cb ?e) \<le> int (trailing (alarms K xs e))" by simp_all
  have c: "cb_state (en_cb ?e) = StateClosed" "cb_state (en_cb (Engine_tick K clk ?e)) = StateClosed"
    using snoc.prems(3) [rule_format, of "length xs"] snoc.prems(3) [rule_format, of "Suc (length xs)"]
    by (simp_all add: x ticks_append)
  show ?case
  proof (cases "Manager_ReadStats K m")
    case (Inl err)
    with v show ?thesis by (simp add: x ticks_append alarms_append tick_unreadable)
  next
    case (Inr stats)
    then have t: "Engine_tick K clk ?e = tickClosed K clk stats ?e"
      using c(1) by (simp add: Engine_tick_def)
    have al: "alarms K (xs @ [x]) e = alarms K xs e @ [alarm (clk 2) stats ?e]"
      by (simp add: x alarms_append Inr alarm_def)
    from tickClosed_violations [OF v(1) c(2) [unfolded t]] v(2) t show ?thesis
      unfolding al by (cases "alarm (clk 2) stats ?e") (simp_all add: x ticks_append)
  qed
qed simp

lemma opening_tick:
  assumes "cb_state (en_cb e) = StateClosed" and "cb_state (en_cb (Engine_tick K clk e)) \<noteq> StateClosed"
  obtains stats where "Manager_ReadStats K (en_mgr e) = Inr stats" "alarm (clk 2) stats e" "\<not> latched clk e"
    "dc_ConsecutiveViolations (ec_Detector (en_cfg e)) \<le> cb_violations (en_cb e) + 1"
proof (cases "Manager_ReadStats K (en_mgr e)")
  case (Inl err)
  with assms show thesis by (simp add: tick_unreadable)
next
  case (Inr stats)
  with assms that [OF Inr] show thesis
    by (auto simp: tick_state next_state_def split: if_splits)
qed

lemma trip_after_alarms:
  assumes "cb_state (en_cb e) = StateClosed" and "cb_violations (en_cb e) = 0"
    and "\<forall>k < length xs. cb_state (en_cb (ticks K (take k xs) e)) = StateClosed"
    and "cb_state (en_cb (ticks K xs e)) \<noteq> StateClosed"
  shows "dc_ConsecutiveViolations (ec_Detector (en_cfg e)) \<le> int (trailing (alarms K xs e))"
proof (cases xs rule: rev_cases)
  case (snoc ys x)
  obtain clk m where x: "x = (clk, m)" by fastforce
  let ?e = "ticks K ys e\<lparr>en_mgr := m\<rparr>"
  have "\<forall>k \<le> length ys. cb_state (en_cb (ticks K (take k ys) e)) = StateClosed"
  proof (intro allI impI)
    fix k
    assume "k \<le> length ys"
    with assms(3) [rule_format, of k] show "cb_state (en_cb (ticks K (take k ys) e)) = StateClosed"
      by (simp add: snoc)
  qed
  with closed_ticks_violations [OF assms(1,2) this] this [rule_format, of "length ys"]
  have v: "cb_violations (en_cb ?e) \<le> int (trailing (alarms K ys e))" "cb_state (en_cb ?e) = StateClosed"
    by simp_all
  have "cb_state (en_cb (Engine_tick K clk ?e)) \<noteq> StateClosed"
    using assms(4) by (simp add: snoc x ticks_append)
  from opening_tick [OF v(2) this] obtain stats where "Manager_ReadStats K m = Inr stats"
    "alarm (clk 2) stats ?e" "dc_ConsecutiveViolations (ec_Detector (en_cfg e)) \<le> cb_violations (en_cb ?e) + 1"
    by auto
  with v(1) show ?thesis by (simp add: snoc x alarms_append alarm_def)
qed (use assms in simp)

text \<open>Without a latch every alarm counts.\<close>

definition unlatched :: "Engine \<Rightarrow> bool" where
  "unlatched e \<longleftrightarrow> \<not> l_active (en_adminLatch e) \<and> en_sentinel e = None"

lemma unlatched_not_latched: "unlatched e \<Longrightarrow> \<not> latched clk e"
  by (simp add: unlatched_def latched_def)

lemma tickClosed_unlatched: "unlatched e \<Longrightarrow> unlatched (tickClosed K clk stats e)"
  unfolding tickClosed_def
  by (auto simp: unlatched_def latch_IsActive_def Let_def split_beta split: list.split)

lemma tickClosed_alarm_counts:
  assumes "unlatched e" and "alarm (clk 2) stats e"
    and "cb_state (en_cb (tickClosed K clk stats e)) = StateClosed"
  shows "cb_violations (en_cb (tickClosed K clk stats e)) = cb_violations (en_cb e) + 1"
  by (rule tickClosed_cases [of clk e K stats]) (use assms unlatched_not_latched [OF assms(1)] in auto)

lemma sustained_alarms_open:
  assumes "cb_state (en_cb e) = StateClosed" and "unlatched e" and "xs \<noteq> []"
    and "\<forall>x\<in>set xs. \<exists>stats. Manager_ReadStats K (snd x) = Inr stats" and "\<forall>b\<in>set (alarms K xs e). b"
    and "dc_ConsecutiveViolations (ec_Detector (en_cfg e)) \<le> cb_violations (en_cb e) + int (length xs)"
  shows "\<exists>k \<le> length xs. cb_state (en_cb (ticks K (take k xs) e)) = StateOpen"
  using assms
proof (induction K xs e rule: ticks.induct)
  case (2 K clk m xs e)
  let ?e = "e\<lparr>en_mgr := m\<rparr>"
  let ?e' = "Engine_tick K clk ?e"
  from 2 obtain stats where st: "Manager_ReadStats K m = Inr stats" by auto
  with "2.prems" have al: "alarm (clk 2) stats ?e"
    by (auto simp: alarm_def)
  have t: "?e' = tickClosed K clk stats ?e"
    using st "2.prems"(1) by (simp add: Engine_tick_def)
  have u: "unlatched ?e" using "2.prems"(2) by (simp add: unlatched_def)
  have n: "cb_state (en_cb ?e') = next_state clk stats ?e"
    using st by (simp add: tick_state)
  show ?case
  proof (cases "cb_state (en_cb ?e') = StateOpen")
    case True
    then show ?thesis by (intro exI [of _ 1]) simp
  next
    case False
    with n "2.prems"(1) have c: "cb_state (en_cb ?e') = StateClosed"
      by (simp add: next_state_def split: if_splits)
    with n False al u "2.prems"(1)
    have v: "cb_violations (en_cb e) + 1 < dc_ConsecutiveViolations (ec_Detector (en_cfg e))"
      by (simp add: next_state_def unlatched_not_latched split: if_splits)
    have v': "cb_violations (en_cb ?e') = cb_violations (en_cb e) + 1"
      using tickClosed_alarm_counts [of ?e clk stats K] u al c t by simp
    have "\<exists>k \<le> length xs. cb_state (en_cb (ticks K (take k xs) ?e')) = StateOpen"
    proof (rule "2.IH" [OF c])
      show "unlatched ?e'" using tickClosed_unlatched [OF u] t by simp
    qed (use "2.prems" v v' st in auto)
    then obtain k where "k \<le> length xs" "cb_state (en_cb (ticks K (take k xs) ?e')) = StateOpen" by blast
    then show ?thesis by (intro exI [of _ "Suc k"]) simp
  qed
qed simp

text \<open>A latch that is armed for longer than the ticks last keeps the circuit closed.\<close>

lemma latched_tick:
  assumes "cb_state (en_cb e) = StateClosed" and "l_active (en_adminLatch e)" and "clk 0 \<le> l_until (en_adminLatch e)"
  shows "cb_state (en_cb (Engine_tick K clk e)) = StateClosed" and "en_adminLatch (Engine_tick K clk e) = en_adminLatch e"
  using assms
  by (auto simp: Engine_tick_def tickClosed_def latch_IsActive_def time_After_def Let_def split_beta split: sum.split)

lemma latched_ticks:
  assumes "cb_state (en_cb e) = StateClosed" and "l_active (en_adminLatch e)"
    and "\<forall>x\<in>set xs. fst x 0 \<le> l_until (en_adminLatch e)"
  shows "cb_state (en_cb (ticks K xs e)) = StateClosed"
  using assms
proof (induction K xs e rule: ticks.induct)
  case (2 K clk m xs e)
  let ?e = "e\<lparr>en_mgr := m\<rparr>"
  have "cb_state (en_cb (Engine_tick K clk ?e)) = StateClosed" "en_adminLatch (Engine_tick K clk ?e) = en_adminLatch e"
    using latched_tick [of ?e clk K] "2.prems" by simp_all
  with 2 show ?case by simp
qed simp

lemma ForceClose_applied:
  assumes "oc_kind cmd = overrideForceClose"
  shows "cb_state (en_cb (applyOverride K fsok clk cmd e)) = StateClosed"
    and "en_adminLatch (applyOverride K fsok clk cmd e) = \<lparr>l_active = True, l_until = clk 0 + 5 * Minute\<rparr>"
  using assms by (auto simp: applyOverride_def latch_Arm_def adminOverrideCooldown_def time_Add_def Let_def split_beta)

text \<open>The invariant behind the least time a circuit stays open.\<close>

definition open_since :: "gotime \<Rightarrow> Engine \<Rightarrow> bool" where
  "open_since t0 e \<longleftrightarrow>
     (case cb_state (en_cb e) of
        StateClosed \<Rightarrow> False
      | StateOpen \<Rightarrow> t0 \<le> cb_openedAt (en_cb e)
      | StateHalfOpen \<Rightarrow> t0 + BaseCooldown (en_recovery e) \<le> en_halfOpenAt e)"

lemma clk_sorted: "sorted (map clk [0..<n]) \<Longrightarrow> i \<le> j \<Longrightarrow> j < n \<Longrightarrow> clk i \<le> clk j"
  using sorted_nth_mono [of "map clk [0..<n]" i j] by simp

lemma time_Sub_ge: "time_Sub t u \<ge> d \<Longrightarrow> - (2 ^ 63) < d \<Longrightarrow> t - u \<ge> d"
  by (auto simp: time_Sub_def dur_sat_def max_def min_def split: if_splits)

lemma cb_openedAt_ops [simp]:
  "cb_openedAt (snd (cb_AttemptRecovery now pps bps cb)) = cb_openedAt cb"
  "cb_state cb = StateHalfOpen \<Longrightarrow> cb_openedAt (snd (cb_ReTrip now reason pps bps cb)) = now"
  by (simp_all add: cb_defs)

lemma tickOpen_since:
  assumes "cb_state (en_cb e) = StateOpen" and "open_since t0 e" and "sorted (map clk [0..<9])"
    and "BaseCooldown (en_recovery e) \<le> CooldownFor (en_recovery e) (cb_tripCount (en_cb e))"
    and "0 < BaseCooldown (en_recovery e)"
  shows "open_since t0 (tickOpen clk stats e)"
proof -
  have "clk 1 \<le> clk 5" by (rule clk_sorted [OF assms(3)]) simp_all
  moreover have "BaseCooldown (en_recovery e) \<le> clk 1 - cb_openedAt (en_cb e)"
    if "CooldownFor (en_recovery e) (cb_tripCount (en_cb e)) \<le> time_Sub (clk 1) (cb_openedAt (en_cb e))"
    using time_Sub_ge [OF that] assms(4,5) by simp
  ultimately show ?thesis
    using assms(1,2) by (auto simp: open_since_def tickOpen_def ShouldAttemptRecovery_def cb_Snapshot_def Let_def split_beta)
qed

lemma tickHalfOpen_since:
  assumes "cb_state (en_cb e) = StateHalfOpen" and "open_since t0 e" and "sorted (map clk [0..<9])" and "t0 \<le> clk 0"
    and "- (2 ^ 63) < HalfOpenProbeWindow (en_recovery e)"
  shows "if cb_state (en_cb (tickHalfOpen K clk stats e)) = StateClosed
    then t0 + BaseCooldown (en_recovery e) + HalfOpenProbeWindow (en_recovery e) \<le> clk 1
    else open_since t0 (tickHalfOpen K clk stats e)"
proof -
  have "t0 \<le> clk 1" using assms(4) clk_sorted [OF assms(3), of 0 1] by simp
  moreover have "HalfOpenProbeWindow (en_recovery e) \<le> clk 1 - en_halfOpenAt e"
    if "HalfOpenProbeWindow (en_recovery e) \<le> time_Sub (clk 1) (en_halfOpenAt e)"
    using time_Sub_ge [OF that] assms(5) by simp
  ultimately show ?thesis
    using assms(1,2) by (auto simp: open_since_def tickHalfOpen_def HalfOpenExpired_def Let_def split_beta split: list.split)
qed

lemma ticks_open_since:
  assumes "0 < BaseCooldown (en_recovery e)" "BaseCooldown (en_recovery e) \<le> MaxCooldown (en_recovery e)"
    "MaxCooldown (en_recovery e) < 2 ^ 63" "- (2 ^ 63) < HalfOpenProbeWindow (en_recovery e)"
    and "open_since t0 e" "t0 \<le> t" "mono_ticks t xs" "xs \<noteq> []"
    and "\<forall>k < length xs. cb_state (en_cb (ticks K (take k xs) e)) \<noteq> StateClosed"
    and "cb_state (en_cb (ticks K xs e)) = StateClosed"
  shows "t0 + BaseCooldown (en_recovery e) + HalfOpenProbeWindow (en_recovery e) \<le> fst (last xs) 1"
  using assms
proof (induction K xs e arbitrary: t rule: ticks.induct)
  case (2 K clk m xs e)
  let ?e = "e\<lparr>en_mgr := m\<rparr>"
  let ?e' = "Engine_tick K clk ?e"
  let ?r = "en_recovery e"
  have o1: "open_since t0 ?e" using "2.prems"(5) by (auto simp: open_since_def split: CircuitState.splits)
  have clk: "sorted (map clk [0..<9])" "t0 \<le> clk 0" "clk 0 \<le> clk 8"
    using "2.prems"(6,7) clk_sorted [of clk 9 0 8] by auto
  have base: "BaseCooldown ?r \<le> CooldownFor ?r n" for n
    using CooldownFor_bounds [of ?r] "2.prems"(1-3) by blast
  have step: "if cb_state (en_cb ?e') = StateClosed
    then t0 + BaseCooldown ?r + HalfOpenProbeWindow ?r \<le> clk 1 else open_since t0 ?e'"
  proof (cases "Manager_ReadStats K m")
    case (Inl err)
    with o1 show ?thesis by (auto simp: tick_unreadable open_since_def split: CircuitState.splits)
  next
    case (Inr stats)
    show ?thesis
    proof (cases "cb_state (en_cb e)")
      case StateClosed
      with o1 show ?thesis by (simp add: open_since_def)
    next
      case StateOpen
      then have "?e' = tickOpen clk stats ?e" by (simp add: Engine_tick_def Inr)
      with tickOpen_since [of ?e t0 clk stats] StateOpen o1 clk base "2.prems"(1) show ?thesis
        by (auto simp: open_since_def split: CircuitState.splits)
    next
      case StateHalfOpen
      then have "?e' = tickHalfOpen K clk stats ?e" by (simp add: Engine_tick_def Inr)
      with tickHalfOpen_since [of ?e t0 clk K stats] StateHalfOpen o1 clk "2.prems"(4) show ?thesis
        by (simp split: if_splits)
    qed
  qed
  show ?case
  proof (cases "xs = []")
    case True
    with step "2.prems"(10) show ?thesis by simp
  next
    case False
    then have "cb_state (en_cb ?e') \<noteq> StateClosed"
      using "2.prems"(9) [rule_format, of 1] by simp
    with step have "open_since t0 ?e'" by simp
    moreover have "cb_state (en_cb (ticks K (take k xs) ?e')) \<noteq> StateClosed" if "k < length xs" for k
      using that "2.prems"(9) [rule_format, of "Suc k"] by simp
    ultimately show ?thesis
      using "2.IH" [of "clk 8"] "2.prems" False clk by simp
  qed
qed simp

lemma tickOpen_frame [simp]:
  "en_detector (tickOpen clk stats e) = en_detector e" "en_recovery (tickOpen clk stats e) = en_recovery e"
  by (simp_all add: tickOpen_def Let_def split_beta)

lemma tickOpen_halfOpenAt:
  assumes "cb_state (en_cb e) = StateOpen"
    and "CooldownFor (en_recovery e) (cb_tripCount (en_cb e)) \<le> time_Sub (clk 1) (cb_openedAt (en_cb e))"
  shows "en_halfOpenAt (tickOpen clk stats e) = clk 5"
  using assms by (simp add: tickOpen_def Let_def split_beta ShouldAttemptRecovery_def cb_Snapshot_def)

text \<open>An example: a detector with one earlier reading, one violation enough, and a
  manager whose counters say that every packet was dropped.\<close>

definition flood_manager :: Manager where
  "flood_manager = falx_manager (\<lambda>_. 0) DefaultRateLimitConfig
     \<lparr>m_mapped := \<lparr>km_data = [(0, [MappedXdpStats0\<lparr>mRxPackets := 10, mDropped := 10\<rparr>])], km_env = 0\<rparr>\<rparr>"

definition flood_engine :: Engine where
  "flood_engine = NewEngine falx_kernel
     (DefaultEngineConfig\<lparr>ec_Detector := DefaultDetectorConfig\<lparr>dc_ConsecutiveViolations := 1\<rparr>\<rparr>) None flood_manager
     \<lparr>en_detector := NewDetector DefaultDetectorConfig\<lparr>d_sampleCount := 1\<rparr>\<rparr>"

lemmas engine_eval = manager_eval NewEngine_def syncStateFromKernel_def Manager_ReadFailsafeState_def
  FailsafeIdx_def FailsafeState0_def newCircuitBreaker_def DefaultEngineConfig_def

lemma flood_stats:
  "Manager_ReadStats falx_kernel flood_manager = Inr (XdpStats0\<lparr>RxPackets := 10, Dropped := 10\<rparr>)"
  by (simp add: flood_manager_def Manager_ReadStats_def engine_eval StatsIdx_def XdpStats0_def MappedXdpStats0_def
      XdpStats_Add_def MappedXdpStats_Add_def safeAdd_def maxU64_def)

lemma flood_engine_simps:
  "cb_state (en_cb flood_engine) = StateClosed" "cb_violations (en_cb flood_engine) = 0"
  "\<not> l_active (en_adminLatch flood_engine)" "en_sentinel flood_engine = None"
  "dc_ConsecutiveViolations (ec_Detector (en_cfg flood_engine)) = 1"
  by (simp_all add: flood_engine_def flood_manager_def engine_eval)

lemma flood_alarm:
  "fst (Detector_Analyze now (XdpStats0\<lparr>RxPackets := 10, Dropped := 10\<rparr>) (en_detector flood_engine)) \<noteq> []"
  by (simp add: Analyze_alarm flood_engine_def Let_def XdpStats0_def NewDetector_def DefaultDetectorConfig_def f64_def)

lemma flood_opens: "cb_state (en_cb (Engine_tick falx_kernel clk (flood_engine\<lparr>en_mgr := flood_manager\<rparr>))) = StateOpen"
  using flood_alarm
  by (simp add: tick_state flood_stats next_state_def flood_engine_simps latched_def alarm_def)

lemma recovery_from_open:
  assumes "cb_state (en_cb e) = StateOpen"
    and "Manager_ReadStats K m1 = Inr stats1" "Manager_ReadStats K m2 = Inr stats2"
    and "CooldownFor (en_recovery e) (cb_tripCount (en_cb e)) \<le> time_Sub (clk1 1) (cb_openedAt (en_cb e))"
    and "HalfOpenProbeWindow (en_recovery e) \<le> time_Sub (clk2 1) (clk1 5)"
    and "fst (Detector_Analyze (clk2 0) stats2 (en_detector e)) = []"
  shows "cb_state (en_cb (ticks K [(clk1, m1)] e)) = StateHalfOpen
    \<and> cb_state (en_cb (ticks K [(clk1, m1), (clk2, m2)] e)) = StateClosed"
proof -
  let ?e1 = "tickOpen clk1 stats1 (e\<lparr>en_mgr := m1\<rparr>)"
  have t1: "ticks K [(clk1, m1)] e = ?e1"
    using assms(1,2) by (simp add: Engine_tick_def)
  have s1: "cb_state (en_cb ?e1) = StateHalfOpen"
    using assms(1,4) by (simp add: tickOpen_state next_state_def)
  have h1: "en_halfOpenAt ?e1 = clk1 5" "en_recovery ?e1 = en_recovery e" "en_detector ?e1 = en_detector e"
    using tickOpen_halfOpenAt [of "e\<lparr>en_mgr := m1\<rparr>" clk1 stats1] assms(1,4) by simp_all
  have "cb_state (en_cb (Engine_tick K clk2 (?e1\<lparr>en_mgr := m2\<rparr>))) = StateClosed"
    using assms(3,5,6) s1 h1 by (simp add: tick_state next_state_def alarm_def)
  then show ?thesis
    using t1 s1 by simp
qed

text \<open>The same engine with its circuit open since time 1.\<close>

definition open_engine :: Engine where
  "open_engine = flood_engine\<lparr>en_cb := newCircuitBreaker\<lparr>cb_state := StateOpen, cb_openedAt := 1\<rparr>,
     en_detector := NewDetector DefaultDetectorConfig\<rparr>"

lemma open_engine_simps:
  "cb_state (en_cb open_engine) = StateOpen" "cb_openedAt (en_cb open_engine) = 1"
  "cb_tripCount (en_cb open_engine) = 0" "en_recovery open_engine = DefaultRecoveryConfig"
  "en_detector open_engine = NewDetector DefaultDetectorConfig"
  by (simp_all add: open_engine_def flood_engine_def flood_manager_def engine_eval)

lemma first_reading_quiet: "fst (Detector_Analyze now stats (NewDetector cfg)) = []"
  by (simp add: Detector_Analyze_def NewDetector_def Let_def)

lemma open_engine_ticks:
  "cb_state (en_cb (ticks falx_kernel [(\<lambda>_. 31 * Second, flood_manager)] open_engine)) = StateHalfOpen"
  "cb_state (en_cb (ticks falx_kernel [(\<lambda>_. 31 * Second, flood_manager), (\<lambda>_. 40 * Second, flood_manager)]
     open_engine)) = StateClosed"
  using recovery_from_open [OF open_engine_simps(1) flood_stats flood_stats, of "\<lambda>_. 31 * Second" "\<lambda>_. 40 * Second"]
  by (simp_all add: open_engine_simps CooldownFor_base first_reading_quiet DefaultRecoveryConfig_def
      Second_def time_Sub_def)

section \<open>Properties\<close>

text \<open>C7. The control plane and the kernel agree about the circuit as long as the engine has had the last
  word.  The map is also written by the XDP program, the handlers of the SOC backend and the
  loader, and the engine reads the flag only at its start.  So in every history of a new engine, with arbitrary
  writes of the others between its steps, the flag in the kernel map is 1 exactly if the state machine is
  not closed, from the start on and again from every step on that moves the circuit between closed
  and not closed or carries out a command to open or close it, until another writer
  intervenes or a write of the engine fails.  The hypotheses: the failsafe map is an array that could
  be read at the start with a flag of 0 or 1.\<close>

theorem engine_kernel_agreement:
  assumes "ebpf_array (k_failsafe K)"
    and "Manager_ReadFailsafeState K m = Inr st" "CircuitOpen st = 0 \<or> CircuitOpen st = 1"
    and "engine_history K True (NewEngine K cfg sentinel m) e"
  shows "\<exists>st'. Manager_ReadFailsafeState K (en_mgr e) = Inr st'
    \<and> CircuitOpen st' = (if cb_state (en_cb e) = StateClosed then 0 else 1)"
  using history_agrees [OF assms(4,1) NewEngine_agrees(1) [OF assms(2,3)]] by (simp add: circuit_agrees_def)

text \<open>The XDP program opens the circuit of a new engine, and an operator closes it again.\<close>

theorem engine_kernel_agreement_witness:
  "\<exists>e st'. engine_history falx_kernel True (NewEngine falx_kernel DefaultEngineConfig None (falx_manager (\<lambda>_. 0) DefaultRateLimitConfig)) e
     \<and> cb_state (en_cb e) = StateClosed \<and> Manager_ReadFailsafeState falx_kernel (en_mgr e) = Inr st' \<and> CircuitOpen st' = 0"
proof -
  let ?m = "falx_manager (\<lambda>_. 0) DefaultRateLimitConfig"
  let ?e0 = "NewEngine falx_kernel DefaultEngineConfig None ?m"
  let ?fs = "\<lparr>km_data = [(FailsafeIdx, FailsafeState0\<lparr>CircuitOpen := 1\<rparr>)], km_env = 0\<rparr>"
  let ?m1 = "(en_mgr ?e0)\<lparr>m_failsafe := ?fs\<rparr>"
  let ?e1 = "?e0\<lparr>en_mgr := ?m1\<rparr>"
  let ?e2 = "snd (ForceClose ''x'' ?e1)"
  let ?cmd = "\<lparr>oc_kind = overrideForceClose, oc_reason = ''soc_manual:x'', oc_ppsThreshold = 0, oc_bpsThreshold = 0\<rparr>"
  let ?e3 = "applyOverride falx_kernel True (\<lambda>_. 0) ?cmd (?e2\<lparr>en_overrideCh := []\<rparr>)"
  have r0: "Manager_ReadFailsafeState falx_kernel ?m = Inr FailsafeState0"
    by (simp add: manager_eval Manager_ReadFailsafeState_def FailsafeIdx_def)
  have r1: "Manager_ReadFailsafeState falx_kernel ?m1 = Inr (FailsafeState0\<lparr>CircuitOpen := 1\<rparr>)"
    by (simp add: manager_eval Manager_ReadFailsafeState_def FailsafeIdx_def)
  have ch: "en_overrideCh ?e2 = [?cmd]"
    by (simp add: ForceClose_def override_send_def chan_send_def engine_eval)
  have w: "en_bpfWriteFailures ?e3 = en_bpfWriteFailures ?e2"
    by (simp add: applyOverride_def write_circuit_def Manager_SetCircuitOpen_def Let_def split_beta ForceClose_def
        override_send_def chan_send_def cb_defs publishTransition_def engine_eval)
  have "decides falx_kernel ?e2 ?e3" unfolding decides_def using ch by (intro disjI2 exI conjI) auto
  then have d: "True = (en_bpfWriteFailures ?e3 = en_bpfWriteFailures ?e2 \<and> (due \<or> decides falx_kernel ?e2 ?e3))" for due
    using w by simp
  have h: "engine_history falx_kernel True ?e0 ?e3"
    by (rule engine_history.own [OF engine_history.own [OF engine_history.foreign [OF engine_history.start refl r1]
          engine_step.force_close refl] engine_step.override [OF ch] d])
  have c: "cb_state (en_cb ?e3) = StateClosed" by (simp add: applyOverride_def Let_def split_beta)
  have "CircuitOpen FailsafeState0 = 0 \<or> CircuitOpen FailsafeState0 = 1" by (simp add: FailsafeState0_def)
  from engine_kernel_agreement [OF falx_kernel_failsafe r0 this h] c h show ?thesis by auto
qed

text \<open>The transition relation of a tick.  When the statistics cannot be read the
  state does not change.  Otherwise a closed circuit opens exactly if no operator
  latch holds, the detector raises an alarm and this completes the required number
  of violations; an open one becomes half-open exactly when its cooldown has
  elapsed; a half-open one re-opens on an alarm, closes when the probe window has
  elapsed without one, and otherwise stays.\<close>

theorem tick_next_state:
  "cb_state (en_cb (Engine_tick K clk e)) =
     (case Manager_ReadStats K (en_mgr e) of Inl _ \<Rightarrow> cb_state (en_cb e) | Inr stats \<Rightarrow> next_state clk stats e)"
  by (simp add: tick_state tick_unreadable split: sum.split)

text \<open>C19. Hysteresis: from a closed circuit with no violations counted, if it is
  first open after a sequence of ticks then the detector raised an alarm at each of
  the last \<open>ConsecutiveViolations\<close> ticks that could read the statistics.\<close>

theorem trip_needs_consecutive_alarms:
  assumes "cb_state (en_cb e) = StateClosed" and "cb_violations (en_cb e) = 0"
    and "\<forall>k < length xs. cb_state (en_cb (ticks K (take k xs) e)) = StateClosed"
    and "cb_state (en_cb (ticks K xs e)) \<noteq> StateClosed"
  shows "dc_ConsecutiveViolations (ec_Detector (en_cfg e)) \<le> int (trailing (alarms K xs e))"
  using assms by (rule trip_after_alarms)

theorem trip_needs_consecutive_alarms_witness:
  "1 \<le> int (trailing (alarms falx_kernel [(\<lambda>_. 0, flood_manager)] flood_engine))"
  using trip_needs_consecutive_alarms [of flood_engine "[(\<lambda>_. 0, flood_manager)]" falx_kernel]
  by (simp add: flood_engine_simps flood_opens)

text \<open>C18. A sustained flood opens the circuit: if no operator latch is set, the
  statistics can be read and every tick raises an alarm, then at the latest when
  the alarms complete the required number of violations the circuit is open.\<close>

theorem sustained_flood_opens:
  assumes "cb_state (en_cb e) = StateClosed"
    and "\<not> l_active (en_adminLatch e)" "en_sentinel e = None" and "xs \<noteq> []"
    and "\<forall>x\<in>set xs. \<exists>stats. Manager_ReadStats K (snd x) = Inr stats" and "\<forall>b\<in>set (alarms K xs e). b"
    and "dc_ConsecutiveViolations (ec_Detector (en_cfg e)) \<le> cb_violations (en_cb e) + int (length xs)"
  shows "\<exists>k \<le> length xs. cb_state (en_cb (ticks K (take k xs) e)) = StateOpen"
  using sustained_alarms_open [of e xs K] assms by (simp add: unlatched_def)

theorem sustained_flood_opens_witness:
  "\<exists>k \<le> 1. cb_state (en_cb (ticks falx_kernel (take k [(\<lambda>_. 0, flood_manager)]) flood_engine)) = StateOpen"
  using sustained_flood_opens [of flood_engine "[(\<lambda>_. 0, flood_manager)]" falx_kernel]
  by (simp add: flood_engine_simps flood_stats flood_alarm)

text \<open>After an operator closed the circuit no tick opens it for five minutes,
  whatever the traffic and whether or not the sentinel file could be written.\<close>

theorem force_close_holds:
  assumes "oc_kind cmd = overrideForceClose"
    and "\<forall>x\<in>set xs. fst x 0 \<le> clk 0 + 5 * Minute"
  shows "cb_state (en_cb (ticks K xs (applyOverride K fsok clk cmd e))) = StateClosed"
  using assms(2) ForceClose_applied [OF assms(1), of K fsok clk e] by (intro latched_ticks) simp_all

theorem force_close_holds_witness:
  "cb_state (en_cb (ticks falx_kernel [(\<lambda>_. 100, falx_manager (\<lambda>_. 0) DefaultRateLimitConfig)]
     (applyOverride falx_kernel False (\<lambda>_. 0)
       \<lparr>oc_kind = overrideForceClose, oc_reason = [], oc_ppsThreshold = 0, oc_bpsThreshold = 0\<rparr>
       (NewEngine falx_kernel DefaultEngineConfig None (falx_manager (\<lambda>_. 0) DefaultRateLimitConfig))))) = StateClosed"
  by (rule force_close_holds) (simp_all add: Minute_def)

text \<open>A circuit that opened stays away from closed for at least the base cooldown
  plus the probe window: if the clock does not go back, ticks alone cannot close it
  earlier, however often it re-opens in between.\<close>

theorem minimum_open_time:
  assumes "0 < BaseCooldown (en_recovery e)" "BaseCooldown (en_recovery e) \<le> MaxCooldown (en_recovery e)"
    "MaxCooldown (en_recovery e) < 2 ^ 63" "0 \<le> HalfOpenProbeWindow (en_recovery e)"
    and "cb_state (en_cb e) = StateOpen" "cb_openedAt (en_cb e) \<le> t" "mono_ticks t xs"
    and "\<forall>k < length xs. cb_state (en_cb (ticks K (take k xs) e)) \<noteq> StateClosed"
    and "cb_state (en_cb (ticks K xs e)) = StateClosed"
  shows "cb_openedAt (en_cb e) + BaseCooldown (en_recovery e) + HalfOpenProbeWindow (en_recovery e) \<le> fst (last xs) 1"
proof -
  have "xs \<noteq> []" using assms(5,9) by auto
  with assms show ?thesis
    by (intro ticks_open_since [of e _ t xs K]) (simp_all add: open_since_def)
qed

theorem minimum_open_time_witness:
  "1 + 30 * Second + 5 * Second \<le> fst (last [(\<lambda>_. 31 * Second, flood_manager), (\<lambda>_. 40 * Second, flood_manager)]) 1"
proof -
  let ?xs = "[(\<lambda>_. 31 * Second, flood_manager), (\<lambda>_. 40 * Second, flood_manager)]"
  have k: "\<forall>k < length ?xs. cb_state (en_cb (ticks falx_kernel (take k ?xs) open_engine)) \<noteq> StateClosed"
    using open_engine_ticks(1) open_engine_simps(1) by (auto simp: less_Suc_eq numeral_2_eq_2)
  show ?thesis
    using minimum_open_time [OF _ _ _ _ open_engine_simps(1) _ _ k open_engine_ticks(2), of 1]
    by (simp add: open_engine_simps DefaultRecoveryConfig_def Second_def)
qed

text \<open>C20. Recovery: from an open circuit, a tick after the cooldown makes it half-open, and a single
  tick after the probe window that raises no alarm closes it.  The configured number
  \<open>ConsecutiveClean\<close> of clean samples, which the comment in \<open>detector.go\<close> says is required
  before closing, plays no part, whatever its value.\<close>

theorem recovery_closes:
  assumes "cb_state (en_cb e) = StateOpen"
    and "Manager_ReadStats K m1 = Inr stats1" "Manager_ReadStats K m2 = Inr stats2"
    and "CooldownFor (en_recovery e) (cb_tripCount (en_cb e)) \<le> time_Sub (clk1 1) (cb_openedAt (en_cb e))"
    and "HalfOpenProbeWindow (en_recovery e) \<le> time_Sub (clk2 1) (clk1 5)"
    and "fst (Detector_Analyze (clk2 0) stats2 (en_detector e)) = []"
  shows "cb_state (en_cb (ticks K [(clk1, m1)] e)) = StateHalfOpen
    \<and> cb_state (en_cb (ticks K [(clk1, m1), (clk2, m2)] e)) = StateClosed"
  using assms by (rule recovery_from_open)

theorem recovery_closes_witness:
  "cb_state (en_cb (ticks falx_kernel [(\<lambda>_. 31 * Second, flood_manager), (\<lambda>_. 40 * Second, flood_manager)]
     open_engine)) = StateClosed"
  using recovery_closes [OF open_engine_simps(1) flood_stats flood_stats, of "\<lambda>_. 31 * Second" "\<lambda>_. 40 * Second"]
  by (simp add: open_engine_simps CooldownFor_base first_reading_quiet DefaultRecoveryConfig_def
      Second_def time_Sub_def)

text \<open>What an operator command does to the circuit: a forced open or close leaves it
  open or closed whatever it was, and a threshold update installs the thresholds in
  the detector and changes neither the circuit nor the kernel map.\<close>

theorem override_effect:
  "(case oc_kind cmd of
      overrideForceOpen \<Rightarrow> cb_state (en_cb (applyOverride K fsok clk cmd e)) = StateOpen
        \<and> \<not> l_active (en_adminLatch (applyOverride K fsok clk cmd e))
    | overrideForceClose \<Rightarrow> cb_state (en_cb (applyOverride K fsok clk cmd e)) = StateClosed
        \<and> l_active (en_adminLatch (applyOverride K fsok clk cmd e))
    | overrideThresholdUpdate \<Rightarrow>
        dc_PPSThreshold (d_cfg (en_detector (applyOverride K fsok clk cmd e))) = oc_ppsThreshold cmd
        \<and> dc_BPSThreshold (d_cfg (en_detector (applyOverride K fsok clk cmd e))) = oc_bpsThreshold cmd
        \<and> d_emaPPS (en_detector (applyOverride K fsok clk cmd e)) = d_emaPPS (en_detector e)
        \<and> en_cb (applyOverride K fsok clk cmd e) = en_cb e \<and> en_mgr (applyOverride K fsok clk cmd e) = en_mgr e)"
  by (auto simp: applyOverride_def latch_Arm_def latch_Clear_def Detector_UpdateThresholds_def Let_def split_beta
      split: overrideKind.split)

section \<open>A consequence of the cumulative drop ratio\<close>

text \<open>The third algorithm divides the totals since the counters were reset, not the
  counts since the last reading.  So after a flood whose drops exceed the ratio a
  half-open circuit re-opens at every probe even when no packet has arrived since
  the last reading.\<close>

lemma drop_ratio_blocks_recovery:
  assumes "cb_state (en_cb e) = StateHalfOpen" and "1 \<le> d_sampleCount (en_detector e)"
    and "Manager_ReadStats K (en_mgr e) = Inr stats" and "d_prevStats (en_detector e) = Some stats"
    and "0 < RxPackets stats" and "dc_DropRatioThreshold (d_cfg (en_detector e)) * f64 (RxPackets stats)
      < f64 (Dropped stats + RateLimited stats + FailsafeDrops stats)"
  shows "cb_state (en_cb (Engine_tick K clk e)) = StateOpen"
  using assms by (simp add: tick_state next_state_def alarm_def Analyze_alarm Let_def)

end
