(* ===== verification/SpscRing.thy ===== *)
theory SpscRing
  imports Prelude
begin

text \<open>
  The single-producer single-consumer ring of \<open>control/failsafe.go\<close> (section 1).
  Its two counters are 64-bit words that wrap around; a slot is addressed by the
  low 14 bits.  Two views are proved correct: the sequential methods refine a
  bounded queue (the locale \<open>bounded_fifo\<close>, interpreted on the ring), and the
  interleaving of one producer and one consumer at the granularity of single
  atomic loads and stores (\<open>spsc_step\<close>) never loses, duplicates, reorders or
  tears an element.
\<close>

section \<open>Bounded queues\<close>

datatype 'a fifo_op = Enq 'a | Deq

text \<open>A sequence of operations with the answer to each of them.\<close>

datatype 'a fifo_resp = Pushed bool | Popped "'a option"

fun fifo_run :: "('a \<Rightarrow> 's \<Rightarrow> bool \<times> 's) \<Rightarrow> ('s \<Rightarrow> 'a option \<times> 's) \<Rightarrow> 'a fifo_op list \<Rightarrow> 's \<Rightarrow>
    'a fifo_resp list \<times> 's" where
  "fifo_run push pop [] s = ([], s)"
| "fifo_run push pop (Enq x # xs) s =
     (let (ok, s1) = push x s; (rs, s2) = fifo_run push pop xs s1 in (Pushed ok # rs, s2))"
| "fifo_run push pop (Deq # xs) s =
     (let (r, s1) = pop s; (rs, s2) = fifo_run push pop xs s1 in (Popped r # rs, s2))"

text \<open>The specification: a list with room for \<open>cap\<close> elements, the oldest first.\<close>

definition queue_push :: "nat \<Rightarrow> 'a \<Rightarrow> 'a list \<Rightarrow> bool \<times> 'a list" where
  "queue_push cap x q = (if length q < cap then (True, q @ [x]) else (False, q))"

fun queue_pop :: "'a list \<Rightarrow> 'a option \<times> 'a list" where
  "queue_pop [] = (None, [])"
| "queue_pop (x # q) = (Some x, q)"

locale bounded_fifo =
  fixes push :: "'a \<Rightarrow> 's \<Rightarrow> bool \<times> 's" and pop :: "'s \<Rightarrow> 'a option \<times> 's"
    and content :: "'s \<Rightarrow> 'a list" and inv :: "'s \<Rightarrow> bool" and cap :: nat
  assumes push_ok: "inv s \<Longrightarrow> length (content s) < cap \<Longrightarrow> push x s = (ok, s') \<Longrightarrow>
      ok \<and> inv s' \<and> content s' = content s @ [x]"
    and push_full: "inv s \<Longrightarrow> cap \<le> length (content s) \<Longrightarrow> push x s = (ok, s') \<Longrightarrow>
      \<not> ok \<and> inv s' \<and> content s' = content s"
    and pop_empty: "inv s \<Longrightarrow> content s = [] \<Longrightarrow> pop s = (r, s') \<Longrightarrow> r = None \<and> inv s' \<and> content s' = []"
    and pop_cons: "inv s \<Longrightarrow> content s = x # xs \<Longrightarrow> pop s = (r, s') \<Longrightarrow> r = Some x \<and> inv s' \<and> content s' = xs"
begin

lemma push_refines:
  assumes "inv s" and "push x s = (ok, s')"
  shows "inv s' \<and> queue_push cap x (content s) = (ok, content s')"
  using push_ok [OF assms(1) _ assms(2)] push_full [OF assms(1) _ assms(2)]
  by (cases "length (content s) < cap") (simp_all add: queue_push_def)

lemma pop_refines:
  assumes "inv s" and "pop s = (r, s')"
  shows "inv s' \<and> queue_pop (content s) = (r, content s')"
  using pop_empty [OF assms(1) _ assms(2)] pop_cons [OF assms(1) _ assms(2)] by (cases "content s") simp_all

text \<open>Every sequence of operations gets the answers of the specification.\<close>

lemma run_refines:
  "inv s \<Longrightarrow> fifo_run push pop xs s = (rs, s') \<Longrightarrow>
   inv s' \<and> fifo_run (queue_push cap) queue_pop xs (content s) = (rs, content s')"
proof (induction xs arbitrary: s rs)
  case (Cons op' xs)
  show ?case
  proof (cases op')
    case (Enq x)
    obtain ok s1 where p: "push x s = (ok, s1)" by fastforce
    obtain rs1 where r: "fifo_run push pop xs s1 = (rs1, s')" "rs = Pushed ok # rs1"
      using Cons.prems(2) by (auto simp: Enq p split: prod.splits)
    from push_refines [OF Cons.prems(1) p] Cons.IH [OF _ r(1)] r(2) show ?thesis by (simp add: Enq)
  next
    case Deq
    obtain x s1 where p: "pop s = (x, s1)" by fastforce
    obtain rs1 where r: "fifo_run push pop xs s1 = (rs1, s')" "rs = Popped x # rs1"
      using Cons.prems(2) by (auto simp: Deq p split: prod.splits)
    from pop_refines [OF Cons.prems(1) p] Cons.IH [OF _ r(1)] r(2) show ?thesis by (simp add: Deq)
  qed
qed simp

end

section \<open>The ring\<close>

record SpscMeta =
  sm_SrcIP :: bytes
  sm_DstIP :: bytes
  sm_FlowID :: u64
  sm_PktLen :: u32
  sm_SrcPort :: u16
  sm_DstPort :: u16
  sm_TCPFlags :: u16
  sm_Protocol :: u8
  sm_IsIPv6 :: bool
  sm_PayloadLen :: u8
  sm_Payload :: bytes

definition SpscMeta0 :: SpscMeta where
  "SpscMeta0 = \<lparr>sm_SrcIP = replicate 16 0, sm_DstIP = replicate 16 0, sm_FlowID = 0, sm_PktLen = 0,
     sm_SrcPort = 0, sm_DstPort = 0, sm_TCPFlags = 0, sm_Protocol = 0, sm_IsIPv6 = False,
     sm_PayloadLen = 0, sm_Payload = replicate 64 0\<rparr>"

definition RingCapacity :: u64 where
  "RingCapacity = push_bit 14 1"

definition ringMask :: u64 where
  "ringMask = RingCapacity - 1"

text \<open>The array is a function of the index; only the indices below \<open>RingCapacity\<close> are used.\<close>

record SPSCRing =
  r_head :: u64
  r_tail :: u64
  r_dropped :: u64
  r_slots :: "u64 \<Rightarrow> SpscMeta"

definition NewSPSCRing :: SPSCRing where
  "NewSPSCRing = \<lparr>r_head = 0, r_tail = 0, r_dropped = 0, r_slots = (\<lambda>_. SpscMeta0)\<rparr>"

definition SPSCRing_Push :: "SpscMeta \<Rightarrow> SPSCRing \<Rightarrow> bool \<times> SPSCRing" where
  "SPSCRing_Push m r =
     (let head = r_head r in
      if head - r_tail r \<ge> RingCapacity then (False, r\<lparr>r_dropped := r_dropped r + 1\<rparr>)
      else (True, r\<lparr>r_slots := (r_slots r)(and head ringMask := m), r_head := head + 1\<rparr>))"

definition SPSCRing_Pop :: "SPSCRing \<Rightarrow> SpscMeta option \<times> SPSCRing" where
  "SPSCRing_Pop r =
     (let tail = r_tail r in
      if r_head r = tail then (None, r)
      else let m = r_slots r (and tail ringMask) in (Some m, r\<lparr>r_tail := tail + 1\<rparr>))"

definition SPSCRing_Len :: "SPSCRing \<Rightarrow> nat" where
  "SPSCRing_Len r = (if r_head r \<ge> r_tail r then unat (r_head r - r_tail r) else 0)"

definition SPSCRing_IsFull :: "SPSCRing \<Rightarrow> bool" where
  "SPSCRing_IsFull r \<longleftrightarrow> r_head r - r_tail r \<ge> RingCapacity"

text \<open>\<open>copy\<close> into a fixed-size array: the source is cut off or padded by what was there.\<close>

definition go_copy :: "'a list \<Rightarrow> 'a list \<Rightarrow> nat \<times> 'a list" where
  "go_copy dst src = (let n = min (length dst) (length src) in (n, take n src @ drop n dst))"

text \<open>The getters of the interface as a record; \<open>None\<close> is a nil interface.\<close>

record afxdp_meta =
  am_SrcIP :: bytes
  am_DstIP :: bytes
  am_FlowID :: u64
  am_PktLen :: u32
  am_SrcPort :: u16
  am_DstPort :: u16
  am_TCPFlags :: u16
  am_Protocol :: u8
  am_IsIPv6 :: bool
  am_Payload :: bytes

definition FromAfxdpMeta :: "afxdp_meta option \<Rightarrow> SpscMeta \<times> bool" where
  "FromAfxdpMeta src =
     (case src of
        None \<Rightarrow> (SpscMeta0, False)
      | Some s \<Rightarrow>
          let m = SpscMeta0; (n, payload) = go_copy (sm_Payload m) (am_Payload s) in
          (\<lparr>sm_SrcIP = snd (go_copy (sm_SrcIP m) (am_SrcIP s)), sm_DstIP = snd (go_copy (sm_DstIP m) (am_DstIP s)),
            sm_FlowID = am_FlowID s, sm_PktLen = am_PktLen s, sm_SrcPort = am_SrcPort s,
            sm_DstPort = am_DstPort s, sm_TCPFlags = am_TCPFlags s, sm_Protocol = am_Protocol s,
            sm_IsIPv6 = am_IsIPv6 s, sm_PayloadLen = of_nat n, sm_Payload = payload\<rparr>, True))"

section \<open>Interleavings\<close>

text \<open>Where the producer and the consumer are between two atomic accesses, with the
  values they hold; \<open>sp_pushed\<close> and \<open>sp_popped\<close> record the finished operations.\<close>

datatype producer = PIdle | PHead SpscMeta u64 | PRoom SpscMeta u64 | PWritten SpscMeta u64
datatype consumer = CIdle | CTail u64 | CAvail u64 | CRead u64 SpscMeta

record spsc =
  sp_ring :: SPSCRing
  sp_prod :: producer
  sp_cons :: consumer
  sp_pushed :: "SpscMeta list"
  sp_popped :: "SpscMeta list"

inductive spsc_step :: "spsc \<Rightarrow> spsc \<Rightarrow> bool" where
  p_head: "sp_prod s = PIdle \<Longrightarrow> spsc_step s (s\<lparr>sp_prod := PHead m (r_head (sp_ring s))\<rparr>)"
| p_full: "sp_prod s = PHead m h \<Longrightarrow> h - r_tail (sp_ring s) \<ge> RingCapacity \<Longrightarrow>
    spsc_step s (s\<lparr>sp_prod := PIdle, sp_ring := (sp_ring s)\<lparr>r_dropped := r_dropped (sp_ring s) + 1\<rparr>\<rparr>)"
| p_room: "sp_prod s = PHead m h \<Longrightarrow> \<not> h - r_tail (sp_ring s) \<ge> RingCapacity \<Longrightarrow>
    spsc_step s (s\<lparr>sp_prod := PRoom m h\<rparr>)"
| p_write: "sp_prod s = PRoom m h \<Longrightarrow>
    spsc_step s (s\<lparr>sp_prod := PWritten m h,
      sp_ring := (sp_ring s)\<lparr>r_slots := (r_slots (sp_ring s))(and h ringMask := m)\<rparr>\<rparr>)"
| p_store: "sp_prod s = PWritten m h \<Longrightarrow>
    spsc_step s (s\<lparr>sp_prod := PIdle, sp_ring := (sp_ring s)\<lparr>r_head := h + 1\<rparr>, sp_pushed := sp_pushed s @ [m]\<rparr>)"
| c_tail: "sp_cons s = CIdle \<Longrightarrow> spsc_step s (s\<lparr>sp_cons := CTail (r_tail (sp_ring s))\<rparr>)"
| c_empty: "sp_cons s = CTail t \<Longrightarrow> r_head (sp_ring s) = t \<Longrightarrow> spsc_step s (s\<lparr>sp_cons := CIdle\<rparr>)"
| c_avail: "sp_cons s = CTail t \<Longrightarrow> r_head (sp_ring s) \<noteq> t \<Longrightarrow> spsc_step s (s\<lparr>sp_cons := CAvail t\<rparr>)"
| c_read: "sp_cons s = CAvail t \<Longrightarrow>
    spsc_step s (s\<lparr>sp_cons := CRead t (r_slots (sp_ring s) (and t ringMask))\<rparr>)"
| c_store: "sp_cons s = CRead t m \<Longrightarrow>
    spsc_step s (s\<lparr>sp_cons := CIdle, sp_ring := (sp_ring s)\<lparr>r_tail := t + 1\<rparr>, sp_popped := sp_popped s @ [m]\<rparr>)"

definition spsc_init :: spsc where
  "spsc_init = \<lparr>sp_ring = NewSPSCRing, sp_prod = PIdle, sp_cons = CIdle, sp_pushed = [], sp_popped = []\<rparr>"

section \<open>Lemmas on indices\<close>

definition slot :: "nat \<Rightarrow> u64" where
  "slot n = and (of_nat n) ringMask"

lemma RingCapacity_unat [simp]: "unat RingCapacity = 16384"
  by (simp add: RingCapacity_def)

lemma ringMask_mask: "ringMask = mask 14"
  by (simp add: ringMask_def RingCapacity_def mask_eq_exp_minus_1)

lemma unat_slot: "unat (slot n) = n mod 16384"
proof -
  have "slot n = of_nat (n mod 16384)"
    unfolding slot_def ringMask_mask take_bit_eq_mask [symmetric] take_bit_of_nat
    by (simp add: take_bit_eq_mod)
  moreover have "n mod 16384 < 2 ^ 64"
    by (rule less_trans [of _ 16384]) simp_all
  ultimately show ?thesis
    by (simp add: unat_of_nat take_bit_nat_eq_self)
qed

lemma slot_neq:
  assumes "i < j" and "j < i + 16384"
  shows "slot i \<noteq> slot j"
proof
  assume "slot i = slot j"
  then have "j mod 16384 = i mod 16384" by (metis unat_slot)
  then have "16384 dvd j - i" using assms(1) by (simp add: mod_eq_dvd_iff_nat)
  with assms show False by (auto dest: dvd_imp_le)
qed

text \<open>The wrapped difference of the counters is the true one when that is small.\<close>

lemma unat_counter_diff: "t \<le> h \<Longrightarrow> h \<le> t + 16384 \<Longrightarrow> unat ((of_nat h :: u64) - of_nat t) = h - t"
proof -
  assume "t \<le> h" "h \<le> t + 16384"
  then have "(of_nat h :: u64) - of_nat t = of_nat (h - t)" and "h - t < 2 ^ 64" by simp_all
  then show ?thesis by (simp add: unat_of_nat take_bit_nat_eq_self del: of_nat_diff)
qed

lemma counter_full_iff:
  "t \<le> h \<Longrightarrow> h \<le> t + 16384 \<Longrightarrow> (of_nat h :: u64) - of_nat t \<ge> RingCapacity \<longleftrightarrow> 16384 \<le> h - t"
  by (simp add: word_le_nat_alt unat_counter_diff del: of_nat_diff)

lemma counter_eq_iff:
  assumes "t \<le> h" "h \<le> t + 16384"
  shows "(of_nat h :: u64) = of_nat t \<longleftrightarrow> h = t"
proof
  assume "(of_nat h :: u64) = of_nat t"
  then have "unat ((of_nat h :: u64) - of_nat t) = 0" by simp
  with assms show "h = t" by (simp add: unat_counter_diff del: of_nat_diff)
qed simp

section \<open>The ring is a bounded queue\<close>

definition ring_inv :: "SPSCRing \<Rightarrow> bool" where
  "ring_inv r \<longleftrightarrow> unat (r_head r - r_tail r) \<le> 16384"

definition ring_content :: "SPSCRing \<Rightarrow> SpscMeta list" where
  "ring_content r = map (\<lambda>k. r_slots r (and (r_tail r + of_nat k) ringMask)) [0..<unat (r_head r - r_tail r)]"

text \<open>Every ring that satisfies the invariant has counters that are the words of two
  natural numbers at most the capacity apart.\<close>

lemma ring_inv_counters:
  assumes "ring_inv r"
  obtains t n where "r_tail r = of_nat t" "r_head r = of_nat (t + n)" "n \<le> 16384"
    "ring_content r = map (\<lambda>k. r_slots r (slot (t + k))) [0..<n]"
proof -
  let ?t = "unat (r_tail r)" and ?n = "unat (r_head r - r_tail r)"
  have "r_tail r = of_nat ?t" "r_head r = of_nat (?t + ?n)" by simp_all
  moreover have "ring_content r = map (\<lambda>k. r_slots r (slot (?t + k))) [0..<?n]"
    by (simp add: ring_content_def slot_def)
  ultimately show thesis
    using assms by (intro that [of ?t ?n]) (simp_all only: ring_inv_def)
qed

lemma ring_contentI:
  assumes "r_tail r = of_nat t" "r_head r = of_nat (t + n)" "n \<le> 16384"
  shows "ring_inv r" and "ring_content r = map (\<lambda>k. r_slots r (slot (t + k))) [0..<n]"
proof -
  have "unat (r_head r - r_tail r) = n"
    using unat_counter_diff [of t "t + n"] assms by simp
  then show "ring_inv r" "ring_content r = map (\<lambda>k. r_slots r (slot (t + k))) [0..<n]"
    using assms by (simp_all add: ring_inv_def ring_content_def slot_def)
qed

lemma Push_room:
  assumes "ring_inv r" "length (ring_content r) < 16384" "SPSCRing_Push m r = (ok, r')"
  shows "ok \<and> ring_inv r' \<and> ring_content r' = ring_content r @ [m]"
proof -
  from assms(1) obtain t n where c: "r_tail r = of_nat t" "r_head r = of_nat (t + n)" "n \<le> 16384"
    "ring_content r = map (\<lambda>k. r_slots r (slot (t + k))) [0..<n]" by (rule ring_inv_counters)
  from assms(2) have n: "n < 16384" by (simp add: c(4))
  then have "\<not> r_head r - r_tail r \<ge> RingCapacity"
    using counter_full_iff [of t "t + n"] c(1-3) by simp
  then have r': "ok" "r' = r\<lparr>r_slots := (r_slots r)(slot (t + n) := m), r_head := of_nat (t + Suc n)\<rparr>"
    using assms(3) by (auto simp: SPSCRing_Push_def Let_def c(2) slot_def add.commute split: if_splits)
  have "slot (t + k) \<noteq> slot (t + n)" if "k < n" for k
    using that n by (intro slot_neq) simp_all
  then have "ring_content r' = ring_content r @ [m]"
    using ring_contentI(2) [of r' t "Suc n"] n c r' by simp
  with ring_contentI(1) [of r' t "Suc n"] n c(1) r' show ?thesis by simp
qed

lemma Push_full:
  assumes "ring_inv r" "16384 \<le> length (ring_content r)" "SPSCRing_Push m r = (ok, r')"
  shows "\<not> ok \<and> ring_inv r' \<and> ring_content r' = ring_content r"
proof -
  from assms(1) obtain t n where c: "r_tail r = of_nat t" "r_head r = of_nat (t + n)" "n \<le> 16384"
    "ring_content r = map (\<lambda>k. r_slots r (slot (t + k))) [0..<n]" by (rule ring_inv_counters)
  from assms(2) have "r_head r - r_tail r \<ge> RingCapacity"
    using counter_full_iff [of t "t + n"] c by simp
  with assms(1,3) show ?thesis
    by (auto simp: SPSCRing_Push_def Let_def ring_inv_def ring_content_def split: if_splits)
qed

lemma Pop_empty:
  assumes "ring_inv r" "ring_content r = []" "SPSCRing_Pop r = (x, r')"
  shows "x = None \<and> ring_inv r' \<and> ring_content r' = []"
  using assms by (auto simp: SPSCRing_Pop_def ring_content_def Let_def unat_eq_0 split: if_splits)

lemma Pop_cons:
  assumes "ring_inv r" "ring_content r = m # ms" "SPSCRing_Pop r = (x, r')"
  shows "x = Some m \<and> ring_inv r' \<and> ring_content r' = ms"
proof -
  from assms(1) obtain t n where c: "r_tail r = of_nat t" "r_head r = of_nat (t + n)" "n \<le> 16384"
    "ring_content r = map (\<lambda>k. r_slots r (slot (t + k))) [0..<n]" by (rule ring_inv_counters)
  from assms(2) c(4) obtain n' where n: "n = Suc n'" by (cases n) auto
  have ms: "m = r_slots r (slot t)" "ms = map (\<lambda>k. r_slots r (slot (Suc t + k))) [0..<n']"
    using assms(2) c(4) by (simp_all add: n upt_conv_Cons map_Suc_upt [symmetric] comp_def del: upt_Suc)
  have "r_head r \<noteq> r_tail r"
    using counter_eq_iff [of t "t + n"] c(1-3) n by simp
  then have r': "x = Some m" "r' = r\<lparr>r_tail := of_nat (Suc t)\<rparr>"
    using assms(3) by (auto simp: SPSCRing_Pop_def Let_def c(1) ms(1) slot_def add.commute split: if_splits)
  with ring_contentI [of r' "Suc t" n'] c(2,3) n ms(2) show ?thesis by simp
qed

interpretation spsc: bounded_fifo SPSCRing_Push SPSCRing_Pop ring_content ring_inv 16384
  by unfold_locales (rule Push_room Push_full Pop_empty Pop_cons; assumption)+

section \<open>Interleavings keep the order\<close>

definition prod_inv :: "nat \<Rightarrow> nat \<Rightarrow> SPSCRing \<Rightarrow> producer \<Rightarrow> bool" where
  "prod_inv p q r pc =
     (case pc of
        PIdle \<Rightarrow> True
      | PHead m h \<Rightarrow> h = of_nat p
      | PRoom m h \<Rightarrow> h = of_nat p \<and> p < q + 16384
      | PWritten m h \<Rightarrow> h = of_nat p \<and> p < q + 16384 \<and> r_slots r (slot p) = m)"

definition cons_inv :: "nat \<Rightarrow> nat \<Rightarrow> SpscMeta list \<Rightarrow> consumer \<Rightarrow> bool" where
  "cons_inv p q ms pc =
     (case pc of
        CIdle \<Rightarrow> True
      | CTail t \<Rightarrow> t = of_nat q
      | CAvail t \<Rightarrow> t = of_nat q \<and> q < p
      | CRead t m \<Rightarrow> t = of_nat q \<and> q < p \<and> m = ms ! q)"

definition spsc_inv :: "spsc \<Rightarrow> bool" where
  "spsc_inv s \<longleftrightarrow>
     (let r = sp_ring s; p = length (sp_pushed s); q = length (sp_popped s) in
      r_head r = of_nat p \<and> r_tail r = of_nat q \<and> q \<le> p \<and> p \<le> q + 16384
      \<and> take q (sp_pushed s) = sp_popped s
      \<and> (\<forall>i. q \<le> i \<and> i < p \<longrightarrow> r_slots r (slot i) = sp_pushed s ! i)
      \<and> prod_inv p q r (sp_prod s) \<and> cons_inv p q (sp_pushed s) (sp_cons s))"

lemma spsc_inv_init: "spsc_inv spsc_init"
  by (simp add: spsc_inv_def spsc_init_def NewSPSCRing_def prod_inv_def cons_inv_def)

lemmas spsc_inv_defs = spsc_inv_def prod_inv_def cons_inv_def Let_def

lemma spsc_inv_producer:
  assumes "spsc_inv s"
  shows "sp_prod s = PIdle \<Longrightarrow> spsc_inv (s\<lparr>sp_prod := PHead m (r_head (sp_ring s))\<rparr>)"
    and "spsc_inv (s\<lparr>sp_prod := PIdle, sp_ring := (sp_ring s)\<lparr>r_dropped := d\<rparr>\<rparr>)"
    and "sp_prod s = PHead m h \<Longrightarrow> \<not> h - r_tail (sp_ring s) \<ge> RingCapacity \<Longrightarrow> spsc_inv (s\<lparr>sp_prod := PRoom m h\<rparr>)"
  using assms counter_full_iff [of "length (sp_popped s)" "length (sp_pushed s)"]
  by (auto simp: spsc_inv_defs)

text \<open>The write goes to a slot that the consumer cannot be reading.\<close>

lemma spsc_inv_write:
  assumes "spsc_inv s" and "sp_prod s = PRoom m h"
  shows "spsc_inv (s\<lparr>sp_prod := PWritten m h,
      sp_ring := (sp_ring s)\<lparr>r_slots := (r_slots (sp_ring s))(and h ringMask := m)\<rparr>\<rparr>)"
proof -
  let ?p = "length (sp_pushed s)" and ?q = "length (sp_popped s)"
  from assms have h: "and h ringMask = slot ?p" "?p < ?q + 16384"
    by (simp_all add: spsc_inv_defs slot_def)
  then have "slot i \<noteq> slot ?p" if "?q \<le> i" "i < ?p" for i
    using that by (intro slot_neq) simp_all
  with assms h show ?thesis
    by (auto simp: spsc_inv_defs)
qed

lemma spsc_inv_publish:
  assumes "spsc_inv s" and "sp_prod s = PWritten m h"
  shows "spsc_inv (s\<lparr>sp_prod := PIdle, sp_ring := (sp_ring s)\<lparr>r_head := h + 1\<rparr>, sp_pushed := sp_pushed s @ [m]\<rparr>)"
  using assms
  by (auto simp: spsc_inv_defs nth_append less_Suc_eq add.commute split: consumer.splits)

lemma spsc_inv_consumer:
  assumes "spsc_inv s"
  shows "sp_cons s = CIdle \<Longrightarrow> spsc_inv (s\<lparr>sp_cons := CTail (r_tail (sp_ring s))\<rparr>)"
    and "spsc_inv (s\<lparr>sp_cons := CIdle\<rparr>)"
    and "sp_cons s = CTail t \<Longrightarrow> r_head (sp_ring s) \<noteq> t \<Longrightarrow> spsc_inv (s\<lparr>sp_cons := CAvail t\<rparr>)"
    and "sp_cons s = CAvail t \<Longrightarrow> spsc_inv (s\<lparr>sp_cons := CRead t (r_slots (sp_ring s) (and t ringMask))\<rparr>)"
proof -
  let ?p = "length (sp_pushed s)" and ?q = "length (sp_popped s)"
  show "sp_cons s = CIdle \<Longrightarrow> spsc_inv (s\<lparr>sp_cons := CTail (r_tail (sp_ring s))\<rparr>)"
    and "spsc_inv (s\<lparr>sp_cons := CIdle\<rparr>)"
    using assms by (simp_all add: spsc_inv_defs)
  show "spsc_inv (s\<lparr>sp_cons := CAvail t\<rparr>)" if "sp_cons s = CTail t" "r_head (sp_ring s) \<noteq> t"
  proof -
    from assms that have "?q \<le> ?p" "?p \<noteq> ?q" "t = of_nat ?q" by (auto simp: spsc_inv_defs)
    then have "?q < ?p" by simp
    with assms that \<open>t = of_nat ?q\<close> show ?thesis by (simp add: spsc_inv_defs)
  qed
  show "spsc_inv (s\<lparr>sp_cons := CRead t (r_slots (sp_ring s) (and t ringMask))\<rparr>)" if "sp_cons s = CAvail t"
  proof -
    from assms that have "t = of_nat ?q" "?q < ?p" "r_slots (sp_ring s) (slot ?q) = sp_pushed s ! ?q"
      by (simp_all add: spsc_inv_defs)
    with assms show ?thesis by (simp add: spsc_inv_defs slot_def)
  qed
qed

lemma spsc_inv_release:
  assumes "spsc_inv s" and "sp_cons s = CRead t m"
  shows "spsc_inv (s\<lparr>sp_cons := CIdle, sp_ring := (sp_ring s)\<lparr>r_tail := t + 1\<rparr>, sp_popped := sp_popped s @ [m]\<rparr>)"
  using assms
  by (auto simp: spsc_inv_defs take_Suc_conv_app_nth add.commute split: producer.splits)

lemma spsc_step_inv: "spsc_step s s' \<Longrightarrow> spsc_inv s \<Longrightarrow> spsc_inv s'"
  by (induction rule: spsc_step.induct)
     (blast intro: spsc_inv_producer spsc_inv_write spsc_inv_publish spsc_inv_consumer spsc_inv_release)+

lemma spsc_reachable_inv: "spsc_step\<^sup>*\<^sup>* spsc_init s \<Longrightarrow> spsc_inv s"
  by (induction rule: rtranclp_induct) (auto intro: spsc_inv_init spsc_step_inv)

text \<open>A method that runs alone, between two operations of its thread, is a run of the step relation.\<close>

lemma push_is_producer_run:
  assumes "sp_prod s = PIdle" "SPSCRing_Push m (sp_ring s) = (ok, r)"
  shows "spsc_step\<^sup>*\<^sup>* s (s\<lparr>sp_ring := r, sp_pushed := sp_pushed s @ (if ok then [m] else [])\<rparr>)"
proof -
  let ?h = "r_head (sp_ring s)" and ?g = "sp_ring s"
  let ?s1 = "s\<lparr>sp_prod := PHead m ?h\<rparr>"
  have s1: "spsc_step s ?s1" using assms(1) by (rule spsc_step.p_head)
  show ?thesis
  proof (cases "?h - r_tail ?g \<ge> RingCapacity")
    case True
    then have "spsc_step ?s1 (s\<lparr>sp_prod := PIdle, sp_ring := ?g\<lparr>r_dropped := r_dropped ?g + 1\<rparr>\<rparr>)"
      using spsc_step.p_full [of ?s1 m ?h] by simp
    moreover have "(ok, r) = (False, ?g\<lparr>r_dropped := r_dropped ?g + 1\<rparr>)"
      using assms(2) True by (simp add: SPSCRing_Push_def Let_def)
    ultimately show ?thesis using s1 assms(1) by (cases s) auto
  next
    case False
    let ?s2 = "s\<lparr>sp_prod := PRoom m ?h\<rparr>"
    let ?g3 = "?g\<lparr>r_slots := (r_slots ?g)(and ?h ringMask := m)\<rparr>"
    let ?s3 = "s\<lparr>sp_prod := PWritten m ?h, sp_ring := ?g3\<rparr>"
    have "spsc_step ?s1 ?s2" using False spsc_step.p_room [of ?s1 m ?h] by simp
    moreover have "spsc_step ?s2 ?s3" using spsc_step.p_write [of ?s2 m ?h] by simp
    moreover have "spsc_step ?s3 (s\<lparr>sp_prod := PIdle, sp_ring := ?g3\<lparr>r_head := ?h + 1\<rparr>, sp_pushed := sp_pushed s @ [m]\<rparr>)"
      using spsc_step.p_store [of ?s3 m ?h] by simp
    moreover have "(ok, r) = (True, ?g3\<lparr>r_head := ?h + 1\<rparr>)" using assms(2) False by (simp add: SPSCRing_Push_def Let_def)
    ultimately show ?thesis using s1 assms(1)
      by (cases s) (auto intro: converse_rtranclp_into_rtranclp)
  qed
qed

lemma pop_is_consumer_run:
  assumes "sp_cons s = CIdle" "SPSCRing_Pop (sp_ring s) = (out, r)"
  shows "spsc_step\<^sup>*\<^sup>* s (s\<lparr>sp_ring := r, sp_popped := sp_popped s @ (case out of None \<Rightarrow> [] | Some m \<Rightarrow> [m])\<rparr>)"
proof -
  let ?t = "r_tail (sp_ring s)" and ?g = "sp_ring s"
  let ?s1 = "s\<lparr>sp_cons := CTail ?t\<rparr>" and ?m = "r_slots (sp_ring s) (and (r_tail (sp_ring s)) ringMask)"
  have s1: "spsc_step s ?s1" using assms(1) by (rule spsc_step.c_tail)
  show ?thesis
  proof (cases "r_head ?g = ?t")
    case True
    then have "spsc_step ?s1 (s\<lparr>sp_cons := CIdle\<rparr>)" using spsc_step.c_empty [of ?s1 ?t] by simp
    moreover have "(out, r) = (None, ?g)" using assms(2) True by (simp add: SPSCRing_Pop_def Let_def)
    ultimately show ?thesis using s1 assms(1) by (cases s) auto
  next
    case False
    let ?s2 = "s\<lparr>sp_cons := CAvail ?t\<rparr>" and ?s3 = "s\<lparr>sp_cons := CRead ?t ?m\<rparr>"
    have "spsc_step ?s1 ?s2" using False spsc_step.c_avail [of ?s1 ?t] by simp
    moreover have "spsc_step ?s2 ?s3" using spsc_step.c_read [of ?s2 ?t] by simp
    moreover have "spsc_step ?s3 (s\<lparr>sp_cons := CIdle, sp_ring := ?g\<lparr>r_tail := ?t + 1\<rparr>, sp_popped := sp_popped s @ [?m]\<rparr>)"
      using spsc_step.c_store [of ?s3 ?t ?m] by simp
    moreover have "(out, r) = (Some ?m, ?g\<lparr>r_tail := ?t + 1\<rparr>)" using assms(2) False by (simp add: SPSCRing_Pop_def Let_def)
    ultimately show ?thesis using s1 assms(1)
      by (cases s) (auto intro: converse_rtranclp_into_rtranclp)
  qed
qed

section \<open>Properties\<close>

text \<open>C8. Under every interleaving of one producer and one consumer, at the
  granularity of single atomic accesses, what has been popped is a prefix of what has
  been pushed (nothing lost, duplicated, reordered or read half-written), and at most
  the capacity is in between.  The counters may wrap around any number of times.\<close>

theorem spsc_interleaving_fifo:
  assumes "spsc_step\<^sup>*\<^sup>* spsc_init s"
  shows "sp_popped s = take (length (sp_popped s)) (sp_pushed s)
    \<and> length (sp_pushed s) \<le> length (sp_popped s) + 16384"
  using spsc_reachable_inv [OF assms] by (simp add: spsc_inv_def Let_def)

theorem spsc_interleaving_fifo_witness:
  "\<exists>s. spsc_step\<^sup>*\<^sup>* spsc_init s \<and> sp_pushed s = [SpscMeta0] \<and> [] = take 0 (sp_pushed s)
     \<and> length (sp_pushed s) \<le> 0 + 16384"
proof -
  let ?s1 = "spsc_init\<lparr>sp_prod := PHead SpscMeta0 0\<rparr>"
  let ?s2 = "spsc_init\<lparr>sp_prod := PRoom SpscMeta0 0\<rparr>"
  let ?s3 = "spsc_init\<lparr>sp_prod := PWritten SpscMeta0 0\<rparr>"
  let ?s4 = "spsc_init\<lparr>sp_ring := NewSPSCRing\<lparr>r_head := 1\<rparr>, sp_pushed := [SpscMeta0]\<rparr>"
  have "spsc_step spsc_init ?s1"
    using spsc_step.p_head [of spsc_init SpscMeta0] by (simp add: spsc_init_def NewSPSCRing_def)
  moreover have "spsc_step ?s1 ?s2"
    using spsc_step.p_room [of ?s1 SpscMeta0 0] by (simp add: spsc_init_def NewSPSCRing_def RingCapacity_def)
  moreover have "spsc_step ?s2 ?s3"
    using spsc_step.p_write [of ?s2 SpscMeta0 0] by (simp add: spsc_init_def NewSPSCRing_def fun_upd_def)
  moreover have "spsc_step ?s3 ?s4"
    using spsc_step.p_store [of ?s3 SpscMeta0 0] by (simp add: spsc_init_def NewSPSCRing_def)
  ultimately have r: "spsc_step\<^sup>*\<^sup>* spsc_init ?s4"
    by (meson rtranclp.rtrancl_into_rtrancl rtranclp.rtrancl_refl)
  from spsc_interleaving_fifo [OF r] r show ?thesis
    by (intro exI [of _ ?s4]) (simp add: spsc_init_def)
qed

text \<open>Refused pushes, and only they, are counted as dropped.\<close>

lemma run_dropped:
  "fifo_run SPSCRing_Push SPSCRing_Pop ops r = (rs, r') \<Longrightarrow>
   r_dropped r' = r_dropped r + of_nat (count_list rs (Pushed False))"
proof (induction ops arbitrary: r rs)
  case (Cons op' ops)
  show ?case
  proof (cases op')
    case (Enq x)
    then show ?thesis using Cons.prems Cons.IH
      by (auto simp: SPSCRing_Push_def Let_def split: prod.splits if_splits)
  next
    case Deq
    then show ?thesis using Cons.prems Cons.IH
      by (auto simp: SPSCRing_Pop_def Let_def split: prod.splits if_splits)
  qed
qed simp

text \<open>C23. The ring refines a bounded queue.  Every sequence of pushes and pops, on a ring whose
  counters are at most the capacity apart (wherever they are, also across a wrap-around), is
  answered exactly as by a queue with room for 16384 elements that holds the content of the ring,
  and leaves the content of that queue: a push is refused exactly when the queue is full, a
  pop delivers the oldest element and finds nothing exactly when there is none.  The counter of
  dropped elements grows by the number of refused pushes.\<close>

theorem spsc_refines_queue:
  assumes "ring_inv r" and "fifo_run SPSCRing_Push SPSCRing_Pop ops r = (rs, r')"
  shows "ring_inv r' \<and> fifo_run (queue_push 16384) queue_pop ops (ring_content r) = (rs, ring_content r')
    \<and> r_dropped r' = r_dropped r + of_nat (count_list rs (Pushed False))"
  using spsc.run_refines [OF assms] run_dropped [OF assms(2)] by blast

theorem spsc_refines_queue_witness:
  "fst (fifo_run SPSCRing_Push SPSCRing_Pop [Deq, Enq SpscMeta0, Deq] (NewSPSCRing\<lparr>r_head := - 1, r_tail := - 1\<rparr>))
   = [Popped None, Pushed True, Popped (Some SpscMeta0)]"
proof -
  let ?r = "NewSPSCRing\<lparr>r_head := - 1, r_tail := - 1\<rparr>"
  let ?ops = "[Deq, Enq SpscMeta0, Deq]"
  have "ring_inv ?r" "ring_content ?r = []"
    by (simp_all add: ring_inv_def ring_content_def)
  with spsc_refines_queue [OF _ surjective_pairing, of ?r ?ops]
  have "fifo_run (queue_push 16384) queue_pop ?ops [] = (fst (fifo_run SPSCRing_Push SPSCRing_Pop ?ops ?r),
      ring_content (snd (fifo_run SPSCRing_Push SPSCRing_Pop ?ops ?r)))" by simp
  then show ?thesis by (simp add: queue_push_def)
qed

end
