(* ===== verification/Sweeper.thy ===== *)
theory Sweeper
  imports BpfTypes Ebpf
begin

text \<open>
  The amnesty sweeper of \<open>control/failsafe.go\<close> (section 5), which removes expired
  entries of the IPv4 blocklist and old entries of the cooling tracker.  Unlike the
  expiry daemon it goes on after a failed iteration with the keys it has collected,
  and it counts errors.  The kernel maps are the parameters of theory \<open>Ebpf\<close>.
\<close>

section \<open>State\<close>

record sweepBlockEntry =
  sb_ExpireAt :: u64
  sb_Action :: u8
  sb_RuleID :: u8
  sb_ThreatScore :: u8
  sb_Pad :: u8
  sb_Reason :: u32

record sweepCoolingEntry =
  sc_RepeatCount :: u32
  sc_Pad :: u32
  sc_LastBanAtNs :: u64

definition maxCoolingBanNs :: u64 where
  "maxCoolingBanNs = 655360 * 1000000000"

record SweepStats =
  BlocklistPurged :: u64
  CoolingPurged :: u64
  SweepErrors :: u64
  TotalSweeps :: u64
  LastSweepAt :: gotime
  LastSweepElapsed :: duration

record AmnestySweeeper =
  as_blocklistV4 :: "(u32, sweepBlockEntry) kmap"
  as_coolingTracker :: "(u32, sweepCoolingEntry) kmap"
  as_interval :: duration
  as_stats :: SweepStats

definition NewAmnestySweeeper ::
    "(u32, sweepBlockEntry) kmap \<Rightarrow> (u32, sweepCoolingEntry) kmap \<Rightarrow> duration \<Rightarrow> AmnestySweeeper" where
  "NewAmnestySweeeper blocklistV4 coolingTracker interval =
     \<lparr>as_blocklistV4 = blocklistV4, as_coolingTracker = coolingTracker, as_interval = interval,
      as_stats = \<lparr>BlocklistPurged = 0, CoolingPurged = 0, SweepErrors = 0, TotalSweeps = 0,
        LastSweepAt = 0, LastSweepElapsed = 0\<rparr>\<rparr>"

section \<open>A pass\<close>

definition block_stale :: "u64 \<Rightarrow> sweepBlockEntry \<Rightarrow> bool" where
  "block_stale nowS val \<longleftrightarrow> sb_ExpireAt val \<noteq> 0 \<and> sb_ExpireAt val \<le> nowS"

definition cooling_stale :: "u64 \<Rightarrow> sweepCoolingEntry \<Rightarrow> bool" where
  "cooling_stale nowNs val \<longleftrightarrow> sc_LastBanAtNs val > 0 \<and> nowNs > sc_LastBanAtNs val
     \<and> nowNs - sc_LastBanAtNs val > maxCoolingBanNs"

text \<open>Both functions return the count of purged entries and of errors.\<close>

definition sweepBlocklist :: "(u32, sweepBlockEntry) ebpf \<Rightarrow> u64 \<Rightarrow> (u32, sweepBlockEntry) kmap \<Rightarrow>
    u64 \<times> u64 \<times> (u32, sweepBlockEntry) kmap" where
  "sweepBlocklist M nowS s =
     (let (kvs, err) = e_iterate M s;
          stale = map fst (filter (\<lambda>kv. block_stale nowS (snd kv)) kvs);
          errs = (if err \<noteq> None then 1 else 0);
          (n, s') = km_delete_all M stale s
      in (of_int n, errs + of_int (int (length stale) - n), s'))"

definition sweepCooling :: "(u32, sweepCoolingEntry) ebpf \<Rightarrow> u64 \<Rightarrow> (u32, sweepCoolingEntry) kmap \<Rightarrow>
    u64 \<times> u64 \<times> (u32, sweepCoolingEntry) kmap" where
  "sweepCooling M nowNs s =
     (let (kvs, err) = e_iterate M s;
          stale = map fst (filter (\<lambda>kv. cooling_stale nowNs (snd kv)) kvs);
          errs = (if err \<noteq> None then 1 else 0);
          (n, s') = km_delete_all M stale s
      in (of_int n, errs + of_int (int (length stale) - n), s'))"

text \<open>\<open>ts\<close> is the result of \<open>clock_gettime(CLOCK_MONOTONIC)\<close>, \<open>None\<close> when it failed.\<close>

definition monotonicNs :: "(i64 \<times> i64) option \<Rightarrow> gotime \<Rightarrow> u64" where
  "monotonicNs ts now =
     (case ts of None \<Rightarrow> word_of_int (time_UnixNano now) | Some (sec, nsec) \<Rightarrow> sec * 1000000000 + nsec)"

definition AmnestySweeeper_sweep ::
    "(u32, sweepBlockEntry) ebpf \<Rightarrow> (u32, sweepCoolingEntry) ebpf \<Rightarrow> (i64 \<times> i64) option \<Rightarrow> clock \<Rightarrow>
     AmnestySweeeper \<Rightarrow> AmnestySweeeper" where
  "AmnestySweeeper_sweep MB MC ts clk s =
     (let start = clk 0;
          nowS = word_of_int (time_Unix start);
          nowNs = monotonicNs ts (clk 1);
          (blPurged, blErrs, b) = sweepBlocklist MB nowS (as_blocklistV4 s);
          (clPurged, clErrs, c) = sweepCooling MC nowNs (as_coolingTracker s);
          elapsed = time_Sub (clk 2) start;
          st = as_stats s
      in s\<lparr>as_blocklistV4 := b, as_coolingTracker := c,
           as_stats := st\<lparr>BlocklistPurged := BlocklistPurged st + blPurged,
             CoolingPurged := CoolingPurged st + clPurged,
             SweepErrors := SweepErrors st + (blErrs + clErrs),
             TotalSweeps := TotalSweeps st + 1,
             LastSweepAt := start, LastSweepElapsed := elapsed\<rparr>\<rparr>)"

section \<open>Lemmas\<close>

lemma sweepBlocklist_keeps:
  assumes "ebpf_map M" "sweepBlocklist M t s = (n, e, s')"
  shows "km_view s k = Some v \<Longrightarrow> \<not> block_stale t v \<Longrightarrow> km_view s' k = Some v"
    and "km_view s' k = km_view s k \<or> km_view s' k = None"
proof -
  obtain kvs err m where it: "e_iterate M s = (kvs, err)"
    and d: "km_delete_all M (map fst (filter (\<lambda>kv. block_stale t (snd kv)) kvs)) s = (m, s')"
    using assms(2) by (auto simp: sweepBlocklist_def Let_def split: prod.splits)
  show "km_view s k = Some v \<Longrightarrow> \<not> block_stale t v \<Longrightarrow> km_view s' k = Some v"
    by (rule ebpf_map.sweep_keeps [OF assms(1) it d])
  show "km_view s' k = km_view s k \<or> km_view s' k = None"
    by (rule ebpf_map.sweep_no_new [OF assms(1) d])
qed

lemma sweepCooling_keeps:
  assumes "ebpf_map M" "sweepCooling M t s = (n, e, s')"
  shows "km_view s k = Some v \<Longrightarrow> \<not> cooling_stale t v \<Longrightarrow> km_view s' k = Some v"
    and "km_view s' k = km_view s k \<or> km_view s' k = None"
proof -
  obtain kvs err m where it: "e_iterate M s = (kvs, err)"
    and d: "km_delete_all M (map fst (filter (\<lambda>kv. cooling_stale t (snd kv)) kvs)) s = (m, s')"
    using assms(2) by (auto simp: sweepCooling_def Let_def split: prod.splits)
  show "km_view s k = Some v \<Longrightarrow> \<not> cooling_stale t v \<Longrightarrow> km_view s' k = Some v"
    by (rule ebpf_map.sweep_keeps [OF assms(1) it d])
  show "km_view s' k = km_view s k \<or> km_view s' k = None"
    by (rule ebpf_map.sweep_no_new [OF assms(1) d])
qed

text \<open>A cooling entry counts as old exactly if its last ban lies more than the longest
  ban before now, in true arithmetic.\<close>

lemma unat_maxCoolingBanNs: "unat maxCoolingBanNs = 655360000000000"
  by (simp add: maxCoolingBanNs_def)

lemma cooling_stale_iff:
  "cooling_stale nowNs val \<longleftrightarrow> 0 < unat (sc_LastBanAtNs val)
     \<and> unat (sc_LastBanAtNs val) + 655360000000000 < unat nowNs"
proof (cases "sc_LastBanAtNs val < nowNs")
  case True
  then have "unat (nowNs - sc_LastBanAtNs val) = unat nowNs - unat (sc_LastBanAtNs val)"
    by (intro unat_sub) simp
  with True show ?thesis
    by (auto simp: cooling_stale_def word_less_nat_alt unat_maxCoolingBanNs unat_gt_0)
next
  case False
  then show ?thesis
    by (auto simp: cooling_stale_def word_less_nat_alt)
qed

text \<open>What is left of a map when the elements that satisfy a predicate are removed.\<close>

definition without :: "('v \<Rightarrow> bool) \<Rightarrow> ('k \<rightharpoonup> 'v) \<Rightarrow> ('k \<rightharpoonup> 'v)" where
  "without P m = (\<lambda>k. case m k of Some v \<Rightarrow> if P v then None else Some v | None \<Rightarrow> None)"

lemma sweepBlocklist_exact:
  assumes "ebpf_reliable M" "snd (e_iterate M s) = None" "sweepBlocklist M t s = (n, e, s')"
  shows "km_view s' = without (block_stale t) (km_view s) \<and> e = 0
    \<and> n = of_nat (card {k. \<exists>v. km_view s k = Some v \<and> block_stale t v})"
proof -
  obtain kvs where it: "e_iterate M s = (kvs, None)" using assms(2) by (metis prod.collapse)
  let ?ks = "map fst (filter (\<lambda>kv. block_stale t (snd kv)) kvs)"
  obtain m where d: "km_delete_all M ?ks s = (m, s')"
    and r: "n = of_int m" "e = of_int (int (length ?ks) - m)"
    using assms(3) it by (auto simp: sweepBlocklist_def Let_def split: prod.splits)
  note ex = ebpf_reliable.sweep_exact [OF assms(1) it d]
  have "e = 0" using r(2) ex(3) by simp
  moreover have "n = of_nat (card {k. \<exists>v. km_view s k = Some v \<and> block_stale t v})" using r(1) ex(2) by simp
  ultimately show ?thesis using ex(1) by (simp add: without_def fun_eq_iff)
qed

lemma sweepCooling_exact:
  assumes "ebpf_reliable M" "snd (e_iterate M s) = None" "sweepCooling M t s = (n, e, s')"
  shows "km_view s' = without (cooling_stale t) (km_view s) \<and> e = 0
    \<and> n = of_nat (card {k. \<exists>v. km_view s k = Some v \<and> cooling_stale t v})"
proof -
  obtain kvs where it: "e_iterate M s = (kvs, None)" using assms(2) by (metis prod.collapse)
  let ?ks = "map fst (filter (\<lambda>kv. cooling_stale t (snd kv)) kvs)"
  obtain m where d: "km_delete_all M ?ks s = (m, s')"
    and r: "n = of_int m" "e = of_int (int (length ?ks) - m)"
    using assms(3) it by (auto simp: sweepCooling_def Let_def split: prod.splits)
  note ex = ebpf_reliable.sweep_exact [OF assms(1) it d]
  have "e = 0" using r(2) ex(3) by simp
  moreover have "n = of_nat (card {k. \<exists>v. km_view s k = Some v \<and> cooling_stale t v})" using r(1) ex(2) by simp
  ultimately show ?thesis using ex(1) by (simp add: without_def fun_eq_iff)
qed

section \<open>Properties\<close>

text \<open>A cooling entry that is old by the wall clock goes when the monotonic clock cannot be read.\<close>

lemma fallback_stale:
  assumes "0 < sc_LastBanAtNs v" "int (unat (sc_LastBanAtNs v)) + 655360000000000 < time_UnixNano now" "time_UnixNano now < 2 ^ 64"
  shows "cooling_stale (monotonicNs None now) v"
proof -
  have "unat (monotonicNs None now) = nat (time_UnixNano now)"
    unfolding monotonicNs_def option.case by (rule unat_word_of_int_nonneg) (use assms(2,3) of_nat_0_le_iff [of "unat (sc_LastBanAtNs v)", where 'a = int] in linarith, use assms(3) in simp)
  moreover have "unat (sc_LastBanAtNs v) + 655360000000000 < nat (time_UnixNano now)" using assms(2) by linarith
  ultimately show ?thesis using assms(1) by (simp add: cooling_stale_iff word_less_nat_alt)
qed

text \<open>C35. A pass of the amnesty sweeper removes only what is stale by the clock readings it uses, also when
  the iteration or a deletion fails: no permanent blocklist entry, none whose time has not come, and
  no cooling entry whose last ban lies within the longest ban of the reading \<open>nowNs\<close>; and it
  adds nothing.  When the iteration and the deletions of a map report no error it removes exactly
  the stale entries and adds their number to the statistics.  The reading \<open>nowNs\<close> is that of
  the monotonic clock, which stamps the bans; if it cannot be read, it is the wall clock, which is
  decades ahead, and the last clause says what happens then: every cooling entry whose stamp
  is more than the longest ban below the wall clock is removed, recent ones included, contrary to
  the comment that entries are retained longer.\<close>

theorem amnesty_sweep:
  fixes s :: AmnestySweeeper and ts :: "(i64 \<times> i64) option" and clk :: clock
  assumes "ebpf_map MB" "ebpf_map MC"
  defines "nowS \<equiv> word_of_int (time_Unix (clk 0)) :: u64" and "nowNs \<equiv> monotonicNs ts (clk 1)"
    and "s' \<equiv> AmnestySweeeper_sweep MB MC ts clk s"
  shows "(\<forall>k v. km_view (as_blocklistV4 s) k = Some v \<and> (sb_ExpireAt v = 0 \<or> nowS < sb_ExpireAt v)
           \<longrightarrow> km_view (as_blocklistV4 s') k = Some v)
    \<and> (\<forall>k v. km_view (as_coolingTracker s) k = Some v
           \<and> unat nowNs \<le> unat (sc_LastBanAtNs v) + 655360000000000
           \<longrightarrow> km_view (as_coolingTracker s') k = Some v)
    \<and> km_view (as_blocklistV4 s') \<subseteq>\<^sub>m km_view (as_blocklistV4 s)
    \<and> km_view (as_coolingTracker s') \<subseteq>\<^sub>m km_view (as_coolingTracker s)
    \<and> (ebpf_reliable MB \<and> snd (e_iterate MB (as_blocklistV4 s)) = None \<longrightarrow>
        km_view (as_blocklistV4 s') = without (block_stale nowS) (km_view (as_blocklistV4 s))
        \<and> BlocklistPurged (as_stats s') = BlocklistPurged (as_stats s)
            + of_nat (card {k. \<exists>v. km_view (as_blocklistV4 s) k = Some v \<and> block_stale nowS v}))
    \<and> (ebpf_reliable MC \<and> snd (e_iterate MC (as_coolingTracker s)) = None \<longrightarrow>
        km_view (as_coolingTracker s') = without (cooling_stale nowNs) (km_view (as_coolingTracker s))
        \<and> CoolingPurged (as_stats s') = CoolingPurged (as_stats s)
            + of_nat (card {k. \<exists>v. km_view (as_coolingTracker s) k = Some v \<and> cooling_stale nowNs v}))
    \<and> (ts = None \<and> ebpf_reliable MC \<and> snd (e_iterate MC (as_coolingTracker s)) = None \<longrightarrow>
        (\<forall>k v. km_view (as_coolingTracker s) k = Some v \<and> 0 < sc_LastBanAtNs v \<and> time_UnixNano (clk 1) < 2 ^ 64
           \<and> int (unat (sc_LastBanAtNs v)) + 655360000000000 < time_UnixNano (clk 1) \<longrightarrow> km_view (as_coolingTracker s') k = None))"
proof -
  obtain bn be b where b: "sweepBlocklist MB nowS (as_blocklistV4 s) = (bn, be, b)" using prod_cases3 by blast
  obtain cn ce c where c: "sweepCooling MC nowNs (as_coolingTracker s) = (cn, ce, c)" using prod_cases3 by blast
  have f: "as_blocklistV4 s' = b" "as_coolingTracker s' = c"
      "BlocklistPurged (as_stats s') = BlocklistPurged (as_stats s) + bn"
      "CoolingPurged (as_stats s') = CoolingPurged (as_stats s) + cn"
    using b c by (auto simp: s'_def AmnestySweeeper_sweep_def nowS_def nowNs_def Let_def)
  note kb = sweepBlocklist_keeps [OF assms(1) b] and kc = sweepCooling_keeps [OF assms(2) c]
  have "\<forall>k v. km_view (as_blocklistV4 s) k = Some v \<and> (sb_ExpireAt v = 0 \<or> nowS < sb_ExpireAt v) \<longrightarrow> km_view b k = Some v"
    using kb(1) by (auto simp: block_stale_def not_le)
  moreover have "\<forall>k v. km_view (as_coolingTracker s) k = Some v
      \<and> unat nowNs \<le> unat (sc_LastBanAtNs v) + 655360000000000 \<longrightarrow> km_view c k = Some v"
    using kc(1) by (auto simp: cooling_stale_iff)
  moreover have "km_view b \<subseteq>\<^sub>m km_view (as_blocklistV4 s)" "km_view c \<subseteq>\<^sub>m km_view (as_coolingTracker s)"
    using kb(2) kc(2) by (force simp: map_le_def dom_def)+
  moreover have "\<forall>k v. km_view (as_coolingTracker s) k = Some v \<and> 0 < sc_LastBanAtNs v \<and> time_UnixNano (clk 1) < 2 ^ 64
      \<and> int (unat (sc_LastBanAtNs v)) + 655360000000000 < time_UnixNano (clk 1) \<longrightarrow> km_view c k = None"
    if "ts = None" "ebpf_reliable MC" "snd (e_iterate MC (as_coolingTracker s)) = None"
    using sweepCooling_exact [OF that(2,3) c] fallback_stale [of _ "clk 1"] by (simp add: without_def nowNs_def that(1))
  ultimately show ?thesis
    using sweepBlocklist_exact [OF _ _ b] sweepCooling_exact [OF _ _ c] unfolding f by simp
qed

theorem amnesty_sweep_witness:
  "BlocklistPurged (as_stats (AmnestySweeeper_sweep (lru_ops 5) (lru_ops 5) (Some (0, 7)) (\<lambda>_. 62135596900000000000)
     (NewAmnestySweeeper \<lparr>km_data = [(1, \<lparr>sb_ExpireAt = 50, sb_Action = 2, sb_RuleID = 0, sb_ThreatScore = 0,
        sb_Pad = 0, sb_Reason = 0\<rparr>)], km_env = 0\<rparr> \<lparr>km_data = [], km_env = 0\<rparr> 60))) = 1"
proof -
  let ?v = "\<lparr>sb_ExpireAt = 50, sb_Action = 2, sb_RuleID = 0, sb_ThreatScore = 0, sb_Pad = 0, sb_Reason = 0\<rparr>"
  let ?s = "NewAmnestySweeeper \<lparr>km_data = [(1, ?v)], km_env = 0\<rparr> \<lparr>km_data = [], km_env = 0\<rparr> 60"
  let ?now = "word_of_int (time_Unix 62135596900000000000) :: u64"
  have now: "?now = 100" by (simp add: time_Unix_def)
  have stale: "{k. \<exists>v. km_view (as_blocklistV4 ?s) k = Some v \<and> block_stale ?now v} = {1}"
    unfolding now by (auto simp: NewAmnestySweeeper_def block_stale_def split: if_splits)
  have it: "snd (e_iterate (lru_ops 5) (as_blocklistV4 ?s)) = None" by (simp add: lru_ops_def)
  have "BlocklistPurged (as_stats (AmnestySweeeper_sweep (lru_ops 5) (lru_ops 5) (Some (0, 7))
      (\<lambda>_. 62135596900000000000) ?s)) = BlocklistPurged (as_stats ?s)
      + of_nat (card {k. \<exists>v. km_view (as_blocklistV4 ?s) k = Some v \<and> block_stale ?now v})"
    using amnesty_sweep [where s = ?s and ts = "Some (0, 7)" and clk = "\<lambda>_. 62135596900000000000",
        OF lru.ebpf_map_axioms [of 5] lru.ebpf_map_axioms [of 5]] lru.ebpf_reliable_axioms [of 5] it by blast
  then show ?thesis
    unfolding stale by (simp add: NewAmnestySweeeper_def)
qed

end
