(* ===== verification/GeoIP.thy ===== *)
theory GeoIP
  imports GoNet "HOL-Library.Monad_Syntax"
begin

text \<open>
  The reader of MaxMind country databases of \<open>control/failsafe.go\<close> (section 4): the
  decoder of the metadata, the binary search tree, the depth-first search that
  precomputes the table of country codes, and the lookup.  A database is the list of its
  bytes.  The tree is read through unchecked pointers, so \<open>readRecord\<close> and everything
  above it returns \<open>None\<close> for an access outside the file; the lemmas show that this
  never happens for a database that was opened, that every decoding loop ends, and that
  the table gives what decoding the record of an address would give.
\<close>

section \<open>Control bytes\<close>

definition mmdbTypePointer :: int where "mmdbTypePointer = 1"
definition mmdbTypeUTF8 :: int where "mmdbTypeUTF8 = 2"
definition mmdbTypeDouble :: int where "mmdbTypeDouble = 3"
definition mmdbTypeBytes :: int where "mmdbTypeBytes = 4"
definition mmdbTypeUint16 :: int where "mmdbTypeUint16 = 5"
definition mmdbTypeUint32 :: int where "mmdbTypeUint32 = 6"
definition mmdbTypeMap :: int where "mmdbTypeMap = 7"
definition mmdbTypeInt32 :: int where "mmdbTypeInt32 = 8"
definition mmdbTypeUint64 :: int where "mmdbTypeUint64 = 9"
definition mmdbTypeUint128 :: int where "mmdbTypeUint128 = 10"
definition mmdbTypeArray :: int where "mmdbTypeArray = 11"
definition mmdbTypeBool :: int where "mmdbTypeBool = 14"
definition mmdbTypeFloat :: int where "mmdbTypeFloat = 15"

lemmas mmdb_types = mmdbTypePointer_def mmdbTypeUTF8_def mmdbTypeDouble_def mmdbTypeBytes_def
  mmdbTypeUint16_def mmdbTypeUint32_def mmdbTypeMap_def mmdbTypeInt32_def mmdbTypeUint64_def
  mmdbTypeUint128_def mmdbTypeArray_def mmdbTypeBool_def mmdbTypeFloat_def

definition byte_at :: "bytes \<Rightarrow> nat \<Rightarrow> nat" where
  "byte_at data i = unat (data ! i)"

definition mmdbCtrl :: "bytes \<Rightarrow> nat \<Rightarrow> int \<times> nat \<times> nat" where
  "mmdbCtrl data pos =
     (let n = length data in
      if pos \<ge> n then (- 1, 0, 0)
      else
        let b = byte_at data pos; adv = 1; pos = pos + 1; dtype = int (b div 32) in
        if dtype = 0 \<and> pos \<ge> n then (- 1, 0, 0)
        else
          let (dtype, adv, pos) =
                (if dtype = 0 then (int (byte_at data pos) + 7, adv + 1, pos + 1) else (dtype, adv, pos));
              rawSz = b mod 32
          in if rawSz < 29 then (dtype, rawSz, adv)
             else if rawSz = 29 then
               if pos \<ge> n then (- 1, 0, 0) else (dtype, byte_at data pos + 29, adv + 1)
             else if rawSz = 30 then
               if pos + 1 \<ge> n then (- 1, 0, 0)
               else (dtype, byte_at data pos * 256 + byte_at data (pos + 1) + 285, adv + 2)
             else
               if pos + 2 \<ge> n then (- 1, 0, 0)
               else (dtype, byte_at data pos * 65536 + byte_at data (pos + 1) * 256
                       + byte_at data (pos + 2) + 65821, adv + 3))"

definition bytes_of :: "string \<Rightarrow> bytes" where
  "bytes_of s = map of_char s"

definition mmdbBytesEqual :: "bytes \<Rightarrow> string \<Rightarrow> bool" where
  "mmdbBytesEqual b s \<longleftrightarrow> b = bytes_of s"

definition readBigEndianN :: "bytes \<Rightarrow> nat \<Rightarrow> nat \<Rightarrow> u64" where
  "readBigEndianN data pos n =
     foldl (\<lambda>v i. if pos + i < length data then or (push_bit 8 v) (ucast (data ! (pos + i))) else v) 0 [0..<n]"

definition slice :: "bytes \<Rightarrow> nat \<Rightarrow> nat \<Rightarrow> bytes" where
  "slice data pos len = take len (drop pos data)"

section \<open>Skipping values\<close>

text \<open>The loops over the entries of a map and of an array; \<open>sk\<close> skips a value.\<close>

primrec skip_map :: "(nat \<Rightarrow> int \<Rightarrow> nat \<Rightarrow> nat option) \<Rightarrow> bytes \<Rightarrow> nat \<Rightarrow> nat \<Rightarrow> nat option" where
  "skip_map sk data 0 pos = Some pos"
| "skip_map sk data (Suc i) pos =
     (if pos < length data then
        let (_, klen, kadv) = mmdbCtrl data pos; pos = pos + (kadv + klen);
            (vdtype, vsize, vadv) = mmdbCtrl data pos; pos = pos + vadv
        in do { pos \<leftarrow> sk pos vdtype vsize; skip_map sk data i pos }
      else Some pos)"

primrec skip_array :: "(nat \<Rightarrow> int \<Rightarrow> nat \<Rightarrow> nat option) \<Rightarrow> bytes \<Rightarrow> nat \<Rightarrow> nat \<Rightarrow> nat option" where
  "skip_array sk data 0 pos = Some pos"
| "skip_array sk data (Suc i) pos =
     (if pos < length data then
        let (vdtype, vsize, vadv) = mmdbCtrl data pos; pos = pos + vadv
        in do { pos \<leftarrow> sk pos vdtype vsize; skip_array sk data i pos }
      else Some pos)"

text \<open>The recursion with a bound on the nesting; \<open>None\<close> when the bound is too small.\<close>

primrec skipMMDBValue :: "nat \<Rightarrow> bytes \<Rightarrow> nat \<Rightarrow> int \<Rightarrow> nat \<Rightarrow> nat option" where
  "skipMMDBValue 0 data pos dtype sz = None"
| "skipMMDBValue (Suc fuel) data pos dtype sz =
     (if dtype = mmdbTypeUTF8 \<or> dtype = mmdbTypeBytes then Some (pos + sz)
      else if dtype \<in> {mmdbTypeUint16, mmdbTypeUint32, mmdbTypeUint64, mmdbTypeUint128, mmdbTypeInt32,
          mmdbTypeDouble, mmdbTypeFloat} then Some (pos + sz)
      else if dtype = mmdbTypeBool then Some pos
      else if dtype = mmdbTypeMap then skip_map (skipMMDBValue fuel data) data sz pos
      else if dtype = mmdbTypeArray then skip_array (skipMMDBValue fuel data) data sz pos
      else if dtype = mmdbTypePointer then Some (pos + sz)
      else Some pos)"

text \<open>Each level of nesting starts at least one byte further into the file, so its
  length bounds the nesting.\<close>

abbreviation skip_value :: "bytes \<Rightarrow> nat \<Rightarrow> int \<Rightarrow> nat \<Rightarrow> nat option" where
  "skip_value data \<equiv> skipMMDBValue (Suc (length data)) data"

section \<open>Country codes\<close>

type_synonym isoEntry = "u8 \<times> u8"

definition maxMMDBNodes :: u32 where "maxMMDBNodes = push_bit 28 1"
definition maxMMDBMapEntries :: nat where "maxMMDBMapEntries = 64"

primrec iso_in_map_loop :: "bytes \<Rightarrow> nat \<Rightarrow> nat \<Rightarrow> isoEntry option" where
  "iso_in_map_loop data 0 pos = Some (0, 0)"
| "iso_in_map_loop data (Suc i) pos =
     (if pos < length data then
        let (kdtype, klen, kadv) = mmdbCtrl data pos; pos = pos + kadv in
        if kdtype \<noteq> mmdbTypeUTF8 \<or> pos + klen > length data then Some (0, 0)
        else
          let key = slice data pos klen; pos = pos + klen;
              (vdtype, vsize, vadv) = mmdbCtrl data pos; pos = pos + vadv
          in if mmdbBytesEqual key ''iso_code'' \<and> vdtype = mmdbTypeUTF8 \<and> vsize \<ge> 2 \<and> pos + 2 \<le> length data
             then Some (data ! pos, data ! (pos + 1))
             else do { pos \<leftarrow> skip_value data pos vdtype vsize; iso_in_map_loop data i pos }
      else Some (0, 0))"

definition decodeISOInMap :: "bytes \<Rightarrow> nat \<Rightarrow> nat \<Rightarrow> isoEntry option" where
  "decodeISOInMap data pos entryCount =
     iso_in_map_loop data (if entryCount > maxMMDBMapEntries then maxMMDBMapEntries else entryCount) pos"

primrec iso_code_loop :: "bytes \<Rightarrow> nat \<Rightarrow> nat \<Rightarrow> isoEntry option" where
  "iso_code_loop data 0 pos = Some (0, 0)"
| "iso_code_loop data (Suc i) pos =
     (if pos < length data then
        let (kdtype, klen, kadv) = mmdbCtrl data pos; pos = pos + kadv in
        if kdtype \<noteq> mmdbTypeUTF8 \<or> pos + klen > length data then Some (0, 0)
        else
          let key = slice data pos klen; pos = pos + klen;
              (vdtype, vsize, vadv) = mmdbCtrl data pos; pos = pos + vadv
          in if mmdbBytesEqual key ''country'' \<and> vdtype = mmdbTypeMap then decodeISOInMap data pos vsize
             else do { pos \<leftarrow> skip_value data pos vdtype vsize; iso_code_loop data i pos }
      else Some (0, 0))"

definition decodeISOCode :: "bytes \<Rightarrow> nat \<Rightarrow> isoEntry option" where
  "decodeISOCode data pos =
     (let (dtype, mapSize, adv) = mmdbCtrl data pos in
      if dtype \<noteq> mmdbTypeMap \<or> adv = 0 then Some (0, 0)
      else iso_code_loop data mapSize (pos + adv))"

section \<open>Metadata\<close>

record mmdbMeta =
  mm_NodeCount :: u32
  mm_RecordSize :: u32
  mm_IPVersion :: u32

definition mmdbMetaSep :: bytes where
  "mmdbMetaSep = [0xAB, 0xCD, 0xEF] @ bytes_of ''MaxMind.com''"

definition meta_field :: "bytes \<Rightarrow> bytes \<Rightarrow> int \<Rightarrow> nat \<Rightarrow> nat \<Rightarrow> mmdbMeta \<Rightarrow> mmdbMeta" where
  "meta_field raw key vdtype vsize valPos meta =
     (if mmdbBytesEqual key ''node_count'' \<and> (vdtype = mmdbTypeUint32 \<or> vdtype = mmdbTypeUint16)
      then meta\<lparr>mm_NodeCount := ucast (readBigEndianN raw valPos vsize)\<rparr>
      else if mmdbBytesEqual key ''record_size'' \<and> (vdtype = mmdbTypeUint32 \<or> vdtype = mmdbTypeUint16)
      then meta\<lparr>mm_RecordSize := ucast (readBigEndianN raw valPos vsize)\<rparr>
      else if mmdbBytesEqual key ''ip_version'' \<and> (vdtype = mmdbTypeUint32 \<or> vdtype = mmdbTypeUint16)
      then meta\<lparr>mm_IPVersion := ucast (readBigEndianN raw valPos vsize)\<rparr>
      else meta)"

primrec meta_loop :: "bytes \<Rightarrow> nat \<Rightarrow> nat \<Rightarrow> mmdbMeta \<Rightarrow> string + mmdbMeta" where
  "meta_loop raw 0 pos meta = Inr meta"
| "meta_loop raw (Suc i) pos meta =
     (if pos < length raw then
        let (kdtype, klen, kadv) = mmdbCtrl raw pos; pos = pos + kadv in
        if kdtype \<noteq> mmdbTypeUTF8 \<or> pos + klen > length raw
        then Inl (''unexpected key type '' @ dec_int kdtype @ '' in metadata'')
        else
          let key = slice raw pos klen; pos = pos + klen;
              (vdtype, vsize, vadv) = mmdbCtrl raw pos; valPos = pos + vadv
          in meta_loop raw i (valPos + vsize) (meta_field raw key vdtype vsize valPos meta)
      else Inr meta)"

definition decodeMetaRecord :: "bytes \<Rightarrow> nat \<Rightarrow> string + mmdbMeta" where
  "decodeMetaRecord raw pos =
     (let (dtype, mapSize, adv) = mmdbCtrl raw pos in
      if dtype \<noteq> mmdbTypeMap then Inl (''expected metadata map (type 7), got type '' @ dec_int dtype)
      else case meta_loop raw mapSize (pos + adv) \<lparr>mm_NodeCount = 0, mm_RecordSize = 0, mm_IPVersion = 0\<rparr> of
             Inl e \<Rightarrow> Inl e
           | Inr meta \<Rightarrow>
               if mm_NodeCount meta = 0 then Inl ''metadata missing or zero node_count''
               else if mm_RecordSize meta = 0 then Inl ''metadata missing or zero record_size''
               else Inr meta)"

text \<open>\<open>bytes.LastIndex\<close>: the last position at which a pattern occurs.\<close>

definition last_index :: "bytes \<Rightarrow> bytes \<Rightarrow> nat option" where
  "last_index raw sep =
     (case filter (\<lambda>i. slice raw i (length sep) = sep) (rev [0..<Suc (length raw)]) of [] \<Rightarrow> None | i # _ \<Rightarrow> Some i)"

definition em_dash :: string where
  "em_dash = [CHR 0xE2, CHR 0x80, CHR 0x94]"

definition parseMeta :: "bytes \<Rightarrow> string + mmdbMeta" where
  "parseMeta raw =
     (case last_index raw mmdbMetaSep of
        None \<Rightarrow> Inl (''metadata separator not found '' @ em_dash @ '' not a valid MMDB file'')
      | Some idx \<Rightarrow>
          let metaStart = idx + length mmdbMetaSep in
          if metaStart \<ge> length raw then Inl ''metadata separator at end of file with no metadata following''
          else decodeMetaRecord raw metaStart)"

section \<open>The tree\<close>

record GeoIPReader =
  g_raw :: bytes
  g_nodeCount :: u32
  g_recordSize :: u32
  g_bytesPerNode :: u32
  g_dataBase :: u32
  g_isoTable :: "isoEntry list"

text \<open>A read through a pointer into the file.\<close>

definition deref :: "bytes \<Rightarrow> nat \<Rightarrow> u32 option" where
  "deref raw i = (if i < length raw then Some (ucast (raw ! i)) else None)"

text \<open>Three bytes, most significant first.\<close>

definition deref3 :: "bytes \<Rightarrow> nat \<Rightarrow> u32 option" where
  "deref3 raw i = do { a \<leftarrow> deref raw i; b \<leftarrow> deref raw (i + 1); c \<leftarrow> deref raw (i + 2);
     Some (or (or (push_bit 16 a) (push_bit 8 b)) c) }"

definition readRecord :: "GeoIPReader \<Rightarrow> u32 \<Rightarrow> u32 \<Rightarrow> u32 option" where
  "readRecord r node direction =
     (let base64 = (ucast node :: u64) * ucast (g_bytesPerNode r) in
      if base64 + ucast (g_bytesPerNode r) > ucast (g_dataBase r) then Some (g_nodeCount r)
      else
        let base = unat (ucast base64 :: u32); raw = g_raw r in
        if g_recordSize r = 24 then
          if direction = 0 then deref3 raw base else deref3 raw (base + 3)
        else if g_recordSize r = 28 then
          do { mid \<leftarrow> deref raw (base + 3);
               if direction = 0
               then do { lo \<leftarrow> deref3 raw base; Some (or (push_bit 20 (and mid 0xF0)) lo) }
               else do { lo \<leftarrow> deref3 raw (base + 4); Some (or (push_bit 24 (and mid 0x0F)) lo) } }
        else if g_recordSize r = 32 then
          let i = (if direction = 0 then base else base + 4) in
          do { a \<leftarrow> deref raw i; lo \<leftarrow> deref3 raw (i + 1); Some (or (push_bit 24 a) lo) }
        else Some (g_nodeCount r))"

text \<open>The walk over the bits from \<open>bit - 1\<close> down to 0.\<close>

primrec traverse_loop :: "GeoIPReader \<Rightarrow> u32 \<Rightarrow> nat \<Rightarrow> u32 \<Rightarrow> u32 option" where
  "traverse_loop r ip 0 node = Some node"
| "traverse_loop r ip (Suc bit') node =
     do { node \<leftarrow> readRecord r node (and (drop_bit bit' ip) 1);
          if node \<ge> g_nodeCount r then Some node else traverse_loop r ip bit' node }"

definition traverseTree :: "GeoIPReader \<Rightarrow> u32 \<Rightarrow> u32 option" where
  "traverseTree r ip = traverse_loop r ip 32 0"

definition LookupIPv4 :: "GeoIPReader \<Rightarrow> u32 \<Rightarrow> (isoEntry \<times> bool) option" where
  "LookupIPv4 r ip =
     do { leaf \<leftarrow> traverseTree r ip;
          if leaf \<le> g_nodeCount r + 15 then Some ((0, 0), False)
          else
            let idx = leaf - g_nodeCount r - 16 in
            if unat idx \<ge> length (g_isoTable r) then Some ((0, 0), False)
            else let entry = g_isoTable r ! unat idx in
              if entry = (0, 0) then Some ((0, 0), False) else Some (entry, True) }"

section \<open>The table\<close>

text \<open>The depth-first search; the top of the stack is the head of the list, and the
  leaves are collected in a list.\<close>

function iso_dfs :: "GeoIPReader \<Rightarrow> u32 list \<Rightarrow> u32 list \<Rightarrow> u32 list \<Rightarrow> u32 list option" where
  "iso_dfs r [] visited leaves = Some leaves"
| "iso_dfs r (node # stack) visited leaves =
     (if node \<in> set visited then iso_dfs r stack visited leaves
      else
        case readRecord r node 0 of None \<Rightarrow> None | Some c0 \<Rightarrow>
        case readRecord r node 1 of None \<Rightarrow> None | Some c1 \<Rightarrow>
          iso_dfs r (rev (filter (\<lambda>c. c < g_nodeCount r) [c0, c1]) @ stack) (node # visited)
            (filter (\<lambda>c. c \<ge> g_nodeCount r \<and> c \<ge> g_nodeCount r + 16) [c0, c1] @ leaves))"
  by pat_completeness auto

termination
proof (relation "inv_image (finite_psubset <*lex*> less_than)
    (\<lambda>(r, stack, visited, leaves). (- set visited, length stack))", goal_cases)
  case 1
  show ?case by (intro wf_inv_image wf_lex_prod wf_finite_psubset wf_less_than)
qed (auto simp: finite_psubset_def)

definition leaf_index :: "GeoIPReader \<Rightarrow> u32 \<Rightarrow> u64" where
  "leaf_index r leaf = ucast leaf - ucast (g_nodeCount r) - 16"

text \<open>The loop that fills the table; the order in which Go visits the set of leaves does
  not matter, since different leaves have different indices.\<close>

primrec fill_table :: "GeoIPReader \<Rightarrow> u32 list \<Rightarrow> isoEntry list \<Rightarrow> isoEntry list option" where
  "fill_table r [] table = Some table"
| "fill_table r (leaf # leaves) table =
     (let idx64 = leaf_index r leaf; dataPos64 = ucast (g_dataBase r) + idx64 in
      if unat dataPos64 \<ge> length (g_raw r) then fill_table r leaves table
      else
        let idx = (ucast idx64 :: u32) in
        if unat idx \<ge> length table then fill_table r leaves table
        else do { e \<leftarrow> decodeISOCode (g_raw r) (unat dataPos64); fill_table r leaves (table[unat idx := e]) })"

definition buildISOTable :: "GeoIPReader \<Rightarrow> (string + GeoIPReader) option" where
  "buildISOTable r =
     do { leaves \<leftarrow> iso_dfs r [0] [] [];
          if leaves = [] then Some (Inr (r\<lparr>g_isoTable := []\<rparr>))
          else
            let maxIdx64 = foldl (\<lambda>m leaf. max m (leaf_index r leaf)) 0 leaves in
            if maxIdx64 > ucast (not 0 :: u32)
            then Some (Inl (''GeoIPReader: ISO table index '' @ dec (unat maxIdx64) @ '' overflows uint32''))
            else
              do { t \<leftarrow> fill_table r leaves (replicate (unat (ucast maxIdx64 + 1 :: u32)) (0, 0));
                   Some (Inr (r\<lparr>g_isoTable := t\<rparr>)) } }"

section \<open>Opening a database\<close>

text \<open>\<open>OpenGeoIP\<close> on the mapped bytes of the file; errors of the system calls are left out.\<close>

definition OpenGeoIP :: "bytes \<Rightarrow> (string + GeoIPReader) option" where
  "OpenGeoIP raw =
     (let err = (\<lambda>s. Some (Inl (''GeoIPReader.Open: '' @ s))) in
      if length raw < length mmdbMetaSep + 1 then err (''file too small ('' @ dec (length raw) @ '' bytes)'')
      else case parseMeta raw of
        Inl e \<Rightarrow> err (''parse metadata: '' @ e)
      | Inr meta \<Rightarrow>
          if mm_IPVersion meta \<noteq> 4 \<and> mm_IPVersion meta \<noteq> 6
          then err (''unsupported ip_version '' @ dec (unat (mm_IPVersion meta)))
          else if mm_RecordSize meta \<noteq> 24 \<and> mm_RecordSize meta \<noteq> 28 \<and> mm_RecordSize meta \<noteq> 32
          then err (''unsupported record_size '' @ dec (unat (mm_RecordSize meta)))
          else if mm_NodeCount meta > maxMMDBNodes
          then err (''nodeCount '' @ dec (unat (mm_NodeCount meta)) @ '' exceeds maximum allowed '' @
                 dec (unat maxMMDBNodes) @ '' '' @ em_dash @ '' refusing potentially malicious MMDB'')
          else
            let bytesPerNode = (mm_RecordSize meta * 2 + 7) div 8;
                treeSize64 = (ucast (mm_NodeCount meta) :: u64) * ucast bytesPerNode;
                dataBase64 = treeSize64 + 16
            in if unat dataBase64 > length raw
               then err (''computed dataBase ('' @ dec (unat dataBase64) @ '') exceeds file size ('' @
                      dec (length raw) @ '')'')
               else if dataBase64 > ucast (not 0 :: u32)
               then err (''dataBase '' @ dec (unat dataBase64) @ '' overflows uint32'')
               else
                 do { res \<leftarrow> buildISOTable \<lparr>g_raw = raw, g_nodeCount = mm_NodeCount meta,
                        g_recordSize = mm_RecordSize meta, g_bytesPerNode = bytesPerNode,
                        g_dataBase = ucast dataBase64, g_isoTable = []\<rparr>;
                      case res of Inl e \<Rightarrow> err (''build ISO table: '' @ e) | Inr r \<Rightarrow> Some (Inr r) })"

section \<open>Decoding ends\<close>

text \<open>A control sequence is either malformed, or it takes at least one byte inside the file.\<close>

lemma mmdbCtrl_cases:
  assumes "mmdbCtrl data pos = (dtype, sz, adv)"
  obtains "dtype = - 1" "sz = 0" "adv = 0" | "0 < adv" "pos + adv \<le> length data" "dtype \<noteq> - 1"
  using assms by (auto simp: mmdbCtrl_def Let_def split: if_splits)

lemma skip_map_value [simp]:
  "skipMMDBValue (Suc fuel) data pos mmdbTypeMap sz = skip_map (skipMMDBValue fuel data) data sz pos"
  by (simp add: mmdb_types)

lemma skip_array_value [simp]:
  "skipMMDBValue (Suc fuel) data pos mmdbTypeArray sz = skip_array (skipMMDBValue fuel data) data sz pos"
  by (simp add: mmdb_types)

lemma skip_scalar:
  "dtype \<noteq> mmdbTypeMap \<Longrightarrow> dtype \<noteq> mmdbTypeArray \<Longrightarrow> skipMMDBValue (Suc fuel) data pos dtype sz =
     Some (pos + (if dtype \<in> {1, 2, 3, 4, 5, 6, 8, 9, 10, 15} then sz else 0))"
  by (simp add: mmdb_types)

declare skipMMDBValue.simps(2) [simp del]

lemma skip_malformed: "skipMMDBValue (Suc fuel) data pos (- 1) sz = Some pos"
  by (subst skip_scalar) (simp_all add: mmdb_types)

text \<open>A loop ends if the values inside it, which start further on, are skipped.\<close>

lemma skip_map_total:
  assumes "\<And>p d n. p0 < p \<or> p0 \<le> p \<and> d = - 1 \<Longrightarrow> \<exists>q \<ge> p. sk p d n = Some q" and "p0 \<le> pos"
  shows "\<exists>q \<ge> pos. skip_map sk data i pos = Some q"
  using assms(2)
proof (induction i arbitrary: pos)
  case (Suc i)
  show ?case
  proof (cases "pos < length data")
    case True
    obtain kt klen kadv where k: "mmdbCtrl data pos = (kt, klen, kadv)" using prod_cases3 by blast
    let ?p = "pos + (kadv + klen)"
    obtain vt vlen vadv where v: "mmdbCtrl data ?p = (vt, vlen, vadv)" using prod_cases3 by blast
    have "\<exists>q \<ge> ?p + vadv. sk (?p + vadv) vt vlen = Some q"
      using v Suc.prems by (intro assms(1)) (auto elim!: mmdbCtrl_cases)
    then obtain q where q: "?p + vadv \<le> q" "sk (?p + vadv) vt vlen = Some q" by blast
    with Suc.prems obtain q' where "q \<le> q'" "skip_map sk data i q = Some q'"
      using Suc.IH [of q] by auto
    with True k v q show ?thesis by (intro exI [of _ q']) (simp add: Let_def)
  qed simp
qed simp

lemma skip_array_total:
  assumes "\<And>p d n. p0 < p \<or> p0 \<le> p \<and> d = - 1 \<Longrightarrow> \<exists>q \<ge> p. sk p d n = Some q" and "p0 \<le> pos"
  shows "\<exists>q \<ge> pos. skip_array sk data i pos = Some q"
  using assms(2)
proof (induction i arbitrary: pos)
  case (Suc i)
  show ?case
  proof (cases "pos < length data")
    case True
    obtain vt vlen vadv where v: "mmdbCtrl data pos = (vt, vlen, vadv)" using prod_cases3 by blast
    have "\<exists>q \<ge> pos + vadv. sk (pos + vadv) vt vlen = Some q"
      using v Suc.prems by (intro assms(1)) (auto elim!: mmdbCtrl_cases)
    then obtain q where q: "pos + vadv \<le> q" "sk (pos + vadv) vt vlen = Some q" by blast
    with Suc.prems obtain q' where "q \<le> q'" "skip_array sk data i q = Some q'"
      using Suc.IH [of q] by auto
    with True v q show ?thesis by (intro exI [of _ q']) (simp add: Let_def)
  qed simp
qed simp

lemma skip_loops_past_end:
  "length data \<le> pos \<Longrightarrow> skip_map sk data i pos = Some pos"
  "length data \<le> pos \<Longrightarrow> skip_array sk data i pos = Some pos"
  by (cases i; simp)+

lemma skip_total:
  "length data - pos < fuel \<Longrightarrow> \<exists>q \<ge> pos. skipMMDBValue fuel data pos dtype sz = Some q"
proof (induction fuel arbitrary: pos dtype sz)
  case (Suc fuel)
  have inner: "\<exists>q \<ge> p. skipMMDBValue fuel data p d n = Some q"
    if "pos < length data" "pos < p \<or> pos \<le> p \<and> d = - 1" for p d n
  proof -
    from that(1) Suc.prems obtain f where f: "fuel = Suc f" by (cases fuel) auto
    show ?thesis
    proof (cases "pos < p")
      case True
      with that(1) Suc.prems show ?thesis by (intro Suc.IH) linarith
    next
      case False
      with that(2) show ?thesis by (simp add: f skip_malformed)
    qed
  qed
  have "\<exists>q \<ge> pos. skip_map (skipMMDBValue fuel data) data sz pos = Some q"
      "\<exists>q \<ge> pos. skip_array (skipMMDBValue fuel data) data sz pos = Some q"
    using inner skip_map_total [of pos "skipMMDBValue fuel data" pos data sz]
      skip_array_total [of pos "skipMMDBValue fuel data" pos data sz]
    by (cases "pos < length data"; simp add: skip_loops_past_end)+
  then show ?case
    by (cases "dtype = mmdbTypeMap"; cases "dtype = mmdbTypeArray") (simp_all add: skip_scalar)
qed simp

lemma skip_value_total: "\<exists>q \<ge> pos. skip_value data pos dtype sz = Some q"
  by (rule skip_total) simp

text \<open>More fuel does not change a result.\<close>

lemma skip_map_mono:
  assumes "\<And>p d n q. sk p d n = Some q \<Longrightarrow> sk' p d n = Some q"
  shows "skip_map sk data i pos = Some q \<Longrightarrow> skip_map sk' data i pos = Some q"
  by (induction i arbitrary: pos)
     (auto simp: Let_def split: prod.splits if_splits bind_splits dest!: assms)

lemma skip_array_mono:
  assumes "\<And>p d n q. sk p d n = Some q \<Longrightarrow> sk' p d n = Some q"
  shows "skip_array sk data i pos = Some q \<Longrightarrow> skip_array sk' data i pos = Some q"
  by (induction i arbitrary: pos)
     (auto simp: Let_def split: prod.splits if_splits bind_splits dest!: assms)

lemma skip_fuel_Suc:
  "skipMMDBValue fuel data pos dtype sz = Some q \<Longrightarrow> skipMMDBValue (Suc fuel) data pos dtype sz = Some q"
proof (induction fuel arbitrary: pos dtype sz q)
  case (Suc fuel)
  note mono = skip_map_mono [of "skipMMDBValue fuel data" "skipMMDBValue (Suc fuel) data", OF Suc.IH]
    skip_array_mono [of "skipMMDBValue fuel data" "skipMMDBValue (Suc fuel) data", OF Suc.IH]
  show ?case
    using Suc.prems mono by (cases "dtype = mmdbTypeMap"; cases "dtype = mmdbTypeArray") (simp_all add: skip_scalar)
qed simp

lemma skip_fuel_mono:
  "fuel \<le> fuel' \<Longrightarrow> skipMMDBValue fuel data pos dtype sz = Some q \<Longrightarrow> skipMMDBValue fuel' data pos dtype sz = Some q"
  by (induction rule: dec_induct) (auto intro: skip_fuel_Suc)

lemma skip_value_the: "skip_value data pos dtype sz = Some (the (skip_value data pos dtype sz))"
  using skip_value_total [of pos data dtype sz] by auto

lemma iso_in_map_total: "\<exists>e. iso_in_map_loop data i pos = Some e"
proof (induction i arbitrary: pos)
  case (Suc i)
  have "\<exists>e. do { pos \<leftarrow> skip_value data p d n; iso_in_map_loop data i pos } = Some e" for p d n
    using Suc.IH by (subst skip_value_the) simp
  then show ?case
    by (auto simp: Let_def split: prod.split)
qed simp

lemma iso_code_total: "\<exists>e. iso_code_loop data i pos = Some e"
proof (induction i arbitrary: pos)
  case (Suc i)
  have "\<exists>e. do { pos \<leftarrow> skip_value data p d n; iso_code_loop data i pos } = Some e" for p d n
    using Suc.IH by (subst skip_value_the) simp
  with iso_in_map_total show ?case
    by (auto simp: Let_def decodeISOInMap_def split: prod.split)
qed simp

lemma decodeISOCode_total: "\<exists>e. decodeISOCode data pos = Some e"
  using iso_code_total by (auto simp: decodeISOCode_def split: prod.split)

section \<open>Memory safety\<close>

text \<open>What the checks of \<open>OpenGeoIP\<close> establish.\<close>

definition geo_wf :: "GeoIPReader \<Rightarrow> bool" where
  "geo_wf r \<longleftrightarrow>
     (g_recordSize r = 24 \<and> g_bytesPerNode r = 6 \<or> g_recordSize r = 28 \<and> g_bytesPerNode r = 7 \<or>
      g_recordSize r = 32 \<and> g_bytesPerNode r = 8) \<and>
     0 < unat (g_nodeCount r) \<and> unat (g_nodeCount r) \<le> 2 ^ 28 \<and>
     unat (g_dataBase r) = unat (g_nodeCount r) * unat (g_bytesPerNode r) + 16 \<and>
     unat (g_dataBase r) \<le> length (g_raw r)"

declare unat_u32_u64 [simp]

lemma node_offset:
  assumes "unat (b :: u32) \<le> 8"
  shows "unat ((ucast (node :: u32) :: u64) * ucast b) = unat node * unat b"
    and "unat ((ucast (node :: u32) :: u64) * ucast b + ucast b) = unat node * unat b + unat b"
proof -
  have "unat node * unat b \<le> (2 ^ 32 - 1) * 8"
    using assms unat_less_u32 [of node] by (intro mult_mono) auto
  moreover from this assms have "unat node * unat b + unat b < 2 ^ 64" by simp
  ultimately show "unat ((ucast node :: u64) * ucast b) = unat node * unat b"
      "unat ((ucast node :: u64) * ucast b + ucast b) = unat node * unat b + unat b"
    by (simp_all add: unat_word_ariths)
qed

lemma readRecord_total:
  assumes "geo_wf r"
  shows "\<exists>c. readRecord r node direction = Some c"
proof -
  let ?b = "g_bytesPerNode r"
  have b: "unat ?b \<le> 8" "unat ?b = 6 \<or> unat ?b = 7 \<or> unat ?b = 8"
    using assms by (auto simp: geo_wf_def)
  let ?base64 = "(ucast node :: u64) * ucast ?b"
  show ?thesis
  proof (cases "?base64 + ucast ?b > ucast (g_dataBase r)")
    case True
    then show ?thesis by (simp add: readRecord_def)
  next
    case False
    then have le: "unat node * unat ?b + unat ?b \<le> unat (g_dataBase r)"
      by (simp add: word_less_nat_alt node_offset [OF b(1)])
    have "unat (ucast ?base64 :: u32) = unat node * unat ?b"
      using le unat_less_u32 [of "g_dataBase r"] by (simp add: unsigned_ucast_eq take_bit_nat_eq_self_iff node_offset [OF b(1)])
    with le assms have "unat (ucast ?base64 :: u32) + unat ?b \<le> length (g_raw r)"
      by (simp add: geo_wf_def)
    with False assms show ?thesis
      by (auto simp: readRecord_def geo_wf_def Let_def deref3_def deref_def)
  qed
qed

lemma traverse_loop_total: "geo_wf r \<Longrightarrow> \<exists>c. traverse_loop r ip k node = Some c"
proof (induction k arbitrary: node)
  case (Suc k)
  then show ?case
    using readRecord_total [OF Suc.prems, of node "and (drop_bit k ip) 1"] by auto
qed simp

lemma iso_dfs_seen: "node \<in> set visited \<Longrightarrow> iso_dfs r (node # stack) visited leaves = iso_dfs r stack visited leaves"
  by (subst iso_dfs.simps(2)) simp

definition dfs_kids :: "GeoIPReader \<Rightarrow> u32 list \<Rightarrow> u32 list" where
  "dfs_kids r cs = rev (filter (\<lambda>c. c < g_nodeCount r) cs)"

definition dfs_leaves :: "GeoIPReader \<Rightarrow> u32 list \<Rightarrow> u32 list" where
  "dfs_leaves r cs = filter (\<lambda>c. c \<ge> g_nodeCount r \<and> c \<ge> g_nodeCount r + 16) cs"

lemma iso_dfs_new:
  "node \<notin> set visited \<Longrightarrow> readRecord r node 0 = Some c0 \<Longrightarrow> readRecord r node 1 = Some c1 \<Longrightarrow>
     iso_dfs r (node # stack) visited leaves =
       iso_dfs r (dfs_kids r [c0, c1] @ stack) (node # visited) (dfs_leaves r [c0, c1] @ leaves)"
  by (subst iso_dfs.simps(2)) (simp add: dfs_kids_def dfs_leaves_def)

lemma iso_dfs_children:
  "node \<notin> set visited \<Longrightarrow> iso_dfs r (node # stack) visited leaves = Some ls \<Longrightarrow>
     \<exists>c0 c1. readRecord r node 0 = Some c0 \<and> readRecord r node 1 = Some c1"
  by (subst (asm) iso_dfs.simps(2)) (simp split: option.splits)

lemmas iso_dfs_induct = iso_dfs.induct [folded dfs_kids_def dfs_leaves_def, case_names empty node]

declare iso_dfs.simps(2) [simp del]

lemma iso_dfs_total: "geo_wf r \<Longrightarrow> \<exists>ls. iso_dfs r stack visited leaves = Some ls"
proof (induction r stack visited leaves rule: iso_dfs_induct)
  case (node r node stack visited leaves)
  obtain c0 c1 where "readRecord r node 0 = Some c0" "readRecord r node 1 = Some c1"
    using readRecord_total [OF node.prems] by metis
  with node show ?case by (cases "node \<in> set visited") (simp_all add: iso_dfs_seen iso_dfs_new)
qed simp

section \<open>The table agrees with the tree\<close>

text \<open>The search ends with a set of nodes that is closed under children, and every data
  record below them is in the result.\<close>

definition dfs_closed :: "GeoIPReader \<Rightarrow> u32 set \<Rightarrow> u32 set \<Rightarrow> bool" where
  "dfs_closed r V L \<longleftrightarrow>
     (\<forall>n \<in> V. \<forall>d \<in> {0, 1}. \<exists>c. readRecord r n d = Some c \<and>
        (c < g_nodeCount r \<longrightarrow> c \<in> V) \<and>
        (c \<ge> g_nodeCount r \<longrightarrow> c \<ge> g_nodeCount r + 16 \<longrightarrow> c \<in> L))"

definition dfs_result :: "GeoIPReader \<Rightarrow> u32 set \<Rightarrow> u32 set \<Rightarrow> u32 set \<Rightarrow> u32 set \<Rightarrow> bool" where
  "dfs_result r V stack visited L \<longleftrightarrow>
     stack \<union> visited \<subseteq> V \<and>
     (\<forall>n \<in> V - visited. \<forall>d \<in> {0, 1}. \<exists>c. readRecord r n d = Some c \<and>
        (c < g_nodeCount r \<longrightarrow> c \<in> V) \<and>
        (c \<ge> g_nodeCount r \<longrightarrow> c \<ge> g_nodeCount r + 16 \<longrightarrow> c \<in> L))"

lemma dfs_result_closed: "dfs_result r V stack {} L \<Longrightarrow> dfs_closed r V L"
  by (simp add: dfs_result_def dfs_closed_def)

lemma iso_dfs_result:
  "iso_dfs r stack visited leaves = Some ls \<Longrightarrow>
     set leaves \<subseteq> set ls \<and> (\<exists>V. dfs_result r V (set stack) (set visited) (set ls))"
proof (induction r stack visited leaves rule: iso_dfs_induct)
  case (empty r visited leaves)
  then show ?case by (auto simp: dfs_result_def)
next
  case (node r node stack visited leaves)
  show ?case
  proof (cases "node \<in> set visited")
    case True
    with node.IH(1) [OF True] node.prems obtain V
      where "set leaves \<subseteq> set ls" "dfs_result r V (set stack) (set visited) (set ls)"
      by (auto simp: iso_dfs_seen)
    with True show ?thesis by (intro conjI exI [of _ V]) (auto simp: dfs_result_def)
  next
    case False
    from iso_dfs_children [OF False node.prems]
    obtain c0 c1 where c: "readRecord r node 0 = Some c0" "readRecord r node 1 = Some c1" by blast
    have rec: "iso_dfs r (dfs_kids r [c0, c1] @ stack) (node # visited) (dfs_leaves r [c0, c1] @ leaves) = Some ls"
      using node.prems iso_dfs_new [OF False c] by simp
    from node.IH(2) [OF False c rec] obtain V where sub: "set (dfs_leaves r [c0, c1] @ leaves) \<subseteq> set ls"
      and V: "dfs_result r V (set (dfs_kids r [c0, c1] @ stack)) (set (node # visited)) (set ls)"
      by blast
    have kids: "c < g_nodeCount r \<Longrightarrow> c \<in> V" if "c \<in> {c0, c1}" for c
      using V that by (auto simp: dfs_result_def dfs_kids_def)
    have new: "g_nodeCount r \<le> c \<Longrightarrow> g_nodeCount r + 16 \<le> c \<Longrightarrow> c \<in> set ls" if "c \<in> {c0, c1}" for c
      using sub that by (auto simp: dfs_leaves_def)
    have "dfs_result r V (set (node # stack)) (set visited) (set ls)"
      unfolding dfs_result_def
    proof (intro conjI ballI)
      fix n d :: u32 assume n: "n \<in> V - set visited" and d: "d \<in> {0, 1}"
      show "\<exists>c. readRecord r n d = Some c \<and> (c < g_nodeCount r \<longrightarrow> c \<in> V) \<and>
          (c \<ge> g_nodeCount r \<longrightarrow> c \<ge> g_nodeCount r + 16 \<longrightarrow> c \<in> set ls)"
      proof (cases "n = node")
        case True
        with d c kids new show ?thesis by auto
      next
        case False
        with n have "n \<in> V - set (node # visited)" by simp
        with V d show ?thesis unfolding dfs_result_def by blast
      qed
    qed (use V in \<open>auto simp: dfs_result_def\<close>)
    with sub show ?thesis by auto
  qed
qed

lemma iso_dfs_leaves:
  "iso_dfs r stack visited leaves = Some ls \<Longrightarrow> l \<in> set ls \<Longrightarrow>
     l \<in> set leaves \<or> g_nodeCount r \<le> l \<and> g_nodeCount r + 16 \<le> l"
proof (induction r stack visited leaves rule: iso_dfs_induct)
  case (node r node stack visited leaves)
  show ?case
  proof (cases "node \<in> set visited")
    case True
    with node.IH(1) [OF True] node.prems show ?thesis by (simp add: iso_dfs_seen)
  next
    case False
    from iso_dfs_children [OF False node.prems(1)]
    obtain c0 c1 where c: "readRecord r node 0 = Some c0" "readRecord r node 1 = Some c1" by blast
    have "l \<in> set (dfs_leaves r [c0, c1] @ leaves) \<or> g_nodeCount r \<le> l \<and> g_nodeCount r + 16 \<le> l"
      by (rule node.IH(2) [OF False c]) (use node.prems iso_dfs_new [OF False c] in simp_all)
    then show ?thesis by (auto simp: dfs_leaves_def split: if_splits)
  qed
qed simp

lemma direction_bit: "and (drop_bit k (ip :: u32)) 1 \<in> {0, 1}"
  by (simp add: and_one_eq mod2_eq_if)

lemma traverse_step:
  "readRecord r node (and (drop_bit k ip) 1) = Some c \<Longrightarrow>
     traverse_loop r ip (Suc k) node = (if g_nodeCount r \<le> c then Some c else traverse_loop r ip k c)"
  by simp

lemma traverse_loop_reaches:
  assumes "dfs_closed r V L" "node \<in> V" "traverse_loop r ip (Suc k) node = Some leaf"
    and "g_nodeCount r \<le> leaf" "g_nodeCount r + 16 \<le> leaf"
  shows "leaf \<in> L"
  using assms(2,3)
proof (induction k arbitrary: node)
  case 0
  from assms(1) 0(1) direction_bit [of 0 ip]
  obtain c where c: "readRecord r node (and (drop_bit 0 ip) 1) = Some c"
      "g_nodeCount r \<le> c \<longrightarrow> g_nodeCount r + 16 \<le> c \<longrightarrow> c \<in> L"
    unfolding dfs_closed_def by blast
  have "leaf = c"
    using 0(2) unfolding traverse_step [OF c(1)] by (auto split: if_splits)
  with c(2) assms(4,5) show ?case by blast
next
  case (Suc k)
  from assms(1) Suc.prems(1) direction_bit [of "Suc k" ip]
  obtain c where c: "readRecord r node (and (drop_bit (Suc k) ip) 1) = Some c"
      "c < g_nodeCount r \<longrightarrow> c \<in> V" "g_nodeCount r \<le> c \<longrightarrow> g_nodeCount r + 16 \<le> c \<longrightarrow> c \<in> L"
    unfolding dfs_closed_def by blast
  note step = Suc.prems(2) [unfolded traverse_step [OF c(1)]]
  show ?case
  proof (cases "g_nodeCount r \<le> c")
    case True
    with step have "leaf = c" by (simp only: if_True option.inject)
    with c(3) assms(4,5) show ?thesis by blast
  next
    case False
    then have "c \<in> V" using c(2) by (simp only: not_le)
    moreover from False step have "traverse_loop r ip (Suc k) c = Some leaf" by (simp only: if_False)
    ultimately show ?thesis by (rule Suc.IH)
  qed
qed

text \<open>Indices of leaves are exact.\<close>

definition leaf_offset :: "GeoIPReader \<Rightarrow> u32 \<Rightarrow> nat" where
  "leaf_offset r leaf = unat leaf - unat (g_nodeCount r) - 16"

lemma leaf_offset_exact:
  assumes "unat (g_nodeCount r) + 16 \<le> unat leaf"
  shows "unat (leaf_index r leaf) = leaf_offset r leaf"
    and "unat (ucast (leaf_index r leaf) :: u32) = leaf_offset r leaf"
proof -
  let ?l = "ucast leaf :: u64" and ?n = "ucast (g_nodeCount r) :: u64"
  have 1: "unat (?l - ?n) = unat leaf - unat (g_nodeCount r)"
    using assms by (subst unat_sub) (simp_all add: word_le_nat_alt)
  show "unat (leaf_index r leaf) = leaf_offset r leaf"
    using assms unfolding leaf_index_def leaf_offset_def
    by (subst unat_sub) (simp_all add: word_le_nat_alt 1)
  then show "unat (ucast (leaf_index r leaf) :: u32) = leaf_offset r leaf"
    using unat_less_u32 [of leaf] by (simp add: unsigned_ucast_eq take_bit_nat_eq_self_iff leaf_offset_def)
qed

lemma nodeCount_plus:
  assumes "geo_wf r" "k \<le> 16"
  shows "unat (g_nodeCount r + of_nat k) = unat (g_nodeCount r) + k"
  using assms by (simp add: geo_wf_def unat_word_ariths unat_of_nat take_bit_nat_eq_self)

lemma leaf_bound_iff:
  assumes "geo_wf r"
  shows "g_nodeCount r + 16 \<le> leaf \<longleftrightarrow> unat (g_nodeCount r) + 16 \<le> unat leaf"
    and "leaf \<le> g_nodeCount r + 15 \<longleftrightarrow> unat leaf < unat (g_nodeCount r) + 16"
  using nodeCount_plus [OF assms, of 16] nodeCount_plus [OF assms, of 15] by (auto simp: word_le_nat_alt)

lemma fill_table_spec:
  assumes "\<forall>l \<in> set leaves. unat (g_nodeCount r) + 16 \<le> unat l"
  shows "\<exists>t'. fill_table r leaves t = Some t' \<and> length t' = length t \<and>
    (\<forall>i < length t. t' ! i =
       (if i \<in> leaf_offset r ` set leaves \<and> unat (g_dataBase r) + i < length (g_raw r)
        then the (decodeISOCode (g_raw r) (unat (g_dataBase r) + i)) else t ! i))"
  using assms
proof (induction leaves arbitrary: t)
  case (Cons l leaves)
  let ?i = "leaf_offset r l" and ?d = "unat (g_dataBase r)"
  have l: "unat (g_nodeCount r) + 16 \<le> unat l" using Cons.prems by simp
  have pos: "unat (ucast (g_dataBase r) + leaf_index r l :: u64) = ?d + ?i"
    using unat_less_u32 [of "g_dataBase r"] unat_less_u32 [of l]
    by (subst unat_plus_u64) (simp_all add: leaf_offset_exact [OF l] leaf_offset_def)
  obtain e where e: "decodeISOCode (g_raw r) (?d + ?i) = Some e" using decodeISOCode_total by blast
  let ?t = "if ?d + ?i < length (g_raw r) \<and> ?i < length t then t[?i := e] else t"
  have step: "fill_table r (l # leaves) t = fill_table r leaves ?t"
    by (simp add: Let_def pos leaf_offset_exact [OF l] e)
  obtain t' where t': "fill_table r leaves ?t = Some t'" "length t' = length t"
      "\<forall>i < length t. t' ! i = (if i \<in> leaf_offset r ` set leaves \<and> ?d + i < length (g_raw r)
        then the (decodeISOCode (g_raw r) (?d + i)) else ?t ! i)"
    using Cons.IH [of ?t] Cons.prems by auto
  show ?case
    by (intro exI [of _ t']) (use step t' e in \<open>auto simp: nth_list_update\<close>)
qed simp

lemma foldl_max_bounds:
  fixes f :: "'a \<Rightarrow> 'b::linorder"
  shows "m \<le> foldl (\<lambda>m l. max m (f l)) m ls \<and> (\<forall>l \<in> set ls. f l \<le> foldl (\<lambda>m l. max m (f l)) m ls) \<and>
    foldl (\<lambda>m l. max m (f l)) m ls \<in> insert m (f ` set ls)"
proof (induction ls arbitrary: m)
  case (Cons l ls)
  show ?case using Cons.IH [of "max m (f l)"] by (auto simp: max_def split: if_splits)
qed simp

text \<open>The table does not influence the walk.\<close>

lemma readRecord_table [simp]: "readRecord (r\<lparr>g_isoTable := t\<rparr>) = readRecord r"
  by (simp add: readRecord_def fun_eq_iff Let_def)

lemma traverse_loop_table [simp]: "traverse_loop (r\<lparr>g_isoTable := t\<rparr>) ip k node = traverse_loop r ip k node"
  by (induction k arbitrary: node) (simp_all cong: if_cong)

lemma traverseTree_table [simp]: "traverseTree (r\<lparr>g_isoTable := t\<rparr>) ip = traverseTree r ip"
  by (simp add: traverseTree_def)

text \<open>The country of a leaf: the code in the record it points to, if that is in the file.\<close>

definition country_of_leaf :: "GeoIPReader \<Rightarrow> u32 \<Rightarrow> isoEntry" where
  "country_of_leaf r leaf =
     (let pos = unat (g_dataBase r) + leaf_offset r leaf in
      if pos < length (g_raw r) then the (decodeISOCode (g_raw r) pos) else (0, 0))"

lemma country_of_leaf_table [simp]: "country_of_leaf (r\<lparr>g_isoTable := t\<rparr>) leaf = country_of_leaf r leaf"
  by (simp add: country_of_leaf_def leaf_offset_def Let_def)

definition table_ok :: "GeoIPReader \<Rightarrow> isoEntry list \<Rightarrow> bool" where
  "table_ok r t \<longleftrightarrow> (\<forall>ip leaf. traverseTree r ip = Some leaf \<longrightarrow> unat (g_nodeCount r) + 16 \<le> unat leaf \<longrightarrow>
     leaf_offset r leaf < length t \<and> t ! leaf_offset r leaf = country_of_leaf r leaf)"

lemma dfs_reaches_leaves:
  assumes wf: "geo_wf r" and dfs: "iso_dfs r [0] [] [] = Some ls"
    and leaf: "traverseTree r ip = Some leaf" "unat (g_nodeCount r) + 16 \<le> unat leaf"
  shows "leaf \<in> set ls"
proof -
  from iso_dfs_result [OF dfs] obtain V where "dfs_result r V {0} {} (set ls)" by auto
  then have "dfs_closed r V (set ls)" "0 \<in> V"
    by (auto intro: dfs_result_closed simp: dfs_result_def)
  moreover have "traverse_loop r ip (Suc 31) 0 = Some leaf"
    using leaf(1) by (simp only: traverseTree_def) simp
  moreover have "g_nodeCount r \<le> leaf" "g_nodeCount r + 16 \<le> leaf"
    using leaf(2) by (simp_all add: word_le_nat_alt leaf_bound_iff [OF wf, unfolded word_le_nat_alt])
  ultimately show ?thesis by (rule traverse_loop_reaches)
qed

lemma buildISOTable_spec:
  assumes wf: "geo_wf r"
  shows "\<exists>t. buildISOTable r = Some (Inr (r\<lparr>g_isoTable := t\<rparr>)) \<and> table_ok r t"
proof -
  obtain ls where ls: "iso_dfs r [0] [] [] = Some ls" using iso_dfs_total [OF wf] by blast
  note reach = dfs_reaches_leaves [OF wf ls]
  have big: "\<forall>l \<in> set ls. unat (g_nodeCount r) + 16 \<le> unat l"
    using iso_dfs_leaves [OF ls] leaf_bound_iff [OF wf] by auto
  show ?thesis
  proof (cases "ls = []")
    case True
    with ls reach show ?thesis by (intro exI [of _ "[]"]) (auto simp: buildISOTable_def table_ok_def)
  next
    case False
    define m where "m = foldl (\<lambda>m leaf. max m (leaf_index r leaf)) 0 ls"
    have m: "m \<in> insert 0 (leaf_index r ` set ls)" "\<forall>l \<in> set ls. leaf_index r l \<le> m"
      using foldl_max_bounds [of 0 "leaf_index r" ls] by (auto simp: m_def)
    have small: "unat m + 1 < 2 ^ 32"
    proof -
      have "leaf_offset r l + 1 < 2 ^ 32" for l
        using unat_less_u32 [of l] by (simp add: leaf_offset_def)
      with m(1) big show ?thesis by (auto simp: leaf_offset_exact)
    qed
    have len: "unat (ucast m + 1 :: u32) = unat m + 1"
      using small by (simp add: unat_word_ariths unsigned_ucast_eq take_bit_nat_eq_self)
    have noerr: "\<not> m > ucast (not 0 :: u32)"
      using small by (simp add: word_less_nat_alt unsigned_ucast_eq take_bit_nat_eq_self_iff unat_max_u32)
    have inside: "leaf_offset r l < unat m + 1" if "l \<in> set ls" for l
      using m(2) that big leaf_offset_exact(1) [of r l] by (auto simp: word_le_nat_alt)
    obtain t where t: "fill_table r ls (replicate (unat m + 1) (0, 0)) = Some t" "length t = unat m + 1"
        "\<forall>i < unat m + 1. t ! i = (if i \<in> leaf_offset r ` set ls \<and> unat (g_dataBase r) + i < length (g_raw r)
           then the (decodeISOCode (g_raw r) (unat (g_dataBase r) + i)) else (0, 0))"
      using fill_table_spec [OF big, of "replicate (unat m + 1) (0, 0)"] unfolding length_replicate
      by (metis nth_replicate)
    have "buildISOTable r = Some (Inr (r\<lparr>g_isoTable := t\<rparr>))"
      using False noerr t(1) by (simp add: buildISOTable_def ls Let_def len flip: m_def)
    moreover have "table_ok r t"
      using reach inside t(2,3) by (simp add: table_ok_def country_of_leaf_def Let_def)
    ultimately show ?thesis by blast
  qed
qed

lemma lookup_by_leaf:
  assumes "geo_wf r" "table_ok r t" "traverseTree r ip = Some leaf"
  shows "LookupIPv4 (r\<lparr>g_isoTable := t\<rparr>) ip =
    Some (if unat (g_nodeCount r) + 16 \<le> unat leaf
          then (country_of_leaf r leaf, country_of_leaf r leaf \<noteq> (0, 0)) else ((0, 0), False))"
proof (cases "unat (g_nodeCount r) + 16 \<le> unat leaf")
  case True
  have "unat (leaf - g_nodeCount r - 16) = leaf_offset r leaf"
  proof -
    have 1: "unat (leaf - g_nodeCount r) = unat leaf - unat (g_nodeCount r)"
      using True by (subst unat_sub) (simp_all add: word_le_nat_alt)
    show ?thesis using True by (subst unat_sub) (simp_all add: word_le_nat_alt 1 leaf_offset_def)
  qed
  moreover have "leaf_offset r leaf < length t" "t ! leaf_offset r leaf = country_of_leaf r leaf"
    using True assms(2,3) by (simp_all add: table_ok_def)
  ultimately show ?thesis
    using True assms(3) by (simp add: LookupIPv4_def leaf_bound_iff [OF assms(1)] Let_def)
next
  case False
  with assms show ?thesis by (simp add: LookupIPv4_def leaf_bound_iff [OF assms(1)])
qed

text \<open>Opening fails, or it validates the file and builds the table of a well-formed tree.\<close>

lemma decodeMetaRecord_nonzero: "decodeMetaRecord raw pos = Inr meta \<Longrightarrow> 0 < unat (mm_NodeCount meta)"
  by (auto simp: decodeMetaRecord_def unat_gt_0 split: prod.splits if_splits sum.splits)

lemma parseMeta_nonzero: "parseMeta raw = Inr meta \<Longrightarrow> 0 < unat (mm_NodeCount meta)"
  by (auto simp: parseMeta_def Let_def decodeMetaRecord_nonzero split: option.splits if_splits)

lemma node_bytes:
  "rs = 24 \<or> rs = 28 \<or> rs = 32 \<Longrightarrow>
     rs = 24 \<and> (rs * 2 + 7) div 8 = (6 :: u32) \<or> rs = 28 \<and> (rs * 2 + 7) div 8 = (7 :: u32) \<or>
     rs = 32 \<and> (rs * 2 + 7) div 8 = (8 :: u32)"
  by auto

lemma tree_end:
  assumes "unat (n :: u32) \<le> 2 ^ 28" "unat (b :: u32) \<le> 8"
  shows "unat ((ucast n :: u64) * ucast b + 16) = unat n * unat b + 16"
    and "unat (ucast ((ucast n :: u64) * ucast b + 16) :: u32) = unat n * unat b + 16"
proof -
  have "unat n * unat b \<le> 2 ^ 28 * 8" using assms by (intro mult_mono) auto
  then show "unat ((ucast n :: u64) * ucast b + 16) = unat n * unat b + 16"
    by (subst unat_plus_u64) (simp_all add: node_offset [OF assms(2)])
  with \<open>unat n * unat b \<le> 2 ^ 28 * 8\<close> show "unat (ucast ((ucast n :: u64) * ucast b + 16) :: u32) = unat n * unat b + 16"
    by (simp add: unsigned_ucast_eq take_bit_nat_eq_self)
qed

lemma check_chain: "(\<exists>e. (if bad then Some (Inl a) else rest) = Some (Inl e)) \<longleftrightarrow> bad \<or> (\<exists>e. rest = Some (Inl e))"
  by simp

lemma OpenGeoIP_cases:
  obtains (error) e where "OpenGeoIP raw = Some (Inl e)"
  | (opened) r t where "geo_wf r" "g_raw r = raw" "table_ok r t" "OpenGeoIP raw = Some (Inr (r\<lparr>g_isoTable := t\<rparr>))"
proof (cases "length raw < length mmdbMetaSep + 1")
  case True
  then show ?thesis by (intro error) (simp add: OpenGeoIP_def Let_def)
next
  case long: False
  show ?thesis
  proof (cases "parseMeta raw")
    case (Inl e)
    with long show ?thesis by (intro error) (simp add: OpenGeoIP_def Let_def)
  next
    case (Inr meta)
    let ?n = "mm_NodeCount meta" and ?b = "(mm_RecordSize meta * 2 + 7) div 8"
    let ?d = "(ucast ?n :: u64) * ucast ?b + 16"
    let ?r = "\<lparr>g_raw = raw, g_nodeCount = ?n, g_recordSize = mm_RecordSize meta, g_bytesPerNode = ?b,
        g_dataBase = ucast ?d, g_isoTable = []\<rparr>"
    define ok where "ok \<longleftrightarrow> \<not> (mm_IPVersion meta \<noteq> 4 \<and> mm_IPVersion meta \<noteq> 6) \<and>
      \<not> (mm_RecordSize meta \<noteq> 24 \<and> mm_RecordSize meta \<noteq> 28 \<and> mm_RecordSize meta \<noteq> 32) \<and>
      \<not> ?n > maxMMDBNodes \<and> \<not> unat ?d > length raw \<and> \<not> ?d > ucast (not 0 :: u32)"
    show ?thesis
    proof (cases ok)
      case True
      have "unat ?n \<le> 2 ^ 28" using True by (simp add: ok_def maxMMDBNodes_def word_less_nat_alt)
      moreover have "unat ?b \<le> 8" using node_bytes [of "mm_RecordSize meta"] True by (auto simp: ok_def)
      ultimately have wf: "geo_wf ?r"
        using True tree_end [of ?n ?b] node_bytes [of "mm_RecordSize meta"] parseMeta_nonzero [OF Inr]
        by (simp add: geo_wf_def ok_def)
      then obtain t where "buildISOTable ?r = Some (Inr (?r\<lparr>g_isoTable := t\<rparr>))" "table_ok ?r t"
        using buildISOTable_spec by blast
      moreover have "OpenGeoIP raw = do { res \<leftarrow> buildISOTable ?r;
          case res of Inl e \<Rightarrow> Some (Inl (''GeoIPReader.Open: '' @ ''build ISO table: '' @ e)) | Inr r \<Rightarrow> Some (Inr r) }"
        using True long unfolding OpenGeoIP_def Let_def Inr ok_def by (simp only: sum.case) (simp only: if_False)
      ultimately show ?thesis using wf by (intro opened [of ?r t]) simp_all
    next
      case False
      have "\<exists>e. OpenGeoIP raw = Some (Inl e)"
        using False long unfolding OpenGeoIP_def Let_def Inr ok_def sum.case check_chain by blast
      then show ?thesis using error by blast
    qed
  qed
qed

section \<open>Properties of the country database\<close>

text \<open>C22. Skipping a value always ends, at a position no earlier than where it started,
  with a nesting bound of one more than the number of bytes that are left; a larger bound
  gives the same position.  The recursion of the decoder therefore ends on every file.\<close>

theorem skip_terminates:
  assumes "length data - pos < fuel"
  shows "\<exists>q \<ge> pos. \<forall>fuel' \<ge> fuel. skipMMDBValue fuel' data pos dtype sz = Some q"
proof -
  obtain q where "pos \<le> q" "skipMMDBValue fuel data pos dtype sz = Some q"
    using skip_total [OF assms] by blast
  then show ?thesis using skip_fuel_mono by blast
qed

theorem skip_terminates_witness:
  "length [0xE1, 0x41, 0x61, 0xC1, 0x07 :: u8] - 1 < 6 \<and>
   (\<exists>q \<ge> 1. \<forall>fuel' \<ge> 6. skipMMDBValue fuel' [0xE1, 0x41, 0x61, 0xC1, 0x07] 1 mmdbTypeMap 1 = Some q)"
  using skip_terminates [of "[0xE1, 0x41, 0x61, 0xC1, 0x07]" 1 6 mmdbTypeMap 1] by simp

text \<open>Opening a database never reads outside the file and always returns, whatever the
  file contains.\<close>

theorem open_geoip_safe: "\<exists>res. OpenGeoIP raw = Some res"
  by (rule OpenGeoIP_cases [of raw]) auto

text \<open>C21. In an opened database a lookup never reads outside the file, and it returns what
  decoding the record of the leaf at which the walk for the address ends would return.\<close>

theorem lookup_decodes_leaf:
  assumes "OpenGeoIP raw = Some (Inr r)"
  shows "\<exists>leaf. traverseTree r ip = Some leaf \<and>
    LookupIPv4 r ip = Some (if unat (g_nodeCount r) + 16 \<le> unat leaf
      then (country_of_leaf r leaf, country_of_leaf r leaf \<noteq> (0, 0)) else ((0, 0), False))"
proof (rule OpenGeoIP_cases [of raw])
  fix r0 t assume r0: "geo_wf r0" "table_ok r0 t" "OpenGeoIP raw = Some (Inr (r0\<lparr>g_isoTable := t\<rparr>))"
  have r: "r = r0\<lparr>g_isoTable := t\<rparr>" using assms r0(3) by simp
  obtain leaf where "traverseTree r0 ip = Some leaf"
    using traverse_loop_total [OF r0(1), of ip 32 0] unfolding traverseTree_def by blast
  with lookup_by_leaf [OF r0(1,2), of ip leaf] show ?thesis by (simp add: r)
qed (use assms in simp)

text \<open>A database with one node: addresses below 128.0.0.0 are in Germany.\<close>

definition tiny_db :: bytes where
  "tiny_db = [0, 0, 17, 0, 0, 1] @ replicate 16 0 @
     [0xE1, 0x47] @ bytes_of ''country'' @ [0xE1, 0x48] @ bytes_of ''iso_code'' @ [0x42] @ bytes_of ''DE'' @
     mmdbMetaSep @ [0xE3, 0x4A] @ bytes_of ''node_count'' @ [0xC1, 1, 0x4B] @ bytes_of ''record_size'' @
     [0xA1, 24, 0x4A] @ bytes_of ''ip_version'' @ [0xA1, 4]"

definition tiny_reader :: GeoIPReader where
  "tiny_reader = \<lparr>g_raw = tiny_db, g_nodeCount = 1, g_recordSize = 24, g_bytesPerNode = 6, g_dataBase = 22,
     g_isoTable = [(0x44, 0x45)]\<rparr>"

lemma open_tiny: "OpenGeoIP tiny_db = Some (Inr tiny_reader)"
  by code_simp

lemma lookup_tiny: "LookupIPv4 tiny_reader 0x01020304 = Some ((0x44, 0x45), True)"
  by code_simp

theorem lookup_decodes_leaf_witness:
  "OpenGeoIP tiny_db = Some (Inr tiny_reader) \<and>
   (\<exists>leaf. traverseTree tiny_reader 0x01020304 = Some leaf \<and> 17 \<le> unat leaf \<and>
      country_of_leaf tiny_reader leaf = (0x44, 0x45))"
proof -
  obtain leaf where "traverseTree tiny_reader 0x01020304 = Some leaf"
    "LookupIPv4 tiny_reader 0x01020304 = Some (if unat (g_nodeCount tiny_reader) + 16 \<le> unat leaf
      then (country_of_leaf tiny_reader leaf, country_of_leaf tiny_reader leaf \<noteq> (0, 0)) else ((0, 0), False))"
    using lookup_decodes_leaf [OF open_tiny, of "0x01020304"] by blast
  with open_tiny lookup_tiny show ?thesis by (auto simp: tiny_reader_def split: if_splits)
qed

text \<open>The metadata decoder moves over a value by its size.  For a map the size is the number
  of entries, so a map in front of the other fields makes the decoder lose its place: a file
  with a \<open>description\<close>, as the published databases have it, is refused.\<close>

definition described_db :: bytes where
  "described_db = replicate 22 0 @ mmdbMetaSep @ [0xE4, 0x4B] @ bytes_of ''description'' @
     [0xE1, 0x42] @ bytes_of ''en'' @ [0x47] @ bytes_of ''Country'' @ [0x4A] @ bytes_of ''node_count'' @
     [0xC1, 1, 0x4B] @ bytes_of ''record_size'' @ [0xA1, 24, 0x4A] @ bytes_of ''ip_version'' @ [0xA1, 4]"

lemma map_in_metadata_refused:
  "OpenGeoIP described_db =
     Some (Inl ''GeoIPReader.Open: parse metadata: unexpected key type 3 in metadata'')"
  by code_simp

end
