(* ===== verification/GoScan.thy ===== *)
theory GoScan
  imports GoNet
begin

text \<open>
  \<open>fmt.Sscanf\<close> with \<open>%d\<close> and literal text, and \<open>net.ParseCIDR\<close> with \<open>IPNet.Contains\<close>,
  as the policy rules and the kernel version check use them.  The lemmas show that
  scanning reads back what printing wrote, and that a network contains an IPv4 address
  exactly if the two agree on the bits of the prefix.
\<close>

section \<open>Scanning\<close>

text \<open>The runes \<open>unicode.IsSpace\<close> accepts, in UTF-8.\<close>

definition space_runes :: "string list" where
  "space_runes = [''\<newline>'', [CHR 0x09], [CHR 0x0B], [CHR 0x0C], [CHR 0x0D], '' '',
     [CHR 0xC2, CHR 0x85], [CHR 0xC2, CHR 0xA0], [CHR 0xE1, CHR 0x9A, CHR 0x80]] @
     map (\<lambda>n. [CHR 0xE2, CHR 0x80, char_of n]) ([0x80..<0x8B] @ [0xA8, 0xA9, 0xAF :: nat]) @
     [[CHR 0xE2, CHR 0x81, CHR 0x9F], [CHR 0xE3, CHR 0x80, CHR 0x80]]"

definition space_rune :: "string \<Rightarrow> string option" where
  "space_rune s = find (\<lambda>p. take (length p) s = p) space_runes"

lemma space_runes_nonempty: "p \<in> set space_runes \<Longrightarrow> p \<noteq> []"
  by (auto simp: space_runes_def)

lemma space_rune_mem: "space_rune s = Some p \<Longrightarrow> p \<in> set space_runes \<and> take (length p) s = p"
  by (auto simp: space_rune_def find_Some_iff)

lemma space_rune_shorter: "space_rune s = Some p \<Longrightarrow> length (drop (length p) s) < length s"
  using space_rune_mem [of s p] space_runes_nonempty [of p] by (cases s) auto

text \<open>\<open>SkipSpace\<close>; a newline is an error (\<open>None\<close>).\<close>

function SkipSpace :: "string \<Rightarrow> string option" where
  "SkipSpace s =
     (case space_rune s of
        None \<Rightarrow> Some s
      | Some p \<Rightarrow> if p = ''\<newline>'' then None else SkipSpace (drop (length p) s))"
  by pat_completeness auto

termination
  by (relation "measure length") (auto dest: space_rune_shorter)

declare SkipSpace.simps [simp del]

text \<open>The directives of a format: a literal character, a run of spaces, \<open>%d\<close> into an
  unsigned integer of some width, and \<open>%d\<close> into an \<open>int\<close>.\<close>

datatype directive = Lit char | Space | UintD nat | IntD

definition dec_value :: "string \<Rightarrow> nat" where
  "dec_value ds = foldl (\<lambda>v c. v * 10 + (of_char c - 48)) 0 ds"

definition scanUint :: "nat \<Rightarrow> string \<Rightarrow> (nat \<times> string) option" where
  "scanUint bits s =
     (case SkipSpace s of
        None \<Rightarrow> None
      | Some s \<Rightarrow>
          let tok = takeWhile is_dec_digit s; i = dec_value tok in
          if tok = [] \<or> i \<ge> 2 ^ 64 \<or> i \<ge> 2 ^ bits then None else Some (i, dropWhile is_dec_digit s))"

definition scanInt :: "string \<Rightarrow> (int \<times> string) option" where
  "scanInt s =
     (case SkipSpace s of
        None \<Rightarrow> None
      | Some s \<Rightarrow>
          let sign = s \<noteq> [] \<and> hd s \<in> set ''+-''; t = (if sign then tl s else s);
              tok = takeWhile is_dec_digit t;
              i = (if sign \<and> hd s = CHR ''-'' then - int (dec_value tok) else int (dec_value tok))
          in if tok = [] \<or> i < - (2 ^ 63) \<or> i \<ge> 2 ^ 63 then None else Some (i, dropWhile is_dec_digit t))"

text \<open>A space of the format takes at least one space, unless the input is at its end.\<close>

definition scan_space :: "string \<Rightarrow> string option" where
  "scan_space s = (if s \<noteq> [] \<and> space_rune s = None then None else SkipSpace s)"

text \<open>\<open>Sscanf\<close>: the values stored before the first directive that fails.\<close>

fun Sscanf :: "string \<Rightarrow> directive list \<Rightarrow> int list" where
  "Sscanf s [] = []"
| "Sscanf s (Lit c # ds) = (case s of [] \<Rightarrow> [] | x # xs \<Rightarrow> if x = c then Sscanf xs ds else [])"
| "Sscanf s (Space # ds) = (case scan_space s of None \<Rightarrow> [] | Some s \<Rightarrow> Sscanf s ds)"
| "Sscanf s (UintD bits # ds) = (case scanUint bits s of None \<Rightarrow> [] | Some (i, s) \<Rightarrow> int i # Sscanf s ds)"
| "Sscanf s (IntD # ds) = (case scanInt s of None \<Rightarrow> [] | Some (i, s) \<Rightarrow> i # Sscanf s ds)"

text \<open>A variable that was not reached keeps its zero.\<close>

definition scanned :: "int list \<Rightarrow> nat \<Rightarrow> int" where
  "scanned vs i = (if i < length vs then vs ! i else 0)"

section \<open>Networks\<close>

text \<open>\<open>CIDRMask\<close>: \<open>n\<close> leading ones in \<open>len\<close> bytes.\<close>

fun CIDRMask :: "nat \<Rightarrow> nat \<Rightarrow> bytes" where
  "CIDRMask n 0 = []"
| "CIDRMask n (Suc len) = (if n \<ge> 8 then 0xff else not (drop_bit n 0xff)) # CIDRMask (n - 8) len"

definition and_bytes :: "bytes \<Rightarrow> bytes \<Rightarrow> bytes" where
  "and_bytes xs ys = map (\<lambda>(x, y). and x y) (zip xs ys)"

text \<open>\<open>dtoi\<close>: the number a text starts with and its length, if it is less than
  \<open>0xFFFFFF\<close>.\<close>

definition dtoi :: "string \<Rightarrow> (nat \<times> nat) option" where
  "dtoi s =
     (let tok = takeWhile is_dec_digit s in
      if tok = [] \<or> dec_value tok \<ge> 0xFFFFFF then None else Some (dec_value tok, length tok))"

text \<open>\<open>netip.ParseAddr\<close>: the bytes of the address, 4 or 16 of them.\<close>

definition ParseAddr :: "string \<Rightarrow> bytes option" where
  "ParseAddr s =
     (case filter (\<lambda>c. c \<in> set ''.:%'') s of
        [] \<Rightarrow> None
      | c # _ \<Rightarrow>
          if c = CHR ''.'' then parseIPv4Fields s 0 0 []
          else if c = CHR '':'' \<and> CHR ''%'' \<notin> set s then parseIPv6 s
          else None)"

text \<open>\<open>net.ParseCIDR\<close>: the network as its number and mask.  An IPv4 number has four
  bytes; \<open>None\<close> is an error, which a zone also gives.\<close>

definition ParseCIDR :: "string \<Rightarrow> (bytes \<times> bytes) option" where
  "ParseCIDR s =
     (let addr = takeWhile (\<lambda>c. c \<noteq> CHR ''/'') s; rest = dropWhile (\<lambda>c. c \<noteq> CHR ''/'') s in
      if rest = [] then None
      else case ParseAddr addr of
        None \<Rightarrow> None
      | Some ip \<Rightarrow>
          (case dtoi (tl rest) of
             None \<Rightarrow> None
           | Some (n, i) \<Rightarrow>
               if i \<noteq> length (tl rest) \<or> n > 8 * length ip then None
               else let m = CIDRMask n (length ip) in Some (and_bytes ip m, m)))"

definition networkNumberAndMask :: "bytes \<times> bytes \<Rightarrow> bytes \<times> bytes" where
  "networkNumberAndMask net =
     (let (nip, m) = net; ip4 = IP_To4 nip; ip = (if ip4 = [] then nip else ip4) in
      if ip4 = [] \<and> length ip \<noteq> 16 then ([], [])
      else if length m = 4 then if length ip \<noteq> 4 then ([], []) else (ip, m)
      else if length m = 16 then if length ip = 4 then (ip, drop 12 m) else (ip, m)
      else ([], []))"

definition IPNet_Contains :: "bytes \<times> bytes \<Rightarrow> bytes \<Rightarrow> bool" where
  "IPNet_Contains net ip =
     (let (nn, m) = networkNumberAndMask net; x = IP_To4 ip; ip = (if x = [] then ip else x) in
      length ip = length nn \<and> and_bytes nn m = and_bytes ip m)"

section \<open>Printing and scanning\<close>

lemma dec_value_snoc: "dec_value (ds @ [c]) = dec_value ds * 10 + (of_char c - 48)"
  by (simp add: dec_value_def)

lemma dec_value_dec [simp]: "dec_value (dec n) = n"
proof (induction n rule: dec.induct)
  case (1 n)
  show ?case
  proof (cases "n < 10")
    case True
    then show ?thesis by (simp add: dec.simps [of n] dec_value_def)
  next
    case False
    with 1 show ?thesis by (simp add: dec.simps [of n] dec_value_snoc)
  qed
qed

lemma takeWhile_dec:
  "(\<forall>c s'. s = c # s' \<longrightarrow> \<not> is_dec_digit c) \<Longrightarrow> takeWhile is_dec_digit (dec n @ s) = dec n"
  "(\<forall>c s'. s = c # s' \<longrightarrow> \<not> is_dec_digit c) \<Longrightarrow> dropWhile is_dec_digit (dec n @ s) = s"
  using dec_digits [of _ n] by (cases s; simp add: takeWhile_append dropWhile_append)+

lemma dec_Cons: "\<exists>c s. dec n = c # s \<and> is_dec_digit c"
  using dec_digits [of _ n] dec_nonempty [of n] by (cases "dec n") auto

lemma space_runes_hd: "p \<in> set space_runes \<Longrightarrow> \<not> is_dec_digit (hd p)"
  by (auto simp: space_runes_def is_dec_digit_def)

lemma space_rune_digit:
  assumes "is_dec_digit c"
  shows "space_rune (c # s) = None"
proof -
  have "take (length p) (c # s) \<noteq> p" if "p \<in> set space_runes" for p
    using space_runes_hd [OF that] space_runes_nonempty [OF that] assms by (cases p) auto
  then show ?thesis by (auto simp: space_rune_def find_None_iff)
qed

lemma SkipSpace_dec: "SkipSpace (dec n @ s) = Some (dec n @ s)"
  using dec_Cons [of n] by (auto simp: SkipSpace.simps space_rune_digit)

definition no_digit :: "string \<Rightarrow> bool" where
  "no_digit s \<longleftrightarrow> (case s of [] \<Rightarrow> True | c # _ \<Rightarrow> \<not> is_dec_digit c)"

lemma no_digit_D: "no_digit s \<Longrightarrow> \<forall>c s'. s = c # s' \<longrightarrow> \<not> is_dec_digit c"
  by (auto simp: no_digit_def)

lemma scanUint_dec:
  "no_digit s \<Longrightarrow> n < 2 ^ 64 \<Longrightarrow> n < 2 ^ bits \<Longrightarrow> scanUint bits (dec n @ s) = Some (n, s)"
  by (simp add: scanUint_def SkipSpace_dec takeWhile_dec [OF no_digit_D])

lemma scanInt_dec:
  assumes "no_digit s" "n < 2 ^ 63"
  shows "scanInt (dec n @ s) = Some (int n, s)"
proof -
  obtain c ds where c: "dec n = c # ds" "is_dec_digit c" using dec_Cons by blast
  then have "hd (dec n @ s) \<notin> set ''+-''" by (auto simp: is_dec_digit_def)
  with assms show ?thesis
    by (simp add: scanInt_def SkipSpace_dec takeWhile_dec [OF no_digit_D])
qed

section \<open>Prefixes\<close>

text \<open>The bits of an address, the most significant first.\<close>

definition ip_bit :: "bytes \<Rightarrow> nat \<Rightarrow> bool" where
  "ip_bit ip i = bit (ip ! (i div 8)) (7 - i mod 8)"

lemma length_CIDRMask [simp]: "length (CIDRMask n len) = len"
  by (induction n len rule: CIDRMask.induct) auto

lemma CIDRMask_nth:
  "j < len \<Longrightarrow> CIDRMask n len ! j = (if n - 8 * j \<ge> 8 then 0xff else not (drop_bit (n - 8 * j) 0xff))"
proof (induction n len arbitrary: j rule: CIDRMask.induct)
  case (2 n len)
  then show ?case by (cases j) (auto simp: algebra_simps)
qed simp

declare CIDRMask.simps [simp del]

lemma bit_mask_byte: "k < 8 \<Longrightarrow> bit (if n \<ge> 8 then 0xff else not (drop_bit n (0xff :: u8))) k \<longleftrightarrow> 7 - k < n"
proof -
  have ff: "(0xff :: u8) = - 1" by simp
  assume "k < 8"
  then show ?thesis unfolding ff by (auto simp: bit_simps)
qed

lemma and_bytes_nth: "j < length xs \<Longrightarrow> j < length ys \<Longrightarrow> and_bytes xs ys ! j = and (xs ! j) (ys ! j)"
  by (simp add: and_bytes_def)

lemma length_and_bytes [simp]: "length (and_bytes xs ys) = min (length xs) (length ys)"
  by (simp add: and_bytes_def)

lemma masked_byte_eq:
  "and x (if n \<ge> 8 then 0xff else not (drop_bit n 0xff)) = and (y :: u8) (if n \<ge> 8 then 0xff else not (drop_bit n 0xff))
   \<longleftrightarrow> (\<forall>k < 8. 7 - k < n \<longrightarrow> bit x k = bit y k)"
  (is "and x ?m = and y ?m \<longleftrightarrow> _")
proof -
  have "and x ?m = and y ?m \<longleftrightarrow> (\<forall>k < 8. bit x k \<and> bit ?m k \<longleftrightarrow> bit y k \<and> bit ?m k)"
    by (auto simp: bit_eq_iff bit_and_iff dest: bit_imp_le_length)
  also have "\<dots> \<longleftrightarrow> (\<forall>k < 8. 7 - k < n \<longrightarrow> bit x k = bit y k)"
    using bit_mask_byte by blast
  finally show ?thesis .
qed

lemma and_bytes_prefix:
  assumes "length xs = len" "length ys = len" "n \<le> 8 * len"
  shows "and_bytes xs (CIDRMask n len) = and_bytes ys (CIDRMask n len) \<longleftrightarrow> (\<forall>i < n. ip_bit xs i = ip_bit ys i)"
proof -
  have "and_bytes xs (CIDRMask n len) = and_bytes ys (CIDRMask n len) \<longleftrightarrow>
      (\<forall>j < len. \<forall>k < 8. 7 - k < n - 8 * j \<longrightarrow> bit (xs ! j) k = bit (ys ! j) k)"
    using assms by (simp add: list_eq_iff_nth_eq and_bytes_nth CIDRMask_nth masked_byte_eq)
  also have "\<dots> \<longleftrightarrow> (\<forall>i < n. ip_bit xs i = ip_bit ys i)"
  proof (rule iffI; intro allI impI)
    fix i assume bits: "\<forall>j < len. \<forall>k < 8. 7 - k < n - 8 * j \<longrightarrow> bit (xs ! j) k = bit (ys ! j) k" and "i < n"
    have "7 - (7 - i mod 8) = i mod 8" by simp
    moreover have "i = 8 * (i div 8) + i mod 8" by simp
    then have "i mod 8 < n - 8 * (i div 8)" "i div 8 < len"
      using \<open>i < n\<close> assms(3) by linarith+
    ultimately show "ip_bit xs i = ip_bit ys i"
      using bits [rule_format, of "i div 8" "7 - i mod 8"] unfolding ip_bit_def by simp
  next
    fix j k assume bits: "\<forall>i < n. ip_bit xs i = ip_bit ys i" and k: "k < 8" "7 - k < n - 8 * j"
    define r where "r = 7 - k"
    let ?i = "8 * j + r"
    have "r < 8" "7 - r = k" "r < n - 8 * j" using k by (simp_all add: r_def)
    then have "?i < n" "?i div 8 = j" "7 - ?i mod 8 = k" by simp_all
    with bits [rule_format, of ?i] show "bit (xs ! j) k = bit (ys ! j) k" unfolding ip_bit_def by simp
  qed
  finally show ?thesis .
qed

lemma and_bytes_idem: "and_bytes (and_bytes xs m) m = and_bytes xs m"
  by (auto simp: list_eq_iff_nth_eq and_bytes_nth and.assoc)

lemma dtoi_dec: "n < 0xFFFFFF \<Longrightarrow> dtoi (dec n) = Some (n, length (dec n))"
  using dec_digits [of _ n] by (simp add: dtoi_def takeWhile_eq_all_conv [THEN iffD2])

lemma ParseAddr_string4: "ParseAddr (string4 [a, b, c, d]) = Some [a, b, c, d]"
  using parse_string4 [of a b c d] by (simp add: ParseAddr_def) (simp add: string4_def)

lemma string4_no_slash: "CHR ''/'' \<notin> set (string4 [a, b, c, d])"
  using dec_digits by (fastforce simp: string4_def is_dec_digit_def)

lemma ParseCIDR_v4:
  assumes "n \<le> 32"
  shows "ParseCIDR (string4 [a, b, c, d] @ ''/'' @ dec n) =
    Some (and_bytes [a, b, c, d] (CIDRMask n 4), CIDRMask n 4)"
proof -
  let ?s = "string4 [a, b, c, d]"
  have "takeWhile (\<lambda>c. c \<noteq> CHR ''/'') (?s @ ''/'' @ dec n) = ?s"
      "dropWhile (\<lambda>c. c \<noteq> CHR ''/'') (?s @ ''/'' @ dec n) = ''/'' @ dec n"
    using string4_no_slash [of a b c d] by (auto simp: takeWhile_append dropWhile_append)
  with assms show ?thesis
    by (simp add: ParseCIDR_def ParseAddr_string4 dtoi_dec Let_def) (simp add: numeral_eq_Suc)
qed

lemma Contains_v4:
  assumes "n \<le> 32" "length net = 4" "IP_To4 ip \<noteq> []"
  shows "IPNet_Contains (and_bytes net (CIDRMask n 4), CIDRMask n 4) ip \<longleftrightarrow>
    (\<forall>i < n. ip_bit (IP_To4 ip) i = ip_bit net i)"
proof -
  let ?nn = "and_bytes net (CIDRMask n 4)"
  have len: "length ?nn = 4" "length (IP_To4 ip) = 4" using assms(2) IP_To4_length [OF assms(3)] by simp_all
  then have "?nn \<noteq> []" by fastforce
  then have "networkNumberAndMask (?nn, CIDRMask n 4) = (?nn, CIDRMask n 4)"
    using len(1) by (simp add: networkNumberAndMask_def IP_To4_def Let_def)
  then have "IPNet_Contains (?nn, CIDRMask n 4) ip \<longleftrightarrow> ?nn = and_bytes (IP_To4 ip) (CIDRMask n 4)"
    using assms(3) len by (simp add: IPNet_Contains_def and_bytes_idem)
  also have "\<dots> \<longleftrightarrow> (\<forall>i < n. ip_bit net i = ip_bit (IP_To4 ip) i)"
    using assms(1,2) len(2) by (intro and_bytes_prefix) simp_all
  finally show ?thesis by auto
qed

lemma Contains_not_v4:
  assumes "IP_To4 ip = []" "length net = 4"
  shows "\<not> IPNet_Contains (and_bytes net (CIDRMask n 4), CIDRMask n 4) ip"
proof -
  let ?nn = "and_bytes net (CIDRMask n 4)"
  have "length ?nn = 4" "?nn \<noteq> []" using assms(2) by (auto simp flip: length_0_conv)
  then have "networkNumberAndMask (?nn, CIDRMask n 4) = (?nn, CIDRMask n 4)"
    by (simp add: networkNumberAndMask_def IP_To4_def Let_def)
  moreover have "length ip \<noteq> 4" using assms(1) by (auto simp: IP_To4_def)
  ultimately show ?thesis using assms(1) \<open>length ?nn = 4\<close> by (simp add: IPNet_Contains_def)
qed

end
