(* ===== verification/EventBus.thy ===== *)
theory EventBus
  imports GoNet
begin

text \<open>
  The event bus (\<open>pkg/events/bus.go\<close>): subscribers with buffered channels, and
  publication that never blocks.  Subscribers are shared by pointer between the lists of
  several topics, so the model has a heap of subscribers and the lists hold their
  addresses.  The lemmas show what a publication puts into each channel and how many
  deliveries it drops, and that unsubscribing leaves no address of the subscriber behind.
\<close>

section \<open>Events\<close>

type_synonym Topic = string
type_synonym Severity = string

definition TopicIPBlocked :: Topic where "TopicIPBlocked = ''security.ip.blocked''"
definition TopicIPUnblocked :: Topic where "TopicIPUnblocked = ''security.ip.unblocked''"
definition TopicThreatAlert :: Topic where "TopicThreatAlert = ''security.threat.alert''"
definition TopicCircuitOpen :: Topic where "TopicCircuitOpen = ''failsafe.circuit.open''"
definition TopicCircuitClosed :: Topic where "TopicCircuitClosed = ''failsafe.circuit.closed''"
definition TopicAuthLogin :: Topic where "TopicAuthLogin = ''auth.login''"
definition TopicAuthFailed :: Topic where "TopicAuthFailed = ''auth.failed''"
definition TopicPolicyChanged :: Topic where "TopicPolicyChanged = ''admin.policy.changed''"
definition TopicHoneypotHit :: Topic where "TopicHoneypotHit = ''honeypot.session.new''"
definition TopicMapHardening :: Topic where "TopicMapHardening = ''security.map.hardening''"
definition TopicMetricsSnapshot :: Topic where "TopicMetricsSnapshot = ''metrics.stats.snapshot''"

definition SeverityInfo :: Severity where "SeverityInfo = ''info''"
definition SeverityWarning :: Severity where "SeverityWarning = ''warning''"
definition SeverityError :: Severity where "SeverityError = ''error''"
definition SeverityCritical :: Severity where "SeverityCritical = ''critical''"

record Event =
  ev_ID :: string
  ev_Topic :: Topic
  ev_Timestamp :: gotime
  ev_Severity :: Severity
  ev_Title :: string
  ev_Message :: string
  ev_Source :: string
  ev_ActorID :: string
  ev_Meta :: "(string \<times> string) list"

section \<open>The bus\<close>

text \<open>\<open>s_Ch\<close> and \<open>s_cap\<close> are the contents and the capacity of the channel, \<open>s_chclosed\<close>
  tells whether \<open>close\<close> was called on it.\<close>

record Subscriber =
  s_ID :: string
  s_Topics :: "Topic list"
  s_Ch :: "Event list"
  s_cap :: nat
  s_chclosed :: bool
  s_closed :: bool

text \<open>\<open>b_heap\<close> holds the subscribers by address.\<close>

record Bus =
  b_subscribers :: "Topic \<Rightarrow> nat list"
  b_dropped :: i64
  b_heap :: "Subscriber list"

definition NewBus :: Bus where
  "NewBus = \<lparr>b_subscribers = (\<lambda>_. []), b_dropped = 0, b_heap = []\<rparr>"

definition Bus_Subscribe :: "string \<Rightarrow> nat \<Rightarrow> Topic list \<Rightarrow> Bus \<Rightarrow> nat \<times> Bus" where
  "Bus_Subscribe id' bufSize topics b =
     (let sub = length (b_heap b) in
      (sub,
       b\<lparr>b_heap := b_heap b @ [\<lparr>s_ID = id', s_Topics = topics, s_Ch = [], s_cap = bufSize,
           s_chclosed = False, s_closed = False\<rparr>],
         b_subscribers := fold (\<lambda>t m. m(t := m t @ [sub])) topics (b_subscribers b)\<rparr>))"

text \<open>The loop that removes the first subscriber with a given identifier.\<close>

fun remove_id :: "Subscriber list \<Rightarrow> string \<Rightarrow> nat list \<Rightarrow> nat list" where
  "remove_id heap id' [] = []"
| "remove_id heap id' (s # subs) = (if s_ID (heap ! s) = id' then subs else s # remove_id heap id' subs)"

text \<open>Closing a closed channel panics, which is \<open>None\<close>.\<close>

definition Bus_Unsubscribe :: "nat \<Rightarrow> Bus \<Rightarrow> Bus option" where
  "Bus_Unsubscribe sub b =
     (let s = (b_heap b ! sub)\<lparr>s_closed := True\<rparr>; b = b\<lparr>b_heap := (b_heap b)[sub := s]\<rparr>;
          b = b\<lparr>b_subscribers := fold (\<lambda>t m. m(t := remove_id (b_heap b) (s_ID s) (m t))) (s_Topics s) (b_subscribers b)\<rparr>;
          s = s\<lparr>s_Ch := []\<rparr>
      in if s_chclosed s then None else Some (b\<lparr>b_heap := (b_heap b)[sub := s\<lparr>s_chclosed := True\<rparr>]\<rparr>))"

text \<open>A send on a closed channel panics and the panic is caught.\<close>

definition safelySend :: "Event \<Rightarrow> Subscriber \<Rightarrow> bool \<times> Subscriber" where
  "safelySend ev s =
     (if s_chclosed s then (False, s)
      else let (sent, ch) = chan_send (s_cap s) ev (s_Ch s) in (sent, s\<lparr>s_Ch := ch\<rparr>))"

definition publish_one :: "Event \<Rightarrow> nat \<Rightarrow> Bus \<Rightarrow> Bus" where
  "publish_one ev sub b =
     (let s = b_heap b ! sub in
      if s_closed s then b
      else let (sent, s) = safelySend ev s; b = b\<lparr>b_heap := (b_heap b)[sub := s]\<rparr> in
        if sent then b else b\<lparr>b_dropped := b_dropped b + 1\<rparr>)"

text \<open>\<open>newid\<close> is what \<open>newEventID\<close> drew and \<open>now\<close> the clock.\<close>

definition stamp :: "string \<Rightarrow> gotime \<Rightarrow> Event \<Rightarrow> Event" where
  "stamp newid now ev =
     (let ev = (if ev_ID ev = [] then ev\<lparr>ev_ID := newid\<rparr> else ev) in
      if time_IsZero (ev_Timestamp ev) then ev\<lparr>ev_Timestamp := now\<rparr> else ev)"

definition Bus_Publish :: "string \<Rightarrow> gotime \<Rightarrow> Event \<Rightarrow> Bus \<Rightarrow> Bus" where
  "Bus_Publish newid now ev b =
     (let ev = stamp newid now ev in fold (publish_one ev) (b_subscribers b (ev_Topic ev)) b)"

text \<open>A consumer takes the oldest event of its channel.\<close>

definition receive :: "nat \<Rightarrow> Bus \<Rightarrow> (Event \<times> Bus) option" where
  "receive sub b =
     (case s_Ch (b_heap b ! sub) of
        [] \<Rightarrow> None
      | ev # evs \<Rightarrow> Some (ev, b\<lparr>b_heap := (b_heap b)[sub := (b_heap b ! sub)\<lparr>s_Ch := evs\<rparr>]\<rparr>))"

section \<open>Builders\<close>

definition Event0 :: Event where
  "Event0 = \<lparr>ev_ID = [], ev_Topic = [], ev_Timestamp = 0, ev_Severity = [], ev_Title = [], ev_Message = [],
     ev_Source = [], ev_ActorID = [], ev_Meta = []\<rparr>"

text \<open>\<open>%.nf\<close>: the nearest decimal with \<open>n\<close> places, ties to even.\<close>

definition round_even :: "rat \<Rightarrow> int" where
  "round_even x =
     (let f = \<lfloor>x\<rfloor>; d = x - of_int f in
      if d < 1 / 2 then f else if d > 1 / 2 then f + 1 else if even f then f else f + 1)"

definition fmt_fixed :: "nat \<Rightarrow> float64 \<Rightarrow> string" where
  "fmt_fixed n x =
     (let m = nat (round_even (\<bar>x\<bar> * 10 ^ n)); frac = dec (m mod 10 ^ n) in
      (if x < 0 then ''-'' else []) @ dec (m div 10 ^ n) @
      (if n = 0 then [] else ''.'' @ replicate (n - length frac) (CHR ''0'') @ frac))"

definition IPBlockedEvent :: "string \<Rightarrow> string \<Rightarrow> string \<Rightarrow> u64 \<Rightarrow> Event" where
  "IPBlockedEvent srcIP actor reason ttl =
     Event0\<lparr>ev_Topic := TopicIPBlocked, ev_Severity := SeverityWarning, ev_Title := ''IP Address Blocked'',
       ev_Message := ''IP '' @ srcIP @ '' blocked by '' @ actor @ '' (reason: '' @ reason @ '')'',
       ev_Source := ''bpf-maps'', ev_ActorID := actor,
       ev_Meta := [(''src_ip'', srcIP), (''reason'', reason), (''ttl_s'', dec (unat ttl))]\<rparr>"

definition IPUnblockedEvent :: "string \<Rightarrow> string \<Rightarrow> Event" where
  "IPUnblockedEvent srcIP actor =
     Event0\<lparr>ev_Topic := TopicIPUnblocked, ev_Severity := SeverityInfo, ev_Title := ''IP Address Unblocked'',
       ev_Message := ''IP '' @ srcIP @ '' unblocked by '' @ actor, ev_Source := ''bpf-maps'', ev_ActorID := actor,
       ev_Meta := [(''src_ip'', srcIP)]\<rparr>"

text \<open>The titles start with a warning sign and a check mark, and contain a dash.\<close>

definition CircuitOpenEvent :: "u64 \<Rightarrow> string \<Rightarrow> Event" where
  "CircuitOpenEvent pps reason =
     Event0\<lparr>ev_Topic := TopicCircuitOpen, ev_Severity := SeverityCritical,
       ev_Title := [CHR 0xE2, CHR 0x9A, CHR 0xA0] @ '' Circuit Breaker OPENED '' @
         [CHR 0xE2, CHR 0x80, CHR 0x94] @ '' DDoS Mode Active'',
       ev_Message := ''XDP entered pure-drop mode. AI bypassed. pps='' @ dec (unat pps) @ '' reason='' @ reason,
       ev_Source := ''failsafe-engine'', ev_Meta := [(''pps'', dec (unat pps)), (''reason'', reason)]\<rparr>"

definition CircuitClosedEvent :: "u64 \<Rightarrow> Event" where
  "CircuitClosedEvent pps =
     Event0\<lparr>ev_Topic := TopicCircuitClosed, ev_Severity := SeverityInfo,
       ev_Title := [CHR 0xE2, CHR 0x9C, CHR 0x93] @ '' Circuit Breaker CLOSED '' @
         [CHR 0xE2, CHR 0x80, CHR 0x94] @ '' Normal Operation Restored'',
       ev_Message := ''AI inference path re-enabled.'', ev_Source := ''failsafe-engine'',
       ev_Meta := [(''pps'', dec (unat pps))]\<rparr>"

definition ThreatAlertEvent :: "string \<Rightarrow> string \<Rightarrow> string \<Rightarrow> float64 \<Rightarrow> Event" where
  "ThreatAlertEvent srcIP threatType severity confidence =
     (let sev = (if confidence > 9 / 10 then SeverityCritical else SeverityWarning) in
      Event0\<lparr>ev_Topic := TopicThreatAlert, ev_Severity := sev, ev_Title := ''Threat Detected: '' @ threatType,
        ev_Message := ''Suspicious activity from '' @ srcIP @ '' (confidence='' @ fmt_fixed 1 (confidence * 100) @ ''%)'',
        ev_Source := ''ai-engine'',
        ev_Meta := [(''src_ip'', srcIP), (''threat_type'', threatType), (''confidence'', fmt_fixed 3 confidence)]\<rparr>)"

definition AuthEvent :: "string \<Rightarrow> string \<Rightarrow> string \<Rightarrow> bool \<Rightarrow> string \<Rightarrow> Event" where
  "AuthEvent userID username ip success action =
     (let (topic, sev, msg) =
        (if success then (TopicAuthLogin, SeverityInfo, username @ '' '' @ action @ '' from '' @ ip)
         else (TopicAuthFailed, SeverityWarning, ''Failed '' @ action @ '' for '' @ username @ '' from '' @ ip))
      in Event0\<lparr>ev_Topic := topic, ev_Severity := sev, ev_Title := ''Authentication: '' @ action, ev_Message := msg,
        ev_Source := ''auth-service'', ev_ActorID := userID,
        ev_Meta := [(''username'', username), (''ip'', ip), (''success'', if success then ''true'' else ''false'')]\<rparr>)"

definition PolicyChangedEvent :: "string \<Rightarrow> string \<Rightarrow> string \<Rightarrow> Event" where
  "PolicyChangedEvent actorID action ruleName =
     Event0\<lparr>ev_Topic := TopicPolicyChanged, ev_Severity := SeverityInfo, ev_Title := ''Policy Rule '' @ action,
       ev_Message := ''Rule '' @ [CHR 0x27] @ ruleName @ [CHR 0x27] @ '' was '' @ action,
       ev_Source := ''policy-engine'', ev_ActorID := actorID, ev_Meta := [(''rule'', ruleName), (''action'', action)]\<rparr>"

definition MetricsSnapshotEvent :: "float64 \<Rightarrow> float64 \<Rightarrow> float64 \<Rightarrow> float64 \<Rightarrow> float64 \<Rightarrow> Event" where
  "MetricsSnapshotEvent pps dropPPS passPPS limitedPPS mbps =
     Event0\<lparr>ev_Topic := TopicMetricsSnapshot, ev_Severity := SeverityInfo, ev_Title := ''metrics.snapshot'',
       ev_Source := ''metrics-streamer'',
       ev_Meta := [(''pps'', fmt_fixed 2 pps), (''drop_pps'', fmt_fixed 2 dropPPS), (''pass_pps'', fmt_fixed 2 passPPS),
         (''limited_pps'', fmt_fixed 2 limitedPPS), (''mbps'', fmt_fixed 4 mbps)]\<rparr>"

definition MapHardeningEvent :: "string \<Rightarrow> int \<Rightarrow> Event" where
  "MapHardeningEvent opType droppedCount =
     Event0\<lparr>ev_Topic := TopicMapHardening, ev_Severity := SeverityWarning, ev_Title := ''BPF Map Write Rate-Limited'',
       ev_Message := ''Map operation '' @ [CHR 0x27] @ opType @ [CHR 0x27] @ '' rate-limited. Total dropped: '' @
         dec_int droppedCount,
       ev_Source := ''bpf-maps'', ev_Meta := [(''op_type'', opType), (''total_dropped'', dec_int droppedCount)]\<rparr>"

definition HoneypotSessionEvent :: "string \<Rightarrow> string \<Rightarrow> Event" where
  "HoneypotSessionEvent srcIP honeypotName =
     Event0\<lparr>ev_Topic := TopicHoneypotHit, ev_Severity := SeverityWarning, ev_Title := ''New Honeypot Session'',
       ev_Message := ''Attacker '' @ srcIP @ '' redirected to honeypot '' @ honeypotName,
       ev_Source := ''honeypot-tracker'', ev_Meta := [(''src_ip'', srcIP), (''honeypot'', honeypotName)]\<rparr>"

section \<open>Well-formed buses\<close>

text \<open>The lists hold addresses of open subscribers to their topic, and no channel is over
  its capacity.\<close>

definition bus_wf :: "Bus \<Rightarrow> bool" where
  "bus_wf b \<longleftrightarrow>
     (\<forall>t. \<forall>p \<in> set (b_subscribers b t). p < length (b_heap b) \<and> t \<in> set (s_Topics (b_heap b ! p))) \<and>
     (\<forall>s \<in> set (b_heap b). length (s_Ch s) \<le> s_cap s \<and> (s_chclosed s \<longrightarrow> s_closed s))"

lemma NewBus_wf: "bus_wf NewBus"
  by (simp add: bus_wf_def NewBus_def)

lemma fold_subscribe: "fold (\<lambda>t m. m(t := m t @ [sub])) topics m t = m t @ replicate (count_list topics t) sub"
  by (induction topics arbitrary: m) auto

lemma count_list_pos: "0 < count_list xs x \<longleftrightarrow> x \<in> set xs"
  using count_list_0_iff [of xs x] by auto

lemma Subscribe_wf: "bus_wf b \<Longrightarrow> bus_wf (snd (Bus_Subscribe id' n topics b))"
  by (auto simp: bus_wf_def Bus_Subscribe_def Let_def fold_subscribe nth_append count_list_pos
      dest: less_SucI split: if_splits)

lemma publish_one_heap:
  assumes "p < length (b_heap b)"
  shows "b_subscribers (publish_one ev p b) = b_subscribers b"
    and "b_heap (publish_one ev p b) =
      (let s = b_heap b ! p in
       if s_closed s \<or> s_chclosed s \<or> length (s_Ch s) \<ge> s_cap s then b_heap b
       else (b_heap b)[p := s\<lparr>s_Ch := s_Ch s @ [ev]\<rparr>])"
    and "b_dropped (publish_one ev p b) =
      b_dropped b + (let s = b_heap b ! p in if \<not> s_closed s \<and> (s_chclosed s \<or> length (s_Ch s) \<ge> s_cap s) then 1 else 0)"
  by (auto simp: publish_one_def safelySend_def chan_send_def Let_def)

section \<open>Publication\<close>

text \<open>What a subscriber gets and loses when \<open>k\<close> copies are sent to it.\<close>

definition delivered :: "Event \<Rightarrow> nat \<Rightarrow> Subscriber \<Rightarrow> Subscriber" where
  "delivered ev k s =
     (if s_closed s \<or> s_chclosed s then s
      else s\<lparr>s_Ch := s_Ch s @ replicate (min k (s_cap s - length (s_Ch s))) ev\<rparr>)"

definition lost :: "nat \<Rightarrow> Subscriber \<Rightarrow> nat" where
  "lost k s = (if s_closed s then 0 else if s_chclosed s then k else k - (s_cap s - length (s_Ch s)))"

lemma delivered_0 [simp]: "delivered ev 0 s = s"
  by (simp add: delivered_def)

lemma lost_0 [simp]: "lost 0 s = 0"
  by (simp add: lost_def)

lemma publish_one_delivered:
  assumes "p < length (b_heap b)"
  shows "b_heap (publish_one ev p b) = (b_heap b)[p := delivered ev 1 (b_heap b ! p)]"
    and "b_dropped (publish_one ev p b) = b_dropped b + of_nat (lost 1 (b_heap b ! p))"
  by (auto simp: publish_one_heap [OF assms] delivered_def lost_def Let_def list_update_id min_def)

lemma delivered_Suc: "delivered ev k (delivered ev 1 s) = delivered ev (Suc k) s"
proof (cases "s_closed s \<or> s_chclosed s \<or> s_cap s \<le> length (s_Ch s)")
  case True
  then show ?thesis by (auto simp: delivered_def)
next
  case False
  then have "min (Suc k) (s_cap s - length (s_Ch s)) = Suc (min k (s_cap s - Suc (length (s_Ch s))))"
    by (auto simp: min_def)
  with False show ?thesis by (simp add: delivered_def)
qed

lemma lost_Suc: "lost 1 s + lost k (delivered ev 1 s) = lost (Suc k) s"
  by (auto simp: delivered_def lost_def min_def)

lemma publish_all:
  assumes "\<forall>p \<in> set ps. p < length (b_heap b)"
  shows "b_heap (fold (publish_one ev) ps b) =
      map (\<lambda>q. delivered ev (count_list ps q) (b_heap b ! q)) [0..<length (b_heap b)] \<and>
    b_subscribers (fold (publish_one ev) ps b) = b_subscribers b \<and>
    b_dropped (fold (publish_one ev) ps b) =
      b_dropped b + of_nat (\<Sum>q < length (b_heap b). lost (count_list ps q) (b_heap b ! q))"
  using assms
proof (induction ps arbitrary: b)
  case Nil
  then show ?case by (simp add: map_nth)
next
  case (Cons p ps)
  let ?b = "publish_one ev p b" and ?n = "length (b_heap b)"
  have p: "p < ?n" using Cons.prems by simp
  note one = publish_one_delivered [OF p, of ev] publish_one_heap(1) [OF p, of ev]
  have IH: "b_heap (fold (publish_one ev) ps ?b) = map (\<lambda>q. delivered ev (count_list ps q) (b_heap ?b ! q)) [0..<?n]"
      "b_subscribers (fold (publish_one ev) ps ?b) = b_subscribers ?b"
      "b_dropped (fold (publish_one ev) ps ?b) =
        b_dropped ?b + of_nat (\<Sum>q < ?n. lost (count_list ps q) (b_heap ?b ! q))"
    using Cons.IH [of ?b] Cons.prems by (simp_all add: one)
  have f: "fold (publish_one ev) (p # ps) b = fold (publish_one ev) ps ?b" by simp
  have heap: "delivered ev (count_list ps q) (b_heap ?b ! q) = delivered ev (count_list (p # ps) q) (b_heap b ! q)"
    and lost: "lost (count_list (p # ps) q) (b_heap b ! q) =
      lost (count_list ps q) (b_heap ?b ! q) + (if q = p then lost 1 (b_heap b ! p) else 0)"
    if "q < ?n" for q
    using that delivered_Suc [of ev "count_list ps q" "b_heap b ! q"] lost_Suc [of "b_heap b ! q" "count_list ps q" ev]
    unfolding one(1) by (cases "q = p"; simp)+
  have "(\<Sum>q < ?n. lost (count_list (p # ps) q) (b_heap b ! q)) =
      (\<Sum>q < ?n. lost (count_list ps q) (b_heap ?b ! q) + (if q = p then lost 1 (b_heap b ! p) else 0))"
    by (rule sum.cong [OF refl]) (simp only: lost lessThan_iff)
  also have "\<dots> = (\<Sum>q < ?n. lost (count_list ps q) (b_heap ?b ! q)) + lost 1 (b_heap b ! p)"
    unfolding sum.distrib using p by simp
  finally have total: "(\<Sum>q < ?n. lost (count_list (p # ps) q) (b_heap b ! q)) =
      (\<Sum>q < ?n. lost (count_list ps q) (b_heap ?b ! q)) + lost 1 (b_heap b ! p)" .
  show ?case
  proof (intro conjI)
    show "b_heap (fold (publish_one ev) (p # ps) b) =
        map (\<lambda>q. delivered ev (count_list (p # ps) q) (b_heap b ! q)) [0..<?n]"
      unfolding f IH(1) by (rule map_cong [OF refl]) (simp only: heap set_upt atLeastLessThan_iff)
    show "b_subscribers (fold (publish_one ev) (p # ps) b) = b_subscribers b"
      unfolding f IH(2) one(3) ..
    show "b_dropped (fold (publish_one ev) (p # ps) b) =
        b_dropped b + of_nat (\<Sum>q < ?n. lost (count_list (p # ps) q) (b_heap b ! q))"
      unfolding f IH(3) total one(2) of_nat_add by (simp only: add.assoc add.commute)
  qed
qed

lemma delivered_cap: "length (s_Ch s) \<le> s_cap s \<Longrightarrow> length (s_Ch (delivered ev k s)) \<le> s_cap (delivered ev k s)"
  by (auto simp: delivered_def)

lemma delivered_fields [simp]:
  "s_Topics (delivered ev k s) = s_Topics s" "s_closed (delivered ev k s) = s_closed s"
  "s_chclosed (delivered ev k s) = s_chclosed s" "s_cap (delivered ev k s) = s_cap s"
  by (simp_all add: delivered_def)

lemma Publish_heap:
  assumes "bus_wf b"
  shows "b_heap (Bus_Publish newid now ev b) =
      map (\<lambda>q. delivered (stamp newid now ev) (count_list (b_subscribers b (ev_Topic ev)) q) (b_heap b ! q))
        [0..<length (b_heap b)]"
    "b_subscribers (Bus_Publish newid now ev b) = b_subscribers b"
    "b_dropped (Bus_Publish newid now ev b) = b_dropped b +
      of_nat (\<Sum>q < length (b_heap b). lost (count_list (b_subscribers b (ev_Topic ev)) q) (b_heap b ! q))"
proof -
  have "ev_Topic (stamp newid now ev) = ev_Topic ev" by (simp add: stamp_def Let_def)
  moreover have "\<forall>p \<in> set (b_subscribers b (ev_Topic ev)). p < length (b_heap b)"
    using assms by (auto simp: bus_wf_def)
  ultimately show "b_heap (Bus_Publish newid now ev b) =
      map (\<lambda>q. delivered (stamp newid now ev) (count_list (b_subscribers b (ev_Topic ev)) q) (b_heap b ! q))
        [0..<length (b_heap b)]"
    "b_subscribers (Bus_Publish newid now ev b) = b_subscribers b"
    "b_dropped (Bus_Publish newid now ev b) = b_dropped b +
      of_nat (\<Sum>q < length (b_heap b). lost (count_list (b_subscribers b (ev_Topic ev)) q) (b_heap b ! q))"
    using publish_all [of "b_subscribers b (ev_Topic ev)" b "stamp newid now ev"]
    by (simp_all add: Bus_Publish_def Let_def)
qed

lemma Publish_wf: "bus_wf b \<Longrightarrow> bus_wf (Bus_Publish newid now ev b)"
  using delivered_cap by (auto simp: bus_wf_def [of "Bus_Publish newid now ev b"] Publish_heap) (auto simp: bus_wf_def)

text \<open>Unsubscribing closes the subscriber for good: later publications leave it alone.\<close>

lemma Unsubscribe_closed:
  assumes "Bus_Unsubscribe p b = Some b'" "p < length (b_heap b)"
  shows "s_closed (b_heap b' ! p)" "s_Ch (b_heap b' ! p) = []" "delivered ev k (b_heap b' ! p) = b_heap b' ! p"
  using assms by (auto simp: Bus_Unsubscribe_def Let_def delivered_def split: if_splits)

lemma Unsubscribe_twice_panics:
  "Bus_Unsubscribe p b = Some b' \<Longrightarrow> p < length (b_heap b) \<Longrightarrow> Bus_Unsubscribe p b' = None"
  by (auto simp: Bus_Unsubscribe_def Let_def split: if_splits)

text \<open>A publication appends the stamped event to the channel of every open subscriber
  of its topic, once for each subscription as long as the channel has room, touches no other
  channel, and counts every delivery to an open subscriber that did not fit.\<close>

theorem publish_exact:
  fixes b :: Bus and ev :: Event
  defines "k \<equiv> \<lambda>q. count_list (b_subscribers b (ev_Topic ev)) q" and "n \<equiv> length (b_heap b)"
  assumes "bus_wf b" "b' = Bus_Publish newid now ev b"
  shows "\<exists>new. (\<forall>q < n. s_Ch (b_heap b' ! q) = s_Ch (b_heap b ! q) @ replicate (new q) (stamp newid now ev) \<and>
        new q = (if s_closed (b_heap b ! q) then 0 else min (k q) (s_cap (b_heap b ! q) - length (s_Ch (b_heap b ! q))))) \<and>
      b_dropped b' = b_dropped b + of_nat (\<Sum>q \<in> {q. q < n \<and> \<not> s_closed (b_heap b ! q)}. k q - new q)"
proof -
  let ?s = "\<lambda>q. b_heap b ! q"
  define new where "new q = (if s_closed (?s q) then 0 else min (k q) (s_cap (?s q) - length (s_Ch (?s q))))" for q
  have open': "s_chclosed (?s q) \<longrightarrow> s_closed (?s q)" if "q < n" for q
    using assms(3) that by (auto simp: bus_wf_def n_def)
  have ch: "s_Ch (b_heap b' ! q) = s_Ch (?s q) @ replicate (new q) (stamp newid now ev)" if "q < n" for q
    using that open' [OF that] by (simp add: assms(4) Publish_heap [OF assms(3)] n_def delivered_def new_def k_def)
  have "(\<Sum>q < n. lost (k q) (?s q)) = (\<Sum>q \<in> {q. q < n \<and> \<not> s_closed (?s q)}. k q - new q)"
  proof (rule sum.mono_neutral_cong_right)
    fix q assume "q \<in> {q. q < n \<and> \<not> s_closed (?s q)}"
    then show "lost (k q) (?s q) = k q - new q" using open' [of q] by (auto simp: lost_def new_def min_def)
  qed (auto simp: lost_def)
  then have "b_dropped b' = b_dropped b + of_nat (\<Sum>q \<in> {q. q < n \<and> \<not> s_closed (?s q)}. k q - new q)"
    using Publish_heap(3) [OF assms(3), of newid now ev] by (simp add: assms(4) n_def k_def)
  with ch show ?thesis by (intro exI [of _ new] conjI allI impI) (simp_all add: new_def)
qed

text \<open>Two subscribers of the topic of circuit openings, of which the second has no room left.\<close>

definition sample_bus :: Bus where
  "sample_bus = Bus_Publish ''id'' 5 (CircuitOpenEvent 7 ''x'')
     (snd (Bus_Subscribe ''b'' 1 [TopicCircuitOpen] (snd (Bus_Subscribe ''a'' 2 [TopicCircuitOpen] NewBus))))"

lemma sample_bus_wf: "bus_wf sample_bus"
  unfolding sample_bus_def by (intro Publish_wf Subscribe_wf NewBus_wf)

theorem publish_exact_witness:
  "bus_wf sample_bus \<and>
   length (s_Ch (b_heap (Bus_Publish ''id'' 6 (CircuitOpenEvent 8 ''y'') sample_bus) ! 0)) = 2 \<and>
   length (s_Ch (b_heap (Bus_Publish ''id'' 6 (CircuitOpenEvent 8 ''y'') sample_bus) ! 1)) = 1"
proof -
  have eval: "length (b_heap sample_bus) = 2" "s_closed (b_heap sample_bus ! 0) = False"
      "s_closed (b_heap sample_bus ! 1) = False"
      "count_list (b_subscribers sample_bus (ev_Topic (CircuitOpenEvent 8 ''y''))) 0 = 1"
      "s_cap (b_heap sample_bus ! 0) = 2" "length (s_Ch (b_heap sample_bus ! 0)) = 1"
      "s_cap (b_heap sample_bus ! 1) = 1" "length (s_Ch (b_heap sample_bus ! 1)) = 1"
    by (code_simp)+
  let ?b' = "Bus_Publish ''id'' 6 (CircuitOpenEvent 8 ''y'') sample_bus"
  obtain new where new: "\<forall>q < length (b_heap sample_bus).
      s_Ch (b_heap ?b' ! q) = s_Ch (b_heap sample_bus ! q) @ replicate (new q) (stamp ''id'' 6 (CircuitOpenEvent 8 ''y'')) \<and>
      new q = (if s_closed (b_heap sample_bus ! q) then 0
        else min (count_list (b_subscribers sample_bus (ev_Topic (CircuitOpenEvent 8 ''y''))) q)
          (s_cap (b_heap sample_bus ! q) - length (s_Ch (b_heap sample_bus ! q))))"
    using publish_exact [OF sample_bus_wf refl, of "''id''" 6 "CircuitOpenEvent 8 ''y''"] by blast
  from new [rule_format, of 0] new [rule_format, of 1] sample_bus_wf show ?thesis
    by (simp add: eval del: One_nat_def)
qed

end
