(* ===== verification/Policy.thy ===== *)
theory Policy
  imports GoScan EventBus BpfManager
begin

text \<open>
  The policy engine (\<open>pkg/policy\<close>): rules with conditions on a flow (\<open>rule.go\<close>), the
  engine that loads the enabled rules from a database in the order of their priority,
  evaluates flows against them and applies the first rule that matches (\<open>engine.go\<close>), and
  the handlers that change rules (\<open>handlers.go\<close>).

  The database is the list of its rows; the statements of the source are the operations on
  it.  An error of statement \<open>i\<close> of an operation is \<open>fault i\<close>, and \<open>order\<close> is what the
  database makes of \<open>ORDER BY\<close>, which leaves rows with equal keys in any order.  The
  conditions are stored as JSON text; a row whose text does not parse has \<open>rr_json = False\<close>.
\<close>

section \<open>Rules\<close>

type_synonym RuleAction = string
type_synonym ConditionType = string

definition ActionBlock :: RuleAction where "ActionBlock = ''block''"
definition ActionAllow :: RuleAction where "ActionAllow = ''allow''"
definition ActionRedirect_rule :: RuleAction where "ActionRedirect_rule = ''redirect''"
definition ActionRateLimit_rule :: RuleAction where "ActionRateLimit_rule = ''rate_limit''"
definition ActionAlert :: RuleAction where "ActionAlert = ''alert''"

lemmas rule_actions = ActionBlock_def ActionAllow_def ActionRedirect_rule_def ActionRateLimit_rule_def ActionAlert_def

definition CondSrcIP :: ConditionType where "CondSrcIP = ''src_ip''"
definition CondDstIP :: ConditionType where "CondDstIP = ''dst_ip''"
definition CondSrcPort :: ConditionType where "CondSrcPort = ''src_port''"
definition CondDstPort :: ConditionType where "CondDstPort = ''dst_port''"
definition CondProtocol :: ConditionType where "CondProtocol = ''protocol''"
definition CondPPS :: ConditionType where "CondPPS = ''pps''"
definition CondBPS :: ConditionType where "CondBPS = ''bps''"
definition CondThreatScore :: ConditionType where "CondThreatScore = ''threat_score''"

lemmas cond_types = CondSrcIP_def CondDstIP_def CondSrcPort_def CondDstPort_def CondProtocol_def
  CondPPS_def CondBPS_def CondThreatScore_def

record Condition =
  c_Type :: ConditionType
  c_Operator :: string
  c_Value :: string

record Rule =
  r_ID :: string
  r_Name :: string
  r_Description :: string
  r_Priority :: int
  r_Enabled :: bool
  r_Action :: RuleAction
  r_Conditions :: "Condition list"
  r_CondLogic :: string
  r_TTLSeconds :: u64
  r_RuleID :: u8
  r_Reason :: string
  r_CreatedBy :: string
  r_CreatedAt :: gotime
  r_UpdatedAt :: gotime
  r_HitCount :: u64
  r_LastHit :: gotime

record Flow =
  f_SrcIP :: bytes
  f_DstIP :: bytes
  f_SrcPort :: u16
  f_DstPort :: u16
  f_Protocol :: u8
  f_PktLen :: u32
  f_TCPFlags :: u16
  f_FlowID :: u64
  f_ThreatScore :: u8
  f_PPS :: u64
  f_BPS :: u64

definition matchIP :: "Condition \<Rightarrow> bytes \<Rightarrow> bool" where
  "matchIP c ip =
     (if ip = [] then False
      else if c_Operator c = ''cidr'' then
        (case ParseCIDR (c_Value c) of None \<Rightarrow> False | Some network \<Rightarrow> IPNet_Contains network ip)
      else if c_Operator c = ''eq'' then
        let parsed = ParseIP (c_Value c) in parsed \<noteq> [] \<and> IP_Equal parsed ip
      else if c_Operator c = ''neq'' then
        let parsed = ParseIP (c_Value c) in parsed = [] \<or> \<not> IP_Equal parsed ip
      else False)"

definition matchPort :: "Condition \<Rightarrow> u16 \<Rightarrow> bool" where
  "matchPort c port =
     (let low = (word_of_int (scanned (Sscanf (c_Value c) [UintD 16]) 0) :: u16) in
      if c_Operator c = ''eq'' then port = low
      else if c_Operator c = ''range'' then
        let vs = Sscanf (c_Value c) [UintD 16, Lit (CHR ''-''), UintD 16];
            low = word_of_int (scanned vs 0); high = word_of_int (scanned vs 1)
        in port \<ge> low \<and> port \<le> high
      else if c_Operator c = ''gt'' then port > low
      else if c_Operator c = ''lt'' then port < low
      else False)"

definition matchUint64 :: "Condition \<Rightarrow> u64 \<Rightarrow> bool" where
  "matchUint64 c val =
     (let threshold = (word_of_int (scanned (Sscanf (c_Value c) [UintD 64]) 0) :: u64) in
      if c_Operator c = ''gt'' then val > threshold
      else if c_Operator c = ''lt'' then val < threshold
      else if c_Operator c = ''eq'' then val = threshold
      else if c_Operator c = ''gte'' then val \<ge> threshold
      else if c_Operator c = ''lte'' then val \<le> threshold
      else False)"

definition containsStr :: "string \<Rightarrow> string \<Rightarrow> bool" where
  "containsStr haystack needle \<longleftrightarrow> '','' @ haystack @ '','' \<noteq> needle"

definition matchCondition :: "Condition \<Rightarrow> Flow \<Rightarrow> bool" where
  "matchCondition c f =
     (if c_Type c = CondSrcIP then matchIP c (f_SrcIP f)
      else if c_Type c = CondDstIP then matchIP c (f_DstIP f)
      else if c_Type c = CondSrcPort then matchPort c (f_SrcPort f)
      else if c_Type c = CondDstPort then matchPort c (f_DstPort f)
      else if c_Type c = CondProtocol then
        if c_Operator c = ''eq'' then dec (unat (f_Protocol f)) = c_Value c
        else if c_Operator c = ''in'' then containsStr (c_Value c) (dec (unat (f_Protocol f)))
        else False
      else if c_Type c = CondPPS then matchUint64 c (f_PPS f)
      else if c_Type c = CondBPS then matchUint64 c (f_BPS f)
      else if c_Type c = CondThreatScore then matchUint64 c (ucast (f_ThreatScore f))
      else False)"

fun match_loop :: "string \<Rightarrow> Flow \<Rightarrow> Condition list \<Rightarrow> bool" where
  "match_loop logic f [] \<longleftrightarrow> logic = ''AND''"
| "match_loop logic f (cond # conds) =
     (let result = matchCondition cond f in
      if logic = ''OR'' \<and> result then True
      else if logic = ''AND'' \<and> \<not> result then False
      else match_loop logic f conds)"

definition Rule_Match :: "Rule \<Rightarrow> Flow \<Rightarrow> bool" where
  "Rule_Match r f =
     (if \<not> r_Enabled r \<or> r_Conditions r = [] then False
      else let logic = (if r_CondLogic r = [] then ''AND'' else r_CondLogic r) in match_loop logic f (r_Conditions r))"

definition Rule_Validate :: "Rule \<Rightarrow> error" where
  "Rule_Validate r =
     (if r_Name r = [] then Some ''rule name is required''
      else if r_Priority r < 0 \<or> r_Priority r > 10000 then Some ''rule priority must be 0-10000''
      else if r_Action r = [] then Some ''rule action is required''
      else if r_Action r \<notin> {ActionBlock, ActionAllow, ActionRedirect_rule, ActionRateLimit_rule, ActionAlert}
      then Some (''unknown action: '' @ r_Action r)
      else if r_Conditions r = [] then Some ''rule must have at least one condition''
      else if r_CondLogic r \<noteq> [] \<and> r_CondLogic r \<noteq> ''AND'' \<and> r_CondLogic r \<noteq> ''OR''
      then Some ''cond_logic must be AND or OR''
      else None)"

section \<open>The engine\<close>

record RuleRow =
  rr_rule :: Rule
  rr_json :: bool

text \<open>The columns the queries select: all but the time of the last hit.\<close>

definition row_rule :: "RuleRow \<Rightarrow> Rule" where
  "row_rule row = (rr_rule row)\<lparr>r_LastHit := 0\<rparr>"

text \<open>\<open>pe_pending\<close> are the rules whose hits started goroutines still have to record.\<close>

record PolicyEngine =
  pe_db :: "RuleRow list"
  pe_mgr :: Manager
  pe_bus :: Bus
  pe_rules :: "Rule list"
  pe_pending :: "string list"
  pe_totalEvals :: u64
  pe_totalHits :: u64
  pe_totalApply :: u64

type_synonym row_order = "RuleRow list \<Rightarrow> RuleRow list"

text \<open>A row is skipped if its columns do not convert (\<open>rows.Scan\<close>) or its conditions do not parse; both are
  \<open>rr_json = False\<close>.\<close>

definition loadRules :: "row_order \<Rightarrow> (nat \<Rightarrow> error) \<Rightarrow> PolicyEngine \<Rightarrow> error \<times> PolicyEngine" where
  "loadRules order fault e =
     (case fault 0 of
        Some err \<Rightarrow> (Some err, e)
      | None \<Rightarrow>
          let rows = order (filter (\<lambda>row. r_Enabled (rr_rule row)) (pe_db e));
              rules = map row_rule (filter rr_json rows)
          in case fault 1 of
               Some err \<Rightarrow> (Some err, e)
             | None \<Rightarrow> (None, e\<lparr>pe_rules := rules\<rparr>))"

text \<open>The warnings of \<open>detectConflicts\<close>: rule, earlier action and condition.\<close>

definition cond_key :: "Condition \<Rightarrow> string" where
  "cond_key c = c_Type c @ '':'' @ c_Operator c @ '':'' @ c_Value c"

fun conflicts_rule ::
    "Rule \<Rightarrow> Condition list \<Rightarrow> (string \<Rightarrow> RuleAction option) \<Rightarrow>
     (string \<times> RuleAction \<times> string) list \<times> (string \<Rightarrow> RuleAction option)" where
  "conflicts_rule r [] seen = ([], seen)"
| "conflicts_rule r (cond # conds) seen =
     (let key = cond_key cond in
      case seen key of
        Some prev \<Rightarrow>
          let (ws, seen) = conflicts_rule r conds seen in
          if prev = ActionAllow \<and> r_Action r = ActionBlock \<or> prev = ActionBlock \<and> r_Action r = ActionAllow
          then ((r_ID r, prev, key) # ws, seen) else (ws, seen)
      | None \<Rightarrow> conflicts_rule r conds (seen(key \<mapsto> r_Action r)))"

fun conflicts_loop :: "Rule list \<Rightarrow> (string \<Rightarrow> RuleAction option) \<Rightarrow> (string \<times> RuleAction \<times> string) list" where
  "conflicts_loop [] seen = []"
| "conflicts_loop (r # rules) seen =
     (let (ws, seen) = conflicts_rule r (r_Conditions r) seen in ws @ conflicts_loop rules seen)"

definition detectConflicts :: "Rule list \<Rightarrow> (string \<times> RuleAction \<times> string) list" where
  "detectConflicts rules = conflicts_loop rules (\<lambda>_. None)"

definition Policy_Evaluate :: "Flow \<Rightarrow> PolicyEngine \<Rightarrow> Rule option \<times> PolicyEngine" where
  "Policy_Evaluate f e =
     (let e = e\<lparr>pe_totalEvals := pe_totalEvals e + 1\<rparr> in
      case find (\<lambda>r. Rule_Match r f) (pe_rules e) of
        None \<Rightarrow> (None, e)
      | Some r \<Rightarrow>
          (Some r, e\<lparr>pe_totalHits := pe_totalHits e + 1, pe_pending := pe_pending e @ [r_ID r]\<rparr>))"

definition recordHit :: "gotime \<Rightarrow> string \<Rightarrow> PolicyEngine \<Rightarrow> PolicyEngine" where
  "recordHit now ruleID e =
     e\<lparr>pe_db := map (\<lambda>row. if r_ID (rr_rule row) = ruleID
         then row\<lparr>rr_rule := (rr_rule row)\<lparr>r_HitCount := r_HitCount (rr_rule row) + 1, r_LastHit := now\<rparr>\<rparr> else row)
       (pe_db e)\<rparr>"

definition FlowFromIP :: "bytes \<Rightarrow> u8 \<Rightarrow> Flow" where
  "FlowFromIP ip threatScore =
     \<lparr>f_SrcIP = ip, f_DstIP = [], f_SrcPort = 0, f_DstPort = 0, f_Protocol = 0, f_PktLen = 0, f_TCPFlags = 0,
      f_FlowID = 0, f_ThreatScore = threatScore, f_PPS = 0, f_BPS = 0\<rparr>"

section \<open>Applying a rule\<close>

text \<open>Reading 0 of the clock is that of the query, the readings from 1 on those of the write
  and 4 that of the event; \<open>newid\<close> is the identifier drawn for the event.\<close>

definition block_entry_of :: "Rule \<Rightarrow> Flow \<Rightarrow> BlockEntry" where
  "block_entry_of r f = BlockEntry0\<lparr>Action := ActionDrop, RuleID := r_RuleID r, ThreatScore := f_ThreatScore f,
     ExpireAt := r_TTLSeconds r, Reason := ReasonAIVerdict\<rparr>"

definition redirect_entry_of :: "Rule \<Rightarrow> BlockEntry" where
  "redirect_entry_of r = BlockEntry0\<lparr>Action := ActionRedirect, RuleID := r_RuleID r,
     ExpireAt := r_TTLSeconds r, Reason := ReasonAIVerdict\<rparr>"

definition publish :: "string \<Rightarrow> gotime \<Rightarrow> Event \<Rightarrow> PolicyEngine \<Rightarrow> PolicyEngine" where
  "publish newid now ev e = e\<lparr>pe_bus := Bus_Publish newid now ev (pe_bus e)\<rparr>"

definition ApplyRule ::
    "kernel \<Rightarrow> clock \<Rightarrow> string \<Rightarrow> Rule \<Rightarrow> Flow \<Rightarrow> string \<Rightarrow> PolicyEngine \<Rightarrow> error \<times> PolicyEngine" where
  "ApplyRule K clk newid r f actor e =
     (if f_SrcIP f = [] then (None, e)
      else
        let e = e\<lparr>pe_totalApply := pe_totalApply e + 1\<rparr>; ip = f_SrcIP f in
        if r_Action r = ActionBlock then
          if fst (Manager_IsBlockedIPv4 K (clk 0) ip (pe_mgr e)) then (None, e)
          else
            let (err, m) = Manager_BlockIPv4 K (clk_from 1 clk) ip (block_entry_of r f) actor (pe_mgr e);
                e = e\<lparr>pe_mgr := m\<rparr>
            in case err of
                 Some x \<Rightarrow> (Some (''apply block rule '' @ r_ID r @ '': '' @ x), e)
               | None \<Rightarrow>
                   (None, publish newid (clk 4) (IPBlockedEvent (IP_String ip) actor (r_Reason r) (r_TTLSeconds r)) e)
        else if r_Action r = ActionAllow then
          let (err, m) = Manager_UnblockIPv4 K (clk_from 1 clk) ip actor (pe_mgr e); e = e\<lparr>pe_mgr := m\<rparr> in
          (None, if err = None then publish newid (clk 4) (IPUnblockedEvent (IP_String ip) actor) e else e)
        else if r_Action r = ActionRedirect_rule then
          let (err, m) = Manager_BlockIPv4 K (clk_from 1 clk) ip (redirect_entry_of r) actor (pe_mgr e);
              e = e\<lparr>pe_mgr := m\<rparr>
          in case err of
               Some x \<Rightarrow> (Some (''apply redirect rule '' @ r_ID r @ '': '' @ x), e)
             | None \<Rightarrow> (None, e)
        else if r_Action r = ActionAlert then
          (None, publish newid (clk 4) (ThreatAlertEvent (IP_String ip) (r_Reason r) ''medium''
             (of_nat (unat (f_ThreatScore f)) / 100)) e)
        else if r_Action r = ActionRateLimit_rule then
          let (err, m) = Manager_ResetRateBucket K (clk 1) ip (pe_mgr e); e = e\<lparr>pe_mgr := m\<rparr> in
          case err of
            Some x \<Rightarrow> (Some (''apply rate-limit rule '' @ r_ID r @ '': '' @ x), e)
          | None \<Rightarrow> (None, e)
        else (None, e))"

text \<open>The loop over a batch; flow \<open>i\<close> has the clock readings from \<open>8 i\<close> on and draws the
  identifier \<open>ids i\<close>.\<close>

fun EvaluateAndApplyBatch ::
    "kernel \<Rightarrow> clock \<Rightarrow> (nat \<Rightarrow> string) \<Rightarrow> Flow list \<Rightarrow> string \<Rightarrow> PolicyEngine \<Rightarrow> error list \<times> PolicyEngine" where
  "EvaluateAndApplyBatch K clk ids [] actor e = ([], e)"
| "EvaluateAndApplyBatch K clk ids (f # flows) actor e =
     (let (rule, e) = Policy_Evaluate f e;
          (err, e) = (case rule of None \<Rightarrow> (None, e) | Some r \<Rightarrow> ApplyRule K clk (ids 0) r f actor e);
          (errs, e) = EvaluateAndApplyBatch K (clk_from 8 clk) (\<lambda>i. ids (Suc i)) flows actor e
      in (err # errs, e))"

section \<open>Changing rules\<close>

text \<open>Statement 0 is the operation's own; \<open>loadRules\<close> makes the two after it.\<close>

definition fault_from :: "nat \<Rightarrow> (nat \<Rightarrow> error) \<Rightarrow> nat \<Rightarrow> error" where
  "fault_from k fault i = fault (k + i)"

definition db_ids :: "PolicyEngine \<Rightarrow> string list" where
  "db_ids e = map (\<lambda>row. r_ID (rr_rule row)) (pe_db e)"

definition newRuleID :: "bytes \<Rightarrow> string" where
  "newRuleID rnd = ''rule_'' @ concat (map hex_byte rnd)"

definition CreateRule ::
    "row_order \<Rightarrow> (nat \<Rightarrow> error) \<Rightarrow> bytes \<Rightarrow> gotime \<Rightarrow> string \<Rightarrow> Rule \<Rightarrow> string \<Rightarrow> PolicyEngine \<Rightarrow>
     error \<times> Rule \<times> PolicyEngine" where
  "CreateRule order fault rnd now newid r createdBy e =
     (case Rule_Validate r of
        Some err \<Rightarrow> (Some err, r, e)
      | None \<Rightarrow>
          let r = r\<lparr>r_ID := newRuleID rnd, r_CreatedBy := createdBy, r_CreatedAt := now, r_UpdatedAt := now\<rparr> in
          case (if r_ID r \<in> set (db_ids e) then Some ''UNIQUE constraint failed: rules.id'' else fault 0) of
            Some err \<Rightarrow> (Some (''DB insert rule: '' @ err), r, e)
          | None \<Rightarrow>
              let e = e\<lparr>pe_db := pe_db e @ [\<lparr>rr_rule = r\<lparr>r_HitCount := 0, r_LastHit := 0\<rparr>, rr_json = True\<rparr>]\<rparr>;
                  e = publish newid now (PolicyChangedEvent createdBy ''created'' (r_Name r)) e;
                  (err, e) = loadRules order (fault_from 1 fault) e
              in (err, r, e))"

definition set_row :: "Rule \<Rightarrow> RuleRow \<Rightarrow> RuleRow" where
  "set_row r row =
     \<lparr>rr_rule = (rr_rule row)\<lparr>r_Name := r_Name r, r_Description := r_Description r, r_Priority := r_Priority r,
        r_Enabled := r_Enabled r, r_Action := r_Action r, r_Conditions := r_Conditions r, r_CondLogic := r_CondLogic r,
        r_TTLSeconds := r_TTLSeconds r, r_RuleID := r_RuleID r, r_Reason := r_Reason r, r_UpdatedAt := r_UpdatedAt r\<rparr>,
      rr_json = True\<rparr>"

definition UpdateRule ::
    "row_order \<Rightarrow> (nat \<Rightarrow> error) \<Rightarrow> gotime \<Rightarrow> string \<Rightarrow> Rule \<Rightarrow> string \<Rightarrow> PolicyEngine \<Rightarrow> error \<times> PolicyEngine" where
  "UpdateRule order fault now newid r updatedBy e =
     (case Rule_Validate r of
        Some err \<Rightarrow> (Some err, e)
      | None \<Rightarrow>
          let r = r\<lparr>r_UpdatedAt := now\<rparr> in
          case fault 0 of
            Some err \<Rightarrow> (Some err, e)
          | None \<Rightarrow>
              if r_ID r \<notin> set (db_ids e) then (Some (''rule not found: '' @ r_ID r), e)
              else
                let e = e\<lparr>pe_db := map (\<lambda>row. if r_ID (rr_rule row) = r_ID r then set_row r row else row) (pe_db e)\<rparr>;
                    e = publish newid now (PolicyChangedEvent updatedBy ''updated'' (r_Name r)) e
                in loadRules order (fault_from 1 fault) e)"

definition DeleteRule ::
    "row_order \<Rightarrow> (nat \<Rightarrow> error) \<Rightarrow> gotime \<Rightarrow> string \<Rightarrow> string \<Rightarrow> string \<Rightarrow> PolicyEngine \<Rightarrow> error \<times> PolicyEngine" where
  "DeleteRule order fault now newid id' deletedBy e =
     (let name = (case find (\<lambda>row. r_ID (rr_rule row) = id') (pe_db e) of None \<Rightarrow> [] | Some row \<Rightarrow> r_Name (rr_rule row)) in
      case fault 0 of
        Some err \<Rightarrow> (Some err, e)
      | None \<Rightarrow>
          if id' \<notin> set (db_ids e) then (Some (''rule not found: '' @ id'), e)
          else
            let e = e\<lparr>pe_db := filter (\<lambda>row. r_ID (rr_rule row) \<noteq> id') (pe_db e)\<rparr>;
                e = publish newid now (PolicyChangedEvent deletedBy ''deleted'' name) e
            in loadRules order (fault_from 1 fault) e)"

definition GetRule :: "string \<Rightarrow> PolicyEngine \<Rightarrow> string + Rule" where
  "GetRule id' e =
     (case find (\<lambda>r. r_ID r = id') (pe_rules e) of
        None \<Rightarrow> Inl (''rule not found: '' @ id')
      | Some r \<Rightarrow> Inr r)"

text \<open>\<open>ListRules\<close> ignores errors: a row whose conditions do not parse is listed without them.  For a row
  whose columns do not convert the source also loses the fields behind the first such column, which the model does not show.\<close>

definition ListRules :: "row_order \<Rightarrow> error \<Rightarrow> PolicyEngine \<Rightarrow> Rule list" where
  "ListRules by_priority fault e =
     (if fault \<noteq> None then []
      else map (\<lambda>row. if rr_json row then row_rule row else (row_rule row)\<lparr>r_Conditions := []\<rparr>) (by_priority (pe_db e)))"

record EngineStats =
  st_TotalRules :: int
  st_EnabledRules :: int
  st_TotalEvals :: u64
  st_TotalHits :: u64
  st_TotalApplied :: u64
  st_HitRate :: float64

definition Policy_Stats :: "PolicyEngine \<Rightarrow> EngineStats" where
  "Policy_Stats e =
     (let evals = pe_totalEvals e; hits = pe_totalHits e;
          rate = (if evals > 0 then of_nat (unat hits) / of_nat (unat evals) * 100 else 0)
      in \<lparr>st_TotalRules = int (length (pe_db e)), st_EnabledRules = int (length (pe_rules e)),
          st_TotalEvals = evals, st_TotalHits = hits, st_TotalApplied = pe_totalApply e, st_HitRate = rate\<rparr>)"

section \<open>Handlers\<close>

text \<open>A handler answers with a status and the code or message of its body.\<close>

definition handle_CreateRule ::
    "row_order \<Rightarrow> (nat \<Rightarrow> error) \<Rightarrow> bytes \<Rightarrow> gotime \<Rightarrow> string \<Rightarrow> string \<Rightarrow> Rule \<Rightarrow> PolicyEngine \<Rightarrow>
     (nat \<times> string) \<times> PolicyEngine" where
  "handle_CreateRule order fault rnd now newid actorID req e =
     (let rule = req\<lparr>r_ID := [], r_CreatedBy := [], r_CreatedAt := 0, r_UpdatedAt := 0, r_HitCount := 0, r_LastHit := 0\<rparr>;
          rule = (if r_Priority rule = 0 then rule\<lparr>r_Priority := 100\<rparr> else rule);
          rule = (if r_RuleID rule = 0 then rule\<lparr>r_RuleID := 1\<rparr> else rule);
          (err, rule, e) = CreateRule order fault rnd now newid rule actorID e
      in case err of
           Some x \<Rightarrow> ((400, ''create_rule_failed''), e)
         | None \<Rightarrow> ((201, r_ID rule), e))"

definition handle_UpdateRule ::
    "row_order \<Rightarrow> (nat \<Rightarrow> error) \<Rightarrow> gotime \<Rightarrow> string \<Rightarrow> string \<Rightarrow> string \<Rightarrow> Rule \<Rightarrow> PolicyEngine \<Rightarrow>
     (nat \<times> string) \<times> PolicyEngine" where
  "handle_UpdateRule order fault now newid actorID id' req e =
     (case GetRule id' e of
        Inl err \<Rightarrow> ((404, ''rule_not_found''), e)
      | Inr existing \<Rightarrow>
          let req = req\<lparr>r_ID := r_ID existing, r_CreatedBy := r_CreatedBy existing, r_CreatedAt := r_CreatedAt existing,
                r_HitCount := r_HitCount existing\<rparr>;
              (err, e) = UpdateRule order fault now newid req actorID e
          in case err of
               Some x \<Rightarrow> ((400, ''update_rule_failed''), e)
             | None \<Rightarrow> ((200, r_ID req), e))"

definition handle_DeleteRule ::
    "row_order \<Rightarrow> (nat \<Rightarrow> error) \<Rightarrow> gotime \<Rightarrow> string \<Rightarrow> string \<Rightarrow> string \<Rightarrow> PolicyEngine \<Rightarrow>
     (nat \<times> string) \<times> PolicyEngine" where
  "handle_DeleteRule order fault now newid actorID id' e =
     (let (err, e) = DeleteRule order fault now newid id' actorID e in
      case err of
        Some x \<Rightarrow> ((404, ''delete_rule_failed''), e)
      | None \<Rightarrow> ((200, ''rule deleted''), e))"

definition setRuleEnabled ::
    "row_order \<Rightarrow> (nat \<Rightarrow> error) \<Rightarrow> gotime \<Rightarrow> string \<Rightarrow> string \<Rightarrow> string \<Rightarrow> bool \<Rightarrow> PolicyEngine \<Rightarrow>
     (nat \<times> string) \<times> PolicyEngine" where
  "setRuleEnabled order fault now newid actorID id' enabled e =
     (case GetRule id' e of
        Inl err \<Rightarrow> ((404, ''rule_not_found''), e)
      | Inr rule \<Rightarrow>
          let rule = rule\<lparr>r_Enabled := enabled, r_UpdatedAt := now\<rparr>;
              (err, e) = UpdateRule order fault now newid rule actorID e
          in case err of
               Some x \<Rightarrow> ((500, ''update_failed''), e)
             | None \<Rightarrow> ((200, ''rule '' @ (if enabled then ''enabled'' else ''disabled'')), e))"

section \<open>Matching\<close>

text \<open>What a rule means: every condition holds, or with \<open>OR\<close> one of them.\<close>

definition rule_holds :: "Rule \<Rightarrow> Flow \<Rightarrow> bool" where
  "rule_holds r f \<longleftrightarrow> r_Enabled r \<and> r_Conditions r \<noteq> [] \<and>
     (if r_CondLogic r \<in> {[], ''AND''} then \<forall>c \<in> set (r_Conditions r). matchCondition c f
      else r_CondLogic r = ''OR'' \<and> (\<exists>c \<in> set (r_Conditions r). matchCondition c f))"

lemma match_loop_all: "match_loop ''AND'' f cs \<longleftrightarrow> (\<forall>c \<in> set cs. matchCondition c f)"
  by (induction cs) (auto simp: Let_def)

lemma match_loop_any: "match_loop ''OR'' f cs \<longleftrightarrow> (\<exists>c \<in> set cs. matchCondition c f)"
  by (induction cs) (auto simp: Let_def)

lemma match_loop_other: "logic \<noteq> ''AND'' \<Longrightarrow> logic \<noteq> ''OR'' \<Longrightarrow> \<not> match_loop logic f cs"
  by (induction cs) (auto simp: Let_def)

lemma Rule_Match_holds: "Rule_Match r f \<longleftrightarrow> rule_holds r f"
  using match_loop_other [of "r_CondLogic r" f "r_Conditions r"]
  by (cases "r_CondLogic r = ''OR''"; cases "r_CondLogic r \<in> {[], ''AND''}")
     (auto simp: Rule_Match_def rule_holds_def Let_def match_loop_all match_loop_any)

text \<open>What \<open>ORDER BY priority DESC, created_at ASC\<close> promises.\<close>

definition rule_before :: "Rule \<Rightarrow> Rule \<Rightarrow> bool" where
  "rule_before a b \<longleftrightarrow> r_Priority a > r_Priority b \<or> r_Priority a = r_Priority b \<and> r_CreatedAt a \<le> r_CreatedAt b"

definition sql_order :: "row_order \<Rightarrow> bool" where
  "sql_order order \<longleftrightarrow> (\<forall>rows. mset (order rows) = mset rows \<and>
     sorted_wrt (\<lambda>a b. rule_before (rr_rule a) (rr_rule b)) (order rows))"

definition active_rules :: "PolicyEngine \<Rightarrow> Rule set" where
  "active_rules e = row_rule ` {row \<in> set (pe_db e). r_Enabled (rr_rule row) \<and> rr_json row}"

lemma row_rule_simps [simp]: "r_ID (row_rule row) = r_ID (rr_rule row)" "r_Enabled (row_rule row) = r_Enabled (rr_rule row)"
  by (simp_all add: row_rule_def)

lemma sql_order_set: "sql_order order \<Longrightarrow> set (order rows) = set rows"
  by (metis sql_order_def mset_eq_setD)

lemma loadRules_ok:
  assumes "sql_order order" "loadRules order fault e = (None, e')"
  shows "set (pe_rules e') = active_rules e" "sorted_wrt rule_before (pe_rules e')" "pe_db e' = pe_db e"
    "pe_mgr e' = pe_mgr e"
proof -
  let ?rows = "order (filter (\<lambda>row. r_Enabled (rr_rule row)) (pe_db e))"
  have e': "e' = e\<lparr>pe_rules := map row_rule (filter rr_json ?rows)\<rparr>"
    using assms(2) by (auto simp: loadRules_def Let_def split: option.splits)
  show "set (pe_rules e') = active_rules e"
    by (auto simp: e' active_rules_def sql_order_set [OF assms(1)])
  have "sorted_wrt (\<lambda>a b. rule_before (rr_rule a) (rr_rule b)) ?rows"
    using assms(1) by (simp add: sql_order_def)
  then show "sorted_wrt rule_before (pe_rules e')"
    by (simp add: e' sorted_wrt_map sorted_wrt_filter row_rule_def rule_before_def)
qed (use assms(2) in \<open>auto simp: loadRules_def Let_def split: option.splits\<close>)

lemma find_first:
  assumes "find P xs = Some x" "sorted_wrt R xs" "\<And>x. R x x" "y \<in> set xs" "P y"
  shows "x \<in> set xs \<and> P x \<and> R x y"
  using assms(1,2,4)
proof (induction xs)
  case (Cons a xs)
  with assms(3,5) show ?case by (auto split: if_splits)
qed simp

text \<open>C15. After the rules were loaded, a flow gets the matching rule of the database that is
  enabled and has the highest priority, the oldest one of those with equal priority, and no
  rule exactly if no enabled rule matches.\<close>

theorem policy_first_match:
  assumes "sql_order order" "loadRules order fault e = (None, e1)" "Policy_Evaluate f e1 = (res, e2)"
  shows "case res of
      None \<Rightarrow> \<forall>r \<in> active_rules e. \<not> rule_holds r f
    | Some r \<Rightarrow> r \<in> active_rules e \<and> rule_holds r f \<and>
        (\<forall>r' \<in> active_rules e. rule_holds r' f \<longrightarrow> rule_before r r')"
proof -
  note load = loadRules_ok [OF assms(1,2)]
  have res: "res = find (\<lambda>r. Rule_Match r f) (pe_rules e1)"
    using assms(3) by (auto simp: Policy_Evaluate_def Let_def split: option.splits)
  show ?thesis
  proof (cases res)
    case None
    with res have "\<forall>r \<in> set (pe_rules e1). \<not> rule_holds r f"
      by (metis find_None_iff Rule_Match_holds)
    then show ?thesis by (simp add: None load(1))
  next
    case (Some r)
    then have r: "find (\<lambda>r. rule_holds r f) (pe_rules e1) = Some r"
      using res by (simp add: Rule_Match_holds)
    then have "r \<in> set (pe_rules e1)" "rule_holds r f" by (auto simp: find_Some_iff)
    moreover have "rule_before r r'" if "r' \<in> set (pe_rules e1)" "rule_holds r' f" for r'
      using find_first [OF r load(2) _ that] by (simp add: rule_before_def)
    ultimately show ?thesis by (simp add: Some load(1))
  qed
qed

text \<open>The instance that also keeps the order of insertion.\<close>

definition order_by :: row_order where
  "order_by rows = sort_key (\<lambda>row. - r_Priority (rr_rule row)) (sort_key (\<lambda>row. r_CreatedAt (rr_rule row)) rows)"

lemma sort_key_stable_sorted:
  "sorted_wrt (\<lambda>a b. f a < f b \<or> f a = f b \<and> g a \<le> g b) (sort_key f (sort_key g xs))"
  (is "sorted_wrt ?R _")
proof -
  have "sorted_wrt ?R (insort_key f x ys)" if "sorted_wrt ?R ys" "\<forall>y \<in> set ys. g x \<le> g y" for x ys
    using that by (induction ys) (auto simp: set_insort_key)
  then have "sorted_wrt ?R (sort_key f ys)" if "sorted (map g ys)" for ys
    using that by (induction ys) auto
  then show ?thesis by simp
qed

lemma sql_order_by: "sql_order order_by"
  using sort_key_stable_sorted [of "\<lambda>row. - r_Priority (rr_rule row)" "\<lambda>row. r_CreatedAt (rr_rule row)"]
  by (auto simp: sql_order_def order_by_def rule_before_def)

text \<open>A block rule of priority 10 for 10.0.0.0/8 and an allow rule of priority 20 for one of
  its addresses.\<close>

definition sample_rule :: "string \<Rightarrow> int \<Rightarrow> RuleAction \<Rightarrow> Condition list \<Rightarrow> Rule" where
  "sample_rule id' prio act conds =
     \<lparr>r_ID = id', r_Name = id', r_Description = [], r_Priority = prio, r_Enabled = True, r_Action = act,
      r_Conditions = conds, r_CondLogic = [], r_TTLSeconds = 60, r_RuleID = 7, r_Reason = ''test'', r_CreatedBy = [],
      r_CreatedAt = 0, r_UpdatedAt = 0, r_HitCount = 0, r_LastHit = 0\<rparr>"

definition sample_db :: "RuleRow list" where
  "sample_db =
     [\<lparr>rr_rule = sample_rule ''b'' 10 ActionBlock [\<lparr>c_Type = CondSrcIP, c_Operator = ''cidr'', c_Value = ''10.0.0.0/8''\<rparr>],
       rr_json = True\<rparr>,
      \<lparr>rr_rule = sample_rule ''a'' 20 ActionAllow [\<lparr>c_Type = CondSrcIP, c_Operator = ''eq'', c_Value = ''10.0.0.1''\<rparr>],
       rr_json = True\<rparr>]"

definition sample_engine :: PolicyEngine where
  "sample_engine = \<lparr>pe_db = sample_db, pe_mgr = falx_manager (\<lambda>_. 0) DefaultRateLimitConfig, pe_bus = NewBus,
     pe_rules = [], pe_pending = [], pe_totalEvals = 0, pe_totalHits = 0, pe_totalApply = 0\<rparr>"

definition loaded_engine :: PolicyEngine where
  "loaded_engine = sample_engine\<lparr>pe_rules := map rr_rule (rev sample_db)\<rparr>"

lemma load_sample: "loadRules order_by (\<lambda>_. None) sample_engine = (None, loaded_engine)"
  by (simp add: loadRules_def sample_engine_def loaded_engine_def sample_db_def sample_rule_def order_by_def row_rule_def)

theorem policy_first_match_witness:
  "\<exists>r \<in> active_rules sample_engine. rule_holds r (FlowFromIP [10, 0, 0, 1] 50) \<and> r_Action r = ActionAllow \<and>
     (\<forall>r' \<in> active_rules sample_engine. rule_holds r' (FlowFromIP [10, 0, 0, 1] 50) \<longrightarrow> rule_before r r')"
proof -
  let ?f = "FlowFromIP [10, 0, 0, 1] 50"
  have m: "Rule_Match (rr_rule (sample_db ! 1)) ?f" by code_simp
  then have "fst (Policy_Evaluate ?f loaded_engine) = Some (rr_rule (sample_db ! 1))"
    by (simp add: Policy_Evaluate_def loaded_engine_def sample_engine_def sample_db_def Let_def)
  then have "Policy_Evaluate ?f loaded_engine = (Some (rr_rule (sample_db ! 1)), snd (Policy_Evaluate ?f loaded_engine))"
    by (metis prod.collapse)
  from policy_first_match [OF sql_order_by load_sample this]
  show ?thesis by (auto simp: sample_db_def sample_rule_def)
qed

section \<open>Conditions\<close>

text \<open>C31. A condition with the network \<open>a.b.c.d/n\<close> in decimal holds for a source address
  exactly if the address is an IPv4 address, in either of its two forms, that agrees with
  the network on its first \<open>n\<close> bits.\<close>

theorem cidr_condition:
  assumes "n \<le> 32" "c_Type c = CondSrcIP" "c_Operator c = ''cidr''"
    and "c_Value c = string4 [a, b, d, e] @ ''/'' @ dec n"
  shows "matchCondition c f \<longleftrightarrow>
    IP_To4 (f_SrcIP f) \<noteq> [] \<and> (\<forall>i < n. ip_bit (IP_To4 (f_SrcIP f)) i = ip_bit [a, b, d, e] i)"
proof -
  let ?net = "(and_bytes [a, b, d, e] (CIDRMask n 4), CIDRMask n 4)"
  have m: "matchCondition c f \<longleftrightarrow> f_SrcIP f \<noteq> [] \<and> IPNet_Contains ?net (f_SrcIP f)"
    using ParseCIDR_v4 [OF assms(1), of a b d e] assms(2-4) by (simp add: matchCondition_def matchIP_def)
  show ?thesis
  proof (cases "IP_To4 (f_SrcIP f) = []")
    case True
    then have "\<not> IPNet_Contains ?net (f_SrcIP f)" by (rule Contains_not_v4) simp
    with True m show ?thesis by simp
  next
    case False
    then have "f_SrcIP f \<noteq> []" by (auto simp: IP_To4_def)
    with False m Contains_v4 [OF assms(1) _ False, of "[a, b, d, e]"] show ?thesis by simp
  qed
qed

theorem cidr_condition_witness:
  "matchCondition \<lparr>c_Type = CondSrcIP, c_Operator = ''cidr'', c_Value = ''10.0.0.0/8''\<rparr> (FlowFromIP [10, 1, 2, 3] 0)"
proof -
  have "''10.0.0.0/8'' = string4 [10, 0, 0, 0] @ ''/'' @ dec 8" by code_simp
  with cidr_condition [of 8 "\<lparr>c_Type = CondSrcIP, c_Operator = ''cidr'', c_Value = ''10.0.0.0/8''\<rparr>" 10 0 0 0
      "FlowFromIP [10, 1, 2, 3] 0"]
  show ?thesis by (simp add: FlowFromIP_def IP_To4_def ip_bit_def)
qed

text \<open>The membership test of protocols compares the list with the number instead of searching
  it, so it holds for every protocol.\<close>

lemma protocol_in_always_matches:
  assumes "c_Type c = CondProtocol" "c_Operator c = ''in''"
  shows "matchCondition c f"
proof -
  have "'','' @ c_Value c @ '','' \<noteq> dec n" for n
  proof
    assume "'','' @ c_Value c @ '','' = dec n"
    then have "CHR '','' \<in> set (dec n)" by (metis append_Cons list.set_intros(1))
    then show False using dec_digits [of "CHR '',''" n] by (simp add: is_dec_digit_def)
  qed
  with assms show ?thesis by (simp add: matchCondition_def cond_types containsStr_def)
qed

section \<open>Enforcement\<close>

text \<open>C24. When a block rule was applied to a flow from an IPv4 address without an error, the
  address is in the kernel's blocklist: either with an entry that was already there and had
  not expired, or with the rule's entry, whose time to live counts from the write.\<close>

theorem block_rule_enforced:
  assumes "ebpf_reliable (k_v4 K)" "r_Action r = ActionBlock" "IPv4ToUint32 (f_SrcIP f) = (key, None)"
    and "ApplyRule K clk newid r f actor e = (None, e')"
  shows "km_view (m_v4 (pe_mgr e')) key = Some (resolve_ttl (clk 2) (block_entry_of r f)) \<or>
    (\<exists>entry. km_view (m_v4 (pe_mgr e)) key = Some entry \<and> \<not> expired (unix_u64 (clk 0)) entry \<and>
       m_v4 (pe_mgr e') = m_v4 (pe_mgr e))"
proof -
  have ip: "f_SrcIP f \<noteq> []" using assms(3) by (auto simp: IPv4ToUint32_def IP_To4_def)
  show ?thesis
  proof (cases "fst (Manager_IsBlockedIPv4 K (clk 0) (f_SrcIP f) (pe_mgr e))")
    case True
    then obtain entry where "km_view (m_v4 (pe_mgr e)) key = Some entry" "\<not> expired (unix_u64 (clk 0)) entry"
      unfolding IsBlockedIPv4_view [OF assms(1,3)]
      by (cases "km_view (m_v4 (pe_mgr e)) key") (auto simp: query_entry_def split: if_splits)
    with True assms(2,4) ip show ?thesis by (auto simp: ApplyRule_def Let_def)
  next
    case False
    obtain err m where b: "Manager_BlockIPv4 K (clk_from 1 clk) (f_SrcIP f) (block_entry_of r f) actor (pe_mgr e) = (err, m)"
      by fastforce
    with False assms(2,4) ip have ok: "err = None" "m_v4 (pe_mgr e') = m_v4 m"
      by (auto simp: ApplyRule_def Let_def publish_def split: option.splits)
    have "e_update (k_v4 K) key (resolve_ttl (clk 2) (block_entry_of r f)) (m_v4 (pe_mgr e)) = (None, m_v4 m)"
      by (rule BlockIPv4_ok [OF b [unfolded ok(1)]]) (use assms(3) in \<open>simp add: numeral_2_eq_2\<close>)
    then show ?thesis
      using ebpf_map.update_ok [OF ebpf_reliable.axioms(1) [OF assms(1)]] by (simp add: ok(2))
  qed
qed

theorem block_rule_enforced_witness:
  "\<exists>e'. ApplyRule falx_kernel (\<lambda>_. 62135597000000000000) ''id'' (rr_rule (sample_db ! 0)) (FlowFromIP [10, 0, 0, 9] 50)
      ''policy'' loaded_engine = (None, e') \<and>
    km_view (m_v4 (pe_mgr e')) 0x0A000009 =
      Some (resolve_ttl 62135597000000000000 (block_entry_of (rr_rule (sample_db ! 0)) (FlowFromIP [10, 0, 0, 9] 50)))"
proof -
  let ?r = "rr_rule (sample_db ! 0)" and ?f = "FlowFromIP [10, 0, 0, 9] 50"
  let ?a = "ApplyRule falx_kernel (\<lambda>_. 62135597000000000000) ''id'' ?r ?f ''policy'' loaded_engine"
  have mgr: "pe_mgr loaded_engine = falx_manager (\<lambda>_. 0) DefaultRateLimitConfig"
    by (simp add: loaded_engine_def sample_engine_def)
  have act: "r_Action ?r = ActionBlock" by (simp add: sample_db_def sample_rule_def)
  have "fst ?a = None"
    by (simp add: ApplyRule_def act mgr clk_from_def FlowFromIP_def manager_eval BlockEntry0_def block_entry_of_def)
  then have ok: "?a = (None, snd ?a)" by (metis prod.collapse)
  have key: "IPv4ToUint32 (f_SrcIP ?f) = (0x0A000009, None)"
    by (simp add: FlowFromIP_def manager_eval)
  have "km_view (m_v4 (pe_mgr loaded_engine)) 0x0A000009 = None"
    by (simp add: mgr falx_manager_def)
  with block_rule_enforced [OF falx_kernel_v4(1) act key ok] ok show ?thesis by auto
qed

section \<open>Changes of rules\<close>

lemma active_unique:
  assumes "distinct (db_ids e)" "r \<in> active_rules e" "r' \<in> active_rules e" "r_ID r = r_ID r'"
  shows "r = r'"
  using assms by (auto simp: active_rules_def db_ids_def distinct_map dest: inj_onD)

lemma GetRule_active:
  assumes "set (pe_rules e) = active_rules e" "distinct (db_ids e)"
  shows "GetRule id' e = Inr r \<longleftrightarrow> r \<in> active_rules e \<and> r_ID r = id'"
    and "(\<forall>r \<in> active_rules e. r_ID r \<noteq> id') \<Longrightarrow> GetRule id' e = Inl (''rule not found: '' @ id')"
proof -
  show "GetRule id' e = Inr r \<longleftrightarrow> r \<in> active_rules e \<and> r_ID r = id'"
  proof (cases "find (\<lambda>r. r_ID r = id') (pe_rules e)")
    case None
    then have "\<forall>r \<in> active_rules e. r_ID r \<noteq> id'"
      unfolding find_None_iff assms(1) [symmetric] by blast
    with None show ?thesis by (auto simp: GetRule_def)
  next
    case (Some r')
    then have "r' \<in> active_rules e" "r_ID r' = id'" using assms(1) by (auto simp: find_Some_iff)
    with Some show ?thesis using active_unique [OF assms(2)] by (auto simp: GetRule_def)
  qed
next
  assume "\<forall>r \<in> active_rules e. r_ID r \<noteq> id'"
  then have "find (\<lambda>r. r_ID r = id') (pe_rules e) = None" using assms(1) by (auto simp: find_None_iff)
  then show "GetRule id' e = Inl (''rule not found: '' @ id')" by (simp add: GetRule_def)
qed

lemma set_row_ID [simp]: "r_ID (rr_rule (set_row r row)) = r_ID (rr_rule row)"
  by (simp add: set_row_def)

lemma UpdateRule_ok:
  assumes "sql_order order" "UpdateRule order fault now newid r updatedBy e = (None, e')"
  shows "pe_db e' = map (\<lambda>row. if r_ID (rr_rule row) = r_ID r then set_row (r\<lparr>r_UpdatedAt := now\<rparr>) row else row) (pe_db e)"
    "set (pe_rules e') = active_rules e'" "r_ID r \<in> set (db_ids e)"
proof -
  let ?db = "map (\<lambda>row. if r_ID (rr_rule row) = r_ID r then set_row (r\<lparr>r_UpdatedAt := now\<rparr>) row else row) (pe_db e)"
  define e1 where "e1 = publish newid now (PolicyChangedEvent updatedBy ''updated'' (r_Name r)) (e\<lparr>pe_db := ?db\<rparr>)"
  have id': "r_ID r \<in> set (db_ids e)" and load: "loadRules order (fault_from 1 fault) e1 = (None, e')"
    using assms(2) by (auto simp: UpdateRule_def Let_def e1_def split: option.splits if_splits)
  note l = loadRules_ok [OF assms(1) load]
  have "pe_db e1 = ?db" by (simp add: e1_def publish_def)
  with l(3) have "pe_db e' = ?db" by simp
  then show "pe_db e' = ?db" .
  show "set (pe_rules e') = active_rules e'" using l(1,3) by (simp add: active_rules_def)
  show "r_ID r \<in> set (db_ids e)" by (rule id')
qed

text \<open>After a successful update the rule with that identifier has the new contents, or is
  gone from the active rules if it was disabled, and no other active rule has changed.\<close>

theorem update_rule_effect:
  assumes "sql_order order" "distinct (db_ids e)" "UpdateRule order fault now newid r updatedBy e = (None, e')"
  shows "(if r_Enabled r
     then \<exists>r'. GetRule (r_ID r) e' = Inr r' \<and> r_Action r' = r_Action r \<and> r_Conditions r' = r_Conditions r \<and>
       r_CondLogic r' = r_CondLogic r \<and> r_Priority r' = r_Priority r \<and> r_TTLSeconds r' = r_TTLSeconds r \<and>
       r_RuleID r' = r_RuleID r \<and> r_UpdatedAt r' = now
     else GetRule (r_ID r) e' = Inl (''rule not found: '' @ r_ID r)) \<and>
    (\<forall>r'. r_ID r' \<noteq> r_ID r \<longrightarrow> (r' \<in> active_rules e' \<longleftrightarrow> r' \<in> active_rules e))"
proof -
  note u = UpdateRule_ok [OF assms(1,3)]
  have ids: "db_ids e' = db_ids e" by (simp add: db_ids_def u(1) comp_def if_distrib cong: if_cong)
  note get = GetRule_active [OF u(2), unfolded ids, OF assms(2)]
  have others: "\<forall>r'. r_ID r' \<noteq> r_ID r \<longrightarrow> (r' \<in> active_rules e' \<longleftrightarrow> r' \<in> active_rules e)"
    by (auto simp: active_rules_def u(1) image_iff split: if_splits)
  obtain row where row: "row \<in> set (pe_db e)" "r_ID (rr_rule row) = r_ID r"
    using u(3) by (auto simp: db_ids_def)
  let ?row = "set_row (r\<lparr>r_UpdatedAt := now\<rparr>) row"
  show ?thesis
  proof (cases "r_Enabled r")
    case True
    have "?row \<in> set (pe_db e')" using row by (auto simp: u(1))
    moreover have "r_Enabled (rr_rule ?row) \<and> rr_json ?row" using True by (simp add: set_row_def)
    ultimately have "row_rule ?row \<in> active_rules e'" unfolding active_rules_def by blast
    then have "GetRule (r_ID r) e' = Inr (row_rule ?row)" using get(1) [of "r_ID r" "row_rule ?row"] row by simp
    with True others show ?thesis by (simp add: set_row_def row_rule_def)
  next
    case False
    then have "\<forall>r' \<in> active_rules e'. r_ID r' \<noteq> r_ID r"
      by (auto simp: active_rules_def u(1) set_row_def split: if_splits)
    with False others get(2) show ?thesis by simp
  qed
qed

theorem update_rule_effect_witness:
  "\<exists>e'. UpdateRule order_by (\<lambda>_. None) 5 ''id'' ((rr_rule (sample_db ! 1))\<lparr>r_Enabled := False\<rparr>) ''admin'' loaded_engine
      = (None, e') \<and> GetRule ''a'' e' = Inl (''rule not found: '' @ ''a'')"
proof -
  let ?r = "(rr_rule (sample_db ! 1))\<lparr>r_Enabled := False\<rparr>"
  let ?u = "UpdateRule order_by (\<lambda>_. None) 5 ''id'' ?r ''admin'' loaded_engine"
  have "fst ?u = None"
    by (simp add: Let_def UpdateRule_def loadRules_def fault_from_def Rule_Validate_def rule_actions db_ids_def loaded_engine_def
        sample_engine_def sample_db_def sample_rule_def)
  then have ok: "?u = (None, snd ?u)" by (metis prod.collapse)
  have "distinct (db_ids loaded_engine)"
    by (simp add: db_ids_def loaded_engine_def sample_engine_def sample_db_def sample_rule_def)
  from update_rule_effect [OF sql_order_by this ok] ok show ?thesis
    by (auto simp: sample_db_def sample_rule_def)
qed

text \<open>The handlers look a rule up among the active ones, so a rule that was disabled cannot be
  enabled or changed again.\<close>

lemma disabled_rule_not_found:
  assumes "sql_order order" "distinct (db_ids e)"
    and "setRuleEnabled order fault now newid actor id' False e = ((200, msg), e')"
  shows "setRuleEnabled order fault2 now2 newid2 actor2 id' True e' = ((404, ''rule_not_found''), e')"
    and "handle_UpdateRule order fault2 now2 newid2 actor2 id' req e' = ((404, ''rule_not_found''), e')"
proof -
  obtain rule where rule: "GetRule id' e = Inr rule"
    using assms(3) by (cases "GetRule id' e") (simp_all add: setRuleEnabled_def)
  obtain err e1 where up1: "UpdateRule order fault now newid (rule\<lparr>r_Enabled := False, r_UpdatedAt := now\<rparr>) actor e = (err, e1)"
    by fastforce
  have up: "UpdateRule order fault now newid (rule\<lparr>r_Enabled := False, r_UpdatedAt := now\<rparr>) actor e = (None, e')"
    using assms(3) up1 by (cases err) (simp_all add: setRuleEnabled_def rule)
  let ?r = "rule\<lparr>r_Enabled := False, r_UpdatedAt := now\<rparr>"
  note u = UpdateRule_ok [OF assms(1) up]
  have "find (\<lambda>r. r_ID r = id') (pe_rules e) = Some rule"
    using rule by (cases "find (\<lambda>r. r_ID r = id') (pe_rules e)") (simp_all add: GetRule_def)
  then have "r_ID ?r = id'" by (auto simp: find_Some_iff)
  moreover have "\<not> r_Enabled (rr_rule (set_row (?r\<lparr>r_UpdatedAt := now\<rparr>) row))" for row by (simp add: set_row_def)
  ultimately have "\<forall>r' \<in> active_rules e'. r_ID r' \<noteq> id'"
    unfolding active_rules_def u(1) by (auto split: if_splits)
  moreover have "db_ids e' = db_ids e"
    unfolding db_ids_def u(1) by simp
  then have "distinct (db_ids e')" using assms(2) by simp
  ultimately have "GetRule id' e' = Inl (''rule not found: '' @ id')" using GetRule_active(2) [OF u(2)] by blast
  then show "setRuleEnabled order fault2 now2 newid2 actor2 id' True e' = ((404, ''rule_not_found''), e')"
    "handle_UpdateRule order fault2 now2 newid2 actor2 id' req e' = ((404, ''rule_not_found''), e')"
    by (simp_all add: setRuleEnabled_def handle_UpdateRule_def)
qed

end
