(* ===== verification/IpcProtocol.thy ===== *)
theory IpcProtocol
  imports GoNet
begin

text \<open>
  The wire protocol between the control plane and the inference engine
  (\<open>internal/ipc/protocol.go\<close>, the frame reader and writer of \<open>framing.go\<close>): a header of
  20 bytes with a checksum, followed by the payload.  A connection is the list of bytes
  that are still to be read from it.  The lemmas show that a stream of frames is read back
  as it was written, and that the checksum rejects a frame in which up to four consecutive
  bytes were changed.
\<close>

section \<open>Constants\<close>

definition MagicBytes :: bytes where "MagicBytes = [0x46, 0x4C, 0x58, 0x32]"
definition ProtocolVersion :: u8 where "ProtocolVersion = 1"
definition HeaderSize :: nat where "HeaderSize = 20"
definition MaxPayloadSize :: u32 where "MaxPayloadSize = push_bit 20 1"

type_synonym MsgType = u8

definition MsgTypeInferRequest :: MsgType where "MsgTypeInferRequest = 0x01"
definition MsgTypeConfigPush :: MsgType where "MsgTypeConfigPush = 0x02"
definition MsgTypeHeartbeat :: MsgType where "MsgTypeHeartbeat = 0x03"
definition MsgTypeInferResponse :: MsgType where "MsgTypeInferResponse = 0x81"
definition MsgTypeMapUpdateReq :: MsgType where "MsgTypeMapUpdateReq = 0x82"
definition MsgTypeHeartbeatAck :: MsgType where "MsgTypeHeartbeatAck = 0x83"
definition MsgTypeAlert :: MsgType where "MsgTypeAlert = 0x84"
definition MsgTypeMapUpdateAck :: MsgType where "MsgTypeMapUpdateAck = 0x85"
definition MsgTypeError :: MsgType where "MsgTypeError = 0xFF"

lemmas msg_types = MsgTypeInferRequest_def MsgTypeConfigPush_def MsgTypeHeartbeat_def MsgTypeInferResponse_def
  MsgTypeMapUpdateReq_def MsgTypeHeartbeatAck_def MsgTypeAlert_def MsgTypeMapUpdateAck_def MsgTypeError_def

definition MsgType_String :: "MsgType \<Rightarrow> string" where
  "MsgType_String m =
     (if m = MsgTypeInferRequest then ''InferRequest''
      else if m = MsgTypeConfigPush then ''ConfigPush''
      else if m = MsgTypeHeartbeat then ''Heartbeat''
      else if m = MsgTypeInferResponse then ''InferResponse''
      else if m = MsgTypeMapUpdateReq then ''MapUpdateReq''
      else if m = MsgTypeHeartbeatAck then ''HeartbeatAck''
      else if m = MsgTypeMapUpdateAck then ''MapUpdateAck''
      else if m = MsgTypeAlert then ''Alert''
      else if m = MsgTypeError then ''Error''
      else ''Unknown(0x'' @ hex_byte m @ '')'')"

definition FlagAckRequired :: u16 where "FlagAckRequired = push_bit 2 1"

section \<open>Headers\<close>

record FrameHeader =
  h_Magic :: bytes
  h_Version :: u8
  h_Type :: MsgType
  h_Flags :: u16
  h_Seq :: u32
  h_Len :: u32
  h_CRC32 :: u32

definition FrameHeader_Marshal :: "FrameHeader \<Rightarrow> bytes" where
  "FrameHeader_Marshal h =
     h_Magic h @ [h_Version h, h_Type h] @ put_le 2 (h_Flags h) @ put_le 4 (h_Seq h) @ put_le 4 (h_Len h) @ put_le 4 (h_CRC32 h)"

definition sub :: "bytes \<Rightarrow> nat \<Rightarrow> nat \<Rightarrow> bytes" where
  "sub b i j = take (j - i) (drop i b)"

definition UnmarshalHeader :: "bytes \<Rightarrow> string + FrameHeader" where
  "UnmarshalHeader b =
     (let magic = sub b 0 4 in
      if magic \<noteq> MagicBytes
      then Inl (''invalid magic: got '' @ concat (map hex_byte magic) @ '', want '' @ concat (map hex_byte MagicBytes))
      else
        let version = b ! 4 in
        if version \<noteq> ProtocolVersion then Inl (''unsupported protocol version '' @ dec (unat version))
        else
          let h = \<lparr>h_Magic = magic, h_Version = version, h_Type = b ! 5, h_Flags = get_le (sub b 6 8),
                h_Seq = get_le (sub b 8 12), h_Len = get_le (sub b 12 16), h_CRC32 = get_le (sub b 16 20)\<rparr>
          in if h_Len h > MaxPayloadSize
             then Inl (''payload length '' @ dec (unat (h_Len h)) @ '' exceeds max '' @ dec (unat MaxPayloadSize))
             else Inr h)"

section \<open>The checksum\<close>

text \<open>\<open>crc32.NewIEEE\<close>: the register is fed bit by bit, the least significant first.\<close>

definition crc_step :: "u32 \<Rightarrow> u32" where
  "crc_step c = (if bit c 0 then xor (drop_bit 1 c) 0xEDB88320 else drop_bit 1 c)"

definition crc_byte :: "u32 \<Rightarrow> u8 \<Rightarrow> u32" where
  "crc_byte c b = (crc_step ^^ 8) (xor c (ucast b))"

definition crc32 :: "bytes \<Rightarrow> u32" where
  "crc32 bs = not (foldl crc_byte (not 0) bs)"

section \<open>Frames\<close>

record Frame =
  fr_Header :: FrameHeader
  fr_Payload :: bytes

definition BuildFrame :: "MsgType \<Rightarrow> u32 \<Rightarrow> u16 \<Rightarrow> bytes \<Rightarrow> Frame" where
  "BuildFrame msgType seq flags payload =
     (let h = \<lparr>h_Magic = MagicBytes, h_Version = ProtocolVersion, h_Type = msgType, h_Flags = flags, h_Seq = seq,
            h_Len = of_nat (length payload), h_CRC32 = 0\<rparr>
      in \<lparr>fr_Header = h\<lparr>h_CRC32 := crc32 (take 16 (FrameHeader_Marshal h) @ payload)\<rparr>, fr_Payload = payload\<rparr>)"

text \<open>\<open>%08x\<close>.\<close>

definition hex8 :: "u32 \<Rightarrow> string" where
  "hex8 w = concat (map hex_byte (put_be 4 w))"

definition Frame_Validate :: "Frame \<Rightarrow> error" where
  "Frame_Validate f =
     (let crc = crc32 (take 16 (FrameHeader_Marshal (fr_Header f)) @ fr_Payload f) in
      if crc \<noteq> h_CRC32 (fr_Header f)
      then Some (''CRC32 mismatch: got 0x'' @ hex8 crc @ '', expected 0x'' @ hex8 (h_CRC32 (fr_Header f)))
      else None)"

text \<open>\<open>io.ReadFull\<close>: the bytes it got, or the error with what is left.\<close>

definition ReadFull :: "nat \<Rightarrow> bytes \<Rightarrow> (string + bytes) \<times> bytes" where
  "ReadFull n s =
     (if n \<le> length s then (Inr (take n s), drop n s)
      else (Inl (if s = [] then ''EOF'' else ''unexpected EOF''), []))"

definition readFrame :: "bytes \<Rightarrow> (string + Frame) \<times> bytes" where
  "readFrame s =
     (case ReadFull HeaderSize s of
        (Inl err, s) \<Rightarrow> (Inl (''header read: '' @ err), s)
      | (Inr rawHdr, s) \<Rightarrow>
          (case UnmarshalHeader rawHdr of
             Inl err \<Rightarrow> (Inl (''header parse: '' @ err), s)
           | Inr hdr \<Rightarrow>
               if h_Len hdr > 0 then
                 (case ReadFull (unat (h_Len hdr)) s of
                    (Inl err, s) \<Rightarrow> (Inl (''payload read ('' @ dec (unat (h_Len hdr)) @ '' bytes): '' @ err), s)
                  | (Inr payload, s) \<Rightarrow> (Inr \<lparr>fr_Header = hdr, fr_Payload = payload\<rparr>, s))
               else (Inr \<lparr>fr_Header = hdr, fr_Payload = []\<rparr>, s)))"

text \<open>The bytes \<open>writeFrame\<close> hands to the connection.\<close>

definition writeFrame :: "Frame \<Rightarrow> bytes" where
  "writeFrame frame = FrameHeader_Marshal (fr_Header frame) @ fr_Payload frame"

section \<open>Round trip\<close>

text \<open>A header as the program builds it.\<close>

definition header_ok :: "FrameHeader \<Rightarrow> bool" where
  "header_ok h \<longleftrightarrow> h_Magic h = MagicBytes \<and> h_Version h = ProtocolVersion \<and> h_Len h \<le> MaxPayloadSize"

lemma length_Marshal: "length (h_Magic h) = 4 \<Longrightarrow> length (FrameHeader_Marshal h) = 20"
  by (simp add: FrameHeader_Marshal_def)

lemma Unmarshal_Marshal:
  assumes "header_ok h"
  shows "UnmarshalHeader (FrameHeader_Marshal h) = Inr h"
proof -
  have m: "h_Magic h = [0x46, 0x4C, 0x58, 0x32]" using assms by (simp add: header_ok_def MagicBytes_def)
  have "FrameHeader_Marshal h = [0x46, 0x4C, 0x58, 0x32, h_Version h, h_Type h] @
      put_le 2 (h_Flags h) @ put_le 4 (h_Seq h) @ put_le 4 (h_Len h) @ put_le 4 (h_CRC32 h)"
    by (simp add: FrameHeader_Marshal_def m)
  then have "sub (FrameHeader_Marshal h) 0 4 = MagicBytes" "FrameHeader_Marshal h ! 4 = h_Version h"
      "FrameHeader_Marshal h ! 5 = h_Type h" "sub (FrameHeader_Marshal h) 6 8 = put_le 2 (h_Flags h)"
      "sub (FrameHeader_Marshal h) 8 12 = put_le 4 (h_Seq h)" "sub (FrameHeader_Marshal h) 12 16 = put_le 4 (h_Len h)"
      "sub (FrameHeader_Marshal h) 16 20 = put_le 4 (h_CRC32 h)"
    by (simp_all add: sub_def MagicBytes_def)
  with assms m show ?thesis
    by (cases h) (simp add: UnmarshalHeader_def Let_def header_ok_def get_put_le_full MagicBytes_def)
qed

lemma UnmarshalHeader_ok:
  assumes "UnmarshalHeader b = Inr h"
  shows "header_ok h"
  using assms by (auto simp: UnmarshalHeader_def Let_def header_ok_def split: if_splits)

text \<open>A frame whose length field is the length of its payload.\<close>

definition frame_ok :: "Frame \<Rightarrow> bool" where
  "frame_ok f \<longleftrightarrow> header_ok (fr_Header f) \<and> unat (h_Len (fr_Header f)) = length (fr_Payload f)"

lemma read_write:
  assumes "frame_ok f"
  shows "readFrame (writeFrame f @ rest) = (Inr f, rest)"
proof -
  let ?h = "fr_Header f"
  have ok: "header_ok ?h" and len: "length (fr_Payload f) = unat (h_Len ?h)"
    using assms by (simp_all add: frame_ok_def)
  have "length (FrameHeader_Marshal ?h) = 20"
    using ok by (intro length_Marshal) (simp add: header_ok_def MagicBytes_def)
  then have "ReadFull HeaderSize (writeFrame f @ rest) = (Inr (FrameHeader_Marshal ?h), fr_Payload f @ rest)"
    by (simp add: ReadFull_def HeaderSize_def writeFrame_def)
  moreover have "ReadFull (unat (h_Len ?h)) (fr_Payload f @ rest) = (Inr (fr_Payload f), rest)"
    by (simp add: ReadFull_def flip: len)
  moreover have "fr_Payload f = []" if "\<not> h_Len ?h > 0"
  proof -
    have "h_Len ?h = 0" using that by (simp add: word_gt_0)
    with len show ?thesis by simp
  qed
  ultimately show ?thesis
    by (cases "h_Len ?h > 0") (simp_all add: readFrame_def Unmarshal_Marshal [OF ok])
qed

lemma BuildFrame_ok:
  assumes "length payload \<le> 2 ^ 20"
  shows "frame_ok (BuildFrame t seq flags payload)" "Frame_Validate (BuildFrame t seq flags payload) = None"
proof -
  have "unat (of_nat (length payload) :: u32) = length payload"
    using assms by (simp add: unat_of_nat take_bit_nat_eq_self)
  then show "frame_ok (BuildFrame t seq flags payload)"
    using assms by (simp add: frame_ok_def BuildFrame_def header_ok_def Let_def MaxPayloadSize_def word_le_nat_alt)
  show "Frame_Validate (BuildFrame t seq flags payload) = None"
    by (simp add: Frame_Validate_def BuildFrame_def Let_def FrameHeader_Marshal_def MagicBytes_def)
qed

text \<open>Reading a number of frames.\<close>

fun readFrames :: "nat \<Rightarrow> bytes \<Rightarrow> (string + Frame) list \<times> bytes" where
  "readFrames 0 s = ([], s)"
| "readFrames (Suc n) s = (let (f, s) = readFrame s; (fs, s) = readFrames n s in (f # fs, s))"

text \<open>C14. Frames built from payloads of at most 1 MiB and written one after the other are read
  back exactly as they were, whatever follows them on the connection, and each passes the
  check of its checksum.\<close>

theorem frame_stream_round_trip:
  assumes "\<forall>(t, seq, flags, payload) \<in> set ms. length payload \<le> 2 ^ 20"
    and "fs = map (\<lambda>(t, seq, flags, payload). BuildFrame t seq flags payload) ms"
  shows "readFrames (length fs) (concat (map writeFrame fs) @ rest) = (map Inr fs, rest) \<and>
    (\<forall>f \<in> set fs. Frame_Validate f = None)"
proof -
  have ok: "\<forall>f \<in> set fs. frame_ok f \<and> Frame_Validate f = None"
    using assms BuildFrame_ok by fastforce
  then have "readFrames (length fs) (concat (map writeFrame fs) @ rest) = (map Inr fs, rest)"
    by (induction fs) (simp_all add: read_write)
  with ok show ?thesis by simp
qed

theorem frame_stream_round_trip_witness:
  "readFrames 2 (writeFrame (BuildFrame MsgTypeHeartbeat 1 0 []) @ writeFrame (BuildFrame MsgTypeAlert 2 0 [1, 2, 3]) @ [9])
     = ([Inr (BuildFrame MsgTypeHeartbeat 1 0 []), Inr (BuildFrame MsgTypeAlert 2 0 [1, 2, 3])], [9])"
proof -
  have "readFrames (length [BuildFrame MsgTypeHeartbeat 1 0 [], BuildFrame MsgTypeAlert 2 0 [1, 2, 3]])
      (concat (map writeFrame [BuildFrame MsgTypeHeartbeat 1 0 [], BuildFrame MsgTypeAlert 2 0 [1, 2, 3]]) @ [9]) =
      (map Inr [BuildFrame MsgTypeHeartbeat 1 0 [], BuildFrame MsgTypeAlert 2 0 [1, 2, 3]], [9])"
    by (rule frame_stream_round_trip [THEN conjunct1, of "[(MsgTypeHeartbeat, 1, 0, []), (MsgTypeAlert, 2, 0, [1, 2, 3])]"]) simp_all
  then show ?thesis unfolding numeral_2_eq_2 by (simp del: readFrames.simps)
qed

section \<open>Corruption\<close>

lemma xor_cancel_right: "xor a c = xor b c \<longleftrightarrow> a = (b :: u32)"
  by (metis xor.assoc xor_self_eq xor.right_neutral)

lemma bit31_crc_step: "bit (crc_step c) 31 \<longleftrightarrow> bit c 0"
  by (auto simp: crc_step_def bit_simps dest: bit_imp_le_length)

lemma crc_step_inj: "crc_step a = crc_step b \<Longrightarrow> a = b"
proof -
  assume eq: "crc_step a = crc_step b"
  then have 0: "bit a 0 = bit b 0" using bit31_crc_step by metis
  with eq have "drop_bit 1 a = drop_bit 1 b"
    by (auto simp: crc_step_def xor_cancel_right split: if_splits)
  then have "bit a (Suc i) = bit b (Suc i)" for i
    by (metis bit_drop_bit_eq plus_1_eq_Suc comp_apply)
  with 0 show ?thesis by (auto simp: bit_eq_iff) (metis not0_implies_Suc)+
qed

lemma crc_step_xor: "crc_step (xor a b) = xor (crc_step a) (crc_step b)"
  by (auto simp: crc_step_def bit_xor_iff drop_bit_xor xor.assoc xor.commute xor.left_commute)

lemma crc_steps_inj: "(crc_step ^^ n) a = (crc_step ^^ n) b \<Longrightarrow> a = b"
  by (induction n) (auto dest: crc_step_inj)

lemma crc_steps_xor: "(crc_step ^^ n) (xor a b) = xor ((crc_step ^^ n) a) ((crc_step ^^ n) b)"
  by (induction n) (simp_all add: crc_step_xor)

text \<open>The bits from \<open>k\<close> on are zero.\<close>

definition small :: "nat \<Rightarrow> u32 \<Rightarrow> bool" where
  "small k w \<longleftrightarrow> (\<forall>i \<ge> k. \<not> bit w i)"

lemma small_xor: "small k a \<Longrightarrow> small k b \<Longrightarrow> small k (xor a b)"
  by (simp add: small_def bit_xor_iff)

lemma small_mono: "small k a \<Longrightarrow> k \<le> l \<Longrightarrow> small l a"
  by (simp add: small_def)

lemma small_byte: "small 8 (ucast (b :: u8))"
  by (auto simp: small_def bit_simps dest: bit_imp_le_length)

lemma small_push: "small k a \<Longrightarrow> small (k + n) (push_bit n a)"
  by (auto simp: small_def bit_simps)

lemma crc_steps_shift: "small (32 - n) r \<Longrightarrow> n \<le> 32 \<Longrightarrow> (crc_step ^^ n) (push_bit n r) = r"
proof (induction n)
  case (Suc n)
  have "crc_step (push_bit (Suc n) r) = push_bit n r"
  proof (rule bit_word_eqI)
    fix i assume "i < LENGTH(32)"
    moreover have "\<not> bit r (31 - n)" using Suc.prems by (simp add: small_def)
    moreover have "\<not> bit (push_bit (Suc n) r) 0" unfolding bit_push_bit_iff by simp
    then have "crc_step (push_bit (Suc n) r) = drop_bit 1 (push_bit (Suc n) r)"
      by (simp only: crc_step_def if_False)
    ultimately show "bit (crc_step (push_bit (Suc n) r)) i = bit (push_bit n r) i"
      by (cases "i = 31") (simp_all add: bit_drop_bit_eq bit_push_bit_iff del: push_bit_Suc)
  qed
  moreover have "small (32 - n) r" by (rule small_mono [OF Suc.prems(1)]) simp
  ultimately show ?case using Suc by (simp add: funpow_swap1)
qed simp

lemma crc_byte_small:
  assumes "small 24 ((crc_step ^^ 8) x)"
  shows "x = push_bit 8 ((crc_step ^^ 8) x)"
  by (rule crc_steps_inj [of 8]) (use crc_steps_shift [of 8] assms in simp)

lemma low_and_high: "small 8 (push_bit 8 r) \<Longrightarrow> push_bit 8 r = (0 :: u32)"
  by (rule bit_word_eqI) (auto simp: small_def bit_simps not_le)

lemma ucast_u8_inj: "(ucast a :: u32) = ucast b \<Longrightarrow> a = (b :: u8)"
proof -
  have "unat x < 2 ^ 32" for x :: u8
    using unsigned_less [of x] by (rule order_less_le_trans) simp
  then have "unat (ucast x :: u32) = unat x" for x :: u8
    by (simp add: unsigned_ucast_eq take_bit_nat_eq_self)
  moreover assume "(ucast a :: u32) = ucast b"
  ultimately show ?thesis by (metis word_unat_eq_iff)
qed

lemma crc_window:
  assumes "length w = length w'" "length w \<le> 4"
    and "small (32 - 8 * length w) (xor (foldl crc_byte c w) (foldl crc_byte c w'))"
  shows "w = w'"
  using assms
proof (induction w arbitrary: w' rule: rev_induct)
  case (snoc b v)
  obtain v' b' where w': "w' = v' @ [b']" using snoc.prems(1) by (cases w' rule: rev_cases) auto
  let ?d = "xor (foldl crc_byte c v) (foldl crc_byte c v')" and ?e = "xor (ucast b) (ucast b') :: u32"
  let ?R = "(crc_step ^^ 8) (xor ?d ?e)"
  have R: "xor (foldl crc_byte c (v @ [b])) (foldl crc_byte c w') = ?R"
    by (simp add: w' crc_byte_def crc_steps_xor xor.assoc xor.left_commute)
  have small_R: "small (32 - 8 * length (v @ [b])) ?R" using snoc.prems(3) unfolding R .
  then have "small 24 ?R" by (rule small_mono) simp
  then have eq: "xor ?d ?e = push_bit 8 ?R" by (rule crc_byte_small)
  have e: "small 8 ?e" by (rule small_xor; rule small_byte)
  have "small (32 - 8 * length v) (xor ?d ?e)"
    using small_push [OF small_R, of 8] snoc.prems(2) eq by (auto intro: small_mono)
  moreover have "small (32 - 8 * length v) ?e"
    using e snoc.prems(2) by (auto intro: small_mono)
  ultimately have "small (32 - 8 * length v) (xor (xor ?d ?e) ?e)" by (rule small_xor)
  then have "small (32 - 8 * length v) ?d" by (simp add: xor.assoc)
  then have v: "v = v'" using snoc.IH [of v'] snoc.prems(1,2) w' by simp
  then have "?e = push_bit 8 ?R" using eq by simp
  with e have "?e = 0" using low_and_high by metis
  then have "ucast b = (ucast b' :: u32)" by (metis xor_cancel_right xor_self_eq)
  then have "b = b'" by (rule ucast_u8_inj)
  with v w' show ?case by simp
qed simp

lemma crc_suffix: "foldl crc_byte c post = foldl crc_byte c' post \<Longrightarrow> c = c'"
proof (induction post arbitrary: c c')
  case (Cons b post)
  then have "crc_byte c b = crc_byte c' b" by simp
  then have "xor c (ucast b) = xor c' (ucast b)" unfolding crc_byte_def by (rule crc_steps_inj)
  then show ?case by (simp add: xor_cancel_right)
qed simp

text \<open>What the checksum covers.\<close>

definition crc_input :: "Frame \<Rightarrow> bytes" where
  "crc_input f = take 16 (FrameHeader_Marshal (fr_Header f)) @ fr_Payload f"

text \<open>C31. The checksum detects every corruption that is confined to four consecutive bytes of
  the header and the payload: if a frame passes the check, no frame with the same checksum
  that differs from it only there passes.\<close>

theorem burst_detected:
  assumes "Frame_Validate f = None" "h_CRC32 (fr_Header g) = h_CRC32 (fr_Header f)"
    and "crc_input f = pre @ w @ post" "crc_input g = pre @ w' @ post"
    and "length w = length w'" "length w \<le> 4" "w \<noteq> w'"
  shows "Frame_Validate g \<noteq> None"
proof
  assume "Frame_Validate g = None"
  with assms(1,2) have "crc32 (crc_input f) = crc32 (crc_input g)"
    by (auto simp: Frame_Validate_def crc_input_def Let_def split: if_splits)
  then have "foldl crc_byte (foldl crc_byte (foldl crc_byte (not 0) pre) w) post =
      foldl crc_byte (foldl crc_byte (foldl crc_byte (not 0) pre) w') post"
    by (simp add: crc32_def assms(3,4))
  then have "foldl crc_byte (foldl crc_byte (not 0) pre) w = foldl crc_byte (foldl crc_byte (not 0) pre) w'"
    by (rule crc_suffix)
  then have "w = w'" by (intro crc_window [OF assms(5,6), of "foldl crc_byte (not 0) pre"]) (simp add: small_def)
  with assms(7) show False ..
qed

theorem burst_detected_witness:
  "Frame_Validate \<lparr>fr_Header = fr_Header (BuildFrame MsgTypeAlert 2 0 [1, 2, 3]), fr_Payload = [1, 7, 3]\<rparr> \<noteq> None"
  by (rule burst_detected [where f = "BuildFrame MsgTypeAlert 2 0 [1, 2, 3]" and w = "[2]" and w' = "[7]" and post = "[3]"
        and pre = "take 16 (FrameHeader_Marshal (fr_Header (BuildFrame MsgTypeAlert 2 0 [1, 2, 3]))) @ [1]"])
     (simp_all add: BuildFrame_ok crc_input_def, simp_all add: BuildFrame_def Let_def)

end
