(* ===== verification/IpcServer.thy ===== *)
theory IpcServer
  imports IpcProtocol GoScan BpfManager
begin

text \<open>
  The server of the inference socket (\<open>internal/ipc/server.go\<close>) and its connection limiter
  (\<open>framing.go\<close>): which peers are accepted, what a received frame does, and how verdicts
  reach the blocklist.  JSON payloads are decoded by the parameter \<open>J\<close>, about which nothing
  is assumed.  A connection collects the frames sent on it; errors of the socket are left
  out.
\<close>

section \<open>Messages\<close>

record PacketMeta =
  pm_SrcIP :: string
  pm_DstIP :: string
  pm_Protocol :: u8
  pm_SrcPort :: u16
  pm_DstPort :: u16
  pm_TCPFlags :: u16
  pm_PktLen :: u32
  pm_FlowID :: u64
  pm_IsIPv6 :: bool
  pm_PayloadSample :: bytes

record InferRequest =
  ir_RequestID :: u64
  ir_Packets :: "PacketMeta list"

record Verdict =
  v_FlowID :: u64
  v_SrcIP :: string
  v_Action :: u8
  v_Confidence :: float64
  v_RuleID :: u8
  v_ThreatScore :: u8
  v_BlockDurationS :: u64
  v_Reason :: string

record InferResponse =
  rp_RequestID :: u64
  rp_Verdicts :: "Verdict list"

record MapUpdateReq =
  mu_SrcIP :: string
  mu_Action :: u8
  mu_TTLSeconds :: u64
  mu_ThreatScore :: u8
  mu_RuleID :: u8
  mu_Reason :: string
  mu_Actor :: string

record Alert =
  al_FlowID :: u64
  al_SrcIP :: string
  al_Severity :: string
  al_ThreatType :: string
  al_Confidence :: float64
  al_Description :: string

record ErrorMsg =
  em_Code :: u32
  em_Message :: string

definition ErrCodeUnknown :: u32 where "ErrCodeUnknown = 1"
definition ErrCodeInvalidPayload :: u32 where "ErrCodeInvalidPayload = 2"
definition ErrCodeRateLimited :: u32 where "ErrCodeRateLimited = 3"
definition ErrCodeModelError :: u32 where "ErrCodeModelError = 4"

record codec =
  j_response :: "bytes \<Rightarrow> string + InferResponse"
  j_update :: "bytes \<Rightarrow> string + MapUpdateReq"
  j_alert :: "bytes \<Rightarrow> string + Alert"
  j_request :: "InferRequest \<Rightarrow> string + bytes"
  j_error :: "ErrorMsg \<Rightarrow> bytes"

section \<open>The connection limiter\<close>

record connRateLimiter =
  cl_tokens :: float64
  cl_capacity :: float64
  cl_refillRate :: float64
  cl_lastRefill :: gotime
  cl_dropped :: i64

definition newConnRateLimiter :: "gotime \<Rightarrow> int \<Rightarrow> connRateLimiter" where
  "newConnRateLimiter now rps = \<lparr>cl_tokens = of_int rps, cl_capacity = of_int rps, cl_refillRate = of_int rps,
     cl_lastRefill = now, cl_dropped = 0\<rparr>"

definition connRateLimiter_Allow :: "gotime \<Rightarrow> connRateLimiter \<Rightarrow> bool \<times> connRateLimiter" where
  "connRateLimiter_Allow now rl =
     (let elapsed = dur_Seconds (time_Sub now (cl_lastRefill rl));
          rl = rl\<lparr>cl_tokens := min (cl_tokens rl + elapsed * cl_refillRate rl) (cl_capacity rl)\<rparr>;
          rl = rl\<lparr>cl_lastRefill := now\<rparr>
      in if cl_tokens rl < 1 then (False, rl\<lparr>cl_dropped := cl_dropped rl + 1\<rparr>)
         else (True, rl\<lparr>cl_tokens := cl_tokens rl - 1\<rparr>))"

section \<open>The server\<close>

record ServerConfig =
  sc_SocketPath :: string
  sc_AllowedUIDs :: "u32 list"
  sc_HeartbeatInterval :: duration
  sc_ReadTimeout :: duration
  sc_WriteTimeout :: duration
  sc_VerdictRPS :: int

definition DefaultServerConfig :: ServerConfig where
  "DefaultServerConfig = \<lparr>sc_SocketPath = ''/var/run/falx/ai.sock'', sc_AllowedUIDs = [0],
     sc_HeartbeatInterval = 5 * Second, sc_ReadTimeout = 30 * Second, sc_WriteTimeout = 5 * Second,
     sc_VerdictRPS = 10000\<rparr>"

record conn =
  cn_id :: string
  cn_uid :: u32
  cn_seqNum :: u32
  cn_rl :: connRateLimiter
  cn_sent :: "Frame list"

record Server =
  sv_cfg :: ServerConfig
  sv_mgr :: Manager
  sv_InferRequestCh :: "InferRequest list"
  sv_VerdictCh :: "InferResponse list"
  sv_AlertCh :: "Alert list"
  sv_conns :: "string list"
  sv_totalConns :: u64
  sv_totalRequests :: u64
  sv_totalVerdicts :: u64
  sv_totalAlerts :: u64

definition NewServer :: "ServerConfig \<Rightarrow> Manager \<Rightarrow> Server" where
  "NewServer cfg bpfMgr = \<lparr>sv_cfg = cfg, sv_mgr = bpfMgr, sv_InferRequestCh = [], sv_VerdictCh = [], sv_AlertCh = [],
     sv_conns = [], sv_totalConns = 0, sv_totalRequests = 0, sv_totalVerdicts = 0, sv_totalAlerts = 0\<rparr>"

definition isAllowedUID :: "u32 \<Rightarrow> Server \<Rightarrow> bool" where
  "isAllowedUID uid s \<longleftrightarrow> uid \<in> set (sc_AllowedUIDs (sv_cfg s))"

text \<open>A connection attempt with the credentials \<open>cred\<close> of the peer (the kernel may fail to
  give them) and the identifier made from the clock; a map keeps one connection per
  identifier.\<close>

definition accept_conn :: "gotime \<Rightarrow> (string + u32) \<Rightarrow> string \<Rightarrow> Server \<Rightarrow> conn option \<times> Server" where
  "accept_conn now cred id' s =
     (case cred of
        Inl err \<Rightarrow> (None, s)
      | Inr uid \<Rightarrow>
          if \<not> isAllowedUID uid s then (None, s)
          else
            (Some \<lparr>cn_id = id', cn_uid = uid, cn_seqNum = 0,
               cn_rl = newConnRateLimiter now (sc_VerdictRPS (sv_cfg s)), cn_sent = []\<rparr>,
             s\<lparr>sv_conns := List.insert id' (sv_conns s), sv_totalConns := sv_totalConns s + 1\<rparr>))"

definition sendFrame :: "Frame \<Rightarrow> conn \<Rightarrow> conn" where
  "sendFrame frame c = c\<lparr>cn_sent := cn_sent c @ [frame]\<rparr>"

definition sendError :: "codec \<Rightarrow> u32 \<Rightarrow> u32 \<Rightarrow> string \<Rightarrow> conn \<Rightarrow> conn" where
  "sendError J seq code msg c =
     sendFrame (BuildFrame MsgTypeError seq 0 (j_error J \<lparr>em_Code = code, em_Message = msg\<rparr>)) c"

definition protectedCIDRs :: "(bytes \<times> bytes) list" where
  "protectedCIDRs = List.map_filter ParseCIDR
     [''0.0.0.0/8'', ''127.0.0.0/8'', ''169.254.0.0/16'', ''224.0.0.0/4'', ''240.0.0.0/4'', ''255.255.255.255/32'']"

definition isProtectedIP :: "bytes \<Rightarrow> bool" where
  "isProtectedIP ip \<longleftrightarrow> list_ex (\<lambda>cidr. IPNet_Contains cidr ip) protectedCIDRs"

definition applyMapUpdate ::
    "kernel \<Rightarrow> codec \<Rightarrow> clock \<Rightarrow> u32 \<Rightarrow> MapUpdateReq \<Rightarrow> conn \<times> Server \<Rightarrow> conn \<times> Server" where
  "applyMapUpdate K J clk seq req cs =
     (let (c, s) = cs; ip = ParseIP (mu_SrcIP req) in
      if ip = [] then (sendError J seq ErrCodeInvalidPayload (''invalid src_ip: '' @ mu_SrcIP req) c, s)
      else if isProtectedIP ip
      then (sendError J seq ErrCodeInvalidPayload ''src_ip is in a protected CIDR; refusing to block'' c, s)
      else
        let entry = BlockEntry0\<lparr>Action := mu_Action req, RuleID := mu_RuleID req, ThreatScore := mu_ThreatScore req,
              ExpireAt := mu_TTLSeconds req, Reason := ReasonAIVerdict\<rparr>;
            actor = (if mu_Actor req = [] then ''ai-engine'' else mu_Actor req);
            (opErr, m) = (if mu_Action req \<in> {ActionDrop, ActionRedirect, ActionRateLimit}
                          then Manager_BlockIPv4 K clk ip entry actor (sv_mgr s)
                          else (Some (''unsupported action '' @ dec (unat (mu_Action req))), sv_mgr s));
            s = s\<lparr>sv_mgr := m\<rparr>
        in case opErr of
             Some e \<Rightarrow> (sendError J seq ErrCodeRateLimited e c, s)
           | None \<Rightarrow> (sendFrame (BuildFrame MsgTypeMapUpdateAck seq 0 []) c, s))"

text \<open>Clock reading 0 is that of the limiter, the others those of the map write.\<close>

definition dispatch :: "kernel \<Rightarrow> codec \<Rightarrow> clock \<Rightarrow> Frame \<Rightarrow> conn \<times> Server \<Rightarrow> conn \<times> Server" where
  "dispatch K J clk frame cs =
     (let (c, s) = cs; t = h_Type (fr_Header frame); seq = h_Seq (fr_Header frame) in
      if t = MsgTypeInferResponse then
        (case j_response J (fr_Payload frame) of
           Inl err \<Rightarrow> (sendError J seq ErrCodeInvalidPayload err c, s)
         | Inr resp \<Rightarrow>
             (c, s\<lparr>sv_totalVerdicts := sv_totalVerdicts s + of_nat (length (rp_Verdicts resp)),
                sv_VerdictCh := snd (chan_send 1024 resp (sv_VerdictCh s))\<rparr>))
      else if t = MsgTypeMapUpdateReq then
        let (ok, rl) = connRateLimiter_Allow (clk 0) (cn_rl c); c = c\<lparr>cn_rl := rl\<rparr> in
        if \<not> ok then (sendError J seq ErrCodeRateLimited ''map update rate limit exceeded'' c, s)
        else (case j_update J (fr_Payload frame) of
                Inl err \<Rightarrow> (sendError J seq ErrCodeInvalidPayload err c, s)
              | Inr req \<Rightarrow> applyMapUpdate K J (clk_from 1 clk) seq req (c, s))
      else if t = MsgTypeAlert then
        (case j_alert J (fr_Payload frame) of
           Inl err \<Rightarrow> (c, s)
         | Inr alert \<Rightarrow>
             (c, s\<lparr>sv_totalAlerts := sv_totalAlerts s + 1, sv_AlertCh := snd (chan_send 256 alert (sv_AlertCh s))\<rparr>))
      else if t = MsgTypeHeartbeatAck then (c, s)
      else (sendError J seq ErrCodeUnknown (''unknown msg type 0x'' @ hex_byte t) c, s))"

text \<open>One round of the receive loop on the bytes of the connection; \<open>None\<close> ends it and closes
  the connection.\<close>

definition handle_frame ::
    "kernel \<Rightarrow> codec \<Rightarrow> clock \<Rightarrow> bytes \<Rightarrow> conn \<times> Server \<Rightarrow> (bytes \<times> conn \<times> Server) option" where
  "handle_frame K J clk input cs =
     (case readFrame input of
        (Inl err, input) \<Rightarrow> None
      | (Inr frame, input) \<Rightarrow>
          let (c, s) = cs in
          (case Frame_Validate frame of
             Some err \<Rightarrow> Some (input, sendError J (h_Seq (fr_Header frame)) ErrCodeInvalidPayload err c, s)
           | None \<Rightarrow> Some (input, dispatch K J clk frame (c, s\<lparr>sv_totalRequests := sv_totalRequests s + 1\<rparr>))))"

definition close_conn :: "conn \<Rightarrow> Server \<Rightarrow> Server" where
  "close_conn c s = s\<lparr>sv_conns := removeAll (cn_id c) (sv_conns s)\<rparr>"

section \<open>Verdicts\<close>

definition verdict_decision :: "Verdict \<Rightarrow> BlockDecision option" where
  "verdict_decision v =
     (if v_Action v \<noteq> ActionDrop \<and> v_Action v \<noteq> ActionRedirect then None
      else let ip = ParseIP (v_SrcIP v) in
        if ip = [] then None
        else Some \<lparr>bd_IP = ip, bd_Entry = BlockEntry0\<lparr>Action := v_Action v, RuleID := v_RuleID v,
               ThreatScore := v_ThreatScore v, ExpireAt := v_BlockDurationS v, Reason := ReasonAIVerdict\<rparr>\<rparr>)"

definition applyVerdicts :: "kernel \<Rightarrow> clock \<Rightarrow> InferResponse \<Rightarrow> Server \<Rightarrow> Server" where
  "applyVerdicts K clk resp s =
     (let decisions = List.map_filter verdict_decision (rp_Verdicts resp) in
      if decisions = [] then s
      else let (errs, m) = Manager_BlockIPv4Batch K clk decisions ''ai-engine'' (sv_mgr s) in s\<lparr>sv_mgr := m\<rparr>)"

definition verdictDispatcher_step :: "kernel \<Rightarrow> clock \<Rightarrow> Server \<Rightarrow> Server option" where
  "verdictDispatcher_step K clk s =
     (case sv_VerdictCh s of
        [] \<Rightarrow> None
      | resp # rest \<Rightarrow> Some (applyVerdicts K clk resp (s\<lparr>sv_VerdictCh := rest\<rparr>)))"

section \<open>Frames the server sends on its own\<close>

definition requestForwarder_step :: "codec \<Rightarrow> conn \<times> Server \<Rightarrow> (conn \<times> Server) option" where
  "requestForwarder_step J cs =
     (let (c, s) = cs in
      case sv_InferRequestCh s of
        [] \<Rightarrow> None
      | req # rest \<Rightarrow>
          let s = s\<lparr>sv_InferRequestCh := rest\<rparr> in
          (case j_request J req of
             Inl err \<Rightarrow> Some (c, s)
           | Inr payload \<Rightarrow>
               let seq = cn_seqNum c + 1; c = c\<lparr>cn_seqNum := seq\<rparr> in
               Some (sendFrame (BuildFrame MsgTypeInferRequest seq FlagAckRequired payload) c, s)))"

definition heartbeatLoop_step :: "conn \<Rightarrow> conn" where
  "heartbeatLoop_step c =
     (let seq = cn_seqNum c + 1; c = c\<lparr>cn_seqNum := seq\<rparr> in sendFrame (BuildFrame MsgTypeHeartbeat seq 0 []) c)"

section \<open>The rate of map updates\<close>

lemma connRateLimiter_Allow_eq:
  "connRateLimiter_Allow now b =
     (let tk = min (cl_capacity b) (cl_tokens b + cl_refillRate b / 1000000000 * of_int (time_Sub now (cl_lastRefill b)))
      in (1 \<le> tk, b\<lparr>cl_lastRefill := now, cl_tokens := (if 1 \<le> tk then tk - 1 else tk),
            cl_dropped := cl_dropped b + of_bool (tk < 1)\<rparr>))"
  by (auto simp: connRateLimiter_Allow_def Let_def dur_Seconds_def min_def mult.commute)

interpretation cl: token_bucket connRateLimiter_Allow cl_tokens cl_capacity "\<lambda>b. cl_refillRate b / 1000000000" cl_lastRefill
proof (unfold_locales, goal_cases)
  case (4 t b ok b')
  then show ?case
    using refill_le [of "cl_lastRefill b" t "cl_refillRate b / 1000000000"]
    by (auto simp: connRateLimiter_Allow_eq Let_def min_def split: if_splits)
next
  case (5 t b ok b')
  then have "0 \<le> cl_refillRate b / 1000000000 * of_int (time_Sub t (cl_lastRefill b))"
    by (simp add: time_Sub_nonneg)
  with 5 show ?case
    by (auto simp: connRateLimiter_Allow_eq Let_def min_def split: if_splits)
next
  case (6 t b ok b')
  then show ?case
    using time_Sub_exact [of "cl_lastRefill b" t]
    by (auto simp: connRateLimiter_Allow_eq Let_def)
qed (auto simp: connRateLimiter_Allow_eq Let_def)

text \<open>The frames of a connection, each with the clock readings of its round.\<close>

fun dispatch_run :: "kernel \<Rightarrow> codec \<Rightarrow> (clock \<times> Frame) list \<Rightarrow> conn \<times> Server \<Rightarrow> conn \<times> Server" where
  "dispatch_run K J [] cs = cs"
| "dispatch_run K J ((clk, frame) # fs) cs = dispatch_run K J fs (dispatch K J clk frame cs)"

definition acks :: "conn \<Rightarrow> nat" where
  "acks c = length (filter (\<lambda>f. h_Type (fr_Header f) = MsgTypeMapUpdateAck) (cn_sent c))"

lemma BuildFrame_type [simp]: "h_Type (fr_Header (BuildFrame t seq flags payload)) = t"
  by (simp add: BuildFrame_def Let_def)

lemma acks_send: "acks (sendFrame f c) = acks c + of_bool (h_Type (fr_Header f) = MsgTypeMapUpdateAck)"
  by (simp add: acks_def sendFrame_def)

lemma acks_sendError [simp]: "acks (sendError J seq code msg c) = acks c"
  by (simp add: sendError_def acks_send msg_types)

lemma rl_send [simp]: "cn_rl (sendFrame f c) = cn_rl c" "cn_rl (sendError J seq code msg c) = cn_rl c"
  by (simp_all add: sendFrame_def sendError_def)

lemma applyMapUpdate_conn:
  assumes "applyMapUpdate K J clk seq req (c, s) = (c', s')"
  shows "cn_rl c' = cn_rl c" "acks c' \<le> acks c + 1"
  using assms by (auto simp: applyMapUpdate_def Let_def acks_send split: if_splits prod.splits option.splits)

lemma dispatch_other:
  assumes "dispatch K J clk frame (c, s) = (c', s')" "h_Type (fr_Header frame) \<noteq> MsgTypeMapUpdateReq"
  shows "cn_rl c' = cn_rl c" "acks c' = acks c" "sv_mgr s' = sv_mgr s"
  using assms by (auto simp: dispatch_def Let_def split: if_splits sum.splits)

lemma dispatch_update:
  assumes "dispatch K J clk frame (c, s) = (c', s')" "h_Type (fr_Header frame) = MsgTypeMapUpdateReq"
    and "connRateLimiter_Allow (clk 0) (cn_rl c) = (ok, rl)"
  shows "cn_rl c' = rl" "acks c' \<le> acks c + of_bool ok"
proof -
  have "MsgTypeMapUpdateReq \<noteq> MsgTypeInferResponse" by (simp add: msg_types)
  with assms have step: "(c', s') =
      (if \<not> ok then (sendError J (h_Seq (fr_Header frame)) ErrCodeRateLimited ''map update rate limit exceeded'' (c\<lparr>cn_rl := rl\<rparr>), s)
       else (case j_update J (fr_Payload frame) of
                Inl err \<Rightarrow> (sendError J (h_Seq (fr_Header frame)) ErrCodeInvalidPayload err (c\<lparr>cn_rl := rl\<rparr>), s)
              | Inr req \<Rightarrow> applyMapUpdate K J (clk_from 1 clk) (h_Seq (fr_Header frame)) req (c\<lparr>cn_rl := rl\<rparr>, s)))"
    by (simp add: dispatch_def Let_def)
  have base: "acks (c\<lparr>cn_rl := rl\<rparr>) = acks c" by (simp add: acks_def)
  show "cn_rl c' = rl" "acks c' \<le> acks c + of_bool ok"
    using step applyMapUpdate_conn [of K J "clk_from 1 clk" "h_Seq (fr_Header frame)" _ "c\<lparr>cn_rl := rl\<rparr>" s c' s']
    by (cases ok; cases "j_update J (fr_Payload frame)"; simp add: base)+
qed

definition update_times :: "(clock \<times> Frame) list \<Rightarrow> gotime list" where
  "update_times fs = map (\<lambda>(clk, f). clk 0) (filter (\<lambda>(clk, f). h_Type (fr_Header f) = MsgTypeMapUpdateReq) fs)"

lemma acks_accepted:
  "dispatch_run K J fs (c, s) = (c', s') \<Longrightarrow>
     acks c' \<le> acks c + accepted connRateLimiter_Allow (update_times fs) (cn_rl c)"
proof (induction fs arbitrary: c s)
  case Nil
  then show ?case by (simp add: update_times_def)
next
  case (Cons x fs)
  obtain clk frame where x: "x = (clk, frame)" by fastforce
  obtain c1 s1 where d: "dispatch K J clk frame (c, s) = (c1, s1)" by fastforce
  have IH: "acks c' \<le> acks c1 + accepted connRateLimiter_Allow (update_times fs) (cn_rl c1)"
    using Cons by (simp add: x d)
  show ?case
  proof (cases "h_Type (fr_Header frame) = MsgTypeMapUpdateReq")
    case True
    obtain ok rl where a: "connRateLimiter_Allow (clk 0) (cn_rl c) = (ok, rl)" by fastforce
    have "update_times (x # fs) = clk 0 # update_times fs" using True by (simp add: update_times_def x)
    with IH dispatch_update [OF d True a] show ?thesis by (simp add: a)
  next
    case False
    then have "update_times (x # fs) = update_times fs" by (simp add: update_times_def x)
    with IH dispatch_other [OF d False] show ?thesis by simp
  qed
qed

text \<open>However many frames a connection sends, the number of its map updates that are
  acknowledged in a window of time is at most the configured rate times one second more than
  the length of the window.\<close>

theorem map_update_rate:
  assumes "accept_conn now cred id' s0 = (Some c, s1)" "0 \<le> sc_VerdictRPS (sv_cfg s0)"
    and "dispatch_run K J fs (c, s) = (c', s')"
    and "sorted (now # update_times fs)" "\<forall>t \<in> set (update_times fs). t0 \<le> t \<and> t \<le> t1" "t0 \<le> t1"
  shows "of_nat (acks c') \<le> (of_int (sc_VerdictRPS (sv_cfg s0)) :: rat) * (1 + of_int (t1 - t0) / 1000000000)"
proof -
  let ?r = "sc_VerdictRPS (sv_cfg s0)"
  have c: "cn_rl c = newConnRateLimiter now ?r" "acks c = 0"
    using assms(1) by (auto simp: accept_conn_def acks_def split: sum.splits if_splits)
  have "of_nat (acks c') \<le> (of_nat (accepted connRateLimiter_Allow (update_times fs) (cn_rl c)) :: rat)"
    using acks_accepted [OF assms(3)] c(2) by simp
  also have "\<dots> \<le> of_int ?r + of_int ?r / 1000000000 * of_int (t1 - t0)"
    using cl.accepted_window [of "cn_rl c" "update_times fs" t0 t1] assms(2,4-6)
    by (simp add: c newConnRateLimiter_def)
  finally show ?thesis by (simp add: algebra_simps)
qed

text \<open>A decoder that takes every payload for a request to block 192.0.2.1.\<close>

definition sample_codec :: "string \<Rightarrow> codec" where
  "sample_codec ip =
     \<lparr>j_response = (\<lambda>_. Inl []),
      j_update = (\<lambda>_. Inr \<lparr>mu_SrcIP = ip, mu_Action = ActionDrop, mu_TTLSeconds = 0, mu_ThreatScore = 0,
        mu_RuleID = 0, mu_Reason = [], mu_Actor = []\<rparr>),
      j_alert = (\<lambda>_. Inl []), j_request = (\<lambda>_. Inl []), j_error = (\<lambda>_. [])\<rparr>"

definition sample_server :: Server where
  "sample_server = NewServer (DefaultServerConfig\<lparr>sc_VerdictRPS := 1\<rparr>) (falx_manager (\<lambda>_. 0) DefaultRateLimitConfig)"

definition sample_conn :: conn where
  "sample_conn = \<lparr>cn_id = ''c'', cn_uid = 0, cn_seqNum = 0, cn_rl = newConnRateLimiter 0 1, cn_sent = []\<rparr>"

definition update_frame :: Frame where
  "update_frame = BuildFrame MsgTypeMapUpdateReq 1 0 []"

theorem map_update_rate_witness:
  "of_nat (acks (fst (dispatch_run falx_kernel (sample_codec ''192.0.2.1'') [(\<lambda>_. 0, update_frame), (\<lambda>_. 5, update_frame)]
      (sample_conn, sample_server)))) \<le> (1 :: rat) * (1 + of_int (5 - 0) / 1000000000)"
proof -
  let ?fs = "[(\<lambda>_. 0, update_frame), (\<lambda>_. 5, update_frame)] :: (clock \<times> Frame) list"
  let ?run = "dispatch_run falx_kernel (sample_codec ''192.0.2.1'') ?fs (sample_conn, sample_server)"
  have acc: "accept_conn 0 (Inr 0) ''c'' sample_server = (Some sample_conn,
      sample_server\<lparr>sv_conns := [''c''], sv_totalConns := 1\<rparr>)"
    by (simp add: accept_conn_def sample_server_def sample_conn_def NewServer_def DefaultServerConfig_def isAllowedUID_def)
  have times: "update_times ?fs = [0, 5]"
    by (simp add: update_times_def update_frame_def)
  have run: "?run = (fst ?run, snd ?run)" by simp
  have rps: "sc_VerdictRPS (sv_cfg sample_server) = 1"
    by (simp add: sample_server_def NewServer_def)
  show ?thesis
    using map_update_rate [OF acc _ run, of 0 5] by (simp only: times rps) simp
qed

section \<open>Protected addresses\<close>

lemma and_ff: "and (a :: u8) 255 = a"
proof -
  have "(255 :: u8) = - 1" by simp
  then show ?thesis by (simp only: and.right_neutral)
qed

lemma class_d_e: "and (a :: u8) 240 = 224 \<or> and a 240 = 240 \<longleftrightarrow> 224 \<le> a"
proof -
  have all: "list_all (\<lambda>n. (and (of_nat n :: u8) 240 = 224 \<or> and (of_nat n) (240 :: u8) = 240) \<longleftrightarrow> 224 \<le> (of_nat n :: u8)) [0..<256]"
    by code_simp
  have "unat a < 256" using unsigned_less [of a] by (rule order_less_le_trans) simp
  then have "unat a \<in> set [0..<256]" by simp
  with all have "(and (of_nat (unat a) :: u8) 240 = 224 \<or> and (of_nat (unat a)) (240 :: u8) = 240) \<longleftrightarrow> 224 \<le> (of_nat (unat a) :: u8)"
    unfolding list_all_iff by blast
  then show ?thesis by simp
qed

lemma protected_text:
  "''0.0.0.0/8'' = string4 [0, 0, 0, 0] @ ''/'' @ dec 8"
  "''127.0.0.0/8'' = string4 [127, 0, 0, 0] @ ''/'' @ dec 8"
  "''169.254.0.0/16'' = string4 [169, 254, 0, 0] @ ''/'' @ dec 16"
  "''224.0.0.0/4'' = string4 [224, 0, 0, 0] @ ''/'' @ dec 4"
  "''240.0.0.0/4'' = string4 [240, 0, 0, 0] @ ''/'' @ dec 4"
  "''255.255.255.255/32'' = string4 [255, 255, 255, 255] @ ''/'' @ dec 32"
  by code_simp+

lemma protected_masks:
  "CIDRMask 8 4 = [255, 0, 0, 0]" "CIDRMask 16 4 = [255, 255, 0, 0]" "CIDRMask 4 4 = [240, 0, 0, 0]"
  "CIDRMask 32 4 = [255, 255, 255, 255]"
  by code_simp+

lemma protected_parse:
  "ParseCIDR ''0.0.0.0/8'' = Some ([0, 0, 0, 0], [255, 0, 0, 0])"
  "ParseCIDR ''127.0.0.0/8'' = Some ([127, 0, 0, 0], [255, 0, 0, 0])"
  "ParseCIDR ''169.254.0.0/16'' = Some ([169, 254, 0, 0], [255, 255, 0, 0])"
  "ParseCIDR ''224.0.0.0/4'' = Some ([224, 0, 0, 0], [240, 0, 0, 0])"
  "ParseCIDR ''240.0.0.0/4'' = Some ([240, 0, 0, 0], [240, 0, 0, 0])"
  "ParseCIDR ''255.255.255.255/32'' = Some ([255, 255, 255, 255], [255, 255, 255, 255])"
  unfolding protected_text by (subst ParseCIDR_v4; simp add: protected_masks and_bytes_def)+

lemma protected_eval: "protectedCIDRs =
    [([0, 0, 0, 0], [255, 0, 0, 0]), ([127, 0, 0, 0], [255, 0, 0, 0]), ([169, 254, 0, 0], [255, 255, 0, 0]),
     ([224, 0, 0, 0], [240, 0, 0, 0]), ([240, 0, 0, 0], [240, 0, 0, 0]), ([255, 255, 255, 255], [255, 255, 255, 255])]"
  by (simp add: protectedCIDRs_def List.map_filter_simps protected_parse)

lemma isProtectedIP_v4:
  assumes "IP_To4 ip = [a, b, c, d]"
  shows "isProtectedIP ip \<longleftrightarrow> a = 0 \<or> a = 127 \<or> a = 169 \<and> b = 254 \<or> 224 \<le> a"
proof -
  have "IPNet_Contains ([w, x, y, z], [k, l, m, n]) ip \<longleftrightarrow>
      and w k = and a k \<and> and x l = and b l \<and> and y m = and c m \<and> and z n = and d n" for w x y z k l m n
  proof -
    have "IP_To4 [w, x, y, z] = [w, x, y, z]" by (simp add: IP_To4_def)
    then show ?thesis by (simp add: IPNet_Contains_def networkNumberAndMask_def assms and_bytes_def Let_def)
  qed
  then have "isProtectedIP ip \<longleftrightarrow> a = 0 \<or> a = 127 \<or> (a = 169 \<and> b = 254) \<or> and a 240 = 224 \<or> and a 240 = 240 \<or>
      (a = 255 \<and> b = 255 \<and> c = 255 \<and> d = 255)"
    by (auto simp: isProtectedIP_def protected_eval and_ff)
  also have "\<dots> \<longleftrightarrow> a = 0 \<or> a = 127 \<or> a = 169 \<and> b = 254 \<or> 224 \<le> a"
    using class_d_e [of a] by auto
  finally show ?thesis .
qed

lemma BlockIPv4_other_key:
  assumes "ebpf_map (k_v4 K)" "Manager_BlockIPv4 K clk ip entry actor m = (r, m')" "IPv4ToUint32 ip \<noteq> (key, None)"
  shows "km_view (m_v4 m') key = km_view (m_v4 m) key \<or> km_view (m_v4 m') key = None"
proof (cases r)
  case None
  with assms(2) obtain key' where k: "IPv4ToUint32 ip = (key', None)"
      and up: "e_update (k_v4 K) key' (resolve_ttl (clk 1) entry) (m_v4 m) = (None, m_v4 m')"
    using BlockIPv4_ok by blast
  from k assms(3) have "key \<noteq> key'" by auto
  then show ?thesis by (rule ebpf_map.update_frame [OF assms(1) up])
next
  case (Some err)
  with assms(2) BlockIPv4_err ebpf_map.update_err [OF assms(1)] show ?thesis by metis
qed

lemma key_of_protected:
  assumes "IPv4ToUint32 [a, b, c, d] = (key, None)" "a = 0 \<or> a = 127 \<or> a = 169 \<and> b = 254 \<or> 224 \<le> a"
    and "IPv4ToUint32 ip = (key, None)"
  shows "isProtectedIP ip"
proof -
  have "IP_To4 ip = IP_To4 [a, b, c, d]"
    using Uint32ToIPv4_IPv4ToUint32 [OF assms(1)] Uint32ToIPv4_IPv4ToUint32 [OF assms(3)] by simp
  then have "IP_To4 ip = [a, b, c, d]" by (simp add: IP_To4_def)
  with assms(2) isProtectedIP_v4 show ?thesis by simp
qed

lemma applyMapUpdate_mgr:
  assumes "applyMapUpdate K J clk seq req (c, s) = (c', s')"
  shows "sv_mgr s' = sv_mgr s \<or> (\<exists>ip entry actor r. \<not> isProtectedIP ip \<and>
    Manager_BlockIPv4 K clk ip entry actor (sv_mgr s) = (r, sv_mgr s'))"
proof (cases "ParseIP (mu_SrcIP req) = [] \<or> isProtectedIP (ParseIP (mu_SrcIP req)) \<or>
    mu_Action req \<notin> {ActionDrop, ActionRedirect, ActionRateLimit}")
  case True
  with assms show ?thesis by (auto simp: applyMapUpdate_def Let_def split: if_splits)
next
  case False
  let ?entry = "BlockEntry0\<lparr>Action := mu_Action req, RuleID := mu_RuleID req, ThreatScore := mu_ThreatScore req,
    ExpireAt := mu_TTLSeconds req, Reason := ReasonAIVerdict\<rparr>"
  let ?actor = "if mu_Actor req = [] then ''ai-engine'' else mu_Actor req"
  obtain r m where b: "Manager_BlockIPv4 K clk (ParseIP (mu_SrcIP req)) ?entry ?actor (sv_mgr s) = (r, m)" by fastforce
  with False assms have "sv_mgr s' = m"
    by (cases r) (auto simp: applyMapUpdate_def Let_def)
  with b False show ?thesis by blast
qed

lemma dispatch_mgr:
  assumes "dispatch K J clk frame (c, s) = (c', s')"
  shows "sv_mgr s' = sv_mgr s \<or> (\<exists>clk' ip entry actor r. \<not> isProtectedIP ip \<and>
    Manager_BlockIPv4 K clk' ip entry actor (sv_mgr s) = (r, sv_mgr s'))"
proof (cases "h_Type (fr_Header frame) = MsgTypeMapUpdateReq")
  case True
  obtain ok rl where a: "connRateLimiter_Allow (clk 0) (cn_rl c) = (ok, rl)" by fastforce
  have ne: "MsgTypeMapUpdateReq \<noteq> MsgTypeInferResponse" by (simp add: msg_types)
  show ?thesis
  proof (cases "\<not> ok \<or> (\<exists>err. j_update J (fr_Payload frame) = Inl err)")
    case True
    with assms \<open>h_Type (fr_Header frame) = MsgTypeMapUpdateReq\<close> ne a show ?thesis
      by (auto simp: dispatch_def Let_def split: if_splits)
  next
    case False
    then obtain req where "j_update J (fr_Payload frame) = Inr req" by (cases "j_update J (fr_Payload frame)") auto
    with False assms True ne a
    have "applyMapUpdate K J (clk_from 1 clk) (h_Seq (fr_Header frame)) req (c\<lparr>cn_rl := rl\<rparr>, s) = (c', s')"
      by (simp add: dispatch_def Let_def)
    from applyMapUpdate_mgr [OF this] show ?thesis by blast
  qed
next
  case False
  with dispatch_other(3) [OF assms] show ?thesis by simp
qed

text \<open>C6. No sequence of frames from the inference engine, whatever their payloads, makes the
  server block an address of a protected network (0/8, 127/8, 169.254/16, 224/4 and 240/4):
  its entry in the blocklist stays as it was, unless the kernel evicts it.\<close>

theorem protected_never_blocked:
  assumes "ebpf_map (k_v4 K)" "dispatch_run K J fs (c, s) = (c', s')"
    and "IPv4ToUint32 [a, b, x, y] = (key, None)" "a = 0 \<or> a = 127 \<or> a = 169 \<and> b = 254 \<or> 224 \<le> a"
  shows "km_view (m_v4 (sv_mgr s')) key = km_view (m_v4 (sv_mgr s)) key \<or> km_view (m_v4 (sv_mgr s')) key = None"
  using assms(2)
proof (induction fs arbitrary: c s)
  case (Cons z fs)
  obtain clk frame where z: "z = (clk, frame)" by fastforce
  obtain c1 s1 where d: "dispatch K J clk frame (c, s) = (c1, s1)" by fastforce
  have "km_view (m_v4 (sv_mgr s1)) key = km_view (m_v4 (sv_mgr s)) key \<or> km_view (m_v4 (sv_mgr s1)) key = None"
    using dispatch_mgr [OF d] BlockIPv4_other_key [OF assms(1)] key_of_protected [OF assms(3,4)] by metis
  moreover have "km_view (m_v4 (sv_mgr s')) key = km_view (m_v4 (sv_mgr s1)) key \<or> km_view (m_v4 (sv_mgr s')) key = None"
    using Cons by (simp add: z d)
  ultimately show ?case by auto
qed simp

theorem protected_never_blocked_witness:
  "km_view (m_v4 (sv_mgr (snd (dispatch_run falx_kernel (sample_codec ''127.0.0.1'') [(\<lambda>_. 0, update_frame)]
      (sample_conn, sample_server))))) 0x7F000001 = None"
proof -
  let ?run = "dispatch_run falx_kernel (sample_codec ''127.0.0.1'') [(\<lambda>_. 0, update_frame)] (sample_conn, sample_server)"
  have "?run = (fst ?run, snd ?run)" by simp
  moreover have "IPv4ToUint32 [127, 0, 0, 1] = (0x7F000001, None)" by (simp add: manager_eval)
  moreover have "km_view (m_v4 (sv_mgr sample_server)) 0x7F000001 = None"
    by (simp add: sample_server_def NewServer_def falx_manager_def)
  ultimately show ?thesis
    using protected_never_blocked [OF falx_kernel_v4(2), of "sample_codec ''127.0.0.1''"] by fastforce
qed

text \<open>Verdicts that arrive in an inference response are not checked against the protected
  networks: such a response blocks the loopback address.\<close>

lemma verdict_blocks_loopback:
  "km_view (m_v4 (sv_mgr (applyVerdicts falx_kernel (\<lambda>_. 0)
      \<lparr>rp_RequestID = 1, rp_Verdicts = [\<lparr>v_FlowID = 1, v_SrcIP = ''127.0.0.1'', v_Action = ActionDrop, v_Confidence = 1,
        v_RuleID = 1, v_ThreatScore = 100, v_BlockDurationS = 0, v_Reason = []\<rparr>]\<rparr> sample_server))) 0x7F000001 \<noteq> None"
proof -
  have "ParseIP ''127.0.0.1'' = v4InV6Prefix @ [127, 0, 0, 1]" by code_simp
  then show ?thesis
    by (simp add: applyVerdicts_def verdict_decision_def List.map_filter_simps Let_def sample_server_def NewServer_def
        Manager_BlockIPv4Batch_def batch_step_def clk_from_def manager_eval BlockEntry0_def)
qed

end
