(* ===== verification/ControlGuards.thy ===== *)
theory ControlGuards
  imports GoScan BpfManager
begin

text \<open>
  The start-up guards of \<open>control/failsafe.go\<close>: the check of the kernel version (section 0),
  the synchronizer of the failsafe thresholds (section 2) and the verifier of the signed
  eBPF object (section 3).  The file system is an argument: what a read of a path returns.
  Hashing, certificates, ASN.1 and ECDSA are parameters of the verifier, and \<open>quote\<close> is the
  \<open>%q\<close> of an error message.
\<close>

section \<open>Kernel version\<close>

record kernelVersion =
  kv_Major :: int
  kv_Minor :: int

definition MinKernelVersion :: kernelVersion where
  "MinKernelVersion = \<lparr>kv_Major = 5, kv_Minor = 16\<rparr>"

definition BPFSubprogramVersion :: kernelVersion where
  "BPFSubprogramVersion = \<lparr>kv_Major = 5, kv_Minor = 6\<rparr>"

definition truncate_str :: "string \<Rightarrow> nat \<Rightarrow> string" where
  "truncate_str s n = (if length s \<le> n then s else take n s @ [CHR 0xE2, CHR 0x80, CHR 0xA6])"

definition version_format :: "directive list" where
  "version_format = map Lit ''Linux'' @ [Space] @ map Lit ''version'' @ [Space, IntD, Lit (CHR ''.''), IntD]"

definition at_least :: string where
  "at_least = [CHR 0xE2, CHR 0x89, CHR 0xA5]"

definition CheckKernelVersion :: "(string \<Rightarrow> string) \<Rightarrow> (string + string) \<Rightarrow> kernelVersion \<Rightarrow> error" where
  "CheckKernelVersion quote proc_version required =
     (case proc_version of
        Inl err \<Rightarrow> Some (''CheckKernelVersion: read /proc/version: '' @ err)
      | Inr data \<Rightarrow>
          let vs = Sscanf data version_format; major = scanned vs 0; minor = scanned vs 1 in
          if length vs < 2
          then Some (''CheckKernelVersion: cannot parse kernel version from '' @ quote (truncate_str data 80))
          else if major < kv_Major required \<or> major = kv_Major required \<and> minor < kv_Minor required
          then Some (''kernel '' @ dec_int major @ ''.'' @ dec_int minor @ '' is below FALX-V2 Phase-11 minimum '' @
                 dec_int (kv_Major required) @ ''.'' @ dec_int (kv_Minor required) @
                 '' (BPF subprograms require '' @ at_least @ '' 5.6; BPF_MAP_TYPE_BLOOM_FILTER requires '' @
                 at_least @ '' 5.16)'')
          else None)"

section \<open>Threshold synchronizer\<close>

record thresholdSnapshot =
  ts_PPS :: u64
  ts_BPS :: u64

record ThresholdSynchronizer =
  ts_snap :: thresholdSnapshot
  ts_mgr :: Manager

definition UpdateLocal :: "u64 \<Rightarrow> u64 \<Rightarrow> ThresholdSynchronizer \<Rightarrow> ThresholdSynchronizer" where
  "UpdateLocal pps bps ts = ts\<lparr>ts_snap := \<lparr>ts_PPS = pps, ts_BPS = bps\<rparr>\<rparr>"

definition SyncNow :: "kernel \<Rightarrow> gotime \<Rightarrow> ThresholdSynchronizer \<Rightarrow> error \<times> ThresholdSynchronizer" where
  "SyncNow K now ts =
     (let s = ts_snap ts; (err, m) = Manager_UpdateFailsafeThresholds K now (ts_PPS s) (ts_BPS s) (ts_mgr ts);
          ts = ts\<lparr>ts_mgr := m\<rparr>
      in case err of
           Some e \<Rightarrow> (Some (''sync failsafe thresholds: '' @ e), ts)
         | None \<Rightarrow> (None, ts))"

definition NewThresholdSynchronizer ::
    "kernel \<Rightarrow> gotime \<Rightarrow> Manager \<Rightarrow> u64 \<Rightarrow> u64 \<Rightarrow> (string + ThresholdSynchronizer) \<times> Manager" where
  "NewThresholdSynchronizer K now mgr initialPPS initialBPS =
     (let ts = \<lparr>ts_snap = \<lparr>ts_PPS = initialPPS, ts_BPS = initialBPS\<rparr>, ts_mgr = mgr\<rparr>;
          (err, ts) = SyncNow K now ts
      in case err of
           Some e \<Rightarrow> (Inl (''initial failsafe threshold sync: '' @ e), ts_mgr ts)
         | None \<Rightarrow> (Inr ts, ts_mgr ts))"

definition SyncFailsafeThresholds :: "kernel \<Rightarrow> gotime \<Rightarrow> Manager \<Rightarrow> u64 \<Rightarrow> u64 \<Rightarrow> error \<times> Manager" where
  "SyncFailsafeThresholds K now mgr pps bps =
     (let (err, m) = Manager_UpdateFailsafeThresholds K now pps bps mgr in
      case err of
        Some e \<Rightarrow> (Some (''SyncFailsafeThresholds: '' @ e), m)
      | None \<Rightarrow> (None, m))"

section \<open>Signature of the eBPF object\<close>

definition fromHexNibble :: "char \<Rightarrow> u8" where
  "fromHexNibble c =
     (let n = of_char c :: nat in
      if 48 \<le> n \<and> n \<le> 57 then of_nat (n - 48)
      else if 97 \<le> n \<and> n \<le> 102 then of_nat (n - 97 + 10)
      else if 65 \<le> n \<and> n \<le> 70 then of_nat (n - 65 + 10)
      else 0xFF)"

fun hex_loop :: "nat \<Rightarrow> string \<Rightarrow> string + bytes" where
  "hex_loop i (h # l # s) =
     (let hi = fromHexNibble h; lo = fromHexNibble l in
      if hi > 15 \<or> lo > 15 then Inl (''invalid hex character at offset '' @ dec i)
      else case hex_loop (i + 2) s of
             Inl e \<Rightarrow> Inl e
           | Inr bs \<Rightarrow> Inr (or (push_bit 4 hi) lo # bs))"
| "hex_loop i _ = Inr []"

definition hexDecode :: "string \<Rightarrow> string + bytes" where
  "hexDecode h = (if length h mod 2 \<noteq> 0 then Inl ''odd-length hex string'' else hex_loop 0 h)"

definition embeddedPublicKeyHex :: string where
  "embeddedPublicKeyHex =
     ''3059301306072a8648ce3d020106082a8648ce3d03010703420004'' @
     ''b3a3f0c3e4a5b6c7d8e9f0a1b2c3d4e5f6a7b8c9d0e1f2a3b4c5'' @
     ''d6e7f8a9b0c1d2e3f4a5b6c7d8e9f0a1b2c3d4e5f6a7b8c9d0e1''"

text \<open>A parsed public key is an ECDSA key with the name of its curve, or another kind of key;
  a parsed signature has its two integers, either of which may be missing.\<close>

datatype 'k pubkey = ECKey 'k string | OtherKey

record 'k crypto =
  x_ParsePKIXPublicKey :: "bytes \<Rightarrow> string + 'k pubkey"
  x_Sum256 :: "bytes \<Rightarrow> bytes"
  x_Unmarshal :: "bytes \<Rightarrow> string + (int option \<times> int option \<times> bytes)"
  x_Verify :: "'k \<Rightarrow> bytes \<Rightarrow> int \<Rightarrow> int \<Rightarrow> bool"

definition NewELFVerifier :: "'k crypto \<Rightarrow> string + 'k" where
  "NewELFVerifier X =
     (case hexDecode embeddedPublicKeyHex of
        Inl err \<Rightarrow> Inl (''ELFVerifier: decode embedded public key hex: '' @ err)
      | Inr pubDER \<Rightarrow>
          (case x_ParsePKIXPublicKey X pubDER of
             Inl err \<Rightarrow> Inl (''ELFVerifier: parse PKIX public key: '' @ err)
           | Inr OtherKey \<Rightarrow> Inl ''ELFVerifier: embedded key is not an ECDSA key''
           | Inr (ECKey k curve) \<Rightarrow>
               if curve \<noteq> ''P-256'' then Inl (''ELFVerifier: expected P-256 curve, got '' @ curve) else Inr k))"

text \<open>\<open>base\<close> is \<open>filepath.Base\<close>.\<close>

definition ELFVerifier_Verify ::
    "'k crypto \<Rightarrow> (string \<Rightarrow> string) \<Rightarrow> (string \<Rightarrow> string) \<Rightarrow> (string \<Rightarrow> string + bytes) \<Rightarrow> 'k \<Rightarrow> string \<Rightarrow> error" where
  "ELFVerifier_Verify X quote base ReadFile pubKey elfPath =
     (case ReadFile elfPath of
        Inl err \<Rightarrow> Some (''ELFVerifier.Verify: read ELF '' @ quote elfPath @ '': '' @ err)
      | Inr elfData \<Rightarrow>
          let digest = x_Sum256 X elfData; sigPath = elfPath @ ''.sig'' in
          (case ReadFile sigPath of
             Inl err \<Rightarrow> Some (''ELFVerifier.Verify: read signature '' @ quote sigPath @ '': '' @ err)
           | Inr sigDER \<Rightarrow>
               (case x_Unmarshal X sigDER of
                  Inl err \<Rightarrow> Some (''ELFVerifier.Verify: parse DER signature: '' @ err)
                | Inr (r, s, rest) \<Rightarrow>
                    if rest \<noteq> []
                    then Some (''ELFVerifier.Verify: trailing bytes in signature file ('' @ dec (length rest) @ '' bytes)'')
                    else case (r, s) of
                           (Some r, Some s) \<Rightarrow>
                             if x_Verify X pubKey digest r s then None
                             else Some (''ELFVerifier.Verify: invalid ECDSA signature for '' @ quote (base elfPath))
                         | _ \<Rightarrow> Some ''ELFVerifier.Verify: signature R or S is nil'')))"

section \<open>Properties of the guards\<close>

lemma Sscanf_lits: "Sscanf (s @ t) (map Lit s @ ds) = Sscanf t ds"
  by (induction s) auto

lemma SkipSpace_space: "SkipSpace (CHR '' '' # s) = SkipSpace s"
proof -
  have "space_rune (CHR '' '' # s) = Some '' ''" by (simp add: space_rune_def space_runes_def)
  then show ?thesis by (subst SkipSpace.simps) simp
qed

lemma SkipSpace_letter: "space_rune s = None \<Longrightarrow> SkipSpace s = Some s"
  by (subst SkipSpace.simps) simp

lemma scan_space_one: "SkipSpace s = Some s \<Longrightarrow> scan_space (CHR '' '' # s) = Some s"
  by (simp add: scan_space_def SkipSpace_space) (simp add: space_rune_def space_runes_def)

lemma Sscanf_version:
  assumes "a < 2 ^ 63" "b < 2 ^ 63" "no_digit rest"
  shows "Sscanf (''Linux version '' @ dec a @ ''.'' @ dec b @ rest) version_format = [int a, int b]"
proof -
  let ?t = "dec a @ ''.'' @ dec b @ rest"
  have "space_rune (''version'' @ '' '' @ ?t) = None"
    by (auto simp: space_rune_def space_runes_def find_None_iff)
  then have s1: "scan_space ('' '' @ ''version'' @ '' '' @ ?t) = Some (''version'' @ '' '' @ ?t)"
    using scan_space_one [OF SkipSpace_letter] by simp
  have s2: "scan_space ('' '' @ ?t) = Some ?t"
    using scan_space_one [OF SkipSpace_dec] by simp
  have i: "scanInt ?t = Some (int a, ''.'' @ dec b @ rest)" "scanInt (dec b @ rest) = Some (int b, rest)"
    using assms by (auto intro!: scanInt_dec simp: no_digit_def is_dec_digit_def)
  have "Sscanf (''Linux'' @ '' '' @ ''version'' @ '' '' @ ?t) version_format =
      Sscanf ('' '' @ ''version'' @ '' '' @ ?t) ([Space] @ map Lit ''version'' @ [Space, IntD, Lit (CHR ''.''), IntD])"
    unfolding version_format_def by (rule Sscanf_lits)
  also have "\<dots> = Sscanf (''version'' @ '' '' @ ?t) (map Lit ''version'' @ [Space, IntD, Lit (CHR ''.''), IntD])"
    unfolding append_Cons append_Nil Sscanf.simps(3) s1 [unfolded append_Cons append_Nil] option.case ..
  also have "\<dots> = Sscanf ('' '' @ ?t) [Space, IntD, Lit (CHR ''.''), IntD]" by (rule Sscanf_lits)
  also have "\<dots> = [int a, int b]" using s2 i by simp
  finally show ?thesis by simp
qed

text \<open>C38. For a version text with the release \<open>a.b\<close> the check accepts exactly if \<open>a.b\<close> is at least
  the required release, comparing the major number first.\<close>

theorem kernel_version_check:
  assumes "a < 2 ^ 63" "b < 2 ^ 63" "no_digit rest"
  shows "CheckKernelVersion quote (Inr (''Linux version '' @ dec a @ ''.'' @ dec b @ rest)) required = None \<longleftrightarrow>
    kv_Major required < int a \<or> kv_Major required = int a \<and> kv_Minor required \<le> int b"
  unfolding CheckKernelVersion_def sum.case Sscanf_version [OF assms] by (auto simp: scanned_def Let_def)

theorem kernel_version_check_witness:
  "CheckKernelVersion id (Inr ''Linux version 6.8.0-51-generic'') MinKernelVersion = None"
proof -
  have eq: "''Linux version 6.8.0-51-generic'' = ''Linux version '' @ dec 6 @ ''.'' @ dec 8 @ ''.0-51-generic''" by code_simp
  have "no_digit ''.0-51-generic''" by (simp add: no_digit_def is_dec_digit_def)
  then show ?thesis
    unfolding eq by (subst kernel_version_check) (simp_all add: MinKernelVersion_def)
qed

text \<open>Decoding inverts the printing of bytes in hexadecimal.\<close>

lemma nibble_hex_char: "n < 16 \<Longrightarrow> fromHexNibble (hex_char n) = of_nat n"
  by (auto simp: fromHexNibble_def hex_char_def Let_def)

lemma or_nibbles: "or (push_bit 4 (of_nat (unat b div 16))) (of_nat (unat b mod 16)) = (b :: u8)"
proof -
  have all: "list_all (\<lambda>n. or (push_bit 4 (of_nat (n div 16))) (of_nat (n mod 16)) = (of_nat n :: u8)) [0..<256]"
    by code_simp
  have "unat b < 256" using unsigned_less [of b] by (rule order_less_le_trans) simp
  then have "unat b \<in> set [0..<256]" by simp
  with all have "or (push_bit 4 (of_nat (unat b div 16))) (of_nat (unat b mod 16)) = (of_nat (unat b) :: u8)"
    unfolding list_all_iff by blast
  then show ?thesis by simp
qed

lemma hex_loop_hex: "hex_loop i (concat (map hex_byte bs)) = Inr bs"
proof (induction bs arbitrary: i)
  case (Cons b bs)
  have b: "unat b < 256" using unsigned_less [of b] by (rule order_less_le_trans) simp
  have small: "\<not> (of_nat n :: u8) > 15" if "n < 16" for n
    using that by (simp add: word_less_nat_alt unat_of_nat take_bit_nat_eq_self)
  have "unat b div 16 < 16" "unat b mod 16 < 16" using b by auto
  then show ?case
    using Cons by (simp add: hex_byte_def nibble_hex_char small or_nibbles Let_def)
qed simp

lemma hexDecode_hex: "hexDecode (concat (map hex_byte bs)) = Inr bs"
proof -
  have "length (concat (map hex_byte bs)) = 2 * length bs" by (induction bs) (simp_all add: hex_byte_def)
  then show ?thesis by (simp add: hexDecode_def hex_loop_hex)
qed

text \<open>A synchronisation that succeeds puts the snapshot into the kernel, and one that fails
  leaves the thresholds of the kernel alone.\<close>

lemma SyncNow_read:
  assumes "ebpf_array (k_failsafe K)" "Manager_ReadFailsafeState K (ts_mgr ts) = Inr st" "SyncNow K now ts = (err, ts')"
  shows "Manager_ReadFailsafeState K (ts_mgr ts') =
    Inr (if err = None then st\<lparr>PPSThreshold := ts_PPS (ts_snap ts), BPSThreshold := ts_BPS (ts_snap ts)\<rparr> else st)"
proof -
  obtain e m where u: "Manager_UpdateFailsafeThresholds K now (ts_PPS (ts_snap ts)) (ts_BPS (ts_snap ts)) (ts_mgr ts) = (e, m)"
    by fastforce
  with assms(3) have "ts_mgr ts' = m" "err = None \<longleftrightarrow> e = None"
    by (cases e; auto simp: SyncNow_def Let_def)+
  with UpdateFailsafeThresholds_read [OF assms(1,2) u] show ?thesis by simp
qed

end
