(* ===== verification/XdpParser.thy ===== *)
theory XdpParser
  imports BpfTypes "HOL-Library.Monad_Syntax"
begin

text \<open>
  The packet parser of the XDP program (\<open>ebpf-kern/src/parser.rs\<close>).  A packet is the list of
  bytes between \<open>data\<close> and \<open>data_end\<close>.  A pointer to a header that \<open>ptr_at\<close> returns is the
  header its bytes form, loaded as the target \<open>bpfel\<close> does, with the least significant byte
  first; \<open>u16::from_be\<close> swaps the two bytes.  A failed bounds check is \<open>None\<close>.
\<close>

section \<open>Byte access\<close>

definition slice :: "bytes \<Rightarrow> nat \<Rightarrow> nat \<Rightarrow> bytes" where
  "slice bs off n = take n (drop off bs)"

definition from_be16 :: "u16 \<Rightarrow> u16" where
  "from_be16 w = or (push_bit 8 w) (drop_bit 8 w)"

definition ptr_at :: "nat \<Rightarrow> (bytes \<Rightarrow> 'a) \<Rightarrow> bytes \<Rightarrow> nat \<Rightarrow> 'a option" where
  "ptr_at len of_bytes ctx offset =
     (if offset + len > length ctx then None else Some (of_bytes (slice ctx offset len)))"

section \<open>Headers\<close>

record EthHdr =
  eth_dst_mac :: bytes
  eth_src_mac :: bytes
  eth_ether_type :: u16

record Ipv4Hdr =
  ip4_version_ihl :: u8
  ip4_tos :: u8
  ip4_tot_len :: u16
  ip4_id :: u16
  ip4_frag_off :: u16
  ip4_ttl :: u8
  ip4_protocol :: u8
  ip4_check :: u16
  ip4_src_addr :: u32
  ip4_dst_addr :: u32

record Ipv6Hdr =
  ip6_version_tc_flow :: u32
  ip6_payload_len :: u16
  ip6_next_hdr :: u8
  ip6_hop_limit :: u8
  ip6_src_addr :: bytes
  ip6_dst_addr :: bytes

record TcpHdr =
  tcp_source :: u16
  tcp_dest :: u16
  tcp_seq :: u32
  tcp_ack_seq :: u32
  tcp_flags :: u16
  tcp_window :: u16
  tcp_check :: u16
  tcp_urg_ptr :: u16

record UdpHdr =
  udp_source :: u16
  udp_dest :: u16
  udp_len :: u16
  udp_check :: u16

text \<open>The packed layouts: every field at the offset its predecessors leave.\<close>

definition EthHdr_of :: "bytes \<Rightarrow> EthHdr" where
  "EthHdr_of b = \<lparr>eth_dst_mac = slice b 0 6, eth_src_mac = slice b 6 6, eth_ether_type = get_le (slice b 12 2)\<rparr>"

definition Ipv4Hdr_of :: "bytes \<Rightarrow> Ipv4Hdr" where
  "Ipv4Hdr_of b = \<lparr>ip4_version_ihl = b ! 0, ip4_tos = b ! 1, ip4_tot_len = get_le (slice b 2 2),
     ip4_id = get_le (slice b 4 2), ip4_frag_off = get_le (slice b 6 2), ip4_ttl = b ! 8, ip4_protocol = b ! 9,
     ip4_check = get_le (slice b 10 2), ip4_src_addr = get_le (slice b 12 4), ip4_dst_addr = get_le (slice b 16 4)\<rparr>"

definition Ipv6Hdr_of :: "bytes \<Rightarrow> Ipv6Hdr" where
  "Ipv6Hdr_of b = \<lparr>ip6_version_tc_flow = get_le (slice b 0 4), ip6_payload_len = get_le (slice b 4 2),
     ip6_next_hdr = b ! 6, ip6_hop_limit = b ! 7, ip6_src_addr = slice b 8 16, ip6_dst_addr = slice b 24 16\<rparr>"

definition TcpHdr_of :: "bytes \<Rightarrow> TcpHdr" where
  "TcpHdr_of b = \<lparr>tcp_source = get_le (slice b 0 2), tcp_dest = get_le (slice b 2 2), tcp_seq = get_le (slice b 4 4),
     tcp_ack_seq = get_le (slice b 8 4), tcp_flags = get_le (slice b 12 2), tcp_window = get_le (slice b 14 2),
     tcp_check = get_le (slice b 16 2), tcp_urg_ptr = get_le (slice b 18 2)\<rparr>"

definition UdpHdr_of :: "bytes \<Rightarrow> UdpHdr" where
  "UdpHdr_of b = \<lparr>udp_source = get_le (slice b 0 2), udp_dest = get_le (slice b 2 2), udp_len = get_le (slice b 4 2),
     udp_check = get_le (slice b 6 2)\<rparr>"

section \<open>Constants\<close>

definition proto_ICMP :: u8 where "proto_ICMP = 1"
definition proto_TCP :: u8 where "proto_TCP = 6"
definition proto_UDP :: u8 where "proto_UDP = 17"
definition proto_ICMPV6 :: u8 where "proto_ICMPV6 = 58"
definition ethertype_IPV4 :: u16 where "ethertype_IPV4 = 0x0800"
definition ethertype_IPV6 :: u16 where "ethertype_IPV6 = 0x86DD"
definition ethertype_ARP :: u16 where "ethertype_ARP = 0x0806"

definition flag_SYN :: u8 where "flag_SYN = 0x02"
definition flag_ACK :: u8 where "flag_ACK = 0x10"

definition is_syn_only :: "u8 \<Rightarrow> bool" where
  "is_syn_only flags \<longleftrightarrow> flags = flag_SYN"

definition is_syn_ack :: "u8 \<Rightarrow> bool" where
  "is_syn_ack flags \<longleftrightarrow> and flags (or flag_SYN flag_ACK) = or flag_SYN flag_ACK"

lemmas xdp_consts = proto_ICMP_def proto_TCP_def proto_UDP_def proto_ICMPV6_def ethertype_IPV4_def ethertype_IPV6_def
  ethertype_ARP_def flag_SYN_def flag_ACK_def

section \<open>The parser\<close>

record PacketInfo =
  pi_src_ip :: u32
  pi_dst_ip :: u32
  pi_src_port :: u16
  pi_dst_port :: u16
  pi_protocol :: u8
  pi_tcp_flags :: u8
  pi_pkt_len :: u32
  pi_is_ipv6 :: bool
  pi_src_ip6 :: bytes
  pi_dst_ip6 :: bytes
  pi_payload_offset :: u32

definition PacketInfo0 :: PacketInfo where
  "PacketInfo0 = \<lparr>pi_src_ip = 0, pi_dst_ip = 0, pi_src_port = 0, pi_dst_port = 0, pi_protocol = 0, pi_tcp_flags = 0,
     pi_pkt_len = 0, pi_is_ipv6 = False, pi_src_ip6 = replicate 16 0, pi_dst_ip6 = replicate 16 0, pi_payload_offset = 0\<rparr>"

text \<open>The ports and flags of a transport header at \<open>offset\<close>; the IPv4 branch also checks the
  data offset of TCP and moves past the header, the IPv6 branch does not.\<close>

definition parse_l4_v4 :: "bytes \<Rightarrow> nat \<Rightarrow> PacketInfo \<Rightarrow> (PacketInfo \<times> nat) option" where
  "parse_l4_v4 ctx offset info =
     (if pi_protocol info = proto_TCP then do {
        tcp \<leftarrow> ptr_at 20 TcpHdr_of ctx offset;
        let info = info\<lparr>pi_src_port := from_be16 (tcp_source tcp), pi_dst_port := from_be16 (tcp_dest tcp),
              pi_tcp_flags := ucast (and (from_be16 (tcp_flags tcp)) 0x1FF)\<rparr>;
        let data_off = unat (drop_bit 12 (from_be16 (tcp_flags tcp)));
        if data_off < 5 then None else Some (info, offset + data_off * 4)
      }
      else if pi_protocol info = proto_UDP then do {
        udp \<leftarrow> ptr_at 8 UdpHdr_of ctx offset;
        Some (info\<lparr>pi_src_port := from_be16 (udp_source udp), pi_dst_port := from_be16 (udp_dest udp)\<rparr>, offset + 8)
      }
      else Some (info, offset))"

definition parse_l4_v6 :: "bytes \<Rightarrow> nat \<Rightarrow> PacketInfo \<Rightarrow> PacketInfo option" where
  "parse_l4_v6 ctx offset info =
     (if pi_protocol info = proto_TCP then do {
        tcp \<leftarrow> ptr_at 20 TcpHdr_of ctx offset;
        Some (info\<lparr>pi_src_port := from_be16 (tcp_source tcp), pi_dst_port := from_be16 (tcp_dest tcp),
          pi_tcp_flags := ucast (and (from_be16 (tcp_flags tcp)) 0x1FF)\<rparr>)
      }
      else if pi_protocol info = proto_UDP then do {
        udp \<leftarrow> ptr_at 8 UdpHdr_of ctx offset;
        Some (info\<lparr>pi_src_port := from_be16 (udp_source udp), pi_dst_port := from_be16 (udp_dest udp)\<rparr>)
      }
      else Some info)"

definition parse_packet :: "bytes \<Rightarrow> PacketInfo option" where
  "parse_packet ctx = do {
     let info = PacketInfo0\<lparr>pi_pkt_len := of_nat (length ctx)\<rparr>;
     eth \<leftarrow> ptr_at 14 EthHdr_of ctx 0;
     let ether_type = from_be16 (eth_ether_type eth);
     let offset = 14;
     if ether_type = ethertype_IPV4 then do {
       ip \<leftarrow> ptr_at 20 Ipv4Hdr_of ctx offset;
       let ihl = unat (and (ip4_version_ihl ip) 0x0F);
       if ihl < 5 then None else do {
         let ip_hdr_len = ihl * 4;
         let info = info\<lparr>pi_src_ip := ip4_src_addr ip, pi_dst_ip := ip4_dst_addr ip, pi_protocol := ip4_protocol ip\<rparr>;
         (info, offset) \<leftarrow> parse_l4_v4 ctx (offset + ip_hdr_len) info;
         Some (info\<lparr>pi_payload_offset := of_nat offset\<rparr>)
       }
     }
     else if ether_type = ethertype_IPV6 then do {
       ip6 \<leftarrow> ptr_at 40 Ipv6Hdr_of ctx offset;
       let info = info\<lparr>pi_src_ip6 := ip6_src_addr ip6, pi_dst_ip6 := ip6_dst_addr ip6, pi_protocol := ip6_next_hdr ip6,
             pi_is_ipv6 := True\<rparr>;
       let offset = offset + 40;
       info \<leftarrow> parse_l4_v6 ctx offset info;
       Some (info\<lparr>pi_payload_offset := of_nat offset\<rparr>)
     }
     else Some (PacketInfo0\<lparr>pi_pkt_len := pi_pkt_len info\<rparr>)
   }"

section \<open>Headers as bytes\<close>

definition EthHdr_bytes :: "EthHdr \<Rightarrow> bytes" where
  "EthHdr_bytes h = eth_dst_mac h @ eth_src_mac h @ put_le 2 (eth_ether_type h)"

definition Ipv4Hdr_bytes :: "Ipv4Hdr \<Rightarrow> bytes" where
  "Ipv4Hdr_bytes h = [ip4_version_ihl h, ip4_tos h] @ put_le 2 (ip4_tot_len h) @ put_le 2 (ip4_id h) @ put_le 2 (ip4_frag_off h)
     @ [ip4_ttl h, ip4_protocol h] @ put_le 2 (ip4_check h) @ put_le 4 (ip4_src_addr h) @ put_le 4 (ip4_dst_addr h)"

definition Ipv6Hdr_bytes :: "Ipv6Hdr \<Rightarrow> bytes" where
  "Ipv6Hdr_bytes h = put_le 4 (ip6_version_tc_flow h) @ put_le 2 (ip6_payload_len h) @ [ip6_next_hdr h, ip6_hop_limit h]
     @ ip6_src_addr h @ ip6_dst_addr h"

definition TcpHdr_bytes :: "TcpHdr \<Rightarrow> bytes" where
  "TcpHdr_bytes h = put_le 2 (tcp_source h) @ put_le 2 (tcp_dest h) @ put_le 4 (tcp_seq h) @ put_le 4 (tcp_ack_seq h)
     @ put_le 2 (tcp_flags h) @ put_le 2 (tcp_window h) @ put_le 2 (tcp_check h) @ put_le 2 (tcp_urg_ptr h)"

definition UdpHdr_bytes :: "UdpHdr \<Rightarrow> bytes" where
  "UdpHdr_bytes h = put_le 2 (udp_source h) @ put_le 2 (udp_dest h) @ put_le 2 (udp_len h) @ put_le 2 (udp_check h)"

lemma slice_append [simp]:
  "off + n \<le> length xs \<Longrightarrow> slice (xs @ ys) off n = slice xs off n"
  "length xs \<le> off \<Longrightarrow> slice (xs @ ys) off n = slice ys (off - length xs) n"
  by (auto simp: slice_def)

lemma slice_all: "length xs = n \<Longrightarrow> slice xs 0 n = xs"
  by (simp add: slice_def)

lemma slice_Cons [simp]: "0 < off \<Longrightarrow> slice (x # xs) off n = slice xs (off - 1) n"
  by (simp add: slice_def drop_Cons')

lemma slice_prefix: "length xs = n \<Longrightarrow> slice (xs @ ys) 0 n = xs"
  by (simp add: slice_def)

lemma length_hdrs [simp]:
  "length (Ipv4Hdr_bytes h4) = 20" "length (TcpHdr_bytes t) = 20" "length (UdpHdr_bytes u) = 8"
  by (simp_all add: Ipv4Hdr_bytes_def TcpHdr_bytes_def UdpHdr_bytes_def)

lemma EthHdr_round: "length (eth_dst_mac h) = 6 \<Longrightarrow> length (eth_src_mac h) = 6 \<Longrightarrow> EthHdr_of (EthHdr_bytes h) = h"
  by (simp add: EthHdr_of_def EthHdr_bytes_def slice_all slice_prefix get_put_le_full)

lemma Ipv4Hdr_round: "Ipv4Hdr_of (Ipv4Hdr_bytes h) = h"
  by (simp add: Ipv4Hdr_of_def Ipv4Hdr_bytes_def slice_all slice_prefix get_put_le_full nth_append)

lemma Ipv6Hdr_round: "length (ip6_src_addr h) = 16 \<Longrightarrow> length (ip6_dst_addr h) = 16 \<Longrightarrow> Ipv6Hdr_of (Ipv6Hdr_bytes h) = h"
  by (simp add: Ipv6Hdr_of_def Ipv6Hdr_bytes_def slice_all slice_prefix get_put_le_full nth_append)

lemma TcpHdr_round: "TcpHdr_of (TcpHdr_bytes h) = h"
  by (simp add: TcpHdr_of_def TcpHdr_bytes_def slice_all slice_prefix get_put_le_full)

lemma UdpHdr_round: "UdpHdr_of (UdpHdr_bytes h) = h"
  by (simp add: UdpHdr_of_def UdpHdr_bytes_def slice_all slice_prefix get_put_le_full)

section \<open>Parsing what a sender builds\<close>

text \<open>The packets a sender can build: a transport header behind an IPv4 header with options or
  behind an IPv6 header.\<close>

datatype transport = Tcp TcpHdr | Udp UdpHdr | Other u8

datatype network = Ipv4 Ipv4Hdr bytes | Ipv6 Ipv6Hdr

fun transport_bytes :: "transport \<Rightarrow> bytes" where
  "transport_bytes (Tcp h) = TcpHdr_bytes h"
| "transport_bytes (Udp h) = UdpHdr_bytes h"
| "transport_bytes (Other p) = []"

fun transport_proto :: "transport \<Rightarrow> u8" where
  "transport_proto (Tcp h) = proto_TCP"
| "transport_proto (Udp h) = proto_UDP"
| "transport_proto (Other p) = p"

fun network_bytes :: "network \<Rightarrow> bytes" where
  "network_bytes (Ipv4 h opts) = Ipv4Hdr_bytes h @ opts"
| "network_bytes (Ipv6 h) = Ipv6Hdr_bytes h"

definition packet_bytes :: "EthHdr \<Rightarrow> network \<Rightarrow> transport \<Rightarrow> bytes \<Rightarrow> bytes" where
  "packet_bytes eth net l4 payload = EthHdr_bytes eth @ network_bytes net @ transport_bytes l4 @ payload"

definition data_off :: "TcpHdr \<Rightarrow> nat" where
  "data_off h = unat (drop_bit 12 (from_be16 (tcp_flags h)))"

fun transport_ok :: "transport \<Rightarrow> bool" where
  "transport_ok (Tcp h) \<longleftrightarrow> 5 \<le> data_off h"
| "transport_ok (Udp h) \<longleftrightarrow> True"
| "transport_ok (Other p) \<longleftrightarrow> p \<noteq> proto_TCP \<and> p \<noteq> proto_UDP"

fun packet_ok :: "EthHdr \<Rightarrow> network \<Rightarrow> transport \<Rightarrow> bool" where
  "packet_ok eth (Ipv4 h opts) l4 \<longleftrightarrow> length (eth_dst_mac eth) = 6 \<and> length (eth_src_mac eth) = 6
     \<and> eth_ether_type eth = from_be16 ethertype_IPV4 \<and> 20 + length opts = 4 * unat (and (ip4_version_ihl h) 0x0F)
     \<and> ip4_protocol h = transport_proto l4 \<and> transport_ok l4"
| "packet_ok eth (Ipv6 h) l4 \<longleftrightarrow> length (eth_dst_mac eth) = 6 \<and> length (eth_src_mac eth) = 6
     \<and> eth_ether_type eth = from_be16 ethertype_IPV6 \<and> length (ip6_src_addr h) = 16 \<and> length (ip6_dst_addr h) = 16
     \<and> ip6_next_hdr h = transport_proto l4 \<and> transport_ok l4"

fun with_transport :: "transport \<Rightarrow> PacketInfo \<Rightarrow> PacketInfo" where
  "with_transport (Tcp h) info = info\<lparr>pi_src_port := from_be16 (tcp_source h), pi_dst_port := from_be16 (tcp_dest h),
     pi_tcp_flags := ucast (and (from_be16 (tcp_flags h)) 0x1FF)\<rparr>"
| "with_transport (Udp h) info = info\<lparr>pi_src_port := from_be16 (udp_source h), pi_dst_port := from_be16 (udp_dest h)\<rparr>"
| "with_transport (Other p) info = info"

fun transport_len :: "transport \<Rightarrow> nat" where
  "transport_len (Tcp h) = 4 * data_off h"
| "transport_len (Udp h) = 8"
| "transport_len (Other p) = 0"

fun packet_info :: "network \<Rightarrow> transport \<Rightarrow> nat \<Rightarrow> PacketInfo" where
  "packet_info (Ipv4 h opts) l4 n = with_transport l4 (PacketInfo0\<lparr>pi_pkt_len := of_nat n,
     pi_src_ip := ip4_src_addr h, pi_dst_ip := ip4_dst_addr h, pi_protocol := transport_proto l4,
     pi_payload_offset := of_nat (34 + length opts + transport_len l4)\<rparr>)"
| "packet_info (Ipv6 h) l4 n = with_transport l4 (PacketInfo0\<lparr>pi_pkt_len := of_nat n,
     pi_src_ip6 := ip6_src_addr h, pi_dst_ip6 := ip6_dst_addr h, pi_protocol := transport_proto l4, pi_is_ipv6 := True,
     pi_payload_offset := 54\<rparr>)"

lemma from_be16_from_be16 [simp]: "from_be16 (from_be16 w) = w"
  by (rule bit_word_eqI) (auto simp: from_be16_def bit_simps)

lemma ptr_at_append:
  "length hdr = len \<Longrightarrow> length pre = offset \<Longrightarrow> ptr_at len of_bytes (pre @ hdr @ post) offset = Some (of_bytes hdr)"
  by (simp add: ptr_at_def slice_all)

lemma length_eth [simp]:
  "length (eth_dst_mac h) = 6 \<Longrightarrow> length (eth_src_mac h) = 6 \<Longrightarrow> length (EthHdr_bytes h) = 14"
  by (simp add: EthHdr_bytes_def)

lemma length_ip6 [simp]:
  "length (ip6_src_addr h) = 16 \<Longrightarrow> length (ip6_dst_addr h) = 16 \<Longrightarrow> length (Ipv6Hdr_bytes h) = 40"
  by (simp add: Ipv6Hdr_bytes_def)

lemma proto_distinct [simp]: "proto_UDP \<noteq> proto_TCP" "proto_TCP \<noteq> proto_UDP"
  by (simp_all add: xdp_consts)

lemma ethertype_distinct [simp]: "ethertype_IPV6 \<noteq> ethertype_IPV4" "ethertype_IPV4 \<noteq> ethertype_IPV6"
  by (simp_all add: xdp_consts)

lemma parse_l4_v4_built:
  assumes "transport_ok l4" "pi_protocol info = transport_proto l4" "length pre = offset"
  shows "parse_l4_v4 (pre @ transport_bytes l4 @ payload) offset info
    = Some (with_transport l4 info, offset + transport_len l4)"
  using assms
  by (cases l4) (simp_all add: parse_l4_v4_def ptr_at_append TcpHdr_round UdpHdr_round Let_def data_off_def)

lemma parse_l4_v6_built:
  assumes "transport_ok l4" "pi_protocol info = transport_proto l4" "length pre = offset"
  shows "parse_l4_v6 (pre @ transport_bytes l4 @ payload) offset info = Some (with_transport l4 info)"
  using assms
  by (cases l4) (simp_all add: parse_l4_v6_def ptr_at_append TcpHdr_round UdpHdr_round Let_def data_off_def)

lemma with_transport_payload: "(with_transport l4 info)\<lparr>pi_payload_offset := n\<rparr> = with_transport l4 (info\<lparr>pi_payload_offset := n\<rparr>)"
  by (cases l4) simp_all

lemma parse_packet_bytes:
  assumes "packet_ok eth net l4"
  shows "parse_packet (packet_bytes eth net l4 payload) = Some (packet_info net l4 (length (packet_bytes eth net l4 payload)))"
proof (cases net)
  case (Ipv4 h opts)
  let ?pkt = "packet_bytes eth net l4 payload"
  have pkt: "?pkt = EthHdr_bytes eth @ Ipv4Hdr_bytes h @ opts @ transport_bytes l4 @ payload"
    by (simp add: packet_bytes_def Ipv4)
  have len: "length (EthHdr_bytes eth) = 14" and ihl: "unat (and (ip4_version_ihl h) 0x0F) * 4 = 20 + length opts"
    and ok: "transport_ok l4" and proto: "ip4_protocol h = transport_proto l4"
    and ty: "from_be16 (eth_ether_type eth) = ethertype_IPV4"
    using assms Ipv4 by simp_all
  have eth: "ptr_at 14 EthHdr_of ?pkt 0 = Some eth"
    using ptr_at_append [of "EthHdr_bytes eth" 14 "[]" 0 EthHdr_of] assms Ipv4 unfolding pkt by (simp add: EthHdr_round)
  have ip: "ptr_at 20 Ipv4Hdr_of ?pkt 14 = Some h"
    unfolding pkt by (subst ptr_at_append) (simp_all add: len Ipv4Hdr_round)
  have l4: "parse_l4_v4 ?pkt (34 + length opts) info = Some (with_transport l4 info, 34 + length opts + transport_len l4)"
    if "pi_protocol info = transport_proto l4" for info
    using parse_l4_v4_built [OF ok that, of "EthHdr_bytes eth @ Ipv4Hdr_bytes h @ opts" "34 + length opts"]
    by (simp add: pkt len)
  have "\<not> unat (and (ip4_version_ihl h) 0x0F) < 5" using ihl by linarith
  then show ?thesis
    unfolding parse_packet_def eth using ihl
    by (simp add: Ipv4 ty ip [unfolded Ipv4] mult.commute [of 4] l4 [unfolded Ipv4] Let_def proto with_transport_payload)
next
  case (Ipv6 h)
  let ?pkt = "packet_bytes eth net l4 payload"
  have pkt: "?pkt = EthHdr_bytes eth @ Ipv6Hdr_bytes h @ transport_bytes l4 @ payload"
    by (simp add: packet_bytes_def Ipv6)
  have len: "length (EthHdr_bytes eth) = 14" "length (Ipv6Hdr_bytes h) = 40"
    and ok: "transport_ok l4" and proto: "ip6_next_hdr h = transport_proto l4"
    and ty: "from_be16 (eth_ether_type eth) = ethertype_IPV6"
    using assms Ipv6 by simp_all
  have eth: "ptr_at 14 EthHdr_of ?pkt 0 = Some eth"
    using ptr_at_append [of "EthHdr_bytes eth" 14 "[]" 0 EthHdr_of] assms Ipv6 unfolding pkt by (simp add: EthHdr_round)
  have ip: "ptr_at 40 Ipv6Hdr_of ?pkt 14 = Some h"
    using assms Ipv6 unfolding pkt by (subst ptr_at_append) (simp_all add: len Ipv6Hdr_round)
  have l4: "parse_l4_v6 ?pkt 54 info = Some (with_transport l4 info)" if "pi_protocol info = transport_proto l4" for info
    using parse_l4_v6_built [OF ok that, of "EthHdr_bytes eth @ Ipv6Hdr_bytes h" 54] by (simp add: pkt len)
  show ?thesis
    unfolding parse_packet_def eth
    by (simp add: Ipv6 ty ip [unfolded Ipv6] l4 [unfolded Ipv6] Let_def proto with_transport_payload)
qed

text \<open>C32. The parser recovers what a sender put into a packet: for every well-formed IPv4 packet,
  whatever its options, and every IPv6 packet, carrying TCP, UDP or any other protocol and any
  payload, it succeeds and reports the addresses, the protocol, the ports in host order, the
  TCP flags, the length, and for IPv4 the offset of the payload.\<close>

theorem parse_built:
  assumes "packet_ok eth net l4"
  shows "parse_packet (packet_bytes eth net l4 payload) = Some (packet_info net l4 (length (packet_bytes eth net l4 payload)))"
  using assms by (rule parse_packet_bytes)

definition sample_eth :: EthHdr where
  "sample_eth = \<lparr>eth_dst_mac = [2, 0, 0, 0, 0, 1], eth_src_mac = [2, 0, 0, 0, 0, 2], eth_ether_type = from_be16 ethertype_IPV4\<rparr>"

definition sample_ip4 :: "bytes \<Rightarrow> u8 \<Rightarrow> Ipv4Hdr" where
  "sample_ip4 src p = \<lparr>ip4_version_ihl = 0x45, ip4_tos = 0, ip4_tot_len = from_be16 40, ip4_id = 0, ip4_frag_off = 0,
     ip4_ttl = 64, ip4_protocol = p, ip4_check = 0, ip4_src_addr = get_le src, ip4_dst_addr = get_le [192, 0, 2, 1]\<rparr>"

definition sample_syn :: TcpHdr where
  "sample_syn = \<lparr>tcp_source = from_be16 40000, tcp_dest = from_be16 443, tcp_seq = 1, tcp_ack_seq = 0,
     tcp_flags = from_be16 0x5002, tcp_window = 512, tcp_check = 0, tcp_urg_ptr = 0\<rparr>"

lemma data_off_syn: "data_off sample_syn = 5"
  by (simp add: data_off_def sample_syn_def)

theorem parse_built_witness:
  "packet_ok sample_eth (Ipv4 (sample_ip4 [10, 0, 0, 1] proto_TCP) []) (Tcp sample_syn)
   \<and> map_option pi_dst_port (parse_packet (packet_bytes sample_eth (Ipv4 (sample_ip4 [10, 0, 0, 1] proto_TCP) []) (Tcp sample_syn) []))
       = Some 443"
proof -
  have "packet_ok sample_eth (Ipv4 (sample_ip4 [10, 0, 0, 1] proto_TCP) []) (Tcp sample_syn)"
    by (simp add: sample_eth_def sample_ip4_def data_off_syn)
  then show ?thesis
    using parse_built [of sample_eth "Ipv4 (sample_ip4 [10, 0, 0, 1] proto_TCP) []" "Tcp sample_syn" "[]"]
    by (simp add: sample_syn_def)
qed

end
