(* ===== verification/XdpHoneypot.thy ===== *)
theory XdpHoneypot
  imports XdpParser
begin

text \<open>
  The honeypot redirect of the XDP program (\<open>ebpf-kern/src/honeypot.rs\<close> and
  \<open>honeypot_maps.rs\<close>): a packet of a source with the action redirect is rewritten in place and
  sent back out.  The rewriting functions return the packet beside their result, as also a
  failed redirect may have changed it.  Fields are stored as the target loads them, least
  significant byte first.
\<close>

section \<open>Targets\<close>

record HoneypotTarget =
  ht_dst_ip :: u32
  ht_dst_mac :: bytes
  ht_src_mac :: bytes
  ht_dst_port :: u16
  ht_active :: u8

definition MAX_HONEYPOT_TARGETS :: nat where "MAX_HONEYPOT_TARGETS = 16"

text \<open>An array map holds its elements from the start; a read behind its end gives nothing.\<close>

definition array_get :: "'v list \<Rightarrow> u32 \<Rightarrow> 'v option" where
  "array_get xs i = (if unat i < length xs then Some (xs ! unat i) else None)"

section \<open>Rewriting\<close>

datatype xdp_action = XDP_ABORTED | XDP_DROP | XDP_PASS | XDP_TX | XDP_REDIRECT

definition store :: "bytes \<Rightarrow> nat \<Rightarrow> bytes \<Rightarrow> bytes" where
  "store ctx off bs = take off ctx @ bs @ drop (off + length bs) ctx"

fun checksum_loop :: "bytes \<Rightarrow> nat \<Rightarrow> nat \<Rightarrow> nat list \<Rightarrow> u32 \<Rightarrow> u32 option" where
  "checksum_loop ctx ip_offset words [] sum0 = Some sum0"
| "checksum_loop ctx ip_offset words (i # is) sum0 =
     (if i \<ge> words then Some sum0
      else do {
        word \<leftarrow> ptr_at 2 get_le ctx (ip_offset + i * 2);
        checksum_loop ctx ip_offset words is (sum0 + ucast (from_be16 word))
      })"

definition fold_carry :: "u32 \<Rightarrow> u32" where
  "fold_carry sum0 = and sum0 0xFFFF + drop_bit 16 sum0"

definition compute_ip_checksum :: "bytes \<Rightarrow> nat \<Rightarrow> nat \<Rightarrow> u16 option" where
  "compute_ip_checksum ctx ip_offset ihl = do {
     sum0 \<leftarrow> checksum_loop ctx ip_offset (ihl div 2) [0..<30] 0;
     Some (not (ucast (fold_carry (fold_carry sum0))))
   }"

definition update_l4_checksum :: "u16 \<Rightarrow> u32 \<Rightarrow> u32 \<Rightarrow> u16 \<Rightarrow> u16 \<Rightarrow> u16" where
  "update_l4_checksum old_check old_ip new_ip old_port new_port =
     (let csum = ucast (not old_check) :: u32;
          csum = csum - drop_bit 16 old_ip;
          csum = csum - and old_ip 0xFFFF;
          csum = csum + drop_bit 16 new_ip;
          csum = csum + and new_ip 0xFFFF;
          csum = csum - ucast (from_be16 old_port);
          csum = csum + ucast (from_be16 new_port)
      in not (ucast (fold_carry (fold_carry csum))))"

text \<open>The port rewrite behind the IP header, at the offsets 2 of \<open>dest\<close> and 16 or 6 of \<open>check\<close>;
  \<open>to_be\<close> is the same swap as \<open>from_be\<close>.\<close>

definition rewrite_port :: "HoneypotTarget \<Rightarrow> u32 \<Rightarrow> u8 \<Rightarrow> nat \<Rightarrow> bytes \<Rightarrow> unit option \<times> bytes" where
  "rewrite_port target old_dst protocol l4_offset ctx =
     (let port = from_be16 (ht_dst_port target) in
      if protocol = proto_TCP then
        (case ptr_at 20 TcpHdr_of ctx l4_offset of
           None \<Rightarrow> (None, ctx)
         | Some tcp \<Rightarrow>
             let ctx = store ctx (l4_offset + 2) (put_le 2 port);
                 check = update_l4_checksum (tcp_check tcp) old_dst (ht_dst_ip target) (tcp_dest tcp) port
             in (Some (), store ctx (l4_offset + 16) (put_le 2 check)))
      else if protocol = proto_UDP then
        (case ptr_at 8 UdpHdr_of ctx l4_offset of
           None \<Rightarrow> (None, ctx)
         | Some udp \<Rightarrow>
             let ctx = store ctx (l4_offset + 2) (put_le 2 port);
                 check = update_l4_checksum (udp_check udp) old_dst (ht_dst_ip target) (udp_dest udp) port
             in (Some (), store ctx (l4_offset + 6) (put_le 2 check)))
      else (Some (), ctx))"

definition try_redirect :: "HoneypotTarget list \<Rightarrow> u32 list \<Rightarrow> bytes \<Rightarrow> xdp_action option \<times> bytes" where
  "try_redirect targets active ctx =
     (let active_idx = (case array_get active 0 of Some i \<Rightarrow> i | None \<Rightarrow> 0) in
      case array_get targets active_idx of
        None \<Rightarrow> (None, ctx)
      | Some target \<Rightarrow>
          if ht_active target = 0 \<or> ht_dst_ip target = 0 then (None, ctx)
          else (case ptr_at 14 EthHdr_of ctx 0 of
            None \<Rightarrow> (None, ctx)
          | Some eth \<Rightarrow>
              if from_be16 (eth_ether_type eth) \<noteq> ethertype_IPV4 then (None, ctx)
              else (case ptr_at 20 Ipv4Hdr_of ctx 14 of
                None \<Rightarrow> (None, ctx)
              | Some ip \<Rightarrow>
                  let ihl = unat (and (ip4_version_ihl ip) 0x0F) * 4 in
                  if ihl < 20 then (None, ctx)
                  else
                    let ctx = store ctx 0 (ht_dst_mac target);
                        ctx = store ctx 6 (ht_src_mac target);
                        ctx = store ctx (14 + 16) (put_le 4 (ht_dst_ip target));
                        ctx = store ctx (14 + 10) (put_le 2 (0 :: u16))
                    in case compute_ip_checksum ctx 14 ihl of
                         None \<Rightarrow> (None, ctx)
                       | Some check \<Rightarrow>
                           let ctx = store ctx (14 + 10) (put_le 2 check) in
                           if ht_dst_port target \<noteq> 0 then
                             (case rewrite_port target (ip4_dst_addr ip) (ip4_protocol ip) (14 + ihl) ctx of
                                (None, ctx) \<Rightarrow> (None, ctx)
                              | (Some _, ctx) \<Rightarrow> (Some XDP_TX, ctx))
                           else (Some XDP_TX, ctx))))"

definition redirect_to_honeypot :: "HoneypotTarget list \<Rightarrow> u32 list \<Rightarrow> bytes \<Rightarrow> xdp_action \<times> bytes" where
  "redirect_to_honeypot targets active ctx =
     (case try_redirect targets active ctx of
        (Some action, ctx) \<Rightarrow> (action, ctx)
      | (None, ctx) \<Rightarrow> (XDP_DROP, ctx))"

section \<open>The header checksum\<close>

text \<open>The sum of the 16-bit words of a header in network order.  A receiver accepts the header
  if the one's complement sum of all words, the checksum included, has all bits set: if the
  sum is a positive multiple of 65535.\<close>

fun words16 :: "bytes \<Rightarrow> nat list" where
  "words16 (a # b # bs) = (256 * unat a + unat b) # words16 bs"
| "words16 _ = []"

definition header_valid :: "bytes \<Rightarrow> bool" where
  "header_valid bs \<longleftrightarrow> 0 < sum_list (words16 bs) \<and> 65535 dvd sum_list (words16 bs)"

lemma unat_less_u8: "unat (b :: u8) < 256"
  using unsigned_less [of b] by (rule order_less_le_trans) simp

lemma unat_from_be16_le: "unat (from_be16 (get_le [a, b])) = 256 * unat a + unat b"
proof -
  have "from_be16 (get_le [a, b]) = or (push_bit 8 (ucast a)) (ucast b)"
    by (rule bit_word_eqI) (auto simp: from_be16_def bit_simps dest: bit_imp_le_length)
  also have "\<dots> = push_bit 8 (ucast a) + (ucast b :: u16)"
    by (rule disjunctive_add_eq_or [symmetric], rule bit_word_eqI) (auto simp: bit_simps dest: bit_imp_le_length)
  also have "\<dots> = of_nat (256 * unat a + unat b)"
    by (simp add: push_bit_eq_mult)
  finally show ?thesis
    using unat_less_u8 [of a] unat_less_u8 [of b] by (simp only: unat_of_nat) simp
qed

lemma words16_append: "even (length xs) \<Longrightarrow> words16 (xs @ ys) = words16 xs @ words16 ys"
  by (induction xs rule: words16.induct) auto

lemma words16_le: "w \<in> set (words16 bs) \<Longrightarrow> w \<le> 65535"
proof (induction bs rule: words16.induct)
  case (1 a b bs)
  then show ?case using unat_less_u8 [of a] unat_less_u8 [of b] by auto
qed auto

lemma length_words16: "length (words16 bs) = length bs div 2"
  by (induction bs rule: words16.induct) auto

lemma sum_words16_le: "sum_list (words16 bs) \<le> 65535 * (length bs div 2)"
proof -
  have "sum_list (words16 bs) \<le> sum_list (map (\<lambda>_. 65535) (words16 bs))"
    using sum_list_mono [of "words16 bs" "\<lambda>w. w" "\<lambda>_. 65535"] words16_le by simp
  then show ?thesis by (simp add: sum_list_triv length_words16 mult.commute)
qed

lemma slice_two: "off + 2 \<le> length ctx \<Longrightarrow> slice ctx off 2 = [ctx ! off, ctx ! Suc off]"
  by (simp add: slice_def take_Suc_conv_app_nth numeral_2_eq_2)

lemma slice_split: "off + 2 + n \<le> length ctx \<Longrightarrow> slice ctx off (2 + n) = ctx ! off # ctx ! Suc off # slice ctx (off + 2) n"
  by (simp add: slice_def Cons_nth_drop_Suc [symmetric])

lemma checksum_loop_sum:
  assumes "i \<le> words" "words \<le> 30" "off + 2 * words \<le> length ctx"
  shows "checksum_loop ctx off words [i..<30] s = Some (s + of_nat (sum_list (words16 (slice ctx (off + 2 * i) (2 * (words - i))))))"
  using assms
proof (induction "30 - i" arbitrary: i s)
  case 0
  then show ?case by (simp add: slice_def)
next
  case (Suc k)
  then have i: "i < 30" by simp
  show ?case
  proof (cases "i < words")
    case True
    have w: "ptr_at 2 get_le ctx (off + i * 2) = Some (get_le [ctx ! (off + 2 * i), ctx ! Suc (off + 2 * i)])"
      using True Suc.prems by (simp add: ptr_at_def slice_two mult.commute)
    have "2 * (words - i) = 2 + 2 * (words - Suc i)" using True by simp
    then have sl: "slice ctx (off + 2 * i) (2 * (words - i))
        = ctx ! (off + 2 * i) # ctx ! Suc (off + 2 * i) # slice ctx (off + 2 * Suc i) (2 * (words - Suc i))"
      using slice_split [of "off + 2 * i" "2 * (words - Suc i)" ctx] True Suc.prems by simp
    have u: "ucast (from_be16 (get_le [a, b])) = (of_nat (256 * unat a + unat b) :: u32)" for a b :: u8
      by (metis of_nat_unat unat_from_be16_le)
    show ?thesis
      unfolding upt_conv_Cons [OF i] checksum_loop.simps w sl
      using True Suc.hyps(1) [of "Suc i" "s + of_nat (256 * unat (ctx ! (off + 2 * i)) + unat (ctx ! Suc (off + 2 * i)))"]
        Suc.hyps(2) Suc.prems
      by (simp add: u del: get_le.simps)
  next
    case False
    then show ?thesis
      using Suc.prems i by (simp add: upt_conv_Cons slice_def)
  qed
qed

lemma unat_fold_carry: "unat (fold_carry s) = unat s mod 65536 + unat s div 65536"
proof -
  have lo: "and s 0xFFFF = take_bit 16 s" by (simp add: take_bit_eq_mask mask_eq_exp_minus_1)
  have a: "unat (and s 0xFFFF) = unat s mod 65536"
    unfolding lo unsigned_take_bit_eq by (simp add: take_bit_eq_mod)
  have d: "unat (drop_bit 16 s) = unat s div 65536"
    unfolding unsigned_drop_bit_eq using unat_less_u32 [of s] by (simp add: take_bit_nat_eq_self drop_bit_eq_div)
  have "unat s div 65536 < 65536" using unat_less_u32 [of s] by simp
  then have "unat (and s 0xFFFF) + unat (drop_bit 16 s) < 2 ^ 32" unfolding a d using mod_less_divisor [of 65536 "unat s"] by simp
  then show ?thesis by (simp add: fold_carry_def unat_word_ariths a d)
qed

lemma fold_carry_mod: "(n mod 65536 + n div 65536) mod 65535 = (n :: nat) mod 65535"
proof -
  have "n = (n mod 65536 + n div 65536) + 65535 * (n div 65536)"
    using mult_div_mod_eq [of 65536 n] by linarith
  then have "n mod 65535 = ((n mod 65536 + n div 65536) + 65535 * (n div 65536)) mod 65535" by (rule arg_cong)
  then show ?thesis by (simp only: mod_mult_self2)
qed

lemma fold_twice:
  assumes "unat s < 2 ^ 21"
  shows "unat (fold_carry (fold_carry s)) < 65536" "unat (fold_carry (fold_carry s)) mod 65535 = unat s mod 65535"
proof -
  define n m where "n = unat s" and "m = unat (fold_carry s)"
  have m: "m = n mod 65536 + n div 65536" unfolding m_def n_def by (rule unat_fold_carry)
  have "n div 65536 < 32" using assms unfolding n_def by (simp add: div_less_iff_less_mult)
  moreover have "n mod 65536 < 65536" by simp
  ultimately have "m < 65536 + 32" unfolding m by linarith
  then have "m mod 65536 + m div 65536 < 65536"
    by (cases "m < 65536") (use mult_div_mod_eq [of 65536 m] in linarith)+
  then show "unat (fold_carry (fold_carry s)) < 65536"
    unfolding unat_fold_carry [of "fold_carry s"] m_def .
  show "unat (fold_carry (fold_carry s)) mod 65535 = unat s mod 65535"
    unfolding unat_fold_carry [of "fold_carry s"] fold_carry_mod unat_fold_carry [of s] ..
qed

lemma unat_not_u16: "unat (not (w :: u16)) = 65535 - unat w"
proof -
  have "not w = - 1 - w" by (simp add: not_eq_complement)
  then show ?thesis
    using unat_sub [of w "- 1"] by (simp add: word_order.extremum unsigned_minus_1_eq_mask mask_eq_exp_minus_1)
qed

text \<open>The number the program computes completes the sum of the header to a multiple of 65535.\<close>

lemma compute_ip_checksum_sum:
  assumes "compute_ip_checksum ctx 14 ihl = Some c" "even ihl" "ihl \<le> 60" "14 + ihl \<le> length ctx"
  shows "(sum_list (words16 (slice ctx 14 ihl)) + unat c) mod 65535 = 0"
proof -
  let ?S = "sum_list (words16 (slice ctx 14 ihl))"
  let ?s = "of_nat ?S :: u32"
  have S: "?S \<le> 65535 * 30"
    by (rule order_trans [OF sum_words16_le]) (use assms(3) in \<open>simp add: slice_def\<close>)
  have "checksum_loop ctx 14 (ihl div 2) [0..<30] 0 = Some ?s"
    using checksum_loop_sum [of 0 "ihl div 2" 14 ctx 0] assms by auto
  with assms(1) have c: "c = not (ucast (fold_carry (fold_carry ?s)))"
    by (simp add: compute_ip_checksum_def)
  have s: "unat ?s = ?S" using S by (simp add: unat_of_nat)
  define f where "f = unat (fold_carry (fold_carry ?s))"
  have f: "f < 65536" "f mod 65535 = ?S mod 65535"
    using fold_twice [of ?s] S unfolding f_def s by simp_all
  have "unat (ucast (fold_carry (fold_carry ?s)) :: u16) = f"
    using f(1) unfolding f_def unsigned_ucast_eq by (simp add: take_bit_nat_eq_self)
  then have "unat c = 65535 - f" unfolding c unat_not_u16 by simp
  then have "(?S + unat c) mod 65535 = (?S mod 65535 + (65535 - f)) mod 65535"
    by (simp only: mod_add_left_eq)
  also have "\<dots> = (f mod 65535 + (65535 - f)) mod 65535" by (simp only: f(2))
  also have "\<dots> = (f + (65535 - f)) mod 65535" by (rule mod_add_left_eq)
  also have "\<dots> = 0" using f(1) by simp
  finally show ?thesis .
qed

section \<open>What a redirect writes\<close>

lemma length_store [simp]: "off + length bs \<le> length ctx \<Longrightarrow> length (store ctx off bs) = length ctx"
  by (simp add: store_def)

lemma nth_store:
  "off + length bs \<le> length ctx \<Longrightarrow> i < length ctx \<Longrightarrow>
   store ctx off bs ! i = (if off \<le> i \<and> i < off + length bs then bs ! (i - off) else ctx ! i)"
  by (auto simp: store_def nth_append)

lemma slice_eqI:
  assumes "off + n \<le> length xs" "off + n \<le> length ys" "\<And>i. i < n \<Longrightarrow> xs ! (off + i) = ys ! (off + i)"
  shows "slice xs off n = slice ys off n"
  using assms by (intro nth_equalityI) (auto simp: slice_def)

lemma slice_store_same:
  "off + length bs \<le> length ctx \<Longrightarrow> n = length bs \<Longrightarrow> slice (store ctx off bs) off n = bs"
  by (simp add: store_def slice_def)

lemma slice_store_other:
  "off + length bs \<le> length ctx \<Longrightarrow> o' + n \<le> off \<or> off + length bs \<le> o' \<Longrightarrow> o' + n \<le> length ctx \<Longrightarrow>
   slice (store ctx off bs) o' n = slice ctx o' n"
  by (rule slice_eqI) (auto simp: nth_store)

text \<open>The port rewrite changes at most the port and the checksum of the transport header.\<close>

definition l4_positions :: "u8 \<Rightarrow> nat \<Rightarrow> nat set" where
  "l4_positions protocol l4 =
     (if protocol = proto_TCP then {l4 + 2, l4 + 3, l4 + 16, l4 + 17}
      else if protocol = proto_UDP then {l4 + 2, l4 + 3, l4 + 6, l4 + 7} else {})"

lemma rewrite_port_frame:
  assumes "rewrite_port target old_dst protocol l4 ctx = (r, ctx')"
  shows "length ctx' = length ctx" and "i < length ctx \<Longrightarrow> i \<notin> l4_positions protocol l4 \<Longrightarrow> ctx' ! i = ctx ! i"
proof -
  consider (tcp) "protocol = proto_TCP" | (udp) "protocol = proto_UDP" "protocol \<noteq> proto_TCP"
    | (other) "protocol \<noteq> proto_TCP" "protocol \<noteq> proto_UDP" by blast
  then have "length ctx' = length ctx \<and> (i < length ctx \<longrightarrow> i \<notin> l4_positions protocol l4 \<longrightarrow> ctx' ! i = ctx ! i)"
  proof cases
    case tcp
    then show ?thesis
      using assms by (auto simp: rewrite_port_def Let_def ptr_at_def nth_store l4_positions_def split: if_splits)
  next
    case udp
    then show ?thesis
      using assms by (auto simp: rewrite_port_def Let_def ptr_at_def nth_store l4_positions_def split: if_splits)
  next
    case other
    then show ?thesis using assms by (simp add: rewrite_port_def)
  qed
  then show "length ctx' = length ctx" and "i < length ctx \<Longrightarrow> i \<notin> l4_positions protocol l4 \<Longrightarrow> ctx' ! i = ctx ! i"
    by auto
qed

text \<open>The target in use, and what is known after a redirect that did not fail.\<close>

definition active_target :: "HoneypotTarget list \<Rightarrow> u32 list \<Rightarrow> HoneypotTarget option" where
  "active_target targets active = array_get targets (case array_get active 0 of Some i \<Rightarrow> i | None \<Rightarrow> 0)"

definition header_len :: "bytes \<Rightarrow> nat" where
  "header_len ctx = unat (and (ctx ! 14) 0x0F) * 4"

definition headers_rewritten :: "HoneypotTarget \<Rightarrow> bytes \<Rightarrow> bytes" where
  "headers_rewritten t ctx = store (store (store (store ctx 0 (ht_dst_mac t)) 6 (ht_src_mac t)) 30 (put_le 4 (ht_dst_ip t)))
     24 (put_le 2 (0 :: u16))"

definition target_ok :: "HoneypotTarget \<Rightarrow> bool" where
  "target_ok t \<longleftrightarrow> length (ht_dst_mac t) = 6 \<and> length (ht_src_mac t) = 6"

lemma try_redirect_TX:
  assumes "try_redirect targets active ctx = (Some a, ctx')"
  obtains t check where "active_target targets active = Some t" "ht_active t \<noteq> 0" "ht_dst_ip t \<noteq> 0"
    "a = XDP_TX" "34 \<le> length ctx" "20 \<le> header_len ctx"
    "compute_ip_checksum (headers_rewritten t ctx) 14 (header_len ctx) = Some check"
    "ctx' = store (headers_rewritten t ctx) 24 (put_le 2 check) \<and> ht_dst_port t = 0
     \<or> (\<exists>old. rewrite_port t old (ctx ! 23) (14 + header_len ctx)
          (store (headers_rewritten t ctx) 24 (put_le 2 check)) = (Some (), ctx')) \<and> ht_dst_port t \<noteq> 0"
proof -
  obtain t where t: "active_target targets active = Some t" and ok: "ht_active t \<noteq> 0" "ht_dst_ip t \<noteq> 0"
    using assms by (auto simp: try_redirect_def active_target_def Let_def split: option.splits if_splits)
  have len: "34 \<le> length ctx"
    using assms by (auto simp: try_redirect_def Let_def ptr_at_def split: option.splits if_splits)
  have fields: "ip4_version_ihl (Ipv4Hdr_of (slice ctx 14 20)) = ctx ! 14" "ip4_protocol (Ipv4Hdr_of (slice ctx 14 20)) = ctx ! 23"
    using len by (simp_all add: Ipv4Hdr_of_def slice_def)
  have "\<not> header_len ctx < 20"
    using assms len by (auto simp: try_redirect_def Let_def ptr_at_def fields header_len_def split: option.splits if_splits)
  then show ?thesis
    using assms t ok len
    apply (auto simp: try_redirect_def active_target_def [symmetric] Let_def ptr_at_def fields
        header_len_def [symmetric] headers_rewritten_def [symmetric] split: option.splits if_splits prod.splits intro!: that)
    done
qed

lemma array_get_in: "array_get xs i = Some v \<Longrightarrow> v \<in> set xs"
  by (auto simp: array_get_def split: if_splits)

lemma active_target_in: "active_target targets active = Some t \<Longrightarrow> t \<in> set targets"
  by (auto simp: active_target_def intro: array_get_in)

lemma headers_rewritten_nth:
  assumes "target_ok t" "34 \<le> length ctx" "i < length ctx"
  shows "headers_rewritten t ctx ! i = (if i < 6 then ht_dst_mac t ! i else if i < 12 then ht_src_mac t ! (i - 6)
    else if i = 24 \<or> i = 25 then 0 else if 30 \<le> i \<and> i < 34 then put_le 4 (ht_dst_ip t) ! (i - 30) else ctx ! i)"
proof -
  have zero: "i = 24 \<or> i = 25 \<Longrightarrow> put_le 2 (0 :: u16) ! (i - 24) = 0" by (auto simp: numeral_2_eq_2)
  show ?thesis
    using assms zero by (auto simp: headers_rewritten_def nth_store target_ok_def)
qed

lemma length_headers_rewritten: "target_ok t \<Longrightarrow> 34 \<le> length ctx \<Longrightarrow> length (headers_rewritten t ctx) = length ctx"
  by (simp add: headers_rewritten_def target_ok_def)

text \<open>The parts of a redirected packet outside the transport header, and the frame.\<close>

lemma redirect_result:
  assumes "try_redirect targets active ctx = (Some a, ctx')" "\<forall>t\<in>set targets. target_ok t"
  obtains t check where "active_target targets active = Some t" "target_ok t" "34 \<le> length ctx" "20 \<le> header_len ctx"
    "length ctx' = length ctx" "a = XDP_TX"
    "compute_ip_checksum (headers_rewritten t ctx) 14 (header_len ctx) = Some check"
    "\<forall>i<length ctx. ht_dst_port t = 0 \<or> i \<notin> l4_positions (ctx ! 23) (14 + header_len ctx) \<longrightarrow>
       ctx' ! i = store (headers_rewritten t ctx) 24 (put_le 2 check) ! i"
proof -
  obtain t check where t: "active_target targets active = Some t" "a = XDP_TX" "34 \<le> length ctx" "20 \<le> header_len ctx"
    and c: "compute_ip_checksum (headers_rewritten t ctx) 14 (header_len ctx) = Some check"
    and r: "ctx' = store (headers_rewritten t ctx) 24 (put_le 2 check) \<and> ht_dst_port t = 0
     \<or> (\<exists>old. rewrite_port t old (ctx ! 23) (14 + header_len ctx)
          (store (headers_rewritten t ctx) 24 (put_le 2 check)) = (Some (), ctx')) \<and> ht_dst_port t \<noteq> 0"
    by (rule try_redirect_TX [OF assms(1)]) blast
  have ok: "target_ok t" using assms(2) active_target_in [OF t(1)] by blast
  have len: "length (store (headers_rewritten t ctx) 24 (put_le 2 check)) = length ctx"
    using t(3) ok by (simp add: length_headers_rewritten)
  have "length ctx' = length ctx"
    using r rewrite_port_frame(1) len by metis
  moreover have "ctx' ! i = store (headers_rewritten t ctx) 24 (put_le 2 check) ! i"
    if "i < length ctx" "ht_dst_port t = 0 \<or> i \<notin> l4_positions (ctx ! 23) (14 + header_len ctx)" for i
    using r that rewrite_port_frame(2) len by metis
  ultimately show ?thesis using that t ok c by blast
qed

lemma l4_positions_ge: "i \<in> l4_positions p l4 \<Longrightarrow> l4 + 2 \<le> i"
  by (auto simp: l4_positions_def split: if_splits)

lemma header_len_le: "header_len ctx \<le> 60" "even (header_len ctx)"
proof -
  have "and (ctx ! 14) 0x0F = take_bit 4 (ctx ! 14)" by (simp add: take_bit_eq_mask mask_eq_exp_minus_1)
  then have "unat (and (ctx ! 14) 0x0F) < 16"
    using take_bit_nat_less_exp [of 4 "unat (ctx ! 14)"] by (simp add: unsigned_take_bit_eq)
  then show "header_len ctx \<le> 60" by (simp add: header_len_def)
  show "even (header_len ctx)" by (simp add: header_len_def)
qed

lemma checksum_loop_bounds:
  assumes "checksum_loop ctx off words [i..<30] s = Some r" "i < words" "words \<le> 30"
  shows "off + 2 * words \<le> length ctx"
  using assms
proof (induction "30 - i" arbitrary: i s)
  case (Suc k)
  then have i: "i < 30" by simp
  from Suc.prems(1,2) obtain w where w: "ptr_at 2 get_le ctx (off + i * 2) = Some (w :: u16)"
    and rest: "checksum_loop ctx off words [Suc i..<30] (s + ucast (from_be16 w)) = Some r"
    unfolding upt_conv_Cons [OF i] by (auto split: Option.bind_splits)
  show ?case
  proof (cases "Suc i < words")
    case True
    show ?thesis by (rule Suc.hyps(1) [OF _ rest True Suc.prems(3)]) (use Suc.hyps(2) in simp)
  next
    case False
    then show ?thesis using w Suc.prems(2) by (auto simp: ptr_at_def split: if_splits)
  qed
qed simp

lemma compute_ip_checksum_bounds:
  assumes "compute_ip_checksum ctx 14 ihl = Some c" "even ihl" "0 < ihl" "ihl \<le> 60"
  shows "14 + ihl \<le> length ctx"
proof -
  obtain r where "checksum_loop ctx 14 (ihl div 2) [0..<30] 0 = Some r"
    using assms(1) by (auto simp: compute_ip_checksum_def split: Option.bind_splits)
  then show ?thesis using checksum_loop_bounds [of ctx 14 "ihl div 2" 0 0 r] assms(2-4) by auto
qed

lemma compute_ip_checksum_iff:
  assumes "even ihl" "0 < ihl" "ihl \<le> 60"
  shows "compute_ip_checksum ctx 14 ihl = None \<longleftrightarrow> length ctx < 14 + ihl"
proof
  assume "compute_ip_checksum ctx 14 ihl = None"
  then have "checksum_loop ctx 14 (ihl div 2) [0..<30] 0 = None"
    by (cases "checksum_loop ctx 14 (ihl div 2) [0..<30] 0") (simp_all add: compute_ip_checksum_def)
  then show "length ctx < 14 + ihl" using checksum_loop_sum [of 0 "ihl div 2" 14 ctx 0] assms by fastforce
next
  assume "length ctx < 14 + ihl"
  then show "compute_ip_checksum ctx 14 ihl = None"
    using compute_ip_checksum_bounds [OF _ assms] by (metis not_le option.exhaust)
qed

text \<open>The bytes of the transport header that a port override needs, and what it writes.\<close>

definition l4_need :: "u8 \<Rightarrow> nat" where
  "l4_need protocol = (if protocol = proto_TCP then 20 else if protocol = proto_UDP then 8 else 0)"

lemma rewrite_port_iff: "fst (rewrite_port t old p l4 ctx) = None \<longleftrightarrow> l4_need p \<noteq> 0 \<and> length ctx < l4 + l4_need p"
  by (auto simp: rewrite_port_def l4_need_def ptr_at_def Let_def)

lemma put_le_swap: "put_le 2 (from_be16 w) = put_be 2 w"
proof -
  obtain a b where w: "put_le 2 w = [a, b]" by (simp add: numeral_2_eq_2)
  then have "w = get_le [a, b]" using get_put_le_full [of 2 w] by simp
  then have "from_be16 w = get_le [b, a]"
    by (simp only:) (rule bit_word_eqI, auto simp: from_be16_def bit_simps dest: bit_imp_le_length)
  then show ?thesis using put_get_le [of "[b, a]", where 'a = 16] w by (simp add: put_be_def numeral_2_eq_2)
qed

lemma rewrite_port_dest:
  assumes "rewrite_port t old p l4 ctx = (Some (), ctx')" "l4_need p \<noteq> 0"
  shows "slice ctx' (l4 + 2) 2 = put_be 2 (ht_dst_port t)"
proof -
  have field: "slice (store (store ctx (l4 + 2) bs) (l4 + k) cs) (l4 + 2) 2 = bs"
    if "4 \<le> k" "l4 + k + 2 \<le> length ctx" "length bs = 2" "length cs = 2" for bs cs k
    using that by (simp add: slice_store_other slice_store_same del: add_2_eq_Suc')
  show ?thesis
    using assms
    by (auto simp: rewrite_port_def l4_need_def ptr_at_def Let_def put_le_swap field put_be_def simp del: add_2_eq_Suc' split: if_splits)
qed

text \<open>The packets that can be sent to a target.\<close>

definition redirectable :: "HoneypotTarget \<Rightarrow> bytes \<Rightarrow> bool" where
  "redirectable t ctx \<longleftrightarrow> ht_active t \<noteq> 0 \<and> ht_dst_ip t \<noteq> 0 \<and> 34 \<le> length ctx \<and> ctx ! 12 = 8 \<and> ctx ! 13 = 0
     \<and> 20 \<le> header_len ctx \<and> 14 + header_len ctx \<le> length ctx
     \<and> (ht_dst_port t \<noteq> 0 \<longrightarrow> 14 + header_len ctx + l4_need (ctx ! 23) \<le> length ctx)"

lemma ether_type_ipv4:
  assumes "14 \<le> length ctx"
  shows "from_be16 (eth_ether_type (EthHdr_of (slice ctx 0 14))) = ethertype_IPV4 \<longleftrightarrow> ctx ! 12 = 8 \<and> ctx ! 13 = 0"
proof -
  have "slice (slice ctx 0 14) 12 2 = [ctx ! 12, ctx ! 13]"
    using assms by (intro nth_equalityI) (auto simp: slice_def less_Suc_eq numeral_2_eq_2)
  then have "unat (from_be16 (eth_ether_type (EthHdr_of (slice ctx 0 14)))) = 256 * unat (ctx ! 12) + unat (ctx ! 13)"
    by (simp add: EthHdr_of_def unat_from_be16_le del: get_le.simps)
  moreover have "256 * unat (ctx ! 12) + unat (ctx ! 13) = 2048 \<longleftrightarrow> unat (ctx ! 12) = 8 \<and> unat (ctx ! 13) = 0"
  proof -
    have "y < 256 \<Longrightarrow> 256 * x + y = 2048 \<longleftrightarrow> x = 8 \<and> y = 0" for x y :: nat by presburger
    then show ?thesis using unat_less_u8 [of "ctx ! 13"] .
  qed
  ultimately show ?thesis by (auto simp: word_unat_eq_iff ethertype_IPV4_def)
qed

lemma try_redirect_iff:
  assumes "active_target targets active = Some t" "target_ok t"
  shows "fst (try_redirect targets active ctx) = None \<longleftrightarrow> \<not> redirectable t ctx"
proof (cases "ht_active t \<noteq> 0 \<and> ht_dst_ip t \<noteq> 0 \<and> 34 \<le> length ctx \<and> ctx ! 12 = 8 \<and> ctx ! 13 = 0 \<and> 20 \<le> header_len ctx")
  case False
  have hl: "34 \<le> length ctx \<Longrightarrow> ip4_version_ihl (Ipv4Hdr_of (slice ctx 14 20)) = ctx ! 14"
    by (simp add: Ipv4Hdr_of_def slice_def)
  have "fst (try_redirect targets active ctx) = None"
    using False ether_type_ipv4 [of ctx] hl
    by (auto simp: try_redirect_def active_target_def [symmetric] assms(1) Let_def ptr_at_def header_len_def)
  then show ?thesis using False by (auto simp: redirectable_def)
next
  case True
  have fields: "ip4_version_ihl (Ipv4Hdr_of (slice ctx 14 20)) = ctx ! 14" "ip4_protocol (Ipv4Hdr_of (slice ctx 14 20)) = ctx ! 23"
    using True by (simp_all add: Ipv4Hdr_of_def slice_def)
  let ?z = "headers_rewritten t ctx" and ?l = "header_len ctx"
  have len: "length ?z = length ctx" using True by (intro length_headers_rewritten [OF assms(2)]) simp
  have ck: "compute_ip_checksum ?z 14 ?l = None \<longleftrightarrow> length ctx < 14 + ?l"
    using compute_ip_checksum_iff [of ?l ?z] header_len_le [of ctx] True len by simp
  have port: "fst (rewrite_port t old (ctx ! 23) (14 + ?l) (store ?z 24 (put_le 2 (c :: u16)))) = None
      \<longleftrightarrow> l4_need (ctx ! 23) \<noteq> 0 \<and> length ctx < 14 + ?l + l4_need (ctx ! 23)" for old c
    using rewrite_port_iff [of t old "ctx ! 23" "14 + ?l" "store ?z 24 (put_le 2 c)"] True len by simp
  have "try_redirect targets active ctx = (case compute_ip_checksum ?z 14 ?l of None \<Rightarrow> (None, ?z)
     | Some check \<Rightarrow> if ht_dst_port t \<noteq> 0 then
         (case rewrite_port t (ip4_dst_addr (Ipv4Hdr_of (slice ctx 14 20))) (ctx ! 23) (14 + ?l) (store ?z 24 (put_le 2 check)) of
            (None, ctx) \<Rightarrow> (None, ctx) | (Some _, ctx) \<Rightarrow> (Some XDP_TX, ctx))
       else (Some XDP_TX, store ?z 24 (put_le 2 check)))"
    using True ether_type_ipv4 [of ctx]
    by (cases "compute_ip_checksum ?z 14 ?l") (simp_all add: try_redirect_def active_target_def [symmetric] assms(1) Let_def
        ptr_at_def fields header_len_def [symmetric] headers_rewritten_def)
  then have "fst (try_redirect targets active ctx) = None \<longleftrightarrow> length ctx < 14 + ?l
      \<or> ht_dst_port t \<noteq> 0 \<and> l4_need (ctx ! 23) \<noteq> 0 \<and> length ctx < 14 + ?l + l4_need (ctx ! 23)"
    using ck port by (auto split: option.splits prod.splits)
      (metis fst_conv option.distinct(1) option.exhaust)+
  then show ?thesis using True by (auto simp: redirectable_def)
qed

text \<open>What is sent out, outside the transport header.\<close>

lemma redirect_sent:
  assumes "try_redirect targets active ctx = (Some a, ctx')" "\<forall>t\<in>set targets. target_ok t"
  shows "a = XDP_TX \<and> (\<exists>t. active_target targets active = Some t \<and> length ctx' = length ctx
    \<and> slice ctx' 0 6 = ht_dst_mac t \<and> slice ctx' 6 6 = ht_src_mac t \<and> slice ctx' 30 4 = put_le 4 (ht_dst_ip t)
    \<and> (\<forall>i<length ctx. 12 \<le> i \<and> i \<notin> {24, 25, 30, 31, 32, 33}
         \<and> (ht_dst_port t = 0 \<or> i \<notin> l4_positions (ctx ! 23) (14 + header_len ctx)) \<longrightarrow> ctx' ! i = ctx ! i))"
proof -
  obtain t check where t: "active_target targets active = Some t" "target_ok t" "34 \<le> length ctx" "20 \<le> header_len ctx"
      "length ctx' = length ctx" "a = XDP_TX"
      "compute_ip_checksum (headers_rewritten t ctx) 14 (header_len ctx) = Some check"
    and nth: "\<forall>i<length ctx. ht_dst_port t = 0 \<or> i \<notin> l4_positions (ctx ! 23) (14 + header_len ctx) \<longrightarrow>
       ctx' ! i = store (headers_rewritten t ctx) 24 (put_le 2 check) ! i"
    by (rule redirect_result [OF assms(1) assms(2)])
  have val: "ctx' ! i = headers_rewritten t ctx ! i"
    if "i < length ctx" "i \<noteq> 24" "i \<noteq> 25" "ht_dst_port t = 0 \<or> i \<notin> l4_positions (ctx ! 23) (14 + header_len ctx)" for i
  proof -
    have "\<not> (24 \<le> i \<and> i < 26)" using that(2,3) by linarith
    then show ?thesis
      using nth [rule_format, OF that(1,4)] that(1) t(2,3) by (auto simp: nth_store length_headers_rewritten)
  qed
  have low: "ctx' ! i = headers_rewritten t ctx ! i" if "i < 34" "i \<noteq> 24" "i \<noteq> 25" for i
  proof (rule val)
    have "i \<notin> l4_positions (ctx ! 23) (14 + header_len ctx)"
    proof
      assume "i \<in> l4_positions (ctx ! 23) (14 + header_len ctx)"
      from l4_positions_ge [OF this] show False using t(4) that(1) by linarith
    qed
    then show "ht_dst_port t = 0 \<or> i \<notin> l4_positions (ctx ! 23) (14 + header_len ctx)" ..
  qed (use that t(3) in auto)
  have len: "length (ht_dst_mac t) = 6" "length (ht_src_mac t) = 6" using t(2) by (simp_all add: target_ok_def)
  note hnth = headers_rewritten_nth [OF t(2,3)]
  have "slice ctx' 0 6 = ht_dst_mac t"
    by (rule nth_equalityI) (use t(3,5) len in \<open>simp_all add: slice_def low hnth\<close>)
  moreover have "slice ctx' 6 6 = ht_src_mac t"
    by (rule nth_equalityI) (use t(3,5) len in \<open>simp_all add: slice_def low hnth\<close>)
  moreover have "slice ctx' 30 4 = put_le 4 (ht_dst_ip t)"
    by (rule nth_equalityI) (use t(3,5) in \<open>simp_all add: slice_def low hnth\<close>)
  moreover have "ctx' ! i = ctx ! i" if "i < length ctx" "12 \<le> i" "i \<notin> {24, 25, 30, 31, 32, 33}"
      "ht_dst_port t = 0 \<or> i \<notin> l4_positions (ctx ! 23) (14 + header_len ctx)" for i
  proof -
    have "\<not> (30 \<le> i \<and> i < 34)" using that(3) by auto
    then show ?thesis using val [OF that(1) _ _ that(4)] hnth [OF that(1)] that(2,3) by auto
  qed
  ultimately show ?thesis using t(1,5,6) by blast
qed

lemma redirect_port:
  assumes "try_redirect targets active ctx = (Some a, ctx')" "active_target targets active = Some t" "ht_dst_port t \<noteq> 0"
    and "ctx ! 23 = proto_TCP \<or> ctx ! 23 = proto_UDP"
  shows "slice ctx' (14 + header_len ctx + 2) 2 = put_be 2 (ht_dst_port t)"
proof (rule try_redirect_TX [OF assms(1)])
  fix t' check
  assume "active_target targets active = Some t'"
    and r: "ctx' = store (headers_rewritten t' ctx) 24 (put_le 2 check) \<and> ht_dst_port t' = 0
     \<or> (\<exists>old. rewrite_port t' old (ctx ! 23) (14 + header_len ctx)
          (store (headers_rewritten t' ctx) 24 (put_le 2 check)) = (Some (), ctx')) \<and> ht_dst_port t' \<noteq> 0"
  then have "t' = t" using assms(2) by simp
  with r assms(3) obtain old where "rewrite_port t old (ctx ! 23) (14 + header_len ctx)
      (store (headers_rewritten t ctx) 24 (put_le 2 check)) = (Some (), ctx')" by auto
  then show ?thesis by (rule rewrite_port_dest) (use assms(4) in \<open>auto simp: l4_need_def\<close>)
qed

text \<open>C33. A redirect sends the packet out exactly if there is an active target with an address and the packet
  is an IPv4 packet whose headers are complete, the transport header included when the target
  overrides the port; in every other case the packet is dropped.  What is sent out has the same length, the
  two MAC addresses and the destination address are those of the target, an overriding port is written as
  the number in the field of the target with the more significant byte first, and every other
  byte is unchanged but for the header checksum and the checksum of a TCP or UDP header whose port is
  overridden.  The control plane stores the port in network order already, so the number in
  the field, and with it the port of the packet, has its bytes exchanged.\<close>

theorem redirect_rewrites:
  assumes "\<forall>t\<in>set targets. target_ok t" "redirect_to_honeypot targets active ctx = (a, ctx')"
  shows "(case active_target targets active of
      None \<Rightarrow> a = XDP_DROP
    | Some t \<Rightarrow> a = (if redirectable t ctx then XDP_TX else XDP_DROP) \<and> (redirectable t ctx \<longrightarrow>
        length ctx' = length ctx \<and> slice ctx' 0 6 = ht_dst_mac t \<and> slice ctx' 6 6 = ht_src_mac t
        \<and> slice ctx' 30 4 = put_le 4 (ht_dst_ip t)
        \<and> (ht_dst_port t \<noteq> 0 \<and> (ctx ! 23 = proto_TCP \<or> ctx ! 23 = proto_UDP) \<longrightarrow>
             slice ctx' (14 + header_len ctx + 2) 2 = put_be 2 (ht_dst_port t))
        \<and> (\<forall>i<length ctx. 12 \<le> i \<and> i \<notin> {24, 25, 30, 31, 32, 33}
             \<and> (ht_dst_port t = 0 \<or> i \<notin> l4_positions (ctx ! 23) (14 + header_len ctx)) \<longrightarrow> ctx' ! i = ctx ! i)))"
proof (cases "active_target targets active")
  case None
  then have "try_redirect targets active ctx = (None, ctx)" by (simp add: try_redirect_def active_target_def)
  then show ?thesis using None assms(2) by (simp add: redirect_to_honeypot_def)
next
  case (Some t)
  have ok: "target_ok t" using assms(1) active_target_in [OF Some] by blast
  show ?thesis
  proof (cases "redirectable t ctx")
    case False
    then have "fst (try_redirect targets active ctx) = None" using try_redirect_iff [OF Some ok] by simp
    then show ?thesis using False Some assms(2)
      by (cases "try_redirect targets active ctx") (simp add: redirect_to_honeypot_def)
  next
    case True
    then have "fst (try_redirect targets active ctx) \<noteq> None" using try_redirect_iff [OF Some ok] by simp
    then have r: "try_redirect targets active ctx = (Some a, ctx')"
      using assms(2) by (cases "try_redirect targets active ctx") (auto simp: redirect_to_honeypot_def)
    show ?thesis
      using redirect_sent [OF r assms(1)] redirect_port [OF r Some] True Some by simp
  qed
qed

text \<open>The checksum of the rewritten header.  Byte 24 of the packet is the more significant byte of
  the checksum field.\<close>

lemma sum_words16_field:
  assumes "even k" "k + 2 \<le> length xs" "length ys = length xs" "\<And>i. i < length xs \<Longrightarrow> i \<noteq> k \<Longrightarrow> i \<noteq> Suc k \<Longrightarrow> ys ! i = xs ! i"
    and "xs ! k = 0" "xs ! Suc k = 0"
  shows "sum_list (words16 ys) = sum_list (words16 xs) + (256 * unat (ys ! k) + unat (ys ! Suc k))"
proof -
  have split: "zs = take k zs @ zs ! k # zs ! Suc k # drop (k + 2) zs" if "length zs = length xs" for zs :: bytes
    using that assms(2) by (simp add: Cons_nth_drop_Suc)
  have eq: "take k ys = take k xs" "drop (k + 2) ys = drop (k + 2) xs"
    using assms(2-4) by (auto intro!: nth_equalityI)
  have w: "sum_list (words16 zs) = sum_list (words16 (take k zs)) + (256 * unat (zs ! k) + unat (zs ! Suc k))
      + sum_list (words16 (drop (k + 2) zs))" if "length zs = length xs" for zs
    by (subst split [OF that], subst words16_append) (use assms(1,2) that in simp_all)
  show ?thesis using w [OF assms(3)] w [of xs] eq assms(5,6) by simp
qed

lemma mod_65535_swap:
  fixes a b S :: nat
  assumes "65535 dvd S + (256 * a + b)" "a < 256" "b < 256"
  shows "65535 dvd S + (256 * b + a) \<longleftrightarrow> a = b"
proof
  assume "65535 dvd S + (256 * b + a)"
  then obtain r where r: "S + (256 * b + a) = 65535 * r" by (rule dvdE)
  obtain q where q: "S + (256 * a + b) = 65535 * q" using assms(1) by (rule dvdE)
  show "a = b"
  proof (cases r q rule: linorder_cases)
    case less
    then have "65535 * r + 65535 \<le> 65535 * q" by simp
    with r q assms(2,3) show ?thesis by linarith
  next
    case equal
    with r q show ?thesis by linarith
  next
    case greater
    then have "65535 * q + 65535 \<le> 65535 * r" by simp
    with r q assms(2,3) show ?thesis by linarith
  qed
qed (use assms(1) in simp)

lemma unat_get_le2: "unat (get_le [a, b] :: u16) = 256 * unat b + unat a"
proof -
  have "get_le [a, b] = from_be16 (get_le [b, a])"
    by (rule bit_word_eqI) (auto simp: from_be16_def bit_simps dest: bit_imp_le_length)
  then show ?thesis by (simp only: unat_from_be16_le)
qed

text \<open>The header checksum of a redirected packet is computed correctly and stored in the wrong
  byte order: the header is valid with the two bytes of the checksum exchanged, and as sent it
  is valid only if the two bytes are equal.\<close>

theorem redirect_checksum_order:
  assumes "\<forall>t\<in>set targets. target_ok t" "redirect_to_honeypot targets active ctx = (XDP_TX, ctx')"
  defines "hdr \<equiv> slice ctx' 14 (header_len ctx)"
  shows "header_valid (hdr[10 := hdr ! 11, 11 := hdr ! 10]) \<and> (header_valid hdr \<longleftrightarrow> hdr ! 10 = hdr ! 11)"
proof -
  have r: "try_redirect targets active ctx = (Some XDP_TX, ctx')"
    using assms(2) by (cases "try_redirect targets active ctx"; cases "fst (try_redirect targets active ctx)")
      (simp_all add: redirect_to_honeypot_def)
  obtain t check where t: "active_target targets active = Some t" "target_ok t" "34 \<le> length ctx" "20 \<le> header_len ctx"
      "length ctx' = length ctx" "XDP_TX = XDP_TX"
      "compute_ip_checksum (headers_rewritten t ctx) 14 (header_len ctx) = Some check"
    and nth: "\<forall>i<length ctx. ht_dst_port t = 0 \<or> i \<notin> l4_positions (ctx ! 23) (14 + header_len ctx) \<longrightarrow>
       ctx' ! i = store (headers_rewritten t ctx) 24 (put_le 2 check) ! i"
    by (rule redirect_result [OF r assms(1)])
  let ?L = "header_len ctx" and ?z = "headers_rewritten t ctx"
  let ?Z = "slice ?z 14 ?L"
  have zlen: "length ?z = length ctx" by (rule length_headers_rewritten [OF t(2,3)])
  have fit: "14 + ?L \<le> length ctx"
    using compute_ip_checksum_bounds [OF t(7)] header_len_le [of ctx] t(4) zlen by simp
  have low: "hdr ! i = store ?z 24 (put_le 2 check) ! (14 + i)" if "i < ?L" for i
  proof -
    have "14 + i \<notin> l4_positions (ctx ! 23) (14 + ?L)"
      using l4_positions_ge [of "14 + i" "ctx ! 23" "14 + ?L"] that by linarith
    then show ?thesis using nth [rule_format, of "14 + i"] that fit t(5) by (simp add: hdr_def slice_def)
  qed
  have len: "length hdr = ?L" "length ?Z = ?L" using fit t(5) zlen by (simp_all add: hdr_def slice_def)
  have Z: "?Z ! i = ?z ! (14 + i)" if "i < ?L" for i using that fit zlen by (simp add: slice_def)
  have other: "hdr ! i = ?Z ! i" if "i < ?L" "i \<noteq> 10" "i \<noteq> 11" for i
  proof -
    have "\<not> (24 \<le> 14 + i \<and> 14 + i < 26)" using that(2,3) by linarith
    then show ?thesis using low [OF that(1)] Z [OF that(1)] that(1) fit zlen t(3) by (auto simp: nth_store)
  qed
  have bytes: "put_le 2 check = [hdr ! 10, hdr ! 11]"
    using low [of 10] low [of 11] t(3,4) zlen by (simp add: nth_store numeral_2_eq_2)
  have zero: "?Z ! 10 = 0" "?Z ! 11 = 0"
    using Z [of 10] Z [of 11] t(4) headers_rewritten_nth [OF t(2,3)] t(3) by simp_all
  define S lo hi where "S = sum_list (words16 ?Z)" and "lo = unat (hdr ! 10)" and "hi = unat (hdr ! 11)"
  have "unat check = 256 * hi + lo"
    using unat_get_le2 [of "hdr ! 10" "hdr ! 11"] get_put_le_full [of 2 check] by (simp add: bytes lo_def hi_def)
  then have dvd: "65535 dvd S + (256 * hi + lo)"
    using compute_ip_checksum_sum [OF t(7) header_len_le(2,1)] fit zlen by (simp add: S_def mod_0_imp_dvd)
  have small: "hi < 256" "lo < 256" unfolding lo_def hi_def by (rule unat_less_u8)+
  have "?Z ! 0 = ctx ! 14" using Z [of 0] t(3,4) headers_rewritten_nth [OF t(2,3), of 14] by simp
  then have "0 < unat (?Z ! 0)" using t(4) by (cases "ctx ! 14 = 0") (simp_all add: header_len_def unat_gt_0)
  moreover have "?Z = ?Z ! 0 # ?Z ! 1 # drop 2 ?Z" using len(2) t(4) by (simp add: Cons_nth_drop_Suc numeral_2_eq_2)
  ultimately have "0 < S" unfolding S_def by (metis words16.simps(1) sum_list.Cons add_gr_0 nat_0_less_mult_iff zero_less_numeral)
  have sum: "sum_list (words16 ys) = S + (256 * unat (ys ! 10) + unat (ys ! 11))"
    if "length ys = ?L" "\<And>i. i < ?L \<Longrightarrow> i \<noteq> 10 \<Longrightarrow> i \<noteq> 11 \<Longrightarrow> ys ! i = ?Z ! i" for ys
    using sum_words16_field [of 10 ?Z ys] that len t(4) zero by (simp add: S_def)
  have "sum_list (words16 hdr) = S + (256 * lo + hi)" unfolding lo_def hi_def by (rule sum) (use len other in auto)
  moreover have "sum_list (words16 (hdr[10 := hdr ! 11, 11 := hdr ! 10])) = S + (256 * hi + lo)"
    using sum [of "hdr[10 := hdr ! 11, 11 := hdr ! 10]"] len other t(4) by (simp add: lo_def hi_def)
  moreover have "hdr ! 10 = hdr ! 11 \<longleftrightarrow> hi = lo" unfolding lo_def hi_def by (auto simp: word_unat_eq_iff)
  ultimately show ?thesis
    using dvd mod_65535_swap [OF dvd small] \<open>0 < S\<close> by (simp add: header_valid_def)
qed

text \<open>A target, and a packet without port override on its way to it.\<close>

definition sample_target :: HoneypotTarget where
  "sample_target = \<lparr>ht_dst_ip = get_le [198, 51, 100, 7], ht_dst_mac = [2, 0, 0, 0, 0, 9], ht_src_mac = [2, 0, 0, 0, 0, 1],
     ht_dst_port = 0, ht_active = 1\<rparr>"

definition sample_packet :: bytes where
  "sample_packet = packet_bytes sample_eth (Ipv4 (sample_ip4 [10, 0, 0, 1] proto_TCP) []) (Tcp sample_syn) []"

lemma sample_redirect_fst: "fst (redirect_to_honeypot [sample_target] [0] sample_packet) = XDP_TX"
  by code_simp

lemma sample_redirect_hdr:
  "slice (snd (redirect_to_honeypot [sample_target] [0] sample_packet)) 14 (header_len sample_packet)
     = [0x45, 0, 0, 40, 0, 0, 0, 0, 64, 6, 0x95, 0x46, 10, 0, 0, 1, 198, 51, 100, 7]"
  by code_simp

lemma sample_targets_ok: "\<forall>t\<in>set [sample_target]. target_ok t"
  by (simp add: sample_target_def target_ok_def)

theorem redirect_checksum_order_witness:
  "\<not> header_valid (slice (snd (redirect_to_honeypot [sample_target] [0] sample_packet)) 14 (header_len sample_packet))"
proof -
  have "redirect_to_honeypot [sample_target] [0] sample_packet
      = (XDP_TX, snd (redirect_to_honeypot [sample_target] [0] sample_packet))"
    using sample_redirect_fst by (metis prod.collapse)
  from redirect_checksum_order [OF sample_targets_ok this] show ?thesis
    unfolding sample_redirect_hdr by simp
qed

theorem redirect_rewrites_witness:
  "fst (redirect_to_honeypot [sample_target] [0] sample_packet) = XDP_TX
   \<and> slice (snd (redirect_to_honeypot [sample_target] [0] sample_packet)) 30 4 = put_le 4 (ht_dst_ip sample_target)"
proof -
  have "active_target [sample_target] [0] = Some sample_target" by (simp add: active_target_def array_get_def)
  moreover have "redirectable sample_target sample_packet" by code_simp
  ultimately show ?thesis
    using redirect_rewrites [OF sample_targets_ok
        surjective_pairing [of "redirect_to_honeypot [sample_target] [0] sample_packet"]] by simp
qed

text \<open>The incremental update of the transport checksum subtracts with a borrow out of 32 bits and
  adds it back as one too much: for the stored checksum \<open>0xFFFF\<close> and an address word that
  decreases by one the result is 0, where the update of RFC 1624, the one's complement of the
  one's complement sum, is 1.\<close>

lemma l4_checksum_borrow: "update_l4_checksum 0xFFFF 1 0 0 0 = 0"
  by code_simp

text \<open>A port stored in the target in network order, as the control plane writes it, is swapped
  once more: the override 443 sends the packet to port 47873.\<close>

lemma port_override_swapped:
  "put_le 2 (from_be16 (get_le (put_be 2 (443 :: u16)))) = put_be 2 (47873 :: u16)"
  by code_simp

end
