(* ===== verification/XdpMain.thy ===== *)
theory XdpMain
  imports XdpHoneypot BpfManager
begin

text \<open>
  The XDP program (\<open>ebpf-kern/src/main.rs\<close>): the pipeline every packet passes, over the maps it
  shares with the control plane.  The state holds the maps and the counters of one CPU.  Reads
  and writes through a pointer into a map act on the element itself; an insert goes through
  the kernel, the parameter \<open>K\<close>, and may fail or evict other elements.  The values of the
  shared maps are the records of theory \<open>BpfTypes\<close>, whose layout both sides agree on.  \<open>kt\<close> are the
  readings of \<open>bpf_ktime_get_ns\<close> in source order: 0 of the failsafe, 1 of the blocklist, 2 of the
  SYN counter, 3 of the rate limiter, 4 of the SYN heuristic.

  The bloom filter is a parameter too: whether a value passes, given the values pushed.  The
  program relies on there being no false negatives.
\<close>

section \<open>State\<close>

record xkernel = kernel +
  k_cooling :: "(u32, CoolingEntry) ebpf"
  k_syn :: "(u32, SynCountEntry) ebpf"
  k_bloom :: "u32 list \<Rightarrow> u32 \<Rightarrow> bool"

record xdp =
  x_v4 :: "(u32, BlockEntry) kmap"
  x_v6 :: "(bytes, BlockEntry) kmap"
  x_bloom :: "u32 list"
  x_cooling :: "(u32, CoolingEntry) kmap"
  x_syn :: "(u32, SynCountEntry) kmap"
  x_rate :: "(u32, RateBucket) kmap"
  x_mapped :: "MappedXdpStats option"
  x_stats :: "XdpStats option"
  x_failsafe :: "(u32, FailsafeState) kmap"
  x_config :: "(u32, FalxMapConfig) kmap"
  x_targets :: "HoneypotTarget list"
  x_active :: "u32 list"

definition COOLING_BASE_S :: u64 where "COOLING_BASE_S = 10"
definition MAX_COOLING_SHIFT :: u32 where "MAX_COOLING_SHIFT = 16"
definition SYN_FLOOD_THRESHOLD :: u32 where "SYN_FLOOD_THRESHOLD = 50"
definition SYN_FLOOD_PENALTY_R :: u32 where "SYN_FLOOD_PENALTY_R = 8"

text \<open>Saturating arithmetic of Rust, and a write through a pointer to an element.\<close>

definition saturating_add :: "'a::len word \<Rightarrow> 'a word \<Rightarrow> 'a word" where
  "saturating_add a b = (if unat a + unat b < 2 ^ LENGTH('a) then a + b else - 1)"

definition saturating_sub :: "'a::len word \<Rightarrow> 'a word \<Rightarrow> 'a word" where
  "saturating_sub a b = (if b \<le> a then a - b else 0)"

definition km_put :: "'k \<Rightarrow> 'v \<Rightarrow> ('k, 'v) kmap \<Rightarrow> ('k, 'v) kmap" where
  "km_put k v s = s\<lparr>km_data := AList.update k v (km_data s)\<rparr>"

section \<open>Counters and configuration\<close>

definition bump_mapped :: "(MappedXdpStats \<Rightarrow> MappedXdpStats) \<Rightarrow> xdp \<Rightarrow> xdp" where
  "bump_mapped f x = x\<lparr>x_mapped := map_option f (x_mapped x)\<rparr>"

definition bump_stat :: "(XdpStats \<Rightarrow> XdpStats) \<Rightarrow> xdp \<Rightarrow> xdp" where
  "bump_stat f x = x\<lparr>x_stats := map_option f (x_stats x)\<rparr>"

definition read_config :: "xdp \<Rightarrow> FalxMapConfig" where
  "read_config x =
     (case km_view (x_config x) ConfigIdx of
        Some c \<Rightarrow> c
      | None \<Rightarrow> FalxMapConfig0\<lparr>DefaultAction := ActionPass, RateLimitEnabled := 1, FailsafeEnabled := 1,
          RateCapacity := 1000, RateRefillNs := 1000000\<rparr>)"

section \<open>Cooling bans\<close>

definition apply_cooling_ban :: "xkernel \<Rightarrow> u32 \<Rightarrow> u64 \<Rightarrow> u32 \<Rightarrow> xdp \<Rightarrow> xdp" where
  "apply_cooling_ban K src_ip now_ns min_r x =
     (let now_s = now_ns div 1000000000;
          min_r_c = (if min_r \<le> MAX_COOLING_SHIFT then min_r else MAX_COOLING_SHIFT);
          (r, ban_secs, x) =
            (case km_view (x_cooling x) src_ip of
               Some entry \<Rightarrow>
                 let prev = RepeatCount entry;
                     r_nat = (if prev < MAX_COOLING_SHIFT then prev + 1 else MAX_COOLING_SHIFT);
                     r = (if r_nat > min_r_c then r_nat else min_r_c);
                     ban = push_bit (unat r) COOLING_BASE_S
                 in (r, ban, x\<lparr>x_cooling := km_put src_ip (entry\<lparr>RepeatCount := r, LastBanAtNs := now_ns\<rparr>) (x_cooling x)\<rparr>)
             | None \<Rightarrow>
                 let r = min_r_c;
                     ban = push_bit (unat r) COOLING_BASE_S;
                     fresh = \<lparr>RepeatCount = r, CePad = 0, LastBanAtNs = now_ns\<rparr>
                 in (r, ban, x\<lparr>x_cooling := snd (e_update (k_cooling K) src_ip fresh (x_cooling x))\<rparr>));
          expire_at = saturating_add now_s ban_secs;
          block = \<lparr>ExpireAt = expire_at, Action = ActionDrop, RuleID = 0xFF, ThreatScore = ucast (min r 100),
            BePad = 0, Reason = ReasonCoolingBan\<rparr>;
          x = x\<lparr>x_v4 := snd (e_update (k_v4 K) src_ip block (x_v4 x))\<rparr>;
          x = x\<lparr>x_bloom := src_ip # x_bloom x\<rparr>
      in bump_stat (\<lambda>s. s\<lparr>CoolingBans := saturating_add (CoolingBans s) 1\<rparr>) x)"

section \<open>The checks of the pipeline\<close>

definition check_failsafe :: "(nat \<Rightarrow> u64) \<Rightarrow> PacketInfo \<Rightarrow> xdp \<Rightarrow> xdp_action option \<times> xdp" where
  "check_failsafe kt pkt x =
     (case km_view (x_failsafe x) FailsafeIdx of
        None \<Rightarrow> (None, x)
      | Some s \<Rightarrow>
          let now_ns = kt 0;
              elapsed = saturating_sub now_ns (WindowStartNs s);
              bits = ucast (pi_pkt_len pkt) * 8;
              s = (if elapsed \<ge> 1000000000
                   then s\<lparr>CurrentPPS := 1, CurrentBPS := bits, WindowStartNs := now_ns\<rparr>
                   else s\<lparr>CurrentPPS := saturating_add (CurrentPPS s) 1, CurrentBPS := saturating_add (CurrentBPS s) bits\<rparr>);
              s = (if CircuitOpen s = 0 \<and> (CurrentPPS s > PPSThreshold s \<or> CurrentBPS s > BPSThreshold s)
                   then s\<lparr>CircuitOpen := 1, OpenSinceNs := now_ns\<rparr> else s);
              x = x\<lparr>x_failsafe := km_put FailsafeIdx s (x_failsafe x)\<rparr>
          in if CircuitOpen s \<noteq> 0
             then (Some XDP_DROP, bump_stat (\<lambda>st. st\<lparr>FailsafeDrops := saturating_add (FailsafeDrops st) 1\<rparr>) x)
             else (None, x))"

definition entry_expired :: "u64 \<Rightarrow> BlockEntry \<Rightarrow> bool" where
  "entry_expired now_ns entry \<longleftrightarrow> ExpireAt entry \<noteq> 0 \<and> now_ns div 1000000000 \<ge> ExpireAt entry"

definition check_blocklist_v4 :: "(nat \<Rightarrow> u64) \<Rightarrow> bytes \<Rightarrow> u32 \<Rightarrow> xdp \<Rightarrow> xdp_action option \<times> bytes \<times> xdp" where
  "check_blocklist_v4 kt ctx src_ip x =
     (case km_view (x_v4 x) src_ip of
        None \<Rightarrow> (None, ctx, x)
      | Some entry \<Rightarrow>
          if entry_expired (kt 1) entry then (None, ctx, x)
          else if Action entry = ActionDrop
          then (Some XDP_DROP, ctx, bump_stat (\<lambda>s. s\<lparr>Dropped := saturating_add (Dropped s) 1\<rparr>) x)
          else if Action entry = ActionRedirect
          then let x = bump_stat (\<lambda>s. s\<lparr>Redirected := saturating_add (Redirected s) 1\<rparr>) x;
                   (a, ctx) = redirect_to_honeypot (x_targets x) (x_active x) ctx
               in (Some a, ctx, x)
          else (None, ctx, x))"

definition check_blocklist_v6 :: "(nat \<Rightarrow> u64) \<Rightarrow> bytes \<Rightarrow> xdp \<Rightarrow> xdp_action option \<times> xdp" where
  "check_blocklist_v6 kt src_ip6 x =
     (case km_view (x_v6 x) src_ip6 of
        None \<Rightarrow> (None, x)
      | Some entry \<Rightarrow>
          if entry_expired (kt 1) entry then (None, x)
          else if Action entry = ActionDrop
          then (Some XDP_DROP, bump_stat (\<lambda>s. s\<lparr>Dropped := saturating_add (Dropped s) 1\<rparr>) x)
          else (None, x))"

definition check_rate_limit :: "xkernel \<Rightarrow> (nat \<Rightarrow> u64) \<Rightarrow> u32 \<Rightarrow> FalxMapConfig \<Rightarrow> xdp \<Rightarrow> xdp_action option \<times> xdp" where
  "check_rate_limit K kt src_ip cfg x =
     (let now_ns = kt 3 in
      case km_view (x_rate x) src_ip of
        Some bucket \<Rightarrow>
          let elapsed = saturating_sub now_ns (RbLastRefill bucket);
              refill_amt = (if RbRefillRate bucket = 0 then 0 else elapsed div RbRefillRate bucket);
              bucket = (if refill_amt > 0
                        then bucket\<lparr>RbTokens := min (saturating_add (RbTokens bucket) refill_amt) (RbCapacity bucket),
                               RbLastRefill := now_ns\<rparr>
                        else bucket)
          in if RbTokens bucket = 0
             then let bucket = bucket\<lparr>RbDropCount := saturating_add (RbDropCount bucket) 1\<rparr>;
                      x = x\<lparr>x_rate := km_put src_ip bucket (x_rate x)\<rparr>
                  in (Some XDP_DROP, apply_cooling_ban K src_ip now_ns 0 x)
             else (None, x\<lparr>x_rate := km_put src_ip (bucket\<lparr>RbTokens := RbTokens bucket - 1\<rparr>) (x_rate x)\<rparr>)
      | None \<Rightarrow>
          let bucket = \<lparr>RbTokens = saturating_sub (RateCapacity cfg) 1, RbLastRefill = now_ns,
                RbCapacity = RateCapacity cfg, RbRefillRate = RateRefillNs cfg, RbDropCount = 0\<rparr>
          in (None, x\<lparr>x_rate := snd (e_update (k_rate K) src_ip bucket (x_rate x))\<rparr>))"

definition check_syn_flood :: "xkernel \<Rightarrow> (nat \<Rightarrow> u64) \<Rightarrow> u32 \<Rightarrow> xdp \<Rightarrow> xdp_action option \<times> xdp" where
  "check_syn_flood K kt src_ip x =
     (case km_view (x_rate x) src_ip of
        Some bucket \<Rightarrow>
          if RbTokens bucket < 10
          then let bucket = bucket\<lparr>RbDropCount := saturating_add (RbDropCount bucket) 1\<rparr>;
                   x = x\<lparr>x_rate := km_put src_ip bucket (x_rate x)\<rparr>
               in (Some XDP_DROP, apply_cooling_ban K src_ip (kt 4) 0 x)
          else (None, x\<lparr>x_rate := km_put src_ip (bucket\<lparr>RbTokens := RbTokens bucket - 10\<rparr>) (x_rate x)\<rparr>)
      | None \<Rightarrow> (None, x))"

definition check_syn_counter :: "xkernel \<Rightarrow> u32 \<Rightarrow> u8 \<Rightarrow> u64 \<Rightarrow> xdp \<Rightarrow> xdp_action option \<times> xdp" where
  "check_syn_counter K src_ip flags now_ns x =
     (if and flags flag_ACK \<noteq> 0 \<and> and flags flag_SYN = 0 then
        (case km_view (x_syn x) src_ip of
           Some entry \<Rightarrow>
             (None, x\<lparr>x_syn := km_put src_ip (entry\<lparr>SynCount := 0, AckCount := saturating_add (AckCount entry) 1\<rparr>) (x_syn x)\<rparr>)
         | None \<Rightarrow> (None, x))
      else if \<not> is_syn_only flags then (None, x)
      else
        (case km_view (x_syn x) src_ip of
           Some entry \<Rightarrow>
             let syn = saturating_add (SynCount entry) 1;
                 x = x\<lparr>x_syn := km_put src_ip (entry\<lparr>SynCount := syn\<rparr>) (x_syn x)\<rparr>
             in if syn \<ge> SYN_FLOOD_THRESHOLD \<and> AckCount entry = 0 then
                  let x = apply_cooling_ban K src_ip now_ns SYN_FLOOD_PENALTY_R x;
                      x = bump_stat (\<lambda>s. s\<lparr>SynFloodBans := saturating_add (SynFloodBans s) 1\<rparr>) x;
                      x = x\<lparr>x_syn := km_put src_ip (entry\<lparr>SynCount := 0\<rparr>) (x_syn x)\<rparr>
                  in (Some XDP_DROP, x)
                else (None, x)
         | None \<Rightarrow>
             (None, x\<lparr>x_syn := snd (e_update (k_syn K) src_ip \<lparr>SynCount = 1, AckCount = 0\<rparr> (x_syn x))\<rparr>)))"

section \<open>The pipeline\<close>

definition count_rx :: "PacketInfo \<Rightarrow> xdp \<Rightarrow> xdp" where
  "count_rx pkt = bump_mapped (\<lambda>m. m\<lparr>mRxPackets := saturating_add (mRxPackets m) 1,
     mRxBytes := saturating_add (mRxBytes m) (ucast (pi_pkt_len pkt))\<rparr>)"

definition count_passed :: "PacketInfo \<Rightarrow> xdp \<Rightarrow> xdp" where
  "count_passed pkt = bump_mapped (\<lambda>m. m\<lparr>mPassed := saturating_add (mPassed m) 1,
     mPassedBytes := saturating_add (mPassedBytes m) (ucast (pi_pkt_len pkt))\<rparr>)"

definition count_dropped :: "PacketInfo \<Rightarrow> xdp \<Rightarrow> xdp" where
  "count_dropped pkt = bump_mapped (\<lambda>m. m\<lparr>mDropped := saturating_add (mDropped m) 1,
     mDroppedBytes := saturating_add (mDroppedBytes m) (ucast (pi_pkt_len pkt))\<rparr>)"

definition count_rate_limited :: "xdp \<Rightarrow> xdp" where
  "count_rate_limited = bump_stat (\<lambda>s. s\<lparr>RateLimited := saturating_add (RateLimited s) 1\<rparr>)"

text \<open>The steps [5] and [6 + 7]: the failsafe, then the blocklists.\<close>

definition failsafe_step :: "(nat \<Rightarrow> u64) \<Rightarrow> FalxMapConfig \<Rightarrow> PacketInfo \<Rightarrow> xdp \<Rightarrow> xdp_action option \<times> xdp" where
  "failsafe_step kt cfg pkt x =
     (if FailsafeEnabled cfg \<noteq> 0 then
        (case check_failsafe kt pkt x of
           (Some verdict, x) \<Rightarrow> (Some verdict, if verdict = XDP_DROP then count_dropped pkt x else x)
         | (None, x) \<Rightarrow> (None, x))
      else (None, x))"

definition blocklist_step ::
    "xkernel \<Rightarrow> (nat \<Rightarrow> u64) \<Rightarrow> PacketInfo \<Rightarrow> bytes \<Rightarrow> xdp \<Rightarrow> xdp_action option \<times> bytes \<times> xdp" where
  "blocklist_step K kt pkt ctx x =
     (if \<not> pi_is_ipv6 pkt then
        (if k_bloom K (x_bloom x) (pi_src_ip pkt) then
           (case check_blocklist_v4 kt ctx (pi_src_ip pkt) x of
              (Some verdict, ctx, x) \<Rightarrow> (Some verdict, ctx, if verdict = XDP_DROP then count_dropped pkt x else x)
            | (None, ctx, x) \<Rightarrow> (None, ctx, x))
         else (None, ctx, x))
      else
        (case check_blocklist_v6 kt (pi_src_ip6 pkt) x of
           (Some verdict, x) \<Rightarrow> (Some verdict, ctx, if verdict = XDP_DROP then count_dropped pkt x else x)
         | (None, x) \<Rightarrow> (None, ctx, x)))"

text \<open>The steps [7.5], [8] and [9].\<close>

definition syn_counter_step :: "xkernel \<Rightarrow> (nat \<Rightarrow> u64) \<Rightarrow> PacketInfo \<Rightarrow> xdp \<Rightarrow> xdp_action option \<times> xdp" where
  "syn_counter_step K kt pkt x =
     (if pi_protocol pkt = proto_TCP \<and> \<not> pi_is_ipv6 pkt then
        (case check_syn_counter K (pi_src_ip pkt) (pi_tcp_flags pkt) (kt 2) x of
           (Some verdict, x) \<Rightarrow> (Some verdict, count_dropped pkt x)
         | (None, x) \<Rightarrow> (None, x))
      else (None, x))"

definition rate_limit_step ::
    "xkernel \<Rightarrow> (nat \<Rightarrow> u64) \<Rightarrow> FalxMapConfig \<Rightarrow> PacketInfo \<Rightarrow> xdp \<Rightarrow> xdp_action option \<times> xdp" where
  "rate_limit_step K kt cfg pkt x =
     (if RateLimitEnabled cfg \<noteq> 0 \<and> \<not> pi_is_ipv6 pkt then
        (case check_rate_limit K kt (pi_src_ip pkt) cfg x of
           (Some verdict, x) \<Rightarrow> (Some verdict, count_rate_limited x)
         | (None, x) \<Rightarrow> (None, x))
      else (None, x))"

definition syn_flood_step ::
    "xkernel \<Rightarrow> (nat \<Rightarrow> u64) \<Rightarrow> FalxMapConfig \<Rightarrow> PacketInfo \<Rightarrow> xdp \<Rightarrow> xdp_action option \<times> xdp" where
  "syn_flood_step K kt cfg pkt x =
     (if pi_protocol pkt = proto_TCP \<and> is_syn_only (pi_tcp_flags pkt) \<and> RateLimitEnabled cfg \<noteq> 0 \<and> \<not> pi_is_ipv6 pkt then
        (case check_syn_flood K kt (pi_src_ip pkt) x of
           (Some verdict, x) \<Rightarrow> (Some verdict, count_rate_limited x)
         | (None, x) \<Rightarrow> (None, x))
      else (None, x))"

definition process_packet :: "xkernel \<Rightarrow> (nat \<Rightarrow> u64) \<Rightarrow> bytes \<Rightarrow> xdp \<Rightarrow> xdp_action \<times> bytes \<times> xdp" where
  "process_packet K kt ctx x =
     (if length ctx < 14 then (XDP_DROP, ctx, x)
      else case parse_packet ctx of
        None \<Rightarrow> (XDP_DROP, ctx, bump_stat (\<lambda>s. s\<lparr>ParseErrors := saturating_add (ParseErrors s) 1\<rparr>) x)
      | Some pkt \<Rightarrow>
          let x = count_rx pkt x; cfg = read_config x in
          if pi_src_ip pkt = 0 \<and> \<not> pi_is_ipv6 pkt then (XDP_PASS, ctx, count_passed pkt x)
          else case failsafe_step kt cfg pkt x of
            (Some verdict, x) \<Rightarrow> (verdict, ctx, x)
          | (None, x) \<Rightarrow>
              (case blocklist_step K kt pkt ctx x of
                 (Some verdict, ctx, x) \<Rightarrow> (verdict, ctx, x)
               | (None, ctx, x) \<Rightarrow>
                   (case syn_counter_step K kt pkt x of
                      (Some verdict, x) \<Rightarrow> (verdict, ctx, x)
                    | (None, x) \<Rightarrow>
                        (case rate_limit_step K kt cfg pkt x of
                           (Some verdict, x) \<Rightarrow> (verdict, ctx, x)
                         | (None, x) \<Rightarrow>
                             (case syn_flood_step K kt cfg pkt x of
                                (Some verdict, x) \<Rightarrow> (verdict, ctx, x)
                              | (None, x) \<Rightarrow> (XDP_PASS, ctx, count_passed pkt x))))))"

text \<open>\<open>process_packet\<close> has no error result, so \<open>falx_xdp\<close> returns its verdict.\<close>

definition falx_xdp :: "xkernel \<Rightarrow> (nat \<Rightarrow> u64) \<Rightarrow> bytes \<Rightarrow> xdp \<Rightarrow> xdp_action \<times> bytes \<times> xdp" where
  "falx_xdp = process_packet"

text \<open>A sequence of packets, each with the readings of the clock during its processing.\<close>

fun xdp_run :: "xkernel \<Rightarrow> ((nat \<Rightarrow> u64) \<times> bytes) list \<Rightarrow> xdp \<Rightarrow> xdp_action list \<times> xdp" where
  "xdp_run K [] x = ([], x)"
| "xdp_run K ((kt, ctx) # ps) x =
     (let (a, _, x) = falx_xdp K kt ctx x; (as, x) = xdp_run K ps x in (a # as, x))"

section \<open>Frame lemmas\<close>

lemma km_view_put [simp]: "km_view (km_put k v s) = (km_view s)(k \<mapsto> v)"
  by (simp add: km_put_def update_conv')

lemma bump_stat_fields [simp]:
  "x_v4 (bump_stat f x) = x_v4 x" "x_v6 (bump_stat f x) = x_v6 x" "x_bloom (bump_stat f x) = x_bloom x"
  "x_cooling (bump_stat f x) = x_cooling x" "x_syn (bump_stat f x) = x_syn x" "x_rate (bump_stat f x) = x_rate x"
  "x_mapped (bump_stat f x) = x_mapped x" "x_failsafe (bump_stat f x) = x_failsafe x"
  "x_config (bump_stat f x) = x_config x" "x_targets (bump_stat f x) = x_targets x" "x_active (bump_stat f x) = x_active x"
  "x_stats (bump_stat f x) = map_option f (x_stats x)"
  by (simp_all add: bump_stat_def)

lemma bump_mapped_fields [simp]:
  "x_v4 (bump_mapped f x) = x_v4 x" "x_v6 (bump_mapped f x) = x_v6 x" "x_bloom (bump_mapped f x) = x_bloom x"
  "x_cooling (bump_mapped f x) = x_cooling x" "x_syn (bump_mapped f x) = x_syn x" "x_rate (bump_mapped f x) = x_rate x"
  "x_stats (bump_mapped f x) = x_stats x" "x_failsafe (bump_mapped f x) = x_failsafe x"
  "x_config (bump_mapped f x) = x_config x" "x_targets (bump_mapped f x) = x_targets x" "x_active (bump_mapped f x) = x_active x"
  "x_mapped (bump_mapped f x) = map_option f (x_mapped x)"
  by (simp_all add: bump_mapped_def)

lemmas counter_defs = count_rx_def count_passed_def count_dropped_def count_rate_limited_def

lemma apply_cooling_ban_fields [simp]:
  "x_v6 (apply_cooling_ban K src now r x) = x_v6 x" "x_syn (apply_cooling_ban K src now r x) = x_syn x"
  "x_rate (apply_cooling_ban K src now r x) = x_rate x" "x_mapped (apply_cooling_ban K src now r x) = x_mapped x"
  "x_failsafe (apply_cooling_ban K src now r x) = x_failsafe x" "x_config (apply_cooling_ban K src now r x) = x_config x"
  "x_targets (apply_cooling_ban K src now r x) = x_targets x" "x_active (apply_cooling_ban K src now r x) = x_active x"
  "x_bloom (apply_cooling_ban K src now r x) = src # x_bloom x"
  "x_stats (apply_cooling_ban K src now r x) = map_option (\<lambda>s. s\<lparr>CoolingBans := saturating_add (CoolingBans s) 1\<rparr>) (x_stats x)"
  by (simp_all add: apply_cooling_ban_def Let_def split: option.split)

text \<open>What each step leaves alone.\<close>

lemma failsafe_step_fields:
  assumes "failsafe_step kt cfg pkt x = (r, x')"
  shows "x_v4 x' = x_v4 x" "x_v6 x' = x_v6 x" "x_bloom x' = x_bloom x" "x_rate x' = x_rate x" "x_config x' = x_config x"
    "x_targets x' = x_targets x" "x_active x' = x_active x"
    "r = None \<Longrightarrow> x_mapped x' = x_mapped x" "r = None \<Longrightarrow> x_stats x' = x_stats x" "r = None \<or> r = Some XDP_DROP"
proof -
  obtain r1 x1 where c: "check_failsafe kt pkt x = (r1, x1)" by fastforce
  then have f: "x_v4 x1 = x_v4 x \<and> x_v6 x1 = x_v6 x \<and> x_bloom x1 = x_bloom x \<and> x_rate x1 = x_rate x \<and> x_config x1 = x_config x
      \<and> x_targets x1 = x_targets x \<and> x_active x1 = x_active x \<and> (r1 = None \<longrightarrow> x_mapped x1 = x_mapped x \<and> x_stats x1 = x_stats x)
      \<and> (r1 = None \<or> r1 = Some XDP_DROP)"
    by (cases "km_view (x_failsafe x) FailsafeIdx") (auto simp: check_failsafe_def Let_def split: if_splits)
  then show "x_v4 x' = x_v4 x" "x_v6 x' = x_v6 x" "x_bloom x' = x_bloom x" "x_rate x' = x_rate x" "x_config x' = x_config x"
    "x_targets x' = x_targets x" "x_active x' = x_active x"
    "r = None \<Longrightarrow> x_mapped x' = x_mapped x" "r = None \<Longrightarrow> x_stats x' = x_stats x" "r = None \<or> r = Some XDP_DROP"
    using assms c by (cases r1; auto simp: failsafe_step_def counter_defs split: if_splits)+
qed

lemma blocklist_step_fields:
  assumes "blocklist_step K kt pkt ctx x = (r, ctx', x')"
  shows "x_v4 x' = x_v4 x" "x_v6 x' = x_v6 x" "x_bloom x' = x_bloom x" "x_rate x' = x_rate x" "x_config x' = x_config x"
    "x_failsafe x' = x_failsafe x" "r = None \<Longrightarrow> x' = x \<and> ctx' = ctx"
proof -
  obtain r1 c1 x1 where c: "check_blocklist_v4 kt ctx (pi_src_ip pkt) x = (r1, c1, x1)" by (rule prod_cases3)
  then have f: "x_v4 x1 = x_v4 x \<and> x_v6 x1 = x_v6 x \<and> x_bloom x1 = x_bloom x \<and> x_rate x1 = x_rate x \<and> x_config x1 = x_config x
      \<and> x_failsafe x1 = x_failsafe x \<and> (r1 = None \<longrightarrow> x1 = x \<and> c1 = ctx)"
    by (cases "km_view (x_v4 x) (pi_src_ip pkt)") (auto simp: check_blocklist_v4_def Let_def split: if_splits prod.splits)
  obtain r2 x2 where d: "check_blocklist_v6 kt (pi_src_ip6 pkt) x = (r2, x2)" by fastforce
  then have g: "x_v4 x2 = x_v4 x \<and> x_v6 x2 = x_v6 x \<and> x_bloom x2 = x_bloom x \<and> x_rate x2 = x_rate x \<and> x_config x2 = x_config x
      \<and> x_failsafe x2 = x_failsafe x \<and> (r2 = None \<longrightarrow> x2 = x)"
    by (cases "km_view (x_v6 x) (pi_src_ip6 pkt)") (auto simp: check_blocklist_v6_def split: if_splits)
  show "x_v4 x' = x_v4 x" "x_v6 x' = x_v6 x" "x_bloom x' = x_bloom x" "x_rate x' = x_rate x" "x_config x' = x_config x"
    "x_failsafe x' = x_failsafe x" "r = None \<Longrightarrow> x' = x \<and> ctx' = ctx"
    using assms c d f g by (cases r1; cases r2; auto simp: blocklist_step_def counter_defs split: if_splits)+
qed

lemma syn_counter_step_fields:
  assumes "syn_counter_step K kt pkt x = (r, x')"
  shows "x_v6 x' = x_v6 x" "x_rate x' = x_rate x" "x_config x' = x_config x" "x_failsafe x' = x_failsafe x"
    "r = None \<Longrightarrow> x_v4 x' = x_v4 x \<and> x_bloom x' = x_bloom x \<and> x_mapped x' = x_mapped x \<and> x_stats x' = x_stats x"
    "r = None \<or> r = Some XDP_DROP"
proof -
  obtain r1 x1 where c: "check_syn_counter K (pi_src_ip pkt) (pi_tcp_flags pkt) (kt 2) x = (r1, x1)" by fastforce
  then have f: "x_v6 x1 = x_v6 x \<and> x_rate x1 = x_rate x \<and> x_config x1 = x_config x \<and> x_failsafe x1 = x_failsafe x
      \<and> (r1 = None \<longrightarrow> x_v4 x1 = x_v4 x \<and> x_bloom x1 = x_bloom x \<and> x_mapped x1 = x_mapped x \<and> x_stats x1 = x_stats x)
      \<and> (r1 = None \<or> r1 = Some XDP_DROP)"
    by (cases "km_view (x_syn x) (pi_src_ip pkt)") (auto simp: check_syn_counter_def Let_def split: if_splits)
  then show "x_v6 x' = x_v6 x" "x_rate x' = x_rate x" "x_config x' = x_config x" "x_failsafe x' = x_failsafe x"
    "r = None \<Longrightarrow> x_v4 x' = x_v4 x \<and> x_bloom x' = x_bloom x \<and> x_mapped x' = x_mapped x \<and> x_stats x' = x_stats x"
    "r = None \<or> r = Some XDP_DROP"
    using assms c by (cases r1; auto simp: syn_counter_step_def counter_defs split: if_splits)+
qed

lemma rate_limit_step_fields:
  assumes "rate_limit_step K kt cfg pkt x = (r, x')"
  shows "x_v6 x' = x_v6 x" "x_config x' = x_config x" "x_failsafe x' = x_failsafe x" "x_mapped x' = x_mapped x"
    "r = None \<Longrightarrow> x_v4 x' = x_v4 x \<and> x_bloom x' = x_bloom x \<and> x_stats x' = x_stats x" "r = None \<or> r = Some XDP_DROP"
proof -
  obtain r1 x1 where c: "check_rate_limit K kt (pi_src_ip pkt) cfg x = (r1, x1)" by fastforce
  then have f: "x_v6 x1 = x_v6 x \<and> x_config x1 = x_config x \<and> x_failsafe x1 = x_failsafe x \<and> x_mapped x1 = x_mapped x
      \<and> (r1 = None \<longrightarrow> x_v4 x1 = x_v4 x \<and> x_bloom x1 = x_bloom x \<and> x_stats x1 = x_stats x) \<and> (r1 = None \<or> r1 = Some XDP_DROP)"
    by (cases "km_view (x_rate x) (pi_src_ip pkt)") (auto simp: check_rate_limit_def Let_def split: if_splits)
  then show "x_v6 x' = x_v6 x" "x_config x' = x_config x" "x_failsafe x' = x_failsafe x" "x_mapped x' = x_mapped x"
    "r = None \<Longrightarrow> x_v4 x' = x_v4 x \<and> x_bloom x' = x_bloom x \<and> x_stats x' = x_stats x" "r = None \<or> r = Some XDP_DROP"
    using assms c by (cases r1; auto simp: rate_limit_step_def counter_defs split: if_splits)+
qed

lemma syn_flood_step_fields:
  assumes "syn_flood_step K kt cfg pkt x = (r, x')"
  shows "x_v6 x' = x_v6 x" "x_config x' = x_config x" "x_failsafe x' = x_failsafe x" "x_mapped x' = x_mapped x"
    "r = None \<Longrightarrow> x_v4 x' = x_v4 x \<and> x_bloom x' = x_bloom x \<and> x_stats x' = x_stats x" "r = None \<or> r = Some XDP_DROP"
proof -
  obtain r1 x1 where c: "check_syn_flood K kt (pi_src_ip pkt) x = (r1, x1)" by fastforce
  then have f: "x_v6 x1 = x_v6 x \<and> x_config x1 = x_config x \<and> x_failsafe x1 = x_failsafe x \<and> x_mapped x1 = x_mapped x
      \<and> (r1 = None \<longrightarrow> x_v4 x1 = x_v4 x \<and> x_bloom x1 = x_bloom x \<and> x_stats x1 = x_stats x) \<and> (r1 = None \<or> r1 = Some XDP_DROP)"
    by (cases "km_view (x_rate x) (pi_src_ip pkt)") (auto simp: check_syn_flood_def Let_def split: if_splits)
  then show "x_v6 x' = x_v6 x" "x_config x' = x_config x" "x_failsafe x' = x_failsafe x" "x_mapped x' = x_mapped x"
    "r = None \<Longrightarrow> x_v4 x' = x_v4 x \<and> x_bloom x' = x_bloom x \<and> x_stats x' = x_stats x" "r = None \<or> r = Some XDP_DROP"
    using assms c by (cases r1; auto simp: syn_flood_step_def counter_defs split: if_splits)+
qed

lemma read_config_cong: "x_config x = x_config y \<Longrightarrow> read_config x = read_config y"
  by (simp add: read_config_def)

lemma read_config_count_rx [simp]: "read_config (count_rx pkt x) = read_config x"
  by (rule read_config_cong) (simp add: counter_defs)

text \<open>The packets that reach the checks of the pipeline, IPv6 and IPv4 with a source other than 0.0.0.0, and those
  that step [4] passes before them: the frames without an IP header, and IPv4 packets from 0.0.0.0.\<close>

definition checked_packet :: "bytes \<Rightarrow> PacketInfo \<Rightarrow> bool" where
  "checked_packet ctx pkt \<longleftrightarrow> 14 \<le> length ctx \<and> parse_packet ctx = Some pkt \<and> (pi_src_ip pkt = 0 \<longrightarrow> pi_is_ipv6 pkt)"

definition bypasses :: "bytes \<Rightarrow> bool" where
  "bypasses ctx \<longleftrightarrow> 14 \<le> length ctx
     \<and> (case parse_packet ctx of Some pkt \<Rightarrow> pi_src_ip pkt = 0 \<and> \<not> pi_is_ipv6 pkt | None \<Rightarrow> False)"

lemma checked_not_bypasses: "checked_packet ctx pkt \<Longrightarrow> \<not> bypasses ctx"
  by (auto simp: checked_packet_def bypasses_def)

lemma process_packet_cases:
  assumes "process_packet K kt ctx x = (a, ctx', x')"
  obtains
    (short) "length ctx < 14" "a = XDP_DROP" "x' = x"
  | (malformed) "14 \<le> length ctx" "parse_packet ctx = None" "a = XDP_DROP"
      "x' = bump_stat (\<lambda>s. s\<lparr>ParseErrors := saturating_add (ParseErrors s) 1\<rparr>) x"
  | (other) pkt where "14 \<le> length ctx" "parse_packet ctx = Some pkt" "pi_src_ip pkt = 0" "\<not> pi_is_ipv6 pkt"
      "a = XDP_PASS" "x' = count_passed pkt (count_rx pkt x)"
  | (failsafe) pkt where "checked_packet ctx pkt" "failsafe_step kt (read_config x) pkt (count_rx pkt x) = (Some a, x')"
  | (blocked) pkt x1 where "checked_packet ctx pkt" "failsafe_step kt (read_config x) pkt (count_rx pkt x) = (None, x1)"
      "blocklist_step K kt pkt ctx x1 = (Some a, ctx', x')"
  | (syn) pkt x1 where "checked_packet ctx pkt" "failsafe_step kt (read_config x) pkt (count_rx pkt x) = (None, x1)"
      "blocklist_step K kt pkt ctx x1 = (None, ctx, x1)" "syn_counter_step K kt pkt x1 = (Some a, x')"
  | (limited) pkt x1 x2 where "checked_packet ctx pkt" "failsafe_step kt (read_config x) pkt (count_rx pkt x) = (None, x1)"
      "blocklist_step K kt pkt ctx x1 = (None, ctx, x1)" "syn_counter_step K kt pkt x1 = (None, x2)"
      "rate_limit_step K kt (read_config x) pkt x2 = (Some a, x')"
  | (flood) pkt x1 x2 x3 where "checked_packet ctx pkt" "failsafe_step kt (read_config x) pkt (count_rx pkt x) = (None, x1)"
      "blocklist_step K kt pkt ctx x1 = (None, ctx, x1)" "syn_counter_step K kt pkt x1 = (None, x2)"
      "rate_limit_step K kt (read_config x) pkt x2 = (None, x3)" "syn_flood_step K kt (read_config x) pkt x3 = (Some a, x')"
  | (passed) pkt x1 x2 x3 x4 where "checked_packet ctx pkt" "failsafe_step kt (read_config x) pkt (count_rx pkt x) = (None, x1)"
      "blocklist_step K kt pkt ctx x1 = (None, ctx, x1)" "syn_counter_step K kt pkt x1 = (None, x2)"
      "rate_limit_step K kt (read_config x) pkt x2 = (None, x3)" "syn_flood_step K kt (read_config x) pkt x3 = (None, x4)"
      "a = XDP_PASS" "x' = count_passed pkt x4"
proof (cases "length ctx < 14")
  case True
  then show ?thesis using assms short by (simp add: process_packet_def)
next
  case long: False
  show ?thesis
  proof (cases "parse_packet ctx")
    case None
    then show ?thesis using assms long malformed by (simp add: process_packet_def)
  next
    case (Some pkt)
    show ?thesis
    proof (cases "pi_src_ip pkt = 0 \<and> \<not> pi_is_ipv6 pkt")
      case True
      then show ?thesis using assms long Some other by (simp add: process_packet_def Let_def)
    next
      case False
      then have ip: "checked_packet ctx pkt" using long Some by (auto simp: checked_packet_def)
      note pp = assms [unfolded process_packet_def Let_def]
      obtain r1 x1 where s1: "failsafe_step kt (read_config x) pkt (count_rx pkt x) = (r1, x1)" by fastforce
      show ?thesis
      proof (cases r1)
        case (Some v)
        then show ?thesis using pp long \<open>parse_packet ctx = Some pkt\<close> False s1 failsafe [OF ip] by simp
      next
        case n1: None
        obtain r2 c2 x2 where s2: "blocklist_step K kt pkt ctx x1 = (r2, c2, x2)" by (rule prod_cases3)
        show ?thesis
        proof (cases r2)
          case (Some v)
          then show ?thesis
            using pp long \<open>parse_packet ctx = Some pkt\<close> False s1 n1 s2 blocked [OF ip] by simp
        next
          case n2: None
          then have s2': "blocklist_step K kt pkt ctx x1 = (None, ctx, x1)" using s2 blocklist_step_fields(7) [OF s2] by simp
          obtain r3 x3 where s3: "syn_counter_step K kt pkt x1 = (r3, x3)" by fastforce
          obtain r4 x4 where s4: "rate_limit_step K kt (read_config x) pkt x3 = (r4, x4)" by fastforce
          obtain r5 x5 where s5: "syn_flood_step K kt (read_config x) pkt x4 = (r5, x5)" by fastforce
          note pp' = pp long \<open>parse_packet ctx = Some pkt\<close> False
          consider (3) v where "r3 = Some v" | (4) v where "r3 = None" "r4 = Some v"
            | (5) v where "r3 = None" "r4 = None" "r5 = Some v" | (6) "r3 = None" "r4 = None" "r5 = None"
            by (cases r3; cases r4; cases r5) auto
          then show ?thesis
          proof cases
            case 3
            then show ?thesis using pp' s1 n1 s2' s3 syn [OF ip] by simp
          next
            case 4
            then show ?thesis using pp' s1 n1 s2' s3 s4 limited [OF ip] by simp
          next
            case 5
            then show ?thesis using pp' s1 n1 s2' s3 s4 s5 flood [OF ip] by simp
          next
            case 6
            then show ?thesis using pp' s1 n1 s2' s3 s4 s5 passed [OF ip] by simp
          qed
        qed
      qed
    qed
  qed
qed

section \<open>Blocked sources\<close>

locale bloom_filter =
  fixes contains :: "u32 list \<Rightarrow> u32 \<Rightarrow> bool"
  assumes no_false_negative: "v \<in> set pushed \<Longrightarrow> contains pushed v"
begin

lemma contains_mono: "set pushed \<subseteq> set pushed' \<Longrightarrow> v \<in> set pushed \<Longrightarrow> contains pushed' v"
  using no_false_negative by blast

end

text \<open>A filter that looks at the low 16 bits, and the kernel with it.\<close>

definition low_bits_filter :: "u32 list \<Rightarrow> u32 \<Rightarrow> bool" where
  "low_bits_filter pushed v \<longleftrightarrow> and v 0xFFFF \<in> set (map (\<lambda>w. and w 0xFFFF) pushed)"

interpretation lbf: bloom_filter low_bits_filter
  by unfold_locales (auto simp: low_bits_filter_def)

definition falx_xkernel :: xkernel where
  "falx_xkernel = kernel.extend falx_kernel \<lparr>k_cooling = lru_ops 65535, k_syn = lru_ops 65535, k_bloom = low_bits_filter\<rparr>"

text \<open>A source is blocked at a time if its entry asks for drops and has not expired.\<close>

definition drops_source :: "xkernel \<Rightarrow> u64 \<Rightarrow> u32 \<Rightarrow> xdp \<Rightarrow> bool" where
  "drops_source K now_ns src x \<longleftrightarrow> k_bloom K (x_bloom x) src
     \<and> (\<exists>e. km_view (x_v4 x) src = Some e \<and> Action e = ActionDrop \<and> \<not> entry_expired now_ns e)"

lemma blocked_dropped:
  assumes "parse_packet ctx = Some pkt" "\<not> pi_is_ipv6 pkt" "pi_src_ip pkt \<noteq> 0" "drops_source K (kt 1) (pi_src_ip pkt) x"
    and "process_packet K kt ctx x = (a, c, x')"
  shows "a = XDP_DROP \<and> x_v4 x' = x_v4 x \<and> x_bloom x' = x_bloom x"
proof -
  have drop: "fst (blocklist_step K kt pkt ctx y) = Some XDP_DROP" if "x_v4 y = x_v4 x" "x_bloom y = x_bloom x" for y
    using assms(2,4) that by (auto simp: blocklist_step_def check_blocklist_v4_def drops_source_def)
  have rx: "x_v4 (count_rx pkt x) = x_v4 x" "x_bloom (count_rx pkt x) = x_bloom x" for pkt by (simp_all add: counter_defs)
  note fs = failsafe_step_fields
  have same: "pkt' = pkt" if "checked_packet ctx pkt'" for pkt' using that assms(1) by (simp add: checked_packet_def)
  from assms(5) show ?thesis
  proof (cases rule: process_packet_cases)
    case (failsafe pkt')
    then show ?thesis using fs(1,3,10) [OF failsafe(2)] rx by simp
  next
    case (blocked pkt' x1)
    then show ?thesis using drop [of x1] fs(1,3) [OF blocked(2)] blocklist_step_fields(1,3) [OF blocked(3)] rx same [OF blocked(1)] by simp
  next
    case (syn pkt' x1)
    then show ?thesis using drop [of x1] syn fs(1,3) [OF syn(2)] rx same [OF syn(1)] by simp
  next
    case (limited pkt' x1 x2)
    then show ?thesis using drop [of x1] limited fs(1,3) [OF limited(2)] rx same [OF limited(1)] by simp
  next
    case (flood pkt' x1 x2 x3)
    then show ?thesis using drop [of x1] flood fs(1,3) [OF flood(2)] rx same [OF flood(1)] by simp
  next
    case (passed pkt' x1 x2 x3 x4)
    then show ?thesis using drop [of x1] passed fs(1,3) [OF passed(2)] rx same [OF passed(1)] by simp
  qed (use assms in auto)
qed

section \<open>The length of a ban\<close>

text \<open>The exponent of a ban, from the number of earlier ones and the floor the caller asks for.\<close>

definition ban_exponent :: "u32 \<Rightarrow> CoolingEntry option \<Rightarrow> nat" where
  "ban_exponent min_r prev = max (min (unat min_r) 16)
     (case prev of None \<Rightarrow> 0 | Some e \<Rightarrow> min (unat (RepeatCount e) + 1) 16)"

definition ban_entry :: "u64 \<Rightarrow> nat \<Rightarrow> BlockEntry" where
  "ban_entry now_ns r = \<lparr>ExpireAt = now_ns div 1000000000 + 10 * 2 ^ r, Action = ActionDrop, RuleID = 0xFF,
     ThreatScore = of_nat r, BePad = 0, Reason = ReasonCoolingBan\<rparr>"

lemma ban_exponent_le: "ban_exponent min_r prev \<le> 16"
  by (auto simp: ban_exponent_def split: option.split)

lemma unat_div_ns: "unat (now_ns div 1000000000 :: u64) = unat now_ns div 1000000000"
  by (simp add: unat_div)

lemma ban_seconds:
  assumes "r \<le> 16"
  shows "unat (10 * 2 ^ r :: u64) = 10 * 2 ^ r" "push_bit r COOLING_BASE_S = 10 * 2 ^ r"
    "unat (now_ns div 1000000000 :: u64) + 10 * 2 ^ r < 2 ^ 64"
proof -
  have r: "(2 :: nat) ^ r \<le> 2 ^ 16" using assms by (intro power_increasing) simp_all
  have "unat (10 * 2 ^ r :: u64) = unat (of_nat (10 * 2 ^ r) :: u64)" by simp
  also have "\<dots> = 10 * 2 ^ r" using r by (simp only: unat_of_nat) simp
  finally show "unat (10 * 2 ^ r :: u64) = 10 * 2 ^ r" .
  show "push_bit r COOLING_BASE_S = 10 * 2 ^ r" by (simp add: push_bit_eq_mult COOLING_BASE_S_def mult.commute)
  have "unat now_ns div 1000000000 \<le> 2 ^ 64 div 1000000000" using unat_less_u64 [of now_ns] by (intro div_le_mono) simp
  then show "unat (now_ns div 1000000000 :: u64) + 10 * 2 ^ r < 2 ^ 64" unfolding unat_div_ns using r by simp
qed

lemma ban_entry_expire: "r \<le> 16 \<Longrightarrow> unat (ExpireAt (ban_entry now_ns r)) = unat now_ns div 1000000000 + 10 * 2 ^ r"
  using ban_seconds(1) [of r] ban_seconds(3) [of r now_ns] unat_div_ns [of now_ns] by (simp add: ban_entry_def unat_plus_u64)

text \<open>The exponent as the program computes it.\<close>

definition ban_word :: "u32 \<Rightarrow> CoolingEntry option \<Rightarrow> u32" where
  "ban_word min_r prev =
     (let m = (if min_r \<le> MAX_COOLING_SHIFT then min_r else MAX_COOLING_SHIFT) in
      case prev of
        None \<Rightarrow> m
      | Some e \<Rightarrow>
          let n = (if RepeatCount e < MAX_COOLING_SHIFT then RepeatCount e + 1 else MAX_COOLING_SHIFT) in if n > m then n else m)"

lemma unat_ban_word: "unat (ban_word min_r prev) = ban_exponent min_r prev"
proof -
  define m where "m = (if min_r \<le> MAX_COOLING_SHIFT then min_r else MAX_COOLING_SHIFT)"
  define inc where "inc c = (if c < MAX_COOLING_SHIFT then c + 1 else MAX_COOLING_SHIFT)" for c
  have m: "unat m = min (unat min_r) 16" by (auto simp: m_def MAX_COOLING_SHIFT_def word_le_nat_alt)
  have inc: "unat (inc c) = min (unat c + 1) 16" for c
  proof (cases "c < MAX_COOLING_SHIFT")
    case True
    then have "unat c < 16" by (simp add: MAX_COOLING_SHIFT_def word_less_nat_alt)
    then show ?thesis using True by (simp add: inc_def unat_word_ariths)
  qed (simp add: inc_def MAX_COOLING_SHIFT_def word_less_nat_alt)
  have "ban_word min_r prev = (case prev of None \<Rightarrow> m | Some e \<Rightarrow> if m < inc (RepeatCount e) then inc (RepeatCount e) else m)"
    by (cases prev) (simp_all add: ban_word_def m_def inc_def)
  then show ?thesis
    by (cases prev) (auto simp: ban_exponent_def m inc word_less_nat_alt max_def simp del: min_Suc1 min_Suc2)
qed

lemma apply_cooling_ban_v4:
  fixes K :: xkernel and x :: xdp and src min_r :: u32
  defines "r \<equiv> ban_exponent min_r (km_view (x_cooling x) src)"
  shows "x_v4 (apply_cooling_ban K src now_ns min_r x) = snd (e_update (k_v4 K) src (ban_entry now_ns r) (x_v4 x))"
proof -
  define q where "q = ban_word min_r (km_view (x_cooling x) src)"
  have q: "unat q = r" by (simp add: q_def r_def unat_ban_word)
  have r: "r \<le> 16" by (simp add: r_def ban_exponent_le)
  have "saturating_add (now_ns div 1000000000) (push_bit (unat q) COOLING_BASE_S) = now_ns div 1000000000 + 10 * 2 ^ r"
    using ban_seconds(1,2) [OF r] ban_seconds(3) [OF r, of now_ns] by (simp add: q saturating_add_def)
  moreover have "ucast (min q 100) = (of_nat r :: u8)"
  proof -
    have "q \<le> 100" using q r by (simp add: word_le_nat_alt)
    then have "min q 100 = q" by simp
    then show ?thesis using q by (metis of_nat_unat)
  qed
  moreover have "x_v4 (apply_cooling_ban K src now_ns min_r x) = snd (e_update (k_v4 K) src
      \<lparr>ExpireAt = saturating_add (now_ns div 1000000000) (push_bit (unat q) COOLING_BASE_S), Action = ActionDrop,
       RuleID = 0xFF, ThreatScore = ucast (min q 100), BePad = 0, Reason = ReasonCoolingBan\<rparr> (x_v4 x))"
    by (cases "km_view (x_cooling x) src") (simp_all add: apply_cooling_ban_def Let_def q_def ban_word_def)
  ultimately show ?thesis by (simp add: ban_entry_def)
qed

text \<open>The tracker remembers the exponent, so that the next ban continues from it.\<close>

lemma apply_cooling_ban_cooling:
  assumes "ebpf_map (k_cooling K)" "\<forall>c. fst (e_update (k_cooling K) src c (x_cooling x)) = None"
  obtains e where "km_view (x_cooling (apply_cooling_ban K src now_ns min_r x)) src = Some e"
    "unat (RepeatCount e) = ban_exponent min_r (km_view (x_cooling x) src)"
proof (cases "km_view (x_cooling x) src")
  case None
  let ?c = "\<lparr>RepeatCount = ban_word min_r None, CePad = 0, LastBanAtNs = now_ns\<rparr>"
  obtain s where up: "e_update (k_cooling K) src ?c (x_cooling x) = (None, s)" using assms(2) by (metis prod.collapse)
  have "x_cooling (apply_cooling_ban K src now_ns min_r x) = s"
    using up None by (simp add: apply_cooling_ban_def Let_def ban_word_def)
  then show ?thesis using that [of ?c] ebpf_map.update_ok [OF assms(1) up] None by (simp add: unat_ban_word)
next
  case (Some e)
  have "x_cooling (apply_cooling_ban K src now_ns min_r x)
      = km_put src (e\<lparr>RepeatCount := ban_word min_r (Some e), LastBanAtNs := now_ns\<rparr>) (x_cooling x)"
    using Some by (simp add: apply_cooling_ban_def Let_def ban_word_def)
  then show ?thesis
    using that [of "e\<lparr>RepeatCount := ban_word min_r (Some e), LastBanAtNs := now_ns\<rparr>"] Some by (simp add: unat_ban_word)
qed

section \<open>Bans during a run\<close>

definition from_source :: "u32 \<Rightarrow> bytes \<Rightarrow> bool" where
  "from_source src ctx \<longleftrightarrow> (case parse_packet ctx of Some pkt \<Rightarrow> \<not> pi_is_ipv6 pkt \<and> pi_src_ip pkt = src | None \<Rightarrow> False)"

lemma from_source_ip: "checked_packet ctx pkt \<Longrightarrow> from_source src ctx \<longleftrightarrow> \<not> pi_is_ipv6 pkt \<and> pi_src_ip pkt = src"
  by (simp add: checked_packet_def from_source_def)

text \<open>What a check does to the blocklist: nothing, or a ban of the source of the packet.\<close>

definition bans_only :: "xkernel \<Rightarrow> u32 \<Rightarrow> xdp \<Rightarrow> xdp \<Rightarrow> bool" where
  "bans_only K src x x' \<longleftrightarrow> x_v4 x' = x_v4 x \<and> x_bloom x' = x_bloom x
     \<or> (\<exists>e. x_v4 x' = snd (e_update (k_v4 K) src e (x_v4 x))) \<and> x_bloom x' = src # x_bloom x"

lemma ban_bans_only: "x_v4 y = x_v4 x \<Longrightarrow> x_bloom y = x_bloom x \<Longrightarrow> bans_only K src x (apply_cooling_ban K src now r y)"
  by (auto simp: bans_only_def apply_cooling_ban_v4)

lemma bans_only_cong:
  "x_v4 y = x_v4 x' \<Longrightarrow> x_bloom y = x_bloom x' \<Longrightarrow> bans_only K src x y \<longleftrightarrow> bans_only K src x x'"
  "x_v4 y = x_v4 x \<Longrightarrow> x_bloom y = x_bloom x \<Longrightarrow> bans_only K src y x' \<longleftrightarrow> bans_only K src x x'"
  by (simp_all add: bans_only_def)

lemma steps_bans_only:
  "\<not> pi_is_ipv6 pkt \<Longrightarrow> syn_counter_step K kt pkt x = (r, x') \<Longrightarrow> bans_only K (pi_src_ip pkt) x x'"
  "\<not> pi_is_ipv6 pkt \<Longrightarrow> rate_limit_step K kt cfg pkt x = (r, x') \<Longrightarrow> bans_only K (pi_src_ip pkt) x x'"
  "\<not> pi_is_ipv6 pkt \<Longrightarrow> syn_flood_step K kt cfg pkt x = (r, x') \<Longrightarrow> bans_only K (pi_src_ip pkt) x x'"
proof -
  let ?s = "pi_src_ip pkt"
  have id: "bans_only K ?s x x" by (simp add: bans_only_def)
  obtain r1 x1 where c: "check_syn_counter K ?s (pi_tcp_flags pkt) (kt 2) x = (r1, x1)" by fastforce
  have b: "bans_only K ?s x x1"
  proof (cases "km_view (x_syn x) ?s")
    case (Some e)
    have v: "bans_only K ?s x (z\<lparr>x_syn := u\<rparr>) \<longleftrightarrow> bans_only K ?s x z" for z u by (rule bans_only_cong) simp_all
    have w: "bans_only K ?s x (bump_stat f z) \<longleftrightarrow> bans_only K ?s x z" for z f by (rule bans_only_cong) simp_all
    show ?thesis using c Some id by (auto simp: check_syn_counter_def Let_def v w intro!: ban_bans_only split: if_splits)
  qed (use c in \<open>auto simp: check_syn_counter_def bans_only_def split: if_splits\<close>)
  show "\<not> pi_is_ipv6 pkt \<Longrightarrow> syn_counter_step K kt pkt x = (r, x') \<Longrightarrow> bans_only K ?s x x'"
    using c b id by (cases r1) (auto simp: syn_counter_step_def counter_defs bans_only_def split: if_splits)
next
  let ?s = "pi_src_ip pkt"
  have id: "bans_only K ?s x x" by (simp add: bans_only_def)
  obtain r1 x1 where c: "check_rate_limit K kt ?s cfg x = (r1, x1)" by fastforce
  have b: "bans_only K ?s x x1"
    using c by (cases "km_view (x_rate x) ?s")
      (auto simp: check_rate_limit_def Let_def intro!: ban_bans_only split: if_splits, auto simp: bans_only_def)
  show "\<not> pi_is_ipv6 pkt \<Longrightarrow> rate_limit_step K kt cfg pkt x = (r, x') \<Longrightarrow> bans_only K ?s x x'"
    using c b id by (cases r1) (auto simp: rate_limit_step_def counter_defs bans_only_def split: if_splits)
next
  let ?s = "pi_src_ip pkt"
  have id: "bans_only K ?s x x" by (simp add: bans_only_def)
  obtain r1 x1 where c: "check_syn_flood K kt ?s x = (r1, x1)" by fastforce
  have b: "bans_only K ?s x x1"
    using c by (cases "km_view (x_rate x) ?s")
      (auto simp: check_syn_flood_def Let_def intro!: ban_bans_only split: if_splits, auto simp: bans_only_def)
  show "\<not> pi_is_ipv6 pkt \<Longrightarrow> syn_flood_step K kt cfg pkt x = (r, x') \<Longrightarrow> bans_only K ?s x x'"
    using c b id by (cases r1) (auto simp: syn_flood_step_def counter_defs bans_only_def split: if_splits)
qed

text \<open>A packet of another source leaves the entry of a source alone or lets the kernel evict it.\<close>

definition keeps_entry :: "u32 \<Rightarrow> xdp \<Rightarrow> xdp \<Rightarrow> bool" where
  "keeps_entry src x x' \<longleftrightarrow> (km_view (x_v4 x') src = km_view (x_v4 x) src \<or> km_view (x_v4 x') src = None)
     \<and> set (x_bloom x) \<subseteq> set (x_bloom x')"

lemma bans_only_keeps:
  assumes "ebpf_map (k_v4 K)" "bans_only K s x x'" "s \<noteq> src"
  shows "keeps_entry src x x'"
  using assms(2) unfolding bans_only_def
proof
  assume "(\<exists>e. x_v4 x' = snd (e_update (k_v4 K) s e (x_v4 x))) \<and> x_bloom x' = s # x_bloom x"
  then obtain e where e: "x_v4 x' = snd (e_update (k_v4 K) s e (x_v4 x))" "x_bloom x' = s # x_bloom x" by blast
  obtain err m where u: "e_update (k_v4 K) s e (x_v4 x) = (err, m)" by fastforce
  show ?thesis
    using e u ebpf_map.update_frame [OF assms(1), of s e "x_v4 x" m src] ebpf_map.update_err [OF assms(1), of s e "x_v4 x" _ m] assms(3)
    by (cases err) (auto simp: keeps_entry_def)
qed (simp add: keeps_entry_def)

lemma keeps_entry_trans: "keeps_entry src x y \<Longrightarrow> keeps_entry src y z \<Longrightarrow> keeps_entry src x z"
  by (auto simp: keeps_entry_def)

lemma keeps_entry_same: "x_v4 x' = x_v4 x \<Longrightarrow> x_bloom x' = x_bloom x \<Longrightarrow> keeps_entry src x x'"
  by (simp add: keeps_entry_def)

lemma other_source_keeps:
  assumes "ebpf_map (k_v4 K)" "\<not> from_source src ctx" "process_packet K kt ctx x = (a, c, x')"
  shows "keeps_entry src x x'"
proof -
  have fs: "keeps_entry src x x1" if "failsafe_step kt cfg pkt (count_rx pkt x) = (r, x1)" for r x1 cfg pkt
    using failsafe_step_fields(1,3) [OF that] by (intro keeps_entry_same) (simp_all add: counter_defs)
  have sc: "keeps_entry src y z" if "checked_packet ctx pkt" "syn_counter_step K kt pkt y = (r, z)" for pkt y r z
    using bans_only_keeps [OF assms(1) steps_bans_only(1) [OF _ that(2)]] from_source_ip [OF that(1)] assms(2) that(2)
    by (cases "pi_is_ipv6 pkt") (auto simp: syn_counter_step_def intro: keeps_entry_same)
  have rl: "keeps_entry src y z" if "checked_packet ctx pkt" "rate_limit_step K kt cfg pkt y = (r, z)" for cfg pkt y r z
    using bans_only_keeps [OF assms(1) steps_bans_only(2) [OF _ that(2)]] from_source_ip [OF that(1)] assms(2) that(2)
    by (cases "pi_is_ipv6 pkt") (auto simp: rate_limit_step_def intro: keeps_entry_same)
  have sf: "keeps_entry src y z" if "checked_packet ctx pkt" "syn_flood_step K kt cfg pkt y = (r, z)" for cfg pkt y r z
    using bans_only_keeps [OF assms(1) steps_bans_only(3) [OF _ that(2)]] from_source_ip [OF that(1)] assms(2) that(2)
    by (cases "pi_is_ipv6 pkt") (auto simp: syn_flood_step_def intro: keeps_entry_same)
  note tr = keeps_entry_trans
  from assms(3) show ?thesis
  proof (cases rule: process_packet_cases)
    case (failsafe pkt)
    then show ?thesis using fs by blast
  next
    case (blocked pkt x1)
    then show ?thesis
      using tr [OF fs [OF blocked(2)] keeps_entry_same [OF blocklist_step_fields(1,3) [OF blocked(3)]]] by blast
  next
    case (syn pkt x1)
    then show ?thesis using tr [OF fs [OF syn(2)] sc [OF syn(1,4)]] by blast
  next
    case (limited pkt x1 x2)
    then show ?thesis using tr [OF tr [OF fs [OF limited(2)] sc [OF limited(1,4)]] rl [OF limited(1,5)]] by blast
  next
    case (flood pkt x1 x2 x3)
    then show ?thesis
      using tr [OF tr [OF tr [OF fs [OF flood(2)] sc [OF flood(1,4)]] rl [OF flood(1,5)]] sf [OF flood(1,6)]] by blast
  next
    case (passed pkt x1 x2 x3 x4)
    have "keeps_entry src x x4"
      using tr [OF tr [OF tr [OF fs [OF passed(2)] sc [OF passed(1,4)]] rl [OF passed(1,5)]] sf [OF passed(1,6)]] by blast
    then show ?thesis using passed(8) by (simp add: keeps_entry_def counter_defs)
  qed (auto simp: counter_defs intro: keeps_entry_same)
qed

text \<open>While the entry of a ban is in the map, every packet of the source that arrives before its end is dropped and keeps the entry.\<close>

definition banned :: "u64 \<Rightarrow> nat \<Rightarrow> u32 \<Rightarrow> xdp \<Rightarrow> bool" where
  "banned now_ns r src x \<longleftrightarrow> src \<in> set (x_bloom x) \<and> km_view (x_v4 x) src = Some (ban_entry now_ns r)"

lemma banned_packet:
  assumes "bloom_filter (k_bloom K)" "ebpf_map (k_v4 K)" "src \<noteq> 0" "r \<le> 16" "banned now_ns r src x"
    and "from_source src ctx \<longrightarrow> unat (kt 1) div 1000000000 < unat now_ns div 1000000000 + 10 * 2 ^ r"
    and "process_packet K kt ctx x = (a, c, x')"
  shows "(from_source src ctx \<longrightarrow> a = XDP_DROP) \<and> (banned now_ns r src x' \<or> km_view (x_v4 x') src = None)"
proof (cases "from_source src ctx")
  case True
  then obtain pkt where pkt: "parse_packet ctx = Some pkt" "\<not> pi_is_ipv6 pkt" "pi_src_ip pkt = src"
    by (auto simp: from_source_def split: option.splits)
  have "\<not> entry_expired (kt 1) (ban_entry now_ns r)"
    using assms(6) True by (simp add: entry_expired_def word_le_nat_alt unat_div_ns ban_entry_expire [OF assms(4)])
  then have "drops_source K (kt 1) (pi_src_ip pkt) x"
    using assms(5) bloom_filter.no_false_negative [OF assms(1)] pkt(3) by (auto simp: drops_source_def banned_def ban_entry_def)
  from blocked_dropped [OF pkt(1,2) _ this assms(7)] show ?thesis using assms(3,5) pkt(3) by (simp add: banned_def)
next
  case False
  from other_source_keeps [OF assms(2) this assms(7)] assms(5) False show ?thesis by (auto simp: keeps_entry_def banned_def)
qed

lemma banned_run:
  assumes "bloom_filter (k_bloom K)" "ebpf_map (k_v4 K)" "src \<noteq> 0" "r \<le> 16" "banned now_ns r src x"
    and "\<forall>p\<in>set ps. from_source src (snd p) \<longrightarrow> unat (fst p 1) div 1000000000 < unat now_ns div 1000000000 + 10 * 2 ^ r"
    and "i < length ps" "from_source src (snd (ps ! i))"
    and "\<forall>j\<le>i. km_view (x_v4 (snd (xdp_run K (take j ps) x))) src \<noteq> None"
  shows "fst (xdp_run K ps x) ! i = XDP_DROP"
  using assms(5-9)
proof (induction ps arbitrary: x i)
  case (Cons p ps)
  obtain kt ctx where p: "p = (kt, ctx)" by fastforce
  obtain a c x1 where run: "process_packet K kt ctx x = (a, c, x1)" by (rule prod_cases3)
  have b: "(from_source src ctx \<longrightarrow> a = XDP_DROP) \<and> (banned now_ns r src x1 \<or> km_view (x_v4 x1) src = None)"
    using banned_packet [OF assms(1-4) Cons.prems(1) _ run] Cons.prems(2) by (simp add: p)
  have hd: "fst (xdp_run K (p # ps) x) = a # fst (xdp_run K ps x1)"
    by (simp add: p falx_xdp_def run split: prod.split)
  have tl: "snd (xdp_run K (take (Suc j) (p # ps)) x) = snd (xdp_run K (take j ps) x1)" for j
    by (simp add: p falx_xdp_def run split: prod.split)
  show ?case
  proof (cases i)
    case 0
    then show ?thesis using b Cons.prems(4) hd by (simp add: p)
  next
    case (Suc k)
    have kept: "\<forall>j\<le>k. km_view (x_v4 (snd (xdp_run K (take j ps) x1))) src \<noteq> None"
      using Cons.prems(5) tl Suc by (metis Suc_le_mono)
    have "banned now_ns r src x1" using b kept [rule_format, of 0] by auto
    from Cons.IH [OF this _ _ _ kept] show ?thesis using Cons.prems(2-4) Suc hd by simp
  qed
qed simp

text \<open>C4. A ban of the XDP program is enforced until its end.  Once the entry could be written to the blocklist, every
  packet of the source is dropped in every run of packets of any sources during the ban, up to the point
  where the kernel evicts the entry, which it may do when another ban is written.  The ban
  lasts 10 times 2 to the r seconds, where r is one more than at the last ban the tracker remembers, at
  least the floor of the caller and at most 16, and the tracker remembers this r: the next ban has
  the exponent r + 1 (at most 16), unless its floor is higher.  The statement is about
  the XDP program; the expiry daemon of the control plane removes the entry earlier, as theory \<open>XdpControl\<close> shows.\<close>

theorem ban_enforced:
  fixes K :: xkernel and x :: xdp and src min_r :: u32 and now_ns :: u64
  assumes "bloom_filter (k_bloom K)" "ebpf_map (k_v4 K)" "ebpf_map (k_cooling K)" "src \<noteq> 0"
  defines "r \<equiv> ban_exponent min_r (km_view (x_cooling x) src)"
    and "x' \<equiv> apply_cooling_ban K src now_ns min_r x"
  assumes "fst (e_update (k_v4 K) src (ban_entry now_ns r) (x_v4 x)) = None"
    and "\<forall>c. fst (e_update (k_cooling K) src c (x_cooling x)) = None"
    and "\<forall>p\<in>set ps. from_source src (snd p) \<longrightarrow> unat (fst p 1) div 1000000000 < unat now_ns div 1000000000 + 10 * 2 ^ r"
  shows "(\<forall>i<length ps. from_source src (snd (ps ! i)) \<longrightarrow> fst (xdp_run K ps x') ! i = XDP_DROP
          \<or> (\<exists>j\<le>i. km_view (x_v4 (snd (xdp_run K (take j ps) x'))) src = None))
    \<and> km_view (x_v4 x') src = Some (ban_entry now_ns r)
    \<and> r = max (min (unat min_r) 16) (case km_view (x_cooling x) src of None \<Rightarrow> 0 | Some e \<Rightarrow> min (unat (RepeatCount e) + 1) 16)
    \<and> ban_exponent min_r' (km_view (x_cooling x') src) = max (min (unat min_r') 16) (min (r + 1) 16)"
proof -
  have r: "r \<le> 16" by (simp add: r_def ban_exponent_le)
  obtain s where up: "e_update (k_v4 K) src (ban_entry now_ns r) (x_v4 x) = (None, s)"
    using assms(7) by (metis prod.collapse)
  have e: "km_view (x_v4 x') src = Some (ban_entry now_ns r)"
    using ebpf_map.update_ok [OF assms(2) up] by (simp add: x'_def apply_cooling_ban_v4 r_def [symmetric] up)
  then have b: "banned now_ns r src x'" by (simp add: banned_def x'_def)
  obtain c where "km_view (x_cooling x') src = Some c" "unat (RepeatCount c) = r"
    using apply_cooling_ban_cooling [OF assms(3,8)] unfolding x'_def r_def by metis
  then have "ban_exponent min_r' (km_view (x_cooling x') src) = max (min (unat min_r') 16) (min (r + 1) 16)"
    by (simp add: ban_exponent_def)
  with banned_run [OF assms(1,2,4) r b assms(9)] e show ?thesis by (auto simp: r_def ban_exponent_def)
qed

section \<open>The rate of a source\<close>

text \<open>The number of packets of a source that a run lets pass.\<close>

fun passes :: "xkernel \<Rightarrow> u32 \<Rightarrow> ((nat \<Rightarrow> u64) \<times> bytes) list \<Rightarrow> xdp \<Rightarrow> nat" where
  "passes K src [] x = 0"
| "passes K src ((kt, ctx) # ps) x =
     (let (a, _, x) = falx_xdp K kt ctx x in of_bool (a = XDP_PASS \<and> from_source src ctx) + passes K src ps x)"

text \<open>How often a run loses the bucket of a source: the kernel evicts it, or a packet passes and its new bucket
  could not be stored.\<close>

fun losses :: "xkernel \<Rightarrow> u32 \<Rightarrow> ((nat \<Rightarrow> u64) \<times> bytes) list \<Rightarrow> xdp \<Rightarrow> nat" where
  "losses K src [] x = 0"
| "losses K src ((kt, ctx) # ps) x =
     (let (a, _, x') = falx_xdp K kt ctx x in
      of_bool (km_view (x_rate x') src = None
        \<and> (km_view (x_rate x) src \<noteq> None \<or> a = XDP_PASS \<and> from_source src ctx)) + losses K src ps x')"

text \<open>The packets a bucket can let pass until \<open>t1\<close>.\<close>

definition credit :: "nat \<Rightarrow> RateBucket \<Rightarrow> nat" where
  "credit t1 b = unat (RbTokens b) + (t1 - unat (RbLastRefill b)) div unat (RbRefillRate b)"

lemma add_div_le: "a div c + b div c \<le> (a + b) div (c :: nat)"
  using div_add1_eq [of a b c] by simp

lemma unat_saturating_add_le: "unat (saturating_add a b) \<le> unat a + unat b"
  by (auto simp: saturating_add_def unat_word_ariths not_less unsigned_minus_1_eq_mask mask_eq_exp_minus_1)

lemma unat_saturating_sub: "unat (saturating_sub a b) = unat a - unat b"
  by (auto simp: saturating_sub_def unat_sub word_le_nat_alt)

definition refilled :: "u64 \<Rightarrow> RateBucket \<Rightarrow> RateBucket" where
  "refilled now_ns b =
     (let amt = (if RbRefillRate b = 0 then 0 else saturating_sub now_ns (RbLastRefill b) div RbRefillRate b) in
      if amt > 0 then b\<lparr>RbTokens := min (saturating_add (RbTokens b) amt) (RbCapacity b), RbLastRefill := now_ns\<rparr> else b)"

lemma credit_refilled:
  assumes "RbLastRefill b \<le> now_ns" "unat now_ns \<le> t1"
  shows "credit t1 (refilled now_ns b) \<le> credit t1 b" "RbLastRefill (refilled now_ns b) \<le> now_ns"
proof -
  define amt where "amt = (if RbRefillRate b = 0 then 0 else saturating_sub now_ns (RbLastRefill b) div RbRefillRate b)"
  have b: "refilled now_ns b = (if amt > 0 then b\<lparr>RbTokens := min (saturating_add (RbTokens b) amt) (RbCapacity b),
      RbLastRefill := now_ns\<rparr> else b)"
    by (simp add: refilled_def amt_def Let_def)
  show "RbLastRefill (refilled now_ns b) \<le> now_ns" using assms(1) by (simp add: b)
  show "credit t1 (refilled now_ns b) \<le> credit t1 b"
  proof (cases "amt > 0")
    case True
    have amt: "unat amt = (unat now_ns - unat (RbLastRefill b)) div unat (RbRefillRate b)"
      by (simp add: amt_def unat_div unat_saturating_sub)
    have "unat (min (saturating_add (RbTokens b) amt) (RbCapacity b)) \<le> unat (RbTokens b) + unat amt"
      using unat_saturating_add_le [of "RbTokens b" amt] by (simp add: min_def word_le_nat_alt)
    moreover have "unat amt + (t1 - unat now_ns) div unat (RbRefillRate b) \<le> (t1 - unat (RbLastRefill b)) div unat (RbRefillRate b)"
      using add_div_le [of "unat now_ns - unat (RbLastRefill b)" "unat (RbRefillRate b)" "t1 - unat now_ns"] assms
      by (simp add: amt word_le_nat_alt)
    ultimately show ?thesis using True by (simp add: b credit_def)
  qed (simp add: b)
qed

lemma refilled_rate [simp]: "RbRefillRate (refilled now_ns b) = RbRefillRate b"
  by (simp add: refilled_def Let_def)

lemma check_rate_limit_bucket:
  assumes "km_view (x_rate x) src = Some b"
  shows "check_rate_limit K kt src cfg x =
    (let b' = refilled (kt 3) b in
     if RbTokens b' = 0
     then (Some XDP_DROP, apply_cooling_ban K src (kt 3) 0
             (x\<lparr>x_rate := km_put src (b'\<lparr>RbDropCount := saturating_add (RbDropCount b') 1\<rparr>) (x_rate x)\<rparr>))
     else (None, x\<lparr>x_rate := km_put src (b'\<lparr>RbTokens := RbTokens b' - 1\<rparr>) (x_rate x)\<rparr>))"
  using assms by (simp add: check_rate_limit_def refilled_def Let_def)

lemma unat_dec: "b \<noteq> 0 \<Longrightarrow> unat (b - 1 :: u64) = unat b - 1"
  using unat_sub [of 1 b] by (simp add: word_le_nat_alt unat_gt_0 Suc_le_eq)

lemma check_rate_limit_credit:
  assumes "km_view (x_rate x) src = Some b" "RbLastRefill b \<le> kt 3" "unat (kt 3) \<le> t1" "check_rate_limit K kt src cfg x = (r, x')"
  obtains b' where "km_view (x_rate x') = (km_view (x_rate x))(src \<mapsto> b')" "RbLastRefill b' \<le> kt 3"
    "RbRefillRate b' = RbRefillRate b" "of_bool (r = None) + credit t1 b' \<le> credit t1 b"
proof (cases "RbTokens (refilled (kt 3) b) = 0")
  case True
  show ?thesis
    by (rule that [of "refilled (kt 3) b\<lparr>RbDropCount := saturating_add (RbDropCount (refilled (kt 3) b)) 1\<rparr>"])
      (use assms True credit_refilled [OF assms(2,3)] in \<open>auto simp: check_rate_limit_bucket [OF assms(1)] Let_def credit_def\<close>)
next
  case False
  then have pos: "0 < unat (RbTokens (refilled (kt 3) b))" by (simp add: unat_gt_0)
  show ?thesis
    by (rule that [of "refilled (kt 3) b\<lparr>RbTokens := RbTokens (refilled (kt 3) b) - 1\<rparr>"])
      (use assms False pos credit_refilled [OF assms(2,3)] in
        \<open>auto simp: check_rate_limit_bucket [OF assms(1)] Let_def credit_def unat_dec simp del: unat_gt_0\<close>)
qed

lemma check_syn_flood_credit:
  assumes "km_view (x_rate x) src = Some b" "check_syn_flood K kt src x = (r, x')"
  obtains b' where "km_view (x_rate x') = (km_view (x_rate x))(src \<mapsto> b')" "RbLastRefill b' = RbLastRefill b"
    "RbRefillRate b' = RbRefillRate b" "credit t1 b' \<le> credit t1 b"
proof (cases "RbTokens b < 10")
  case True
  show ?thesis
    by (rule that [of "b\<lparr>RbDropCount := saturating_add (RbDropCount b) 1\<rparr>"])
      (use assms True in \<open>auto simp: check_syn_flood_def Let_def credit_def\<close>)
next
  case False
  then have "unat (RbTokens b - 10) \<le> unat (RbTokens b)" by (subst unat_sub) auto
  then show ?thesis
    by (intro that [of "b\<lparr>RbTokens := RbTokens b - 10\<rparr>"])
      (use assms False in \<open>auto simp: check_syn_flood_def Let_def credit_def\<close>)
qed

text \<open>A step with another source leaves the bucket alone or lets the kernel evict it.\<close>

lemma check_rate_limit_other:
  assumes "ebpf_map (k_rate K)" "src \<noteq> src'" "check_rate_limit K kt src' cfg x = (r, x')"
  shows "km_view (x_rate x') src = km_view (x_rate x) src \<or> km_view (x_rate x') src = None"
proof (cases "km_view (x_rate x) src'")
  case None
  let ?b = "\<lparr>RbTokens = saturating_sub (RateCapacity cfg) 1, RbLastRefill = kt 3, RbCapacity = RateCapacity cfg,
    RbRefillRate = RateRefillNs cfg, RbDropCount = 0\<rparr>"
  obtain e s where u: "e_update (k_rate K) src' ?b (x_rate x) = (e, s)" by fastforce
  have "x_rate x' = s" using None assms(3) u by (auto simp: check_rate_limit_def Let_def)
  then show ?thesis
    using u ebpf_map.update_frame [OF assms(1), of src' ?b "x_rate x" s src] ebpf_map.update_err [OF assms(1), of src' ?b "x_rate x" _ s] assms(2)
    by (cases e) auto
next
  case (Some b)
  then show ?thesis using assms by (auto simp: check_rate_limit_bucket Let_def split: if_splits)
qed

lemma check_syn_flood_other:
  assumes "src \<noteq> src'" "check_syn_flood K kt src' x = (r, x')"
  shows "km_view (x_rate x') src = km_view (x_rate x) src"
  using assms by (cases "km_view (x_rate x) src'") (auto simp: check_syn_flood_def Let_def split: if_splits)

text \<open>The bucket after a step: it has less credit by what passed, or it is gone.\<close>

definition bucket_after :: "nat \<Rightarrow> u64 \<Rightarrow> RateBucket \<Rightarrow> bool \<Rightarrow> RateBucket option \<Rightarrow> bool" where
  "bucket_after t1 now b passed bo \<longleftrightarrow> (case bo of
       None \<Rightarrow> \<not> passed
     | Some b' \<Rightarrow> RbLastRefill b' \<le> now \<and> RbRefillRate b' = RbRefillRate b \<and> of_bool passed + credit t1 b' \<le> credit t1 b)"

lemma bucket_after_refl: "RbLastRefill b \<le> now \<Longrightarrow> bucket_after t1 now b False (Some b)"
  by (simp add: bucket_after_def)

lemma rate_limit_step_credit:
  assumes "ebpf_map (k_rate K)" "km_view (x_rate x) src = Some b" "RbLastRefill b \<le> kt 3" "unat (kt 3) \<le> t1"
    and "rate_limit_step K kt cfg pkt x = (r, x')"
  shows "bucket_after t1 (kt 3) b (r = None \<and> RateLimitEnabled cfg \<noteq> 0 \<and> \<not> pi_is_ipv6 pkt \<and> pi_src_ip pkt = src) (km_view (x_rate x') src)"
proof (cases "RateLimitEnabled cfg \<noteq> 0 \<and> \<not> pi_is_ipv6 pkt")
  case True
  obtain r1 x1 where c: "check_rate_limit K kt (pi_src_ip pkt) cfg x = (r1, x1)" by fastforce
  have x': "x_rate x' = x_rate x1" "r = r1"
    using assms(5) True c by (cases r1; auto simp: rate_limit_step_def counter_defs)+
  show ?thesis
  proof (cases "pi_src_ip pkt = src")
    case same: True
    obtain b' where "km_view (x_rate x1) = (km_view (x_rate x))(src \<mapsto> b')" "RbLastRefill b' \<le> kt 3"
        "RbRefillRate b' = RbRefillRate b" "of_bool (r1 = None) + credit t1 b' \<le> credit t1 b"
      by (rule check_rate_limit_credit [where kt = kt and src = src and K = K and cfg = cfg, OF assms(2-4)]) (use c same in simp)
    then show ?thesis using x' True same by (simp add: bucket_after_def)
  next
    case other: False
    then show ?thesis
      using check_rate_limit_other [OF assms(1) _ c, of src] bucket_after_refl [OF assms(3)] assms(2) x' by (auto simp: bucket_after_def)
  qed
next
  case False
  then show ?thesis using assms(2,3,5) by (auto simp: rate_limit_step_def bucket_after_def)
qed

lemma syn_flood_step_credit:
  assumes "km_view (x_rate x) src = Some b" "syn_flood_step K kt cfg pkt x = (r, x')"
  obtains b' where "km_view (x_rate x') src = Some b'" "RbLastRefill b' = RbLastRefill b" "RbRefillRate b' = RbRefillRate b"
    "credit t1 b' \<le> credit t1 b"
proof (cases "pi_protocol pkt = proto_TCP \<and> is_syn_only (pi_tcp_flags pkt) \<and> RateLimitEnabled cfg \<noteq> 0 \<and> \<not> pi_is_ipv6 pkt")
  case True
  obtain r1 x1 where c: "check_syn_flood K kt (pi_src_ip pkt) x = (r1, x1)" by fastforce
  have x': "x_rate x' = x_rate x1"
    using assms(2) True c by (cases r1; auto simp: syn_flood_step_def counter_defs)
  show ?thesis
  proof (cases "pi_src_ip pkt = src")
    case same: True
    obtain b' where "km_view (x_rate x1) = (km_view (x_rate x))(src \<mapsto> b')" "RbLastRefill b' = RbLastRefill b"
        "RbRefillRate b' = RbRefillRate b" "credit t1 b' \<le> credit t1 b"
      by (rule check_syn_flood_credit [where kt = kt and src = src and K = K, OF assms(1)]) (use c same in simp)
    then show ?thesis using that [of b'] x' by simp
  next
    case other: False
    then show ?thesis using that [of b] check_syn_flood_other [OF _ c] assms(1) x' by simp
  qed
next
  case False
  then show ?thesis using that [of b] assms by (auto simp: syn_flood_step_def)
qed

lemma syn_flood_step_none:
  assumes "km_view (x_rate x) src = None" "syn_flood_step K kt cfg pkt x = (r, x')"
  shows "km_view (x_rate x') src = None"
proof -
  obtain r1 x1 where c: "check_syn_flood K kt (pi_src_ip pkt) x = (r1, x1)" by fastforce
  have "km_view (x_rate x1) src = None"
    using c assms(1) check_syn_flood_other [OF _ c, of src] by (cases "pi_src_ip pkt = src") (simp_all add: check_syn_flood_def)
  then show ?thesis using assms c by (cases r1) (auto simp: syn_flood_step_def counter_defs split: if_splits)
qed

lemma syn_flood_step_after:
  assumes "bucket_after t1 now b passed (km_view (x_rate x) src)" "syn_flood_step K kt cfg pkt x = (r, x')"
  shows "bucket_after t1 now b passed (km_view (x_rate x') src)"
proof (cases "km_view (x_rate x) src")
  case None
  then show ?thesis using assms syn_flood_step_none [OF None assms(2)] by simp
next
  case (Some b1)
  obtain b' where "km_view (x_rate x') src = Some b'" "RbLastRefill b' = RbLastRefill b1" "RbRefillRate b' = RbRefillRate b1"
      "credit t1 b' \<le> credit t1 b1"
    by (rule syn_flood_step_credit [where ?t1.0 = t1, OF Some assms(2)])
  then show ?thesis using assms(1) Some by (simp add: bucket_after_def)
qed

lemma redirect_action: "fst (redirect_to_honeypot ts act ctx) = XDP_DROP \<or> fst (redirect_to_honeypot ts act ctx) = XDP_TX"
proof (cases "try_redirect ts act ctx")
  case (Pair o' c)
  show ?thesis
  proof (cases o')
    case (Some a)
    with Pair have "try_redirect ts act ctx = (Some a, c)" by simp
    then have "a = XDP_TX" by (rule try_redirect_TX)
    with Pair Some show ?thesis by (simp add: redirect_to_honeypot_def)
  qed (use Pair in \<open>simp add: redirect_to_honeypot_def\<close>)
qed

lemma blocklist_step_action:
  assumes "blocklist_step K kt pkt ctx x = (Some a, ctx', x')"
  shows "a = XDP_DROP \<or> a = XDP_TX"
proof (cases "pi_is_ipv6 pkt")
  case True
  then show ?thesis
    using assms by (cases "km_view (x_v6 x) (pi_src_ip6 pkt)")
      (auto simp: blocklist_step_def check_blocklist_v6_def split: if_splits)
next
  case False
  obtain b c where rd: "redirect_to_honeypot (x_targets x) (x_active x) ctx = (b, c)" by fastforce
  then have "b = XDP_DROP \<or> b = XDP_TX" using redirect_action by (metis fst_conv)
  then show ?thesis
    using assms False rd by (cases "km_view (x_v4 x) (pi_src_ip pkt)")
      (auto simp: blocklist_step_def check_blocklist_v4_def Let_def split: if_splits)
qed

lemma count_fields [simp]:
  "x_rate (count_rx pkt x) = x_rate x" "x_rate (count_passed pkt x) = x_rate x"
  "x_config (count_rx pkt x) = x_config x" "x_config (count_passed pkt x) = x_config x"
  "x_failsafe (count_rx pkt x) = x_failsafe x" "x_failsafe (count_passed pkt x) = x_failsafe x"
  by (simp_all add: counter_defs)

lemma process_packet_config:
  assumes "process_packet K kt ctx x = (a, ctx', x')"
  shows "x_config x' = x_config x"
  using assms
proof (cases rule: process_packet_cases)
  case (failsafe pkt)
  then show ?thesis using failsafe_step_fields(5) [OF failsafe(2)] by simp
next
  case (blocked pkt x1)
  then show ?thesis using failsafe_step_fields(5) [OF blocked(2)] blocklist_step_fields(5) [OF blocked(3)] by simp
next
  case (syn pkt x1)
  then show ?thesis using failsafe_step_fields(5) [OF syn(2)] syn_counter_step_fields(3) [OF syn(4)] by simp
next
  case (limited pkt x1 x2)
  then show ?thesis
    using failsafe_step_fields(5) [OF limited(2)] syn_counter_step_fields(3) [OF limited(4)] rate_limit_step_fields(2) [OF limited(5)] by simp
next
  case (flood pkt x1 x2 x3)
  then show ?thesis
    using failsafe_step_fields(5) [OF flood(2)] syn_counter_step_fields(3) [OF flood(4)] rate_limit_step_fields(2) [OF flood(5)]
      syn_flood_step_fields(2) [OF flood(6)] by simp
next
  case (passed pkt x1 x2 x3 x4)
  then show ?thesis
    using failsafe_step_fields(5) [OF passed(2)] syn_counter_step_fields(3) [OF passed(4)] rate_limit_step_fields(2) [OF passed(5)]
      syn_flood_step_fields(2) [OF passed(6)] by simp
qed simp_all

text \<open>One packet spends what it passes from the credit of the bucket.\<close>

lemma packet_credit:
  assumes "ebpf_map (k_rate K)" "RateLimitEnabled (read_config x) \<noteq> 0" "src \<noteq> 0"
    and "km_view (x_rate x) src = Some b" "RbLastRefill b \<le> kt 3" "unat (kt 3) \<le> t1"
    and "process_packet K kt ctx x = (a, ctx', x')"
  shows "bucket_after t1 (kt 3) b (a = XDP_PASS \<and> from_source src ctx) (km_view (x_rate x') src)"
proof -
  have keep: ?thesis if "x_rate x' = x_rate x" "\<not> (a = XDP_PASS \<and> from_source src ctx)"
    using bucket_after_refl [OF assms(5)] that assms(4) by (simp add: bucket_after_def)
  have less: "bucket_after t1 now b False bo" if "bucket_after t1 now b p bo" for now p bo
    using that by (auto simp: bucket_after_def split: option.splits)
  from assms(7) show ?thesis
  proof (cases rule: process_packet_cases)
    case short
    show ?thesis by (rule keep) (simp_all add: short)
  next
    case malformed
    show ?thesis by (rule keep) (simp_all add: malformed)
  next
    case (other pkt)
    then have "\<not> from_source src ctx" using assms(3) by (auto simp: from_source_def)
    then show ?thesis by (intro keep) (simp_all add: other)
  next
    case (failsafe pkt)
    show ?thesis by (rule keep) (use failsafe_step_fields(4,10) [OF failsafe(2)] in auto)
  next
    case (blocked pkt x1)
    show ?thesis
      by (rule keep) (use failsafe_step_fields(4) [OF blocked(2)] blocklist_step_fields(4) [OF blocked(3)]
        blocklist_step_action [OF blocked(3)] in auto)
  next
    case (syn pkt x1)
    show ?thesis
      by (rule keep) (use failsafe_step_fields(4) [OF syn(2)] syn_counter_step_fields(2,6) [OF syn(4)] in auto)
  next
    case (limited pkt x1 x2)
    have v: "km_view (x_rate x2) src = Some b"
      using failsafe_step_fields(4) [OF limited(2)] syn_counter_step_fields(2) [OF limited(4)] assms(4) by simp
    show ?thesis
      using less [OF rate_limit_step_credit [OF assms(1) v assms(5,6) limited(5)]] rate_limit_step_fields(6) [OF limited(5)] by auto
  next
    case (flood pkt x1 x2 x3)
    have v: "km_view (x_rate x2) src = Some b"
      using failsafe_step_fields(4) [OF flood(2)] syn_counter_step_fields(2) [OF flood(4)] assms(4) by simp
    show ?thesis
      using less [OF syn_flood_step_after [OF rate_limit_step_credit [OF assms(1) v assms(5,6) flood(5)] flood(6)]]
        syn_flood_step_fields(6) [OF flood(6)] by auto
  next
    case (passed pkt x1 x2 x3 x4)
    have v: "km_view (x_rate x2) src = Some b"
      using failsafe_step_fields(4) [OF passed(2)] syn_counter_step_fields(2) [OF passed(4)] assms(4) by simp
    show ?thesis
      using syn_flood_step_after [OF rate_limit_step_credit [OF assms(1) v assms(5,6) passed(5)] passed(6)]
        passed(7,8) assms(2) from_source_ip [OF passed(1), of src] by simp
  qed
qed

text \<open>A packet of a source without a bucket gets a new one.\<close>

definition fresh_credit :: "nat \<Rightarrow> u64 \<Rightarrow> FalxMapConfig \<Rightarrow> RateBucket option \<Rightarrow> bool" where
  "fresh_credit t1 now cfg bo \<longleftrightarrow> (case bo of None \<Rightarrow> True | Some b \<Rightarrow> RbLastRefill b \<le> now \<and> RbRefillRate b = RateRefillNs cfg
     \<and> credit t1 b \<le> (unat (RateCapacity cfg) - 1) + (t1 - unat now) div unat (RateRefillNs cfg))"

lemma rate_limit_step_fresh:
  assumes "ebpf_map (k_rate K)" "km_view (x_rate x) src = None" "rate_limit_step K kt cfg pkt x = (r, x')"
  shows "fresh_credit t1 (kt 3) cfg (km_view (x_rate x') src)"
proof (cases "RateLimitEnabled cfg \<noteq> 0 \<and> \<not> pi_is_ipv6 pkt")
  case True
  obtain r1 x1 where c: "check_rate_limit K kt (pi_src_ip pkt) cfg x = (r1, x1)" by fastforce
  have x': "x_rate x' = x_rate x1"
    using assms(3) True c by (cases r1; auto simp: rate_limit_step_def counter_defs)+
  show ?thesis
  proof (cases "pi_src_ip pkt = src")
    case same: True
    let ?b = "\<lparr>RbTokens = saturating_sub (RateCapacity cfg) 1, RbLastRefill = kt 3, RbCapacity = RateCapacity cfg,
      RbRefillRate = RateRefillNs cfg, RbDropCount = 0\<rparr>"
    obtain e s where u: "e_update (k_rate K) src ?b (x_rate x) = (e, s)" by fastforce
    have s: "x_rate x1 = s" using c same assms(2) u by (auto simp: check_rate_limit_def Let_def)
    show ?thesis
    proof (cases e)
      case None
      then show ?thesis
        using ebpf_map.update_ok [OF assms(1), of src ?b "x_rate x" s] u x' s
        by (simp add: fresh_credit_def credit_def unat_saturating_sub)
    next
      case (Some err)
      then show ?thesis
        using ebpf_map.update_err [OF assms(1), of src ?b "x_rate x" err s] u x' s assms(2) by (simp add: fresh_credit_def)
    qed
  next
    case False
    then show ?thesis using check_rate_limit_other [OF assms(1) _ c, of src] assms(2) x' by (auto simp: fresh_credit_def)
  qed
qed (use assms in \<open>auto simp: rate_limit_step_def fresh_credit_def\<close>)

lemma syn_flood_step_fresh:
  assumes "fresh_credit t1 now cfg (km_view (x_rate x) src)" "syn_flood_step K kt cfg' pkt x = (r, x')"
  shows "fresh_credit t1 now cfg (km_view (x_rate x') src)"
proof (cases "km_view (x_rate x) src")
  case None
  then show ?thesis using assms syn_flood_step_none [OF None assms(2)] by simp
next
  case (Some b1)
  obtain b' where "km_view (x_rate x') src = Some b'" "RbLastRefill b' = RbLastRefill b1" "RbRefillRate b' = RbRefillRate b1"
      "credit t1 b' \<le> credit t1 b1"
    by (rule syn_flood_step_credit [where ?t1.0 = t1, OF Some assms(2)])
  then show ?thesis using assms(1) Some by (simp add: fresh_credit_def)
qed

lemma packet_fresh:
  assumes "ebpf_map (k_rate K)" "km_view (x_rate x) src = None" "process_packet K kt ctx x = (a, ctx', x')"
  shows "fresh_credit t1 (kt 3) (read_config x) (km_view (x_rate x') src)"
proof -
  have keep: ?thesis if "x_rate x' = x_rate x" using that assms(2) by (simp add: fresh_credit_def)
  have none: "km_view (x_rate x2) src = None"
    if "failsafe_step kt (read_config x) pkt (count_rx pkt x) = (None, x1)" "syn_counter_step K kt pkt x1 = (None, x2)" for pkt x1 x2
    using failsafe_step_fields(4) [OF that(1)] syn_counter_step_fields(2) [OF that(2)] assms(2) by simp
  note rl = rate_limit_step_fresh [OF assms(1) none]
  from assms(3) show ?thesis
  proof (cases rule: process_packet_cases)
    case (failsafe pkt)
    then show ?thesis using failsafe_step_fields(4) [OF failsafe(2)] by (intro keep) simp
  next
    case (blocked pkt x1)
    then show ?thesis using failsafe_step_fields(4) [OF blocked(2)] blocklist_step_fields(4) [OF blocked(3)] by (intro keep) simp
  next
    case (syn pkt x1)
    then show ?thesis using failsafe_step_fields(4) [OF syn(2)] syn_counter_step_fields(2) [OF syn(4)] by (intro keep) simp
  next
    case (limited pkt x1 x2)
    then show ?thesis using rl [OF limited(2,4,5)] by simp
  next
    case (flood pkt x1 x2 x3)
    then show ?thesis using syn_flood_step_fresh [OF rl [OF flood(2,4,5)] flood(6)] by simp
  next
    case (passed pkt x1 x2 x3 x4)
    then show ?thesis using syn_flood_step_fresh [OF rl [OF passed(2,4,5)] passed(6)] by simp
  qed (use assms(2) in \<open>auto simp: fresh_credit_def\<close>)
qed

lemma passes_bounded:
  fixes K :: xkernel and cfg :: FalxMapConfig
  defines "C \<equiv> max 1 (unat (RateCapacity cfg))" and "R \<equiv> RateRefillNs cfg"
  assumes "ebpf_map (k_rate K)" "RateLimitEnabled cfg \<noteq> 0" "src \<noteq> 0"
    and "read_config x = cfg" "sorted (t0 # map (\<lambda>p. unat (fst p 3)) ps)" "\<forall>p\<in>set ps. unat (fst p 3) \<le> t1"
  shows "case km_view (x_rate x) src of
      None \<Rightarrow> passes K src ps x \<le> (1 + losses K src ps x) * C + (t1 - t0) div unat R
    | Some b \<Rightarrow> RbRefillRate b = R \<and> unat (RbLastRefill b) \<le> t0 \<longrightarrow> passes K src ps x \<le> credit t1 b + losses K src ps x * C"
  using assms(6-8)
proof (induction ps arbitrary: x t0)
  case Nil
  then show ?case by (simp split: option.split)
next
  case (Cons p ps)
  obtain kt ctx where p: "p = (kt, ctx)" by fastforce
  obtain a c x' where run: "process_packet K kt ctx x = (a, c, x')" by (rule prod_cases3)
  let ?p = "a = XDP_PASS \<and> from_source src ctx" and ?bo = "km_view (x_rate x) src" and ?bo' = "km_view (x_rate x') src"
  have cfg: "read_config x' = cfg" using read_config_cong [OF process_packet_config [OF run]] Cons.prems(1) by simp
  have t: "t0 \<le> unat (kt 3)" "unat (kt 3) \<le> t1" using Cons.prems by (simp_all add: p)
  have IH: "case ?bo' of None \<Rightarrow> passes K src ps x' \<le> (1 + losses K src ps x') * C + (t1 - unat (kt 3)) div unat R
    | Some b \<Rightarrow> RbRefillRate b = R \<and> unat (RbLastRefill b) \<le> unat (kt 3) \<longrightarrow> passes K src ps x' \<le> credit t1 b + losses K src ps x' * C"
    by (rule Cons.IH) (use Cons.prems cfg in \<open>simp_all add: p\<close>)
  have ps: "passes K src (p # ps) x = of_bool ?p + passes K src ps x'"
    "losses K src (p # ps) x = of_bool (?bo' = None \<and> (?bo \<noteq> None \<or> ?p)) + losses K src ps x'"
    by (simp_all add: p falx_xdp_def run)
  have C: "1 \<le> C" "unat (RateCapacity cfg) \<le> C" by (simp_all add: C_def)
  have mono: "(t1 - unat (kt 3)) div unat R \<le> (t1 - s) div unat R" if "s \<le> unat (kt 3)" for s
    using that by (intro div_le_mono) simp
  show ?case
  proof (cases ?bo)
    case None
    note fr = packet_fresh [OF assms(3) None run, of t1, unfolded Cons.prems(1)]
    show ?thesis
    proof (cases ?bo')
      case n: None
      then show ?thesis using IH None mono [OF t(1)] C(1) unfolding ps by (auto simp: of_bool_def)
    next
      case (Some b)
      then have "passes K src ps x' \<le> credit t1 b + losses K src ps x' * C"
        "credit t1 b \<le> (unat (RateCapacity cfg) - 1) + (t1 - unat (kt 3)) div unat R"
        using IH fr by (simp_all add: fresh_credit_def R_def word_le_nat_alt)
      then show ?thesis using None Some mono [OF t(1)] C unfolding ps by (auto simp: of_bool_def)
    qed
  next
    case (Some b)
    have "of_bool ?p + passes K src ps x' \<le> credit t1 b + (of_bool (?bo' = None) + losses K src ps x') * C"
      if b: "RbRefillRate b = R" "unat (RbLastRefill b) \<le> t0"
    proof -
      have "RbLastRefill b \<le> kt 3" using b(2) t(1) by (simp add: word_le_nat_alt)
      note ba = packet_credit [OF assms(3) _ assms(5) Some this t(2) run]
      have ba: "bucket_after t1 (kt 3) b ?p ?bo'" by (rule ba) (use assms(4) Cons.prems(1) in simp)
      show ?thesis
      proof (cases ?bo')
        case None
        have "(t1 - unat (kt 3)) div unat R \<le> credit t1 b"
          using mono [of "unat (RbLastRefill b)"] b t(1) by (simp add: credit_def)
        then show ?thesis using IH None ba by (auto simp: bucket_after_def)
      next
        case (Some b')
        then show ?thesis using IH ba b(1) by (simp add: bucket_after_def word_le_nat_alt)
      qed
    qed
    then show ?thesis using Some unfolding ps by simp
  qed
qed


section \<open>Accounting\<close>

text \<open>The counters that account for verdicts: packets received, passed and dropped of the compact
  statistics, and rate limited packets and parse errors of the full ones.\<close>

definition t_m :: "xdp \<Rightarrow> (u64 \<times> u64 \<times> u64) option" where
  "t_m x = map_option (\<lambda>m. (mRxPackets m, mPassed m, mDropped m)) (x_mapped x)"

definition t_s :: "xdp \<Rightarrow> (u64 \<times> u64) option" where
  "t_s x = map_option (\<lambda>s. (RateLimited s, ParseErrors s)) (x_stats x)"

lemma t_count [simp]:
  "t_m (count_rx pkt x) = map_option (\<lambda>(r, p, d). (saturating_add r 1, p, d)) (t_m x)"
  "t_m (count_passed pkt x) = map_option (\<lambda>(r, p, d). (r, saturating_add p 1, d)) (t_m x)"
  "t_m (count_dropped pkt x) = map_option (\<lambda>(r, p, d). (r, p, saturating_add d 1)) (t_m x)"
  "t_m (count_rate_limited x) = t_m x" "t_m (bump_stat f x) = t_m x"
  "t_s (count_rx pkt x) = t_s x" "t_s (count_passed pkt x) = t_s x" "t_s (count_dropped pkt x) = t_s x"
  "t_s (count_rate_limited x) = map_option (\<lambda>(l, e). (saturating_add l 1, e)) (t_s x)"
  by (simp_all add: t_m_def t_s_def counter_defs option.map_comp o_def)

lemma t_cong: "x_mapped x = x_mapped y \<Longrightarrow> t_m x = t_m y" "x_stats x = x_stats y \<Longrightarrow> t_s x = t_s y"
  by (simp_all add: t_m_def t_s_def)

lemma t_s_bump: "(\<And>s. RateLimited (f s) = RateLimited s) \<Longrightarrow> (\<And>s. ParseErrors (f s) = ParseErrors s) \<Longrightarrow> t_s (bump_stat f x) = t_s x"
  by (simp add: t_s_def option.map_comp o_def)

lemma t_ban [simp]: "t_m (apply_cooling_ban K src now r x) = t_m x" "t_s (apply_cooling_ban K src now r x) = t_s x"
  by (simp_all add: t_m_def t_s_def option.map_comp o_def)

lemma t_updates [simp]:
  "t_m (x\<lparr>x_failsafe := f\<rparr>) = t_m x" "t_s (x\<lparr>x_failsafe := f\<rparr>) = t_s x" "t_m (x\<lparr>x_syn := sy\<rparr>) = t_m x" "t_s (x\<lparr>x_syn := sy\<rparr>) = t_s x"
  "t_m (x\<lparr>x_rate := rt\<rparr>) = t_m x" "t_s (x\<lparr>x_rate := rt\<rparr>) = t_s x"
  by (simp_all add: t_m_def t_s_def)

lemma failsafe_step_tally:
  assumes "failsafe_step kt cfg pkt x = (Some a, x')"
  shows "t_m x' = map_option (\<lambda>(r, p, d). (r, p, saturating_add d 1)) (t_m x)" "t_s x' = t_s x" "a = XDP_DROP"
proof -
  obtain x1 where c: "check_failsafe kt pkt x = (Some a, x1)"
    and x': "x' = (if a = XDP_DROP then count_dropped pkt x1 else x1)"
    using assms by (auto simp: failsafe_step_def split: if_splits prod.splits option.splits)
  have "a = XDP_DROP \<and> t_m x1 = t_m x \<and> t_s x1 = t_s x"
    using c by (cases "km_view (x_failsafe x) FailsafeIdx") (auto simp: check_failsafe_def Let_def t_s_bump split: if_splits)
  then show "t_m x' = map_option (\<lambda>(r, p, d). (r, p, saturating_add d 1)) (t_m x)" "t_s x' = t_s x" "a = XDP_DROP"
    by (simp_all add: x')
qed

lemma blocklist_step_tally:
  assumes "blocklist_step K kt pkt ctx x = (Some a, ctx', x')"
  shows "t_m x' = (if a = XDP_DROP then map_option (\<lambda>(r, p, d). (r, p, saturating_add d 1)) (t_m x) else t_m x)" "t_s x' = t_s x"
proof -
  obtain x1 where x': "x' = (if a = XDP_DROP then count_dropped pkt x1 else x1)"
    and c: "(\<exists>c. check_blocklist_v4 kt ctx (pi_src_ip pkt) x = (Some a, c, x1)) \<or> check_blocklist_v6 kt (pi_src_ip6 pkt) x = (Some a, x1)"
    using assms by (auto simp: blocklist_step_def split: if_splits prod.splits option.splits)
  from c have "t_m x1 = t_m x \<and> t_s x1 = t_s x"
  proof
    assume "\<exists>c. check_blocklist_v4 kt ctx (pi_src_ip pkt) x = (Some a, c, x1)"
    then show ?thesis
      by (cases "km_view (x_v4 x) (pi_src_ip pkt)") (auto simp: check_blocklist_v4_def Let_def t_s_bump split: if_splits prod.splits)
  next
    assume "check_blocklist_v6 kt (pi_src_ip6 pkt) x = (Some a, x1)"
    then show ?thesis
      by (cases "km_view (x_v6 x) (pi_src_ip6 pkt)") (auto simp: check_blocklist_v6_def Let_def t_s_bump split: if_splits)
  qed
  then show "t_m x' = (if a = XDP_DROP then map_option (\<lambda>(r, p, d). (r, p, saturating_add d 1)) (t_m x) else t_m x)" "t_s x' = t_s x"
    by (simp_all add: x')
qed

lemma syn_counter_step_tally:
  assumes "syn_counter_step K kt pkt x = (Some a, x')"
  shows "t_m x' = map_option (\<lambda>(r, p, d). (r, p, saturating_add d 1)) (t_m x)" "t_s x' = t_s x"
proof -
  obtain x1 where c: "check_syn_counter K (pi_src_ip pkt) (pi_tcp_flags pkt) (kt 2) x = (Some a, x1)" and x': "x' = count_dropped pkt x1"
    using assms by (auto simp: syn_counter_step_def split: if_splits prod.splits option.splits)
  have "t_m x1 = t_m x \<and> t_s x1 = t_s x"
    using c by (cases "km_view (x_syn x) (pi_src_ip pkt)") (auto simp: check_syn_counter_def Let_def t_s_bump split: if_splits)
  then show "t_m x' = map_option (\<lambda>(r, p, d). (r, p, saturating_add d 1)) (t_m x)" "t_s x' = t_s x" by (simp_all add: x')
qed

lemma limit_step_tally:
  assumes "rate_limit_step K kt cfg pkt x = (Some a, x') \<or> syn_flood_step K kt cfg pkt x = (Some a, x')"
  shows "t_m x' = t_m x" "t_s x' = map_option (\<lambda>(l, e). (saturating_add l 1, e)) (t_s x)"
proof -
  obtain x1 where x': "x' = count_rate_limited x1"
    and c: "check_rate_limit K kt (pi_src_ip pkt) cfg x = (Some a, x1) \<or> check_syn_flood K kt (pi_src_ip pkt) x = (Some a, x1)"
    using assms by (auto simp: rate_limit_step_def syn_flood_step_def split: if_splits prod.splits option.splits)
  have "t_m x1 = t_m x \<and> t_s x1 = t_s x"
    using c by (cases "km_view (x_rate x) (pi_src_ip pkt)") (auto simp: check_rate_limit_def check_syn_flood_def Let_def split: if_splits)
  then show "t_m x' = t_m x" "t_s x' = map_option (\<lambda>(l, e). (saturating_add l 1, e)) (t_s x)" by (simp_all add: x')
qed

definition parsed :: "bytes \<Rightarrow> bool" where
  "parsed ctx \<longleftrightarrow> 14 \<le> length ctx \<and> parse_packet ctx \<noteq> None"

lemma checked_packet_parsed: "checked_packet ctx pkt \<Longrightarrow> parsed ctx \<and> \<not> length ctx < 14"
  by (simp add: checked_packet_def parsed_def)

lemma packet_tally:
  assumes "process_packet K kt ctx x = (a, c, x')" "t_m x = Some (r, p, d)" "t_s x = Some (l, e)"
  shows "\<exists>d' l' e'. t_m x' = Some (if parsed ctx then saturating_add r 1 else r, if a = XDP_PASS then saturating_add p 1 else p, d')
    \<and> t_s x' = Some (l', e')
    \<and> ((a \<noteq> XDP_DROP \<or> length ctx < 14) \<and> d' = d \<and> l' = l \<and> e' = e
       \<or> a = XDP_DROP \<and> \<not> length ctx < 14 \<and> (d' = saturating_add d 1 \<and> l' = l \<and> e' = e
           \<or> d' = d \<and> l' = saturating_add l 1 \<and> e' = e \<or> d' = d \<and> l' = l \<and> e' = saturating_add e 1))"
  using assms(1)
proof (cases rule: process_packet_cases)
  case short
  then show ?thesis using assms by (simp add: parsed_def)
next
  case malformed
  then show ?thesis using assms(2,3) by (simp add: parsed_def t_s_def option.map_comp o_def) auto
next
  case (other pkt)
  then show ?thesis using assms(2,3) by (simp add: parsed_def)
next
  case (failsafe pkt)
  then show ?thesis using failsafe_step_tally [OF failsafe(2)] checked_packet_parsed [OF failsafe(1)] assms(2,3) by simp
next
  case (blocked pkt x1)
  have "x_mapped x1 = x_mapped (count_rx pkt x)" "x_stats x1 = x_stats (count_rx pkt x)"
    using failsafe_step_fields(8,9) [OF blocked(2)] by simp_all
  note t = t_cong(1) [OF this(1)] t_cong(2) [OF this(2)]
  show ?thesis
    using blocklist_step_tally [OF blocked(3)] blocklist_step_action [OF blocked(3)] checked_packet_parsed [OF blocked(1)] assms(2,3) t by auto
next
  case (syn pkt x1)
  have "x_mapped x1 = x_mapped (count_rx pkt x)" "x_stats x1 = x_stats (count_rx pkt x)"
    using failsafe_step_fields(8,9) [OF syn(2)] by simp_all
  note t = t_cong(1) [OF this(1)] t_cong(2) [OF this(2)]
  show ?thesis
    using syn_counter_step_tally [OF syn(4)] syn_counter_step_fields(6) [OF syn(4)] checked_packet_parsed [OF syn(1)] assms(2,3) t by simp
next
  case (limited pkt x1 x2)
  have "x_mapped x2 = x_mapped (count_rx pkt x)" "x_stats x2 = x_stats (count_rx pkt x)"
    using failsafe_step_fields(8,9) [OF limited(2)] syn_counter_step_fields(5) [OF limited(4)] by simp_all
  note t = t_cong(1) [OF this(1)] t_cong(2) [OF this(2)]
  show ?thesis
    using limit_step_tally [OF disjI1 [OF limited(5)]] rate_limit_step_fields(6) [OF limited(5)] checked_packet_parsed [OF limited(1)] assms(2,3) t
    by simp
next
  case (flood pkt x1 x2 x3)
  have "x_mapped x3 = x_mapped (count_rx pkt x)" "x_stats x3 = x_stats (count_rx pkt x)"
    using failsafe_step_fields(8,9) [OF flood(2)] syn_counter_step_fields(5) [OF flood(4)] rate_limit_step_fields(4,5) [OF flood(5)] by simp_all
  note t = t_cong(1) [OF this(1)] t_cong(2) [OF this(2)]
  show ?thesis
    using limit_step_tally [OF disjI2 [OF flood(6)]] syn_flood_step_fields(6) [OF flood(6)] checked_packet_parsed [OF flood(1)] assms(2,3) t
    by simp
next
  case (passed pkt x1 x2 x3 x4)
  have "x_mapped x4 = x_mapped (count_rx pkt x)" "x_stats x4 = x_stats (count_rx pkt x)"
    using failsafe_step_fields(8,9) [OF passed(2)] syn_counter_step_fields(5) [OF passed(4)] rate_limit_step_fields(4,5) [OF passed(5)]
      syn_flood_step_fields(4,5) [OF passed(6)] by simp_all
  note t = t_cong(1) [OF this(1)] t_cong(2) [OF this(2)]
  show ?thesis using passed(7,8) checked_packet_parsed [OF passed(1)] assms(2,3) t by simp
qed

lemma unat_bump: "unat (w :: u64) + 1 < 2 ^ 64 \<Longrightarrow> unat (saturating_add w 1) = unat w + 1"
  by (simp add: saturating_add_def unat_plus_u64)

lemma run_tally:
  assumes "xdp_run K ps x = (as, x')" "t_m x = Some (r, p, d)" "t_s x = Some (l, e)"
    and "unat r + length ps < 2 ^ 64" "unat p + length ps < 2 ^ 64" "unat d + length ps < 2 ^ 64"
      "unat l + length ps < 2 ^ 64" "unat e + length ps < 2 ^ 64"
  shows "\<exists>r' p' d' l' e'. t_m x' = Some (r', p', d') \<and> t_s x' = Some (l', e')
    \<and> unat r' = unat r + length (filter (\<lambda>p. parsed (snd p)) ps) \<and> unat p' = unat p + count_list as XDP_PASS
    \<and> unat d' + unat l' + unat e' + length (filter (\<lambda>p. length (snd p) < 14) ps)
        = unat d + unat l + unat e + count_list as XDP_DROP"
  using assms
proof (induction ps arbitrary: x as r p d l e)
  case (Cons q ps)
  obtain kt ctx where q: "q = (kt, ctx)" by fastforce
  obtain a c x1 where run: "process_packet K kt ctx x = (a, c, x1)" by (rule prod_cases3)
  obtain as1 where rest: "xdp_run K ps x1 = (as1, x')" and as: "as = a # as1"
    using Cons.prems(1) by (auto simp: q falx_xdp_def run split: prod.splits)
  from packet_tally [OF run Cons.prems(2,3)] obtain d' l' e' where
    t: "t_m x1 = Some (if parsed ctx then saturating_add r 1 else r, if a = XDP_PASS then saturating_add p 1 else p, d')" "t_s x1 = Some (l', e')"
    and ch: "(a \<noteq> XDP_DROP \<or> length ctx < 14) \<and> d' = d \<and> l' = l \<and> e' = e
       \<or> a = XDP_DROP \<and> \<not> length ctx < 14 \<and> (d' = saturating_add d 1 \<and> l' = l \<and> e' = e
           \<or> d' = d \<and> l' = saturating_add l 1 \<and> e' = e \<or> d' = d \<and> l' = l \<and> e' = saturating_add e 1)" by blast
  have short: "length ctx < 14 \<Longrightarrow> a = XDP_DROP" using run by (simp add: process_packet_def)
  define r1 p1 where "r1 = (if parsed ctx then saturating_add r 1 else r)" and "p1 = (if a = XDP_PASS then saturating_add p 1 else p)"
  have "unat r + 1 < 2 ^ 64" "unat p + 1 < 2 ^ 64" "unat d + 1 < 2 ^ 64" "unat l + 1 < 2 ^ 64" "unat e + 1 < 2 ^ 64"
    using Cons.prems(4-8) by simp_all
  note b = this [THEN unat_bump]
  have r1: "unat r1 = unat r + of_bool (parsed ctx)" "unat p1 = unat p + of_bool (a = XDP_PASS)"
    using b(1,2) by (simp_all add: r1_def p1_def)
  have dle: "unat d' \<le> unat d + 1 \<and> unat l' \<le> unat l + 1 \<and> unat e' \<le> unat e + 1
      \<and> unat d' + unat l' + unat e' + of_bool (length ctx < 14) = unat d + unat l + unat e + of_bool (a = XDP_DROP)"
    using ch short b(3-5) by auto
  have rb: "unat r1 \<le> unat r + 1" "unat p1 \<le> unat p + 1" using r1 by simp_all
  have "\<exists>r' p' d'' l'' e''. t_m x' = Some (r', p', d'') \<and> t_s x' = Some (l'', e'')
    \<and> unat r' = unat r1 + length (filter (\<lambda>p. parsed (snd p)) ps) \<and> unat p' = unat p1 + count_list as1 XDP_PASS
    \<and> unat d'' + unat l'' + unat e'' + length (filter (\<lambda>p. length (snd p) < 14) ps)
        = unat d' + unat l' + unat e' + count_list as1 XDP_DROP"
    by (rule Cons.IH [OF rest]) (use t rb dle Cons.prems(4-8) in \<open>simp_all add: r1_def [symmetric] p1_def [symmetric]\<close>)
  then obtain r' p' d'' l'' e'' where f: "t_m x' = Some (r', p', d'')" "t_s x' = Some (l'', e'')"
    "unat r' = unat r1 + length (filter (\<lambda>p. parsed (snd p)) ps)" "unat p' = unat p1 + count_list as1 XDP_PASS"
    "unat d'' + unat l'' + unat e'' + length (filter (\<lambda>p. length (snd p) < 14) ps)
        = unat d' + unat l' + unat e' + count_list as1 XDP_DROP" by blast
  show ?case
    by (rule exI [of _ r'], rule exI [of _ p'], rule exI [of _ d''], rule exI [of _ l''], rule exI [of _ e''])
      (use f r1 dle in \<open>cases "length ctx < 14"; cases "a = XDP_DROP"; simp add: q as\<close>)
qed simp

text \<open>C17. The statistics account for every packet: over any run from zeroed counters, shorter than
  \<open>2 ^ 64\<close> packets, the received counter is the number of packets that parsed, the passed
  counter the number of packets that passed, and every drop is counted exactly once, as
  dropped, rate limited or a parse error, but for frames too short for an Ethernet header,
  which are dropped without being counted.\<close>

theorem verdicts_accounted:
  assumes "xdp_run K ps x = (as, x')" "length ps < 2 ^ 64"
    and "x_mapped x = Some MappedXdpStats0" "x_stats x = Some XdpStats0"
  shows "\<exists>m s. x_mapped x' = Some m \<and> x_stats x' = Some s
    \<and> unat (mRxPackets m) = length (filter (\<lambda>p. parsed (snd p)) ps) \<and> unat (mPassed m) = count_list as XDP_PASS
    \<and> unat (mDropped m) + unat (RateLimited s) + unat (ParseErrors s) + length (filter (\<lambda>p. length (snd p) < 14) ps)
        = count_list as XDP_DROP"
proof -
  have "t_m x = Some (0, 0, 0)" "t_s x = Some (0, 0)"
    using assms(3,4) by (simp_all add: t_m_def t_s_def MappedXdpStats0_def XdpStats0_def)
  from run_tally [OF assms(1) this] assms(2) show ?thesis by (auto simp: t_m_def t_s_def)
qed

section \<open>The circuit\<close>

definition circuit_open :: "xdp \<Rightarrow> bool" where
  "circuit_open x \<longleftrightarrow> (\<exists>s. km_view (x_failsafe x) FailsafeIdx = Some s \<and> CircuitOpen s \<noteq> 0)"

lemma check_failsafe_open:
  assumes "circuit_open x"
  shows "fst (check_failsafe kt pkt x) = Some XDP_DROP" "circuit_open (snd (check_failsafe kt pkt x))"
  using assms by (auto simp: circuit_open_def check_failsafe_def Let_def)

lemma failsafe_step_open:
  assumes "circuit_open x" "FailsafeEnabled cfg \<noteq> 0" "failsafe_step kt cfg pkt x = (r, x')"
  shows "r = Some XDP_DROP \<and> circuit_open x'"
proof -
  obtain r1 x1 where c: "check_failsafe kt pkt x = (r1, x1)" by fastforce
  with check_failsafe_open [OF assms(1), of kt pkt] have "r1 = Some XDP_DROP" "circuit_open x1" by simp_all
  then show ?thesis using assms(2,3) c by (auto simp: failsafe_step_def circuit_open_def counter_defs)
qed

lemma circuit_open_cong: "x_failsafe x = x_failsafe y \<Longrightarrow> circuit_open x = circuit_open y"
  by (simp add: circuit_open_def)

lemma packet_open:
  assumes "circuit_open x" "FailsafeEnabled (read_config x) \<noteq> 0" "process_packet K kt ctx x = (a, c, x')"
  shows "circuit_open x' \<and> a = (if bypasses ctx then XDP_PASS else XDP_DROP)"
proof -
  have open': "circuit_open (count_rx q x)" for q using assms(1) circuit_open_cong [of "count_rx q x" x] by simp
  from assms(3) show ?thesis
  proof (cases rule: process_packet_cases)
    case malformed
    then show ?thesis using assms(1) circuit_open_cong [of x' x] by (simp add: bypasses_def)
  next
    case (other q)
    then show ?thesis using assms(1) circuit_open_cong [of x' x] by (simp add: bypasses_def)
  next
    case (failsafe q)
    then show ?thesis using failsafe_step_open [OF open' assms(2) failsafe(2)] checked_not_bypasses [OF failsafe(1)] by simp
  next
    case (blocked q x1)
    then show ?thesis using failsafe_step_open [OF open' assms(2) blocked(2)] checked_not_bypasses [OF blocked(1)] by simp
  next
    case (syn q x1)
    then show ?thesis using failsafe_step_open [OF open' assms(2) syn(2)] checked_not_bypasses [OF syn(1)] by simp
  next
    case (limited q x1 x2)
    then show ?thesis using failsafe_step_open [OF open' assms(2) limited(2)] checked_not_bypasses [OF limited(1)] by simp
  next
    case (flood q x1 x2 x3)
    then show ?thesis using failsafe_step_open [OF open' assms(2) flood(2)] checked_not_bypasses [OF flood(1)] by simp
  next
    case (passed q x1 x2 x3 x4)
    then show ?thesis using failsafe_step_open [OF open' assms(2) passed(2)] checked_not_bypasses [OF passed(1)] by simp
  qed (use assms(1) in \<open>simp add: bypasses_def\<close>)
qed

text \<open>C34. The circuit latches in the kernel: once it is open, with the failsafe enabled in the configuration, no
  packet closes it, whatever packets come and however low their rate, and every packet is dropped but for
  those that step [4] passes before the circuit is asked: frames without an IP header, and also IPv4
  packets with the source address 0.0.0.0, which that step takes for such frames.\<close>

theorem open_circuit_latches:
  assumes "circuit_open x" "FailsafeEnabled (read_config x) \<noteq> 0"
  shows "circuit_open (snd (xdp_run K ps x))
    \<and> fst (xdp_run K ps x) = map (\<lambda>p. if bypasses (snd p) then XDP_PASS else XDP_DROP) ps"
  using assms
proof (induction ps arbitrary: x)
  case (Cons p ps)
  obtain kt ctx where p: "p = (kt, ctx)" by fastforce
  obtain a c x1 where run: "process_packet K kt ctx x = (a, c, x1)" by (rule prod_cases3)
  note o1 = packet_open [OF Cons.prems run]
  have "read_config x1 = read_config x" by (rule read_config_cong) (rule process_packet_config [OF run])
  then show ?case using Cons.IH [of x1] Cons.prems(2) o1 by (auto simp: p falx_xdp_def run split: prod.split)
qed simp

text \<open>The kernel opens the circuit on its own: a packet that exceeds a threshold sets the flag,
  while the state machine of the control plane is not involved.\<close>

lemma kernel_opens_circuit:
  assumes "km_view (x_failsafe x) FailsafeIdx = Some s" "CircuitOpen s = 0" "unat (CurrentPPS s) < 2 ^ 64 - 1"
    and "kt 0 - WindowStartNs s < 1000000000" "WindowStartNs s \<le> kt 0" "CurrentPPS s \<ge> PPSThreshold s"
  shows "circuit_open (snd (check_failsafe kt pkt x))"
proof -
  have "PPSThreshold s < saturating_add (CurrentPPS s) 1"
    using assms(3,6) by (simp add: word_less_nat_alt word_le_nat_alt saturating_add_def unat_plus_u64)
  moreover have "\<not> 1000000000 \<le> saturating_sub (kt 0) (WindowStartNs s)"
    using assms(4,5) by (simp add: saturating_sub_def not_le)
  ultimately show ?thesis
    using assms(1,2) by (auto simp: check_failsafe_def Let_def circuit_open_def)
qed

section \<open>A concrete host\<close>

definition xdp0 :: "FalxMapConfig \<Rightarrow> FailsafeState \<Rightarrow> xdp" where
  "xdp0 cfg fs = \<lparr>x_v4 = \<lparr>km_data = [], km_env = 0\<rparr>, x_v6 = \<lparr>km_data = [], km_env = 0\<rparr>, x_bloom = [],
     x_cooling = \<lparr>km_data = [], km_env = 0\<rparr>, x_syn = \<lparr>km_data = [], km_env = 0\<rparr>, x_rate = \<lparr>km_data = [], km_env = 0\<rparr>,
     x_mapped = Some MappedXdpStats0, x_stats = Some XdpStats0, x_failsafe = \<lparr>km_data = [(0, fs)], km_env = 0\<rparr>,
     x_config = \<lparr>km_data = [(0, cfg)], km_env = 0\<rparr>, x_targets = [sample_target], x_active = [0]\<rparr>"

definition loader_cfg :: FalxMapConfig where
  "loader_cfg = FalxMapConfig0\<lparr>DefaultAction := ActionPass, RateLimitEnabled := 1, FailsafeEnabled := 1,
     RateCapacity := 1000, RateRefillNs := 1000000\<rparr>"

definition default_fs :: FailsafeState where
  "default_fs = FailsafeState0\<lparr>PPSThreshold := 500000, BPSThreshold := 10000000000\<rparr>"

lemma falx_xkernel_simps [simp]:
  "k_v4 falx_xkernel = lru_ops 65535" "k_rate falx_xkernel = lru_ops 65535" "k_bloom falx_xkernel = low_bits_filter"
  "k_cooling falx_xkernel = lru_ops 65535" "k_syn falx_xkernel = lru_ops 65535"
  by (simp_all add: falx_xkernel_def falx_kernel_def kernel.defs)

definition source1 :: u32 where "source1 = get_le [10, 0, 0, 1]"

lemma parse_sample: "map_option (\<lambda>p. (pi_is_ipv6 p, pi_src_ip p)) (parse_packet sample_packet) = Some (False, source1)"
  by code_simp

lemma sample_ip: "\<exists>pkt. checked_packet sample_packet pkt \<and> \<not> pi_is_ipv6 pkt \<and> pi_src_ip pkt = source1"
proof -
  have "length sample_packet = 54" by code_simp
  moreover have "source1 \<noteq> 0" by code_simp
  ultimately show ?thesis using parse_sample by (auto simp: checked_packet_def)
qed

lemma source1_nonzero: "source1 \<noteq> 0" by code_simp

lemma read_config_xdp0 [simp]: "read_config (xdp0 cfg fs) = cfg"
  by (simp add: read_config_def xdp0_def ConfigIdx_def)

lemma xdp0_views [simp]:
  "km_view (x_rate (xdp0 cfg fs)) = Map.empty" "km_view (x_cooling (xdp0 cfg fs)) = Map.empty" "x_bloom (xdp0 cfg fs) = []"
  "km_view (x_v4 (xdp0 cfg fs)) = Map.empty" "km_view (x_failsafe (xdp0 cfg fs)) FailsafeIdx = Some fs"
  "x_mapped (xdp0 cfg fs) = Some MappedXdpStats0" "x_stats (xdp0 cfg fs) = Some XdpStats0"
  by (simp_all add: xdp0_def FailsafeIdx_def)

lemma lru_update_ok [simp]: "fst (e_update (lru_ops n) k v s) = None"
  by (simp add: lru_ops_def)

lemma sample_from_source: "from_source source1 sample_packet"
  using sample_ip by (auto simp: from_source_def checked_packet_def)

theorem ban_enforced_witness:
  "fst (xdp_run falx_xkernel [(\<lambda>_. 8000000000, sample_packet)]
     (apply_cooling_ban falx_xkernel source1 7000000000 0 (xdp0 loader_cfg default_fs))) ! 0 = XDP_DROP
   \<and> ban_exponent 0 (km_view (x_cooling (apply_cooling_ban falx_xkernel source1 7000000000 0 (xdp0 loader_cfg default_fs))) source1) = 1"
  using ban_enforced [where K = falx_xkernel and src = source1 and x = "xdp0 loader_cfg default_fs" and min_r = 0 and now_ns = 7000000000
      and ps = "[(\<lambda>_. 8000000000, sample_packet)]" and min_r' = 0]
    sample_from_source source1_nonzero lbf.bloom_filter_axioms
  by (auto simp: lru.ebpf_map_axioms ban_exponent_def simp del: xdp_run.simps(2))


theorem verdicts_accounted_witness:
  "\<exists>m s. x_mapped (snd (xdp_run falx_xkernel [(\<lambda>_. 5, []), (\<lambda>_. 5, sample_packet)] (xdp0 loader_cfg default_fs))) = Some m
     \<and> x_stats (snd (xdp_run falx_xkernel [(\<lambda>_. 5, []), (\<lambda>_. 5, sample_packet)] (xdp0 loader_cfg default_fs))) = Some s
     \<and> unat (mRxPackets m) = 1"
proof -
  have "parsed sample_packet" using sample_ip checked_packet_parsed by blast
  then show ?thesis
    using verdicts_accounted [OF surjective_pairing [of "xdp_run falx_xkernel [(\<lambda>_. 5, []), (\<lambda>_. 5, sample_packet)] (xdp0 loader_cfg default_fs)"]]
    by (auto simp: parsed_def)
qed

definition zero_source_packet :: bytes where
  "zero_source_packet = packet_bytes sample_eth (Ipv4 (sample_ip4 [0, 0, 0, 0] proto_TCP) []) (Tcp sample_syn) []"

lemma zero_source_bypasses: "bypasses zero_source_packet" "\<not> bypasses sample_packet"
  by code_simp+

theorem open_circuit_latches_witness:
  "fst (xdp_run falx_xkernel [(\<lambda>_. 5, sample_packet), (\<lambda>_. 6, zero_source_packet)]
     (xdp0 loader_cfg (default_fs\<lparr>CircuitOpen := 1\<rparr>))) = [XDP_DROP, XDP_PASS]"
proof -
  have "circuit_open (xdp0 loader_cfg (default_fs\<lparr>CircuitOpen := 1\<rparr>))"
    by (simp add: circuit_open_def)
  moreover have "FailsafeEnabled loader_cfg \<noteq> 0" by (simp add: loader_cfg_def)
  ultimately show ?thesis
    using open_circuit_latches [of "xdp0 loader_cfg (default_fs\<lparr>CircuitOpen := 1\<rparr>)" falx_xkernel
        "[(\<lambda>_. 5, sample_packet), (\<lambda>_. 6, zero_source_packet)]"] zero_source_bypasses by (simp del: xdp_run.simps)
qed

end
