(* ===== verification/XdpControl.thy ===== *)
theory XdpControl
  imports XdpMain
begin

text \<open>
  The XDP program together with the control plane: both use the same blocklist, and what the
  one writes the other reads.  The manager of theory \<open>BpfManager\<close> writes entries under the key
  of \<open>IPv4ToUint32\<close> with expiry times in Unix seconds; the program of theory \<open>XdpMain\<close> looks a
  source up under the address as it stands in the packet, only if the bloom filter lets it,
  and compares expiry times with the seconds since boot.
\<close>

section \<open>Keys\<close>

lemma get_le_inj:
  assumes "length bs = 4" "length cs = 4"
  shows "(get_le bs :: u32) = get_le cs \<longleftrightarrow> bs = cs"
proof
  assume "(get_le bs :: u32) = get_le cs"
  then have "put_le 4 (get_le bs :: u32) = put_le 4 (get_le cs :: u32)" by (rule arg_cong)
  moreover have "put_le 4 (get_le bs :: u32) = bs" "put_le 4 (get_le cs :: u32) = cs"
    using assms put_get_le [of bs, where 'a = 32] put_get_le [of cs, where 'a = 32] by simp_all
  ultimately show "bs = cs" by simp
qed simp

text \<open>C37. The key under which the manager blocks an address is the key under which the XDP program
  looks up the packets from that address only for the addresses that read the same backwards:
  the manager puts the first byte of the address into the most significant byte of the key,
  while the program takes the four bytes of the packet as a little-endian number.\<close>

theorem block_key_agreement:
  assumes "packet_ok eth (Ipv4 h opts) l4" "ip4_src_addr h = get_le addr" "length addr = 4"
  shows "\<exists>pkt. parse_packet (packet_bytes eth (Ipv4 h opts) l4 payload) = Some pkt \<and> \<not> pi_is_ipv6 pkt
    \<and> (IPv4ToUint32 addr = (pi_src_ip pkt, None) \<longleftrightarrow> addr = rev addr)"
proof -
  have "IPv4ToUint32 addr = (k, None) \<longleftrightarrow> k = get_le (rev addr)" for k
    using assms(3) by (auto simp: IPv4ToUint32_ok IP_To4_def get_be_def)
  moreover have "pi_src_ip (packet_info (Ipv4 h opts) l4 n) = get_le addr" "\<not> pi_is_ipv6 (packet_info (Ipv4 h opts) l4 n)" for n
    using assms(2) by (cases l4; simp add: PacketInfo0_def)+
  ultimately show ?thesis
    using parse_packet_bytes [OF assms(1)] get_le_inj [of addr "rev addr"] assms(3) by auto
qed

theorem block_key_agreement_witness:
  "\<exists>pkt. parse_packet sample_packet = Some pkt \<and> IPv4ToUint32 [10, 0, 0, 1] \<noteq> (pi_src_ip pkt, None)"
proof -
  have "packet_ok sample_eth (Ipv4 (sample_ip4 [10, 0, 0, 1] proto_TCP) []) (Tcp sample_syn)"
    by (simp add: sample_eth_def sample_ip4_def data_off_syn)
  from block_key_agreement [OF this, of "[10, 0, 0, 1]" "[]"] show ?thesis
    by (auto simp: sample_packet_def sample_ip4_def)
qed

section \<open>The bloom filter\<close>

text \<open>A step does not look at the IPv4 blocklist: another blocklist gives the same verdict, and the
  same state if there is none yet.\<close>

definition blind :: "(xdp \<Rightarrow> 'a option \<times> xdp) \<Rightarrow> bool" where
  "blind f \<longleftrightarrow> (\<forall>x v. fst (f (x\<lparr>x_v4 := v\<rparr>)) = fst (f x)
     \<and> (fst (f x) = None \<longrightarrow> snd (f (x\<lparr>x_v4 := v\<rparr>)) = (snd (f x))\<lparr>x_v4 := v\<rparr>))"

lemma v4_commute [simp]:
  "x\<lparr>x_v4 := v, x_syn := a\<rparr> = x\<lparr>x_syn := a, x_v4 := v\<rparr>" "x\<lparr>x_v4 := v, x_rate := b\<rparr> = x\<lparr>x_rate := b, x_v4 := v\<rparr>"
  "x\<lparr>x_v4 := v, x_failsafe := c\<rparr> = x\<lparr>x_failsafe := c, x_v4 := v\<rparr>" "x\<lparr>x_v4 := v, x_mapped := d\<rparr> = x\<lparr>x_mapped := d, x_v4 := v\<rparr>"
  by (rule xdp.equality; simp)+

lemma blind_step:
  assumes "blind f" "f x = (r, x')"
  obtains x'' where "f (x\<lparr>x_v4 := v\<rparr>) = (r, x'')" "r = None \<Longrightarrow> x'' = x'\<lparr>x_v4 := v\<rparr>"
  using assms that [of "snd (f (x\<lparr>x_v4 := v\<rparr>))"] by (metis blind_def fst_conv snd_conv surjective_pairing)

lemma blind_check_failsafe: "blind (check_failsafe kt pkt)"
  unfolding blind_def
proof (intro allI)
  fix x v
  show "fst (check_failsafe kt pkt (x\<lparr>x_v4 := v\<rparr>)) = fst (check_failsafe kt pkt x) \<and> (fst (check_failsafe kt pkt x) = None \<longrightarrow>
      snd (check_failsafe kt pkt (x\<lparr>x_v4 := v\<rparr>)) = (snd (check_failsafe kt pkt x))\<lparr>x_v4 := v\<rparr>)"
    by (cases "km_view (x_failsafe x) FailsafeIdx") (simp_all add: check_failsafe_def Let_def)
qed

lemma blind_check_syn_counter: "blind (check_syn_counter K src flags now)"
  unfolding blind_def
  by (intro allI, rename_tac x v, case_tac "km_view (x_syn x) src") (simp_all add: check_syn_counter_def Let_def)

lemma blind_check_rate_limit: "blind (check_rate_limit K kt src cfg)"
  unfolding blind_def
  by (intro allI, rename_tac x v, case_tac "km_view (x_rate x) src") (simp_all add: check_rate_limit_def Let_def)

lemma blind_check_syn_flood: "blind (check_syn_flood K kt src)"
  unfolding blind_def
  by (intro allI, rename_tac x v, case_tac "km_view (x_rate x) src") (simp_all add: check_syn_flood_def Let_def)

text \<open>A verdict of the check may be counted, and the whole step switched off.\<close>

lemma blind_counted:
  assumes "blind f" "\<And>x. g x = (if b then (case f x of (Some a, x) \<Rightarrow> (Some a, h a x) | (None, x) \<Rightarrow> (None, x)) else (None, x))"
  shows "blind g"
  unfolding blind_def
proof (intro allI)
  fix x v
  obtain r x' where f: "f x = (r, x')" by fastforce
  obtain x'' where "f (x\<lparr>x_v4 := v\<rparr>) = (r, x'')" "r = None \<Longrightarrow> x'' = x'\<lparr>x_v4 := v\<rparr>"
    using blind_step [OF assms(1) f] by blast
  then show "fst (g (x\<lparr>x_v4 := v\<rparr>)) = fst (g x) \<and> (fst (g x) = None \<longrightarrow> snd (g (x\<lparr>x_v4 := v\<rparr>)) = (snd (g x))\<lparr>x_v4 := v\<rparr>)"
    using f by (cases r) (simp_all add: assms(2))
qed

lemma blind_steps:
  "blind (failsafe_step kt cfg pkt)" "blind (syn_counter_step K kt pkt)"
  "blind (rate_limit_step K kt cfg pkt)" "blind (syn_flood_step K kt cfg pkt)"
  by (rule blind_counted [OF blind_check_failsafe], rule failsafe_step_def)
    (rule blind_counted [OF blind_check_syn_counter], rule syn_counter_step_def,
     rule blind_counted [OF blind_check_rate_limit], rule rate_limit_step_def,
     rule blind_counted [OF blind_check_syn_flood], rule syn_flood_step_def)

lemma unfiltered_blocklist_step:
  "\<not> pi_is_ipv6 pkt \<Longrightarrow> \<not> k_bloom K (x_bloom x) (pi_src_ip pkt) \<Longrightarrow> blocklist_step K kt pkt ctx x = (None, ctx, x)"
  by (simp add: blocklist_step_def)

text \<open>An entry of the IPv4 blocklist whose key was never pushed to the bloom filter has no effect:
  whatever the control plane writes into the blocklist, the verdict on the packets of a source
  the filter does not know is the same.\<close>

lemma unfiltered_block_ignored:
  assumes "parse_packet ctx = Some pkt" "\<not> pi_is_ipv6 pkt" "\<not> k_bloom K (x_bloom x) (pi_src_ip pkt)"
  shows "fst (falx_xdp K kt ctx (x\<lparr>x_v4 := v\<rparr>)) = fst (falx_xdp K kt ctx x)"
proof -
  define y where "y = count_rx pkt x"
  have y: "count_rx pkt (x\<lparr>x_v4 := v\<rparr>) = y\<lparr>x_v4 := v\<rparr>" "x_bloom y = x_bloom x"
    by (simp_all add: y_def counter_defs bump_mapped_def)
  have cfg: "read_config (y\<lparr>x_v4 := v\<rparr>) = read_config y" by (rule read_config_cong) simp
  define cfg where "cfg = read_config y"
  obtain r1 y1 where s1: "failsafe_step kt cfg pkt y = (r1, y1)" by fastforce
  obtain z1 where t1: "failsafe_step kt cfg pkt (y\<lparr>x_v4 := v\<rparr>) = (r1, z1)" "r1 = None \<Longrightarrow> z1 = y1\<lparr>x_v4 := v\<rparr>"
    using blind_step [OF blind_steps(1) s1] by blast
  have b1: "x_bloom y1 = x_bloom x" using failsafe_step_fields(3) [OF s1] y by simp
  have bl: "blocklist_step K kt pkt ctx y1 = (None, ctx, y1)"
      "blocklist_step K kt pkt ctx (y1\<lparr>x_v4 := v\<rparr>) = (None, ctx, y1\<lparr>x_v4 := v\<rparr>)"
    using assms b1 by (simp_all add: unfiltered_blocklist_step)
  obtain r2 y2 where s2: "syn_counter_step K kt pkt y1 = (r2, y2)" by fastforce
  obtain z2 where t2: "syn_counter_step K kt pkt (y1\<lparr>x_v4 := v\<rparr>) = (r2, z2)" "r2 = None \<Longrightarrow> z2 = y2\<lparr>x_v4 := v\<rparr>"
    using blind_step [OF blind_steps(2) s2] by blast
  obtain r3 y3 where s3: "rate_limit_step K kt cfg pkt y2 = (r3, y3)" by fastforce
  obtain z3 where t3: "rate_limit_step K kt cfg pkt (y2\<lparr>x_v4 := v\<rparr>) = (r3, z3)" "r3 = None \<Longrightarrow> z3 = y3\<lparr>x_v4 := v\<rparr>"
    using blind_step [OF blind_steps(3) s3] by blast
  obtain r4 y4 where s4: "syn_flood_step K kt cfg pkt y3 = (r4, y4)" by fastforce
  obtain z4 where t4: "syn_flood_step K kt cfg pkt (y3\<lparr>x_v4 := v\<rparr>) = (r4, z4)"
    using blind_step [OF blind_steps(4) s4] by blast
  show ?thesis
    unfolding falx_xdp_def process_packet_def assms(1) option.case Let_def y(1) y_def [symmetric] cfg cfg_def [symmetric] s1 t1(1)
    by (cases r1; cases r2; cases r3; cases r4) (simp_all add: t1(2) bl s2 t2 s3 t3 s4 t4)
qed

section \<open>Clocks\<close>

text \<open>C38. A cooling ban does not survive the control plane: the XDP program sets its end in
  seconds since boot, and the expiry daemon compares it with the Unix time.  If the wall clock
  is ahead of the uptime by more than the longest ban, the next sweep removes the ban, and the
  source is let through to the rate limiter again although the ban was to last 10 seconds or
  more.\<close>

theorem cooling_ban_swept:
  fixes K :: xkernel and x :: xdp and src min_r :: u32 and now_ns :: u64
  defines "x' \<equiv> apply_cooling_ban K src now_ns min_r x"
  assumes "ebpf_reliable (k_v4 K)" "fst (e_update (k_v4 K) src
      (ban_entry now_ns (ban_exponent min_r (km_view (x_cooling x) src))) (x_v4 x)) = None"
    and "e_iterate (k_v4 K) (x_v4 x') = (kvs, None)" "m_v4 m = x_v4 x'"
    and "int (unat now_ns div 1000000000 + 10 * 2 ^ 16) \<le> time_Unix now" "time_Unix now < 2 ^ 63"
    and "ExpiryDaemon_sweep (kernel.truncate K) now m = (n, m')"
  shows "km_view (x_v4 x') src \<noteq> None \<and> km_view (m_v4 m') src = None"
proof -
  define r where "r = ban_exponent min_r (km_view (x_cooling x) src)"
  have v4: "k_v4 (kernel.truncate K) = k_v4 K" by (simp add: kernel.truncate_def)
  obtain s where s: "e_update (k_v4 K) src (ban_entry now_ns r) (x_v4 x) = (None, s)"
    using assms(3) by (cases "e_update (k_v4 K) src (ban_entry now_ns r) (x_v4 x)") (simp add: r_def)
  have x': "x_v4 x' = s" using apply_cooling_ban_v4 [of K src now_ns min_r x] s by (simp add: x'_def r_def)
  have e: "km_view (x_v4 x') src = Some (ban_entry now_ns r)"
    using ebpf_map.update_ok [OF ebpf_reliable.axioms(1) [OF assms(2)] s] x' by simp
  have r: "r \<le> 16" by (simp add: r_def ban_exponent_le)
  have "(2 :: nat) ^ r \<le> 2 ^ 16" using r by (intro power_increasing) simp_all
  then have le: "int (unat (ExpireAt (ban_entry now_ns r))) \<le> time_Unix now"
    using assms(6) ban_entry_expire [OF r, of now_ns] by linarith
  moreover have "0 < unat (ExpireAt (ban_entry now_ns r))" using ban_entry_expire [OF r, of now_ns] by simp
  moreover have "uint (unix_u64 now) = time_Unix now" by (rule uint_unix_u64) (use assms(6,7) in linarith)+
  ultimately have "expired (unix_u64 now) (ban_entry now_ns r)"
    by (auto simp: expired_def word_le_def)
  moreover obtain e4 r4 m4 where s4: "sweepBlocklistV4 (kernel.truncate K) (unix_u64 now) 0 m = (e4, r4, m4)" by (metis prod_cases3)
  moreover obtain e6 where "sweepBlocklistV6 (kernel.truncate K) (unix_u64 now) r4 m4 = (e6, n, m')"
    using assms(8) s4 by (auto simp: ExpiryDaemon_sweep_def Let_def split: prod.splits)
  ultimately show ?thesis
    using sweepBlocklistV4_exact(1) [of "kernel.truncate K" m kvs "unix_u64 now" 0 e4 r4 m4 src]
      sweepBlocklistV6_frame assms(2,4,5) e v4 by (auto simp: swept_def)
qed

theorem cooling_ban_swept_witness:
  "\<exists>n m'. ExpiryDaemon_sweep (kernel.truncate falx_xkernel) 63900000000000000000
      ((falx_manager (\<lambda>_. 0) DefaultRateLimitConfig)
         \<lparr>m_v4 := x_v4 (apply_cooling_ban falx_xkernel source1 7000000000 0 (xdp0 loader_cfg default_fs))\<rparr>) = (n, m')
    \<and> km_view (m_v4 m') source1 = None"
proof -
  let ?x = "apply_cooling_ban falx_xkernel source1 7000000000 0 (xdp0 loader_cfg default_fs)"
  let ?m = "(falx_manager (\<lambda>_. 0) DefaultRateLimitConfig)\<lparr>m_v4 := x_v4 ?x\<rparr>"
  let ?s = "ExpiryDaemon_sweep (kernel.truncate falx_xkernel) 63900000000000000000 ?m"
  obtain kvs where "e_iterate (lru_ops 65535) (x_v4 ?x) = (kvs, None)" by (simp add: lru_ops_def)
  moreover have "ebpf_reliable (k_v4 falx_xkernel)" by (simp add: lru.ebpf_reliable_axioms)
  ultimately have "km_view (m_v4 (snd ?s)) source1 = None"
    using cooling_ban_swept [of falx_xkernel source1 7000000000 0 "xdp0 loader_cfg default_fs" kvs ?m 63900000000000000000 "fst ?s" "snd ?s"]
    by (simp add: time_Unix_def ban_exponent_def)
  then show ?thesis by (metis prod.collapse)
qed

section \<open>The default configuration\<close>

text \<open>The configuration the manager writes when it finds none has no burst and no refill, so that
  of each IPv4 source only one packet passes, and one more for each time the kernel evicts its bucket.\<close>

lemma default_config_starves:
  assumes "x_config x = m_config (initDefaultMapValues falx_kernel (falx_manager clk rlc))" "ebpf_map (k_rate K)"
    and "src \<noteq> 0" "km_view (x_rate x) src = None" "sorted (map (\<lambda>p. unat (fst p 3)) ps)"
  shows "passes K src ps x \<le> 1 + losses K src ps x"
proof -
  have "km_view (x_config x) ConfigIdx = Some (FalxMapConfig0\<lparr>DefaultAction := ActionPass, RateLimitEnabled := 1, FailsafeEnabled := 1\<rparr>)"
    unfolding assms(1) by (simp add: initDefaultMapValues_def falx_kernel_def falx_manager_def array_ops_def Let_def
      FalxMapConfig0_def FailsafeState0_def ConfigIdx_def)
  then have cfg: "read_config x = FalxMapConfig0\<lparr>DefaultAction := ActionPass, RateLimitEnabled := 1, FailsafeEnabled := 1\<rparr>"
    by (simp add: read_config_def)
  define T where "T = Max (insert 0 ((\<lambda>p. unat (fst p 3)) ` set ps))"
  have "\<forall>p\<in>set ps. unat (fst p 3) \<le> T" "sorted (0 # map (\<lambda>p. unat (fst p 3)) ps)" using assms(5) by (simp_all add: T_def)
  with passes_bounded [OF assms(2) _ assms(3) refl, of x 0 ps T] assms(4) show ?thesis by (simp add: cfg FalxMapConfig0_def)
qed

end
