(* ===== verification/GoEncoding.thy ===== *)
theory GoEncoding
  imports GoScan
begin

text \<open>
  The encodings of Go's standard library that the authentication code uses: base32 and base64
  without padding (\<open>encoding/base32\<close>, \<open>encoding/base64\<close>), as groups of bits, and \<open>strings.Split\<close>
  on one character.  The lemmas show that decoding inverts encoding and that splitting inverts
  joining.
\<close>

section \<open>Strings and bytes\<close>

definition str_bytes :: "string \<Rightarrow> bytes" where
  "str_bytes = map of_char"

definition bytes_str :: "bytes \<Rightarrow> string" where
  "bytes_str = map (\<lambda>b. char_of (unat b))"

fun split_on :: "char \<Rightarrow> string \<Rightarrow> string list" where
  "split_on c [] = [[]]"
| "split_on c (x # xs) =
     (if x = c then [] # split_on c xs
      else case split_on c xs of [] \<Rightarrow> [[x]] | p # ps \<Rightarrow> (x # p) # ps)"

text \<open>\<open>strings.ToUpper\<close> on ASCII text.\<close>

definition to_upper :: "string \<Rightarrow> string" where
  "to_upper = map (\<lambda>c. if of_char c \<in> {97..122 :: nat} then char_of (of_char c - 32 :: nat) else c)"

section \<open>Groups of bits\<close>

definition byte_bits :: "u8 \<Rightarrow> bool list" where
  "byte_bits b = map (bit b) [7, 6, 5, 4, 3, 2, 1, 0]"

definition bits_val :: "bool list \<Rightarrow> nat" where
  "bits_val = foldl (\<lambda>v b. 2 * v + of_bool b) 0"

definition val_bits :: "nat \<Rightarrow> nat \<Rightarrow> bool list" where
  "val_bits k n = map (bit n) (rev [0..<k])"

fun chunks :: "nat \<Rightarrow> 'a list \<Rightarrow> 'a list list" where
  "chunks k xs = (if k = 0 \<or> xs = [] then [] else take k xs # chunks k (drop k xs))"

declare chunks.simps [simp del]

fun index_of :: "string \<Rightarrow> char \<Rightarrow> nat option" where
  "index_of [] c = None"
| "index_of (x # xs) c = (if x = c then Some 0 else map_option Suc (index_of xs c))"

text \<open>Encoding takes \<open>k\<close> bits a character, the last ones filled up with zeros; decoding drops
  the bits that do not make a byte.\<close>

definition pad_bits :: "nat \<Rightarrow> bool list \<Rightarrow> bool list" where
  "pad_bits k c = c @ replicate (k - length c) False"

definition encode :: "nat \<Rightarrow> string \<Rightarrow> bytes \<Rightarrow> string" where
  "encode k alphabet bs = map (\<lambda>c. alphabet ! bits_val (pad_bits k c)) (chunks k (concat (map byte_bits bs)))"

definition decode :: "nat \<Rightarrow> string \<Rightarrow> string \<Rightarrow> bytes option" where
  "decode k alphabet s =
     (if \<forall>c\<in>set s. index_of alphabet c \<noteq> None
      then Some (map (\<lambda>c. of_nat (bits_val c))
        (filter (\<lambda>c. length c = 8) (chunks 8 (concat (map (\<lambda>c. val_bits k (the (index_of alphabet c))) s)))))
      else None)"

section \<open>Base32 and base64\<close>

definition base64_alphabet :: string where
  "base64_alphabet = ''ABCDEFGHIJKLMNOPQRSTUVWXYZabcdefghijklmnopqrstuvwxyz0123456789+/''"

definition base32_alphabet :: string where
  "base32_alphabet = ''ABCDEFGHIJKLMNOPQRSTUVWXYZ234567''"

definition strip_newlines :: "string \<Rightarrow> string" where
  "strip_newlines = filter (\<lambda>c. c \<noteq> CHR 0x0A \<and> c \<noteq> CHR 0x0D)"

definition base64_EncodeToString :: "bytes \<Rightarrow> string" where
  "base64_EncodeToString = encode 6 base64_alphabet"

text \<open>\<open>RawStdEncoding.DecodeString\<close>: newlines are skipped, and one character alone in the last
  group is an error.\<close>

definition base64_DecodeString :: "string \<Rightarrow> bytes option" where
  "base64_DecodeString s =
     (let s = strip_newlines s in if length s mod 4 = 1 then None else decode 6 base64_alphabet s)"

definition base32_EncodeToString :: "bytes \<Rightarrow> string" where
  "base32_EncodeToString = encode 5 base32_alphabet"

text \<open>\<open>StdEncoding.WithPadding(NoPadding).DecodeString\<close>: a last group of 1, 3 or 6 characters
  gives no bytes and no error.\<close>

definition base32_DecodeString :: "string \<Rightarrow> bytes option" where
  "base32_DecodeString s =
     (let s = strip_newlines s; n = length s in
      case decode 5 base32_alphabet s of
        None \<Rightarrow> None
      | Some bs \<Rightarrow> Some (if n mod 8 \<in> {1, 3, 6} then take (5 * (n div 8)) bs else bs))"

section \<open>Round trips\<close>

lemma length_byte_bits [simp]: "length (byte_bits b) = 8"
  by (simp add: byte_bits_def)

lemma length_val_bits [simp]: "length (val_bits k n) = k"
  by (simp add: val_bits_def)

lemma bits_val_snoc: "bits_val (c @ [b]) = 2 * bits_val c + of_bool b"
  by (simp add: bits_val_def)

lemma bits_val_Nil [simp]: "bits_val [] = 0"
  by (simp add: bits_val_def)

lemma bits_val_less: "bits_val c < 2 ^ length c"
  by (induction c rule: rev_induct) (auto simp: bits_val_snoc)

lemma val_bits_Suc: "val_bits (Suc k) n = val_bits k (n div 2) @ [odd n]"
proof -
  have "[0..<Suc k] = 0 # map Suc [0..<k]" by (simp only: upt_conv_Cons map_Suc_upt zero_less_Suc)
  then show ?thesis by (simp add: val_bits_def rev_map bit_Suc bit_0 del: upt_Suc)
qed

lemma val_bits_bits_val: "val_bits (length c) (bits_val c) = c"
  by (induction c rule: rev_induct) (auto simp: bits_val_snoc val_bits_Suc val_bits_def [of 0])

lemma of_nat_bits_val: "of_nat (bits_val (byte_bits b)) = b"
proof -
  have "bits_val (byte_bits b) = unat b"
  proof -
    have "unat b < 2 ^ 8" by (rule order_less_le_trans [OF unsigned_less]) simp
    moreover have "val_bits 8 (unat b) = byte_bits b"
      by (simp add: val_bits_def byte_bits_def bit_unsigned_iff upt_rec numeral_eq_Suc)
    moreover have "bits_val (val_bits k n) = n" if "n < 2 ^ k" for k n
      using that by (induction k arbitrary: n) (auto simp: val_bits_Suc bits_val_snoc val_bits_def [of 0])
    ultimately show ?thesis by metis
  qed
  then show ?thesis by simp
qed

lemma index_of_nth: "distinct xs \<Longrightarrow> i < length xs \<Longrightarrow> index_of xs (xs ! i) = Some i"
proof (induction xs arbitrary: i)
  case (Cons x xs)
  then show ?case by (cases i) (auto simp: nth_mem)
qed simp

lemma chunks_append:
  assumes "length xs = k" "0 < k"
  shows "chunks k (xs @ ys) = xs # chunks k ys"
  using assms by (subst chunks.simps) auto

lemma chunks_short: "0 < length xs \<Longrightarrow> length xs \<le> k \<Longrightarrow> chunks k xs = [xs]"
  by (subst chunks.simps; cases xs) (auto simp: chunks.simps)

lemma chunks_Nil [simp]: "chunks k [] = []"
  by (subst chunks.simps) simp

lemma concat_chunks_padded:
  assumes "0 < k"
  shows "\<exists>n < k. concat (map (pad_bits k) (chunks k xs)) = xs @ replicate n False"
proof (induction xs rule: length_induct)
  case (1 xs)
  show ?case
  proof (cases "length xs \<le> k")
    case True
    then show ?thesis
      using assms chunks_short [of xs k] by (cases "xs = []") (auto simp: pad_bits_def intro: exI [of _ "k - length xs"])
  next
    case False
    have xs: "take k xs @ drop k xs = xs" by simp
    have "length (drop k xs) < length xs" using False assms by simp
    with 1 obtain n where "n < k" "concat (map (pad_bits k) (chunks k (drop k xs))) = drop k xs @ replicate n False" by blast
    moreover have "chunks k xs = take k xs # chunks k (drop k xs)"
      using chunks_append [of "take k xs" k "drop k xs"] False assms by simp
    moreover have "pad_bits k (take k xs) = take k xs" using False by (simp add: pad_bits_def)
    ultimately show ?thesis by (intro exI [of _ n]) (simp flip: append_assoc)
  qed
qed

lemma full_chunks:
  "length rest < 8 \<Longrightarrow> filter (\<lambda>c. length c = 8) (chunks 8 (concat (map byte_bits bs) @ rest)) = map byte_bits bs"
proof (induction bs)
  case Nil
  then show ?case using chunks_short [of rest 8] by (cases "rest = []") auto
next
  case (Cons b bs)
  then show ?case using chunks_append [of "byte_bits b" 8 "concat (map byte_bits bs) @ rest"] by simp
qed

lemma chunks_length: "c \<in> set (chunks k xs) \<Longrightarrow> length c \<le> k"
proof (induction k xs rule: chunks.induct)
  case (1 k xs)
  then show ?case by (subst (asm) (2) chunks.simps) (auto split: if_splits)
qed

lemma length_pad_bits: "length c \<le> k \<Longrightarrow> length (pad_bits k c) = k"
  by (simp add: pad_bits_def)

lemma decode_encode:
  assumes "distinct alphabet" "length alphabet = 2 ^ k" "0 < k" "k \<le> 8"
  shows "decode k alphabet (encode k alphabet bs) = Some bs"
proof -
  define cs where "cs = chunks k (concat (map byte_bits bs))"
  have idx: "index_of alphabet (alphabet ! bits_val (pad_bits k c)) = Some (bits_val (pad_bits k c))" if "c \<in> set cs" for c
    using index_of_nth [OF assms(1)] bits_val_less [of "pad_bits k c"] length_pad_bits [OF chunks_length] that assms(2)
    by (simp add: cs_def)
  have val: "val_bits k (bits_val (pad_bits k c)) = pad_bits k c" if "c \<in> set cs" for c
    using val_bits_bits_val [of "pad_bits k c"] length_pad_bits [OF chunks_length] that by (simp add: cs_def)
  obtain n where n: "n < k" "concat (map (pad_bits k) cs) = concat (map byte_bits bs) @ replicate n False"
    using concat_chunks_padded [OF assms(3)] unfolding cs_def by blast
  have "map (\<lambda>c. val_bits k (the (index_of alphabet c))) (encode k alphabet bs) = map (pad_bits k) cs"
    using idx val by (simp add: encode_def cs_def [symmetric])
  moreover have "\<forall>c\<in>set (encode k alphabet bs). index_of alphabet c \<noteq> None"
    using idx by (auto simp: encode_def cs_def [symmetric])
  ultimately show ?thesis
    using full_chunks [of "replicate n False" bs] n assms(4)
    by (simp add: decode_def comp_def of_nat_bits_val map_idI)
qed

lemma index_of_mem: "index_of xs c = Some i \<Longrightarrow> c \<in> set xs"
  by (induction xs arbitrary: i) (auto split: if_splits)

lemma encode_chars:
  assumes "length alphabet = 2 ^ k"
  shows "set (encode k alphabet bs) \<subseteq> set alphabet"
proof
  fix x assume "x \<in> set (encode k alphabet bs)"
  then obtain c where c: "c \<in> set (chunks k (concat (map byte_bits bs)))" "x = alphabet ! bits_val (pad_bits k c)"
    by (auto simp: encode_def)
  then show "x \<in> set alphabet"
    using bits_val_less [of "pad_bits k c"] length_pad_bits [OF chunks_length [OF c(1)]] assms by simp
qed

lemma strip_newlines_id: "CHR 0x0A \<notin> set s \<Longrightarrow> CHR 0x0D \<notin> set s \<Longrightarrow> strip_newlines s = s"
  by (auto simp: strip_newlines_def filter_id_conv)

lemma length_chunks:
  assumes "0 < k"
  shows "length (chunks k xs) = (length xs + k - 1) div k"
proof (induction xs rule: length_induct)
  case (1 xs)
  show ?case
  proof (cases "xs = []")
    case False
    then have n: "0 < length xs" by simp
    have "length (drop k xs) < length xs" using n assms by simp
    with 1 have IH: "length (chunks k (drop k xs)) = (length (drop k xs) + k - 1) div k" by blast
    have c: "length (chunks k xs) = Suc (length (chunks k (drop k xs)))" using False assms by (subst chunks.simps) simp
    have eq: "length xs + k - 1 = (length xs - 1) + k" using n by linarith
    have "(length xs + k - 1) div k = Suc ((length xs - 1) div k)" unfolding eq using assms by simp
    moreover have "(length (drop k xs) + k - 1) div k = (length xs - 1) div k"
    proof (cases "k \<le> length xs")
      case True
      have "length xs - k + k - 1 = length xs - 1" using True by simp
      then show ?thesis by (simp only: length_drop)
    next
      case False
      then have "(k - 1) div k = 0" "(length xs - 1) div k = 0" using assms by (auto intro: div_less)
      then show ?thesis using False by simp
    qed
    ultimately show ?thesis using c IH by argo
  qed (use assms in simp)
qed

lemma length_encode: "0 < k \<Longrightarrow> length (encode k alphabet bs) = (8 * length bs + k - 1) div k"
  by (simp add: encode_def length_chunks length_concat comp_def sum_list_triv mult.commute)

lemma base64_facts:
  "distinct base64_alphabet" "length base64_alphabet = 2 ^ 6" "CHR 0x0A \<notin> set base64_alphabet"
  "CHR 0x0D \<notin> set base64_alphabet" "CHR ''$'' \<notin> set base64_alphabet"
  by (simp_all add: base64_alphabet_def)

lemma base32_facts:
  "distinct base32_alphabet" "length base32_alphabet = 2 ^ 5" "CHR 0x0A \<notin> set base32_alphabet" "CHR 0x0D \<notin> set base32_alphabet"
  by (simp_all add: base32_alphabet_def)

lemma base64_length: "length (base64_EncodeToString bs) mod 4 \<noteq> 1"
proof -
  define q r where "q = length bs div 3" and "r = length bs mod 3"
  have m: "length bs = 3 * q + r" "r < 3" by (simp_all add: q_def r_def)
  have "8 * (3 * q + r) + 6 - 1 = (8 * r + 5) + 6 * (4 * q)" by (simp add: algebra_simps)
  then have "(8 * (3 * q + r) + 6 - 1) div 6 = 4 * q + (8 * r + 5) div 6" by (simp only: div_mult_self2)
  moreover have "(4 * q + (8 * r + 5) div 6) mod 4 = (8 * r + 5) div 6 mod 4" by (simp only: mod_mult_self4)
  moreover have "r = 0 \<or> r = 1 \<or> r = 2" using m(2) by linarith
  then have "(8 * r + 5) div 6 mod 4 \<noteq> 1" by auto
  ultimately show ?thesis by (simp only: base64_EncodeToString_def length_encode m(1) zero_less_numeral not_False_eq_True)
qed

lemma base32_length: "length (base32_EncodeToString bs) mod 8 \<notin> {1, 3, 6}"
proof -
  define q r where "q = length bs div 5" and "r = length bs mod 5"
  have m: "length bs = 5 * q + r" "r < 5" by (simp_all add: q_def r_def)
  have "8 * (5 * q + r) + 5 - 1 = (8 * r + 4) + 5 * (8 * q)" by (simp add: algebra_simps)
  then have "(8 * (5 * q + r) + 5 - 1) div 5 = 8 * q + (8 * r + 4) div 5" by (simp only: div_mult_self2)
  moreover have "(8 * q + (8 * r + 4) div 5) mod 8 = (8 * r + 4) div 5 mod 8" by (simp only: mod_mult_self4)
  moreover have "r = 0 \<or> r = 1 \<or> r = 2 \<or> r = 3 \<or> r = 4" using m(2) by linarith
  then have "(8 * r + 4) div 5 mod 8 \<notin> {1, 3, 6}" by auto
  ultimately show ?thesis by (simp only: base32_EncodeToString_def length_encode m(1) zero_less_numeral not_False_eq_True)
qed

lemma base64_chars: "set (base64_EncodeToString bs) \<subseteq> set base64_alphabet"
  unfolding base64_EncodeToString_def by (rule encode_chars) (rule base64_facts)

lemma base64_round_trip: "base64_DecodeString (base64_EncodeToString bs) = Some bs"
proof -
  have "strip_newlines (base64_EncodeToString bs) = base64_EncodeToString bs"
    using base64_chars [of bs] base64_facts by (intro strip_newlines_id) auto
  moreover note base64_length [of bs]
  ultimately show ?thesis
    using decode_encode [OF base64_facts(1,2)] by (simp add: base64_DecodeString_def base64_EncodeToString_def)
qed

lemma base32_round_trip: "base32_DecodeString (base32_EncodeToString bs) = Some bs"
proof -
  have "set (base32_EncodeToString bs) \<subseteq> set base32_alphabet"
    unfolding base32_EncodeToString_def by (rule encode_chars) (rule base32_facts)
  then have "strip_newlines (base32_EncodeToString bs) = base32_EncodeToString bs"
    using base32_facts by (intro strip_newlines_id) auto
  moreover note base32_length [of bs]
  ultimately show ?thesis
    using decode_encode [OF base32_facts(1,2)] by (simp add: base32_DecodeString_def base32_EncodeToString_def)
qed

section \<open>Splitting\<close>

lemma split_on_none: "c \<notin> set s \<Longrightarrow> split_on c s = [s]"
  by (induction s) auto

lemma split_on_append: "c \<notin> set s \<Longrightarrow> split_on c (s @ c # t) = s # split_on c t"
  by (induction s) auto

end
