(* ===== verification/AuthModels.thy ===== *)
theory AuthModels
  imports GoEncoding
begin

text \<open>
  The data of the authentication package (\<open>pkg/auth/models.go\<close>): roles with their levels and
  permissions, users, sessions, tokens and requests.  A role is a string, as in the code, so a
  role outside the five known ones is possible: it has level 0 and no permission.
\<close>

section \<open>Roles\<close>

type_synonym Role = string
type_synonym Permission = string

definition RoleSuperAdmin :: Role where "RoleSuperAdmin = ''super_admin''"
definition RoleAdmin :: Role where "RoleAdmin = ''admin''"
definition RoleSeniorAnalyst :: Role where "RoleSeniorAnalyst = ''senior_analyst''"
definition RoleAnalyst :: Role where "RoleAnalyst = ''analyst''"
definition RoleViewer :: Role where "RoleViewer = ''viewer''"

lemmas role_defs = RoleSuperAdmin_def RoleAdmin_def RoleSeniorAnalyst_def RoleAnalyst_def RoleViewer_def

definition Role_Level :: "Role \<Rightarrow> int" where
  "Role_Level r =
     (if r = RoleSuperAdmin then 5
      else if r = RoleAdmin then 4
      else if r = RoleSeniorAnalyst then 3
      else if r = RoleAnalyst then 2
      else if r = RoleViewer then 1
      else 0)"

definition Requires2FA :: "Role \<Rightarrow> bool" where
  "Requires2FA r \<longleftrightarrow> r = RoleSuperAdmin \<or> r = RoleAdmin"

section \<open>Permissions\<close>

definition PermUserCreate :: Permission where "PermUserCreate = ''user:create''"
definition PermUserRead :: Permission where "PermUserRead = ''user:read''"
definition PermUserUpdate :: Permission where "PermUserUpdate = ''user:update''"
definition PermUserDelete :: Permission where "PermUserDelete = ''user:delete''"
definition PermUserList :: Permission where "PermUserList = ''user:list''"
definition PermRoleAssign :: Permission where "PermRoleAssign = ''role:assign''"
definition PermIPBlock :: Permission where "PermIPBlock = ''ip:block''"
definition PermIPUnblock :: Permission where "PermIPUnblock = ''ip:unblock''"
definition PermIPBlockTemp :: Permission where "PermIPBlockTemp = ''ip:block_temp''"
definition PermPolicyCreate :: Permission where "PermPolicyCreate = ''policy:create''"
definition PermPolicyUpdate :: Permission where "PermPolicyUpdate = ''policy:update''"
definition PermPolicyDelete :: Permission where "PermPolicyDelete = ''policy:delete''"
definition PermPolicyRead :: Permission where "PermPolicyRead = ''policy:read''"
definition PermHoneypotManage :: Permission where "PermHoneypotManage = ''honeypot:manage''"
definition PermHoneypotView :: Permission where "PermHoneypotView = ''honeypot:view''"
definition PermFailsafeControl :: Permission where "PermFailsafeControl = ''failsafe:control''"
definition PermFailsafeView :: Permission where "PermFailsafeView = ''failsafe:view''"
definition PermDashboardView :: Permission where "PermDashboardView = ''dashboard:view''"
definition PermTelemetryRead :: Permission where "PermTelemetryRead = ''telemetry:read''"
definition PermAuditRead :: Permission where "PermAuditRead = ''audit:read''"
definition PermAlertRead :: Permission where "PermAlertRead = ''alert:read''"
definition PermAlertAcknowledge :: Permission where "PermAlertAcknowledge = ''alert:acknowledge''"
definition PermSystemConfig :: Permission where "PermSystemConfig = ''system:config''"
definition PermSystemHealth :: Permission where "PermSystemHealth = ''system:health''"
definition PermSystemRestart :: Permission where "PermSystemRestart = ''system:restart''"
definition PermMetricsRead :: Permission where "PermMetricsRead = ''metrics:read''"

text \<open>The map from roles to permissions; \<open>None\<close> is an absent key.\<close>

definition RolePermissions :: "Role \<Rightarrow> Permission list option" where
  "RolePermissions r =
     (if r = RoleSuperAdmin then Some
        [PermUserCreate, PermUserRead, PermUserUpdate, PermUserDelete, PermUserList,
         PermRoleAssign,
         PermIPBlock, PermIPUnblock, PermIPBlockTemp,
         PermPolicyCreate, PermPolicyUpdate, PermPolicyDelete, PermPolicyRead,
         PermHoneypotManage, PermHoneypotView,
         PermFailsafeControl, PermFailsafeView,
         PermDashboardView, PermTelemetryRead, PermAuditRead,
         PermAlertRead, PermAlertAcknowledge,
         PermSystemConfig, PermSystemHealth, PermSystemRestart,
         PermMetricsRead]
      else if r = RoleAdmin then Some
        [PermUserCreate, PermUserRead, PermUserUpdate, PermUserList,
         PermRoleAssign,
         PermIPBlock, PermIPUnblock, PermIPBlockTemp,
         PermPolicyCreate, PermPolicyUpdate, PermPolicyDelete, PermPolicyRead,
         PermHoneypotManage, PermHoneypotView,
         PermFailsafeControl, PermFailsafeView,
         PermDashboardView, PermTelemetryRead, PermAuditRead,
         PermAlertRead, PermAlertAcknowledge,
         PermSystemConfig, PermSystemHealth,
         PermMetricsRead]
      else if r = RoleSeniorAnalyst then Some
        [PermIPBlock, PermIPUnblock, PermIPBlockTemp,
         PermPolicyCreate, PermPolicyUpdate, PermPolicyRead,
         PermHoneypotView,
         PermFailsafeControl, PermFailsafeView,
         PermDashboardView, PermTelemetryRead,
         PermAlertRead, PermAlertAcknowledge,
         PermSystemHealth,
         PermMetricsRead,
         PermAuditRead]
      else if r = RoleAnalyst then Some
        [PermIPBlockTemp,
         PermPolicyRead,
         PermHoneypotView,
         PermFailsafeView,
         PermDashboardView, PermTelemetryRead,
         PermAlertRead, PermAlertAcknowledge,
         PermSystemHealth]
      else if r = RoleViewer then Some
        [PermDashboardView, PermTelemetryRead,
         PermAlertRead,
         PermSystemHealth,
         PermPolicyRead]
      else None)"

section \<open>Users\<close>

record User =
  u_ID :: string
  u_Username :: string
  u_Email :: string
  u_PasswordHash :: string
  u_Role :: Role
  u_Active :: bool
  u_Locked :: bool
  u_FailedAttempts :: int
  u_LastLogin :: gotime
  u_CreatedAt :: gotime
  u_UpdatedAt :: gotime
  u_CreatedBy :: string
  u_TOTPSecret :: string
  u_TOTPEnabled :: bool
  u_DisplayName :: string
  u_AvatarURL :: string

definition User0 :: User where
  "User0 = \<lparr>u_ID = [], u_Username = [], u_Email = [], u_PasswordHash = [], u_Role = [], u_Active = False,
     u_Locked = False, u_FailedAttempts = 0, u_LastLogin = 0, u_CreatedAt = 0, u_UpdatedAt = 0, u_CreatedBy = [],
     u_TOTPSecret = [], u_TOTPEnabled = False, u_DisplayName = [], u_AvatarURL = []\<rparr>"

definition HasPermission :: "User \<Rightarrow> Permission \<Rightarrow> bool" where
  "HasPermission u p =
     (case RolePermissions (u_Role u) of
        None \<Rightarrow> False
      | Some perms \<Rightarrow> list_ex (\<lambda>perm. perm = p) perms)"

definition CanManageRole :: "User \<Rightarrow> Role \<Rightarrow> bool" where
  "CanManageRole u target \<longleftrightarrow> Role_Level (u_Role u) > Role_Level target"

section \<open>Sessions, tokens and requests\<close>

record Session =
  s_ID :: string
  s_UserID :: string
  s_RefreshToken :: string
  s_UserAgent :: string
  s_IPAddress :: string
  s_CreatedAt :: gotime
  s_LastActivityAt :: gotime
  s_ExpiresAt :: gotime
  s_Revoked :: bool

definition Session_IsExpired :: "gotime \<Rightarrow> Session \<Rightarrow> bool" where
  "Session_IsExpired now s = time_After now (s_ExpiresAt s)"

definition Session_IsInactive :: "gotime \<Rightarrow> duration \<Rightarrow> Session \<Rightarrow> bool" where
  "Session_IsInactive now timeout s \<longleftrightarrow> time_Sub now (s_LastActivityAt s) > timeout"

definition ScopePreAuth :: string where "ScopePreAuth = ''pre_auth''"
definition ScopeSession :: string where "ScopeSession = ''session''"

record TokenClaims =
  tc_UserID :: string
  tc_Username :: string
  tc_Role :: Role
  tc_SessionID :: string
  tc_IssuedAt :: int
  tc_ExpiresAt :: int
  tc_TokenType :: string
  tc_TFAVerified :: bool
  tc_Scope :: string
  tc_Permissions :: "Permission list"

record TokenPair =
  tp_AccessToken :: string
  tp_RefreshToken :: string
  tp_TokenType :: string
  tp_ExpiresIn :: int
  tp_ExpiresAt :: gotime

record AuthAuditEvent =
  ae_ID :: string
  ae_UserID :: string
  ae_Username :: string
  ae_Action :: string
  ae_Resource :: string
  ae_IPAddress :: string
  ae_UserAgent :: string
  ae_Success :: bool
  ae_FailReason :: string
  ae_At :: gotime
  ae_Metadata :: "(string \<times> string) list"

definition AuthAuditEvent0 :: AuthAuditEvent where
  "AuthAuditEvent0 = \<lparr>ae_ID = [], ae_UserID = [], ae_Username = [], ae_Action = [], ae_Resource = [], ae_IPAddress = [],
     ae_UserAgent = [], ae_Success = False, ae_FailReason = [], ae_At = 0, ae_Metadata = []\<rparr>"

record LoginRequest =
  lr_Username :: string
  lr_Password :: string
  lr_TOTPCode :: string

record RegisterRequest =
  rr_Username :: string
  rr_Email :: string
  rr_Password :: string
  rr_DisplayName :: string
  rr_Role :: Role

record ChangePasswordRequest =
  cp_OldPassword :: string
  cp_NewPassword :: string

record UserView =
  uv_ID :: string
  uv_Username :: string
  uv_Email :: string
  uv_DisplayName :: string
  uv_Role :: Role
  uv_TOTPEnabled :: bool
  uv_LastLogin :: gotime
  uv_CreatedAt :: gotime

record LoginResponse =
  lresp_Tokens :: TokenPair
  lresp_User :: UserView

definition UserToView :: "User \<Rightarrow> UserView" where
  "UserToView u = \<lparr>uv_ID = u_ID u, uv_Username = u_Username u, uv_Email = u_Email u, uv_DisplayName = u_DisplayName u,
     uv_Role = u_Role u, uv_TOTPEnabled = u_TOTPEnabled u, uv_LastLogin = u_LastLogin u, uv_CreatedAt = u_CreatedAt u\<rparr>"

section \<open>The hierarchy of roles\<close>

lemma role_distinct [simp]:
  "RoleSuperAdmin \<noteq> RoleAdmin" "RoleSuperAdmin \<noteq> RoleSeniorAnalyst" "RoleSuperAdmin \<noteq> RoleAnalyst" "RoleSuperAdmin \<noteq> RoleViewer"
  "RoleAdmin \<noteq> RoleSuperAdmin" "RoleAdmin \<noteq> RoleSeniorAnalyst" "RoleAdmin \<noteq> RoleAnalyst" "RoleAdmin \<noteq> RoleViewer"
  "RoleSeniorAnalyst \<noteq> RoleSuperAdmin" "RoleSeniorAnalyst \<noteq> RoleAdmin" "RoleSeniorAnalyst \<noteq> RoleAnalyst" "RoleSeniorAnalyst \<noteq> RoleViewer"
  "RoleAnalyst \<noteq> RoleSuperAdmin" "RoleAnalyst \<noteq> RoleAdmin" "RoleAnalyst \<noteq> RoleSeniorAnalyst" "RoleAnalyst \<noteq> RoleViewer"
  "RoleViewer \<noteq> RoleSuperAdmin" "RoleViewer \<noteq> RoleAdmin" "RoleViewer \<noteq> RoleSeniorAnalyst" "RoleViewer \<noteq> RoleAnalyst"
  by (simp_all add: role_defs)

lemma role_cases:
  obtains "r = RoleSuperAdmin" | "r = RoleAdmin" | "r = RoleSeniorAnalyst" | "r = RoleAnalyst" | "r = RoleViewer"
  | "Role_Level r = 0" "RolePermissions r = None"
  by (cases "r \<in> {RoleSuperAdmin, RoleAdmin, RoleSeniorAnalyst, RoleAnalyst, RoleViewer}")
    (auto simp: Role_Level_def RolePermissions_def)

lemma Role_Level_simps [simp]:
  "Role_Level RoleSuperAdmin = 5" "Role_Level RoleAdmin = 4" "Role_Level RoleSeniorAnalyst = 3" "Role_Level RoleAnalyst = 2"
  "Role_Level RoleViewer = 1"
  by (simp_all add: Role_Level_def)

lemma Role_Level_le: "0 \<le> Role_Level r" "Role_Level r \<le> 5"
  by (simp_all add: Role_Level_def)

text \<open>The permissions of the next lower role.\<close>

lemma permissions_step:
  "HasPermission (u\<lparr>u_Role := RoleViewer\<rparr>) p \<Longrightarrow> HasPermission (v\<lparr>u_Role := RoleAnalyst\<rparr>) p"
  "HasPermission (u\<lparr>u_Role := RoleAnalyst\<rparr>) p \<Longrightarrow> HasPermission (v\<lparr>u_Role := RoleSeniorAnalyst\<rparr>) p"
  "HasPermission (u\<lparr>u_Role := RoleSeniorAnalyst\<rparr>) p \<Longrightarrow> HasPermission (v\<lparr>u_Role := RoleAdmin\<rparr>) p"
  "HasPermission (u\<lparr>u_Role := RoleAdmin\<rparr>) p \<Longrightarrow> HasPermission (v\<lparr>u_Role := RoleSuperAdmin\<rparr>) p"
  by (auto simp: HasPermission_def RolePermissions_def)

lemma HasPermission_role: "HasPermission (u\<lparr>u_Role := u_Role v\<rparr>) p = HasPermission v p"
  by (simp add: HasPermission_def)

lemma permissions_level:
  assumes "Role_Level (u_Role u) \<le> Role_Level (u_Role v)" "HasPermission u p"
  shows "HasPermission v p"
proof -
  define q where "q r = HasPermission (User0\<lparr>u_Role := r\<rparr>) p" for r
  have q: "q (u_Role w) = HasPermission w p" for w by (simp add: q_def HasPermission_role)
  have step: "q RoleViewer \<Longrightarrow> q RoleAnalyst" "q RoleAnalyst \<Longrightarrow> q RoleSeniorAnalyst" "q RoleSeniorAnalyst \<Longrightarrow> q RoleAdmin"
      "q RoleAdmin \<Longrightarrow> q RoleSuperAdmin"
    unfolding q_def using permissions_step by blast+
  have none: "RolePermissions r = None \<Longrightarrow> \<not> q r" for r by (simp add: q_def HasPermission_def)
  have "q (u_Role u)" using assms(2) q by simp
  then have "q (u_Role v)"
    using assms(1) step none
    by (cases "u_Role u" rule: role_cases; cases "u_Role v" rule: role_cases) auto
  then show ?thesis by (simp add: q)
qed

text \<open>The roles form a hierarchy: a user whose role has at least the level of another's has
  every permission the other has, and only the two administrator roles, which must use two
  factors, have a permission that changes users or the configuration of the system.\<close>

theorem role_hierarchy:
  "(Role_Level (u_Role u) \<le> Role_Level (u_Role v) \<longrightarrow> HasPermission u p \<longrightarrow> HasPermission v p)
   \<and> (HasPermission u p \<longrightarrow> p \<in> {PermUserCreate, PermUserRead, PermUserUpdate, PermUserDelete, PermUserList, PermRoleAssign,
        PermSystemConfig, PermSystemRestart, PermHoneypotManage, PermPolicyDelete} \<longrightarrow> Requires2FA (u_Role u))"
proof (intro conjI impI)
  assume "HasPermission u p" and p: "p \<in> {PermUserCreate, PermUserRead, PermUserUpdate, PermUserDelete, PermUserList, PermRoleAssign,
        PermSystemConfig, PermSystemRestart, PermHoneypotManage, PermPolicyDelete}"
  then have "HasPermission (User0\<lparr>u_Role := u_Role u\<rparr>) p" by (simp add: HasPermission_role)
  moreover have "\<not> HasPermission (User0\<lparr>u_Role := RoleSeniorAnalyst\<rparr>) p"
    using p by (elim insertE) (simp_all add: HasPermission_def RolePermissions_def PermUserCreate_def PermUserRead_def PermUserUpdate_def
      PermUserDelete_def PermUserList_def PermRoleAssign_def PermIPBlock_def PermIPUnblock_def PermIPBlockTemp_def PermPolicyCreate_def
      PermPolicyUpdate_def PermPolicyDelete_def PermPolicyRead_def PermHoneypotManage_def PermHoneypotView_def PermFailsafeControl_def
      PermFailsafeView_def PermDashboardView_def PermTelemetryRead_def PermAuditRead_def PermAlertRead_def PermAlertAcknowledge_def
      PermSystemConfig_def PermSystemHealth_def PermSystemRestart_def PermMetricsRead_def)
  ultimately have "\<not> Role_Level (u_Role u) \<le> 3" using permissions_level [of "User0\<lparr>u_Role := u_Role u\<rparr>" "User0\<lparr>u_Role := RoleSeniorAnalyst\<rparr>" p] by auto
  then show "Requires2FA (u_Role u)" by (cases "u_Role u" rule: role_cases) (simp_all add: Requires2FA_def)
qed (rule permissions_level)

theorem role_hierarchy_witness:
  "HasPermission (User0\<lparr>u_Role := ''admin''\<rparr>) ''ip:block'' \<and> Requires2FA ''super_admin''"
proof -
  have "HasPermission (User0\<lparr>u_Role := ''senior_analyst''\<rparr>) ''ip:block''" by code_simp
  moreover have "Role_Level ''senior_analyst'' \<le> Role_Level ''admin''" by code_simp
  moreover have "HasPermission (User0\<lparr>u_Role := ''super_admin''\<rparr>) ''user:delete''" by code_simp
  moreover have "''user:delete'' = PermUserDelete" by code_simp
  ultimately show ?thesis
    using role_hierarchy [of "User0\<lparr>u_Role := ''senior_analyst''\<rparr>" "User0\<lparr>u_Role := ''admin''\<rparr>" "''ip:block''"]
      role_hierarchy [of "User0\<lparr>u_Role := ''super_admin''\<rparr>" User0 "''user:delete''"] by auto
qed

end
