(* ===== verification/AuthPassword.thy ===== *)
theory AuthPassword
  imports AuthModels
begin

text \<open>
  Password hashing (\<open>pkg/auth/password.go\<close>).  Argon2id comes from \<open>golang.org/x/crypto/argon2\<close> and
  is a parameter, of which only the length of its result is assumed; the format of the stored
  hash, its parser and the password policy are modelled.  The random bytes of a salt are an
  argument.  The text of an error of \<open>Sscanf\<close> or of a decoder inside another error is left out.
\<close>

section \<open>Parameters\<close>

record argon2Params =
  ap_memory :: u32
  ap_iterations :: u32
  ap_parallelism :: u8
  ap_saltLen :: u32
  ap_keyLen :: u32

definition defaultArgon2Params :: argon2Params where
  "defaultArgon2Params = \<lparr>ap_memory = 64 * 1024, ap_iterations = 3, ap_parallelism = 2, ap_saltLen = 16, ap_keyLen = 32\<rparr>"

text \<open>Password, salt, iterations, memory, parallelism and length of the key.\<close>

record argon2 =
  IDKey :: "bytes \<Rightarrow> bytes \<Rightarrow> u32 \<Rightarrow> u32 \<Rightarrow> u8 \<Rightarrow> u32 \<Rightarrow> bytes"
  argon2_Version :: int

section \<open>Hashing\<close>

text \<open>\<open>rnd\<close> is what \<open>rand.Read\<close> returned for the salt.\<close>

definition argon2idHash :: "argon2 \<Rightarrow> string + bytes \<Rightarrow> string \<Rightarrow> string + string" where
  "argon2idHash A rnd plaintext =
     (let p = defaultArgon2Params in
      case rnd of
        Inl e \<Rightarrow> Inl (''salt generation: '' @ e)
      | Inr salt \<Rightarrow>
          let hash = IDKey A (str_bytes plaintext) salt (ap_iterations p) (ap_memory p) (ap_parallelism p) (ap_keyLen p);
              b64salt = base64_EncodeToString salt;
              b64hash = base64_EncodeToString hash
          in Inr (''$argon2id$v='' @ dec_int (argon2_Version A) @ ''$m='' @ dec (unat (ap_memory p)) @ '',t='' @
               dec (unat (ap_iterations p)) @ '',p='' @ dec (unat (ap_parallelism p)) @ ''$'' @ b64salt @ ''$'' @ b64hash))"

definition HashPassword :: "argon2 \<Rightarrow> string + bytes \<Rightarrow> string \<Rightarrow> string + string" where
  "HashPassword A rnd password =
     (if length password < 12 then Inl ''password must be at least 12 characters''
      else if length password > 128 then Inl ''password exceeds maximum length''
      else argon2idHash A rnd password)"

definition HashBackupCode :: "argon2 \<Rightarrow> string + bytes \<Rightarrow> string \<Rightarrow> string + string" where
  "HashBackupCode A rnd code = argon2idHash A rnd code"

section \<open>Verification\<close>

definition argon2Params0 :: argon2Params where
  "argon2Params0 = \<lparr>ap_memory = 0, ap_iterations = 0, ap_parallelism = 0, ap_saltLen = 0, ap_keyLen = 0\<rparr>"

definition decodeHash :: "argon2 \<Rightarrow> string \<Rightarrow> string + (argon2Params \<times> bytes \<times> bytes)" where
  "decodeHash A encoded =
     (let parts = split_on (CHR ''$'') encoded in
      if length parts \<noteq> 6 then Inl ''invalid hash format: wrong field count''
      else if parts ! 1 \<noteq> ''argon2id'' then Inl (''unsupported algorithm: '' @ parts ! 1)
      else let v = Sscanf (parts ! 2) [Lit (CHR ''v''), Lit (CHR ''=''), IntD] in
      if length v < 1 then Inl ''version parse''
      else if v ! 0 \<noteq> argon2_Version A then Inl (''incompatible argon2 version: '' @ dec_int (v ! 0))
      else let ps = Sscanf (parts ! 3) [Lit (CHR ''m''), Lit (CHR ''=''), UintD 32, Lit (CHR '',''), Lit (CHR ''t''), Lit (CHR ''=''),
                      UintD 32, Lit (CHR '',''), Lit (CHR ''p''), Lit (CHR ''=''), UintD 8] in
      if length ps < 3 then Inl ''params parse''
      else case base64_DecodeString (parts ! 4) of
        None \<Rightarrow> Inl ''salt decode''
      | Some salt \<Rightarrow>
          (case base64_DecodeString (parts ! 5) of
             None \<Rightarrow> Inl ''hash decode''
           | Some hash \<Rightarrow>
               Inr (\<lparr>ap_memory = word_of_int (ps ! 0), ap_iterations = word_of_int (ps ! 1), ap_parallelism = word_of_int (ps ! 2),
                      ap_saltLen = of_nat (length salt), ap_keyLen = of_nat (length hash)\<rparr>, salt, hash)))"

definition VerifyPassword :: "argon2 \<Rightarrow> string \<Rightarrow> string \<Rightarrow> string + bool" where
  "VerifyPassword A password encoded =
     (case decodeHash A encoded of
        Inl e \<Rightarrow> Inl (''decode hash: '' @ e)
      | Inr (p, salt, hash) \<Rightarrow>
          let comparison = IDKey A (str_bytes password) salt (ap_iterations p) (ap_memory p) (ap_parallelism p) (ap_keyLen p)
          in Inr (hash = comparison))"

section \<open>The password policy\<close>

text \<open>The loop over the runes of the password sets four flags.  The characters it looks for are
  ASCII and every rune that is not ASCII counts as special, so the loop over the bytes sets the
  same flags.\<close>

definition is_upper :: "char \<Rightarrow> bool" where "is_upper c \<longleftrightarrow> of_char c \<in> {65..90 :: nat}"
definition is_lower :: "char \<Rightarrow> bool" where "is_lower c \<longleftrightarrow> of_char c \<in> {97..122 :: nat}"
definition is_digit :: "char \<Rightarrow> bool" where "is_digit c \<longleftrightarrow> of_char c \<in> {48..57 :: nat}"

fun password_flags :: "string \<Rightarrow> bool \<times> bool \<times> bool \<times> bool \<Rightarrow> bool \<times> bool \<times> bool \<times> bool" where
  "password_flags [] fl = fl"
| "password_flags (c # cs) (hasUpper, hasLower, hasDigit, hasSpecial) =
     password_flags cs
       (if is_upper c then (True, hasLower, hasDigit, hasSpecial)
        else if is_lower c then (hasUpper, True, hasDigit, hasSpecial)
        else if is_digit c then (hasUpper, hasLower, True, hasSpecial)
        else (hasUpper, hasLower, hasDigit, True))"

definition ValidatePasswordStrength :: "string \<Rightarrow> error" where
  "ValidatePasswordStrength password =
     (if length password < 12 then Some ''must be at least 12 characters''
      else if length password > 128 then Some ''must not exceed 128 characters''
      else let (hasUpper, hasLower, hasDigit, hasSpecial) = password_flags password (False, False, False, False) in
        if \<not> hasUpper then Some ''must contain at least one uppercase letter''
        else if \<not> hasLower then Some ''must contain at least one lowercase letter''
        else if \<not> hasDigit then Some ''must contain at least one digit''
        else if \<not> hasSpecial then Some ''must contain at least one special character''
        else None)"

section \<open>Stored hashes\<close>

text \<open>What the code relies on: the derived key has the length that was asked for, and the
  version is a small non-negative number.\<close>

locale argon2_kdf =
  fixes A :: argon2
  assumes key_length: "length (IDKey A pw salt t m p n) = unat n"
    and version: "0 \<le> argon2_Version A" "argon2_Version A < 2 ^ 31"
begin

lemma decodeHash_argon2idHash:
  assumes "argon2idHash A (Inr salt) plaintext = Inr h" "length salt = 16"
  shows "decodeHash A h = Inr (defaultArgon2Params, salt, IDKey A (str_bytes plaintext) salt 3 65536 2 32)"
proof -
  define ver where "ver = nat (argon2_Version A)"
  define key where "key = IDKey A (str_bytes plaintext) salt 3 65536 2 32"
  have ver: "argon2_Version A = int ver" "ver < 2 ^ 63" using version by (simp_all add: ver_def)
  have nod: "CHR ''$'' \<notin> set (dec n)" for n using dec_digits [of "CHR ''$''" n] by (auto simp: is_dec_digit_def)
  have b64: "CHR ''$'' \<notin> set (base64_EncodeToString bs)" for bs using base64_chars [of bs] base64_facts(5) by blast
  define v where "v = ''v='' @ dec ver"
  define p where "p = ''m='' @ dec 65536 @ '',t='' @ dec 3 @ '',p='' @ dec 2"
  have h: "h = [] @ CHR ''$'' # ''argon2id'' @ CHR ''$'' # v @ CHR ''$'' # p @ CHR ''$'' #
      base64_EncodeToString salt @ CHR ''$'' # base64_EncodeToString key"
    using assms(1) by (simp add: argon2idHash_def defaultArgon2Params_def Let_def ver dec_int_def key_def p_def v_def)
  have "split_on (CHR ''$'') h = [[], ''argon2id'', v, p, base64_EncodeToString salt, base64_EncodeToString key]"
  proof -
    have "CHR ''$'' \<notin> set v" "CHR ''$'' \<notin> set p" using nod by (simp_all add: v_def p_def)
    then show ?thesis unfolding h using b64 by (simp add: split_on_append split_on_none)
  qed
  moreover have "Sscanf v [Lit (CHR ''v''), Lit (CHR ''=''), IntD] = [int ver]"
    using scanInt_dec [of "[]" ver] ver(2) by (simp add: no_digit_def v_def)
  moreover have "Sscanf p [Lit (CHR ''m''), Lit (CHR ''=''), UintD 32, Lit (CHR '',''), Lit (CHR ''t''), Lit (CHR ''=''),
      UintD 32, Lit (CHR '',''), Lit (CHR ''p''), Lit (CHR ''=''), UintD 8] = [65536, 3, 2]"
    using scanUint_dec [of "'',t='' @ dec 3 @ '',p='' @ dec 2" 65536 32] scanUint_dec [of "'',p='' @ dec 2" 3 32] scanUint_dec [of "[]" 2 8]
    by (simp add: p_def no_digit_def is_dec_digit_def)
  ultimately show ?thesis
    using assms(2) key_length [of "str_bytes plaintext" salt 3 65536 2 32]
    by (simp add: decodeHash_def Let_def ver base64_round_trip defaultArgon2Params_def key_def)
qed

lemma verify_hashed:
  assumes "argon2idHash A (Inr salt) plaintext = Inr h" "length salt = 16"
  shows "VerifyPassword A pw h = Inr (IDKey A (str_bytes plaintext) salt 3 65536 2 32 = IDKey A (str_bytes pw) salt 3 65536 2 32)"
  using decodeHash_argon2idHash [OF assms] by (simp add: VerifyPassword_def defaultArgon2Params_def Let_def)

end

text \<open>A function with the required length, that looks at the first bytes of password and salt.\<close>

definition prefix_kdf :: argon2 where
  "prefix_kdf = \<lparr>IDKey = (\<lambda>pw salt t m p n. take (unat n) (pw @ salt @ replicate (unat n) 0)), argon2_Version = 19\<rparr>"

interpretation pk: argon2_kdf prefix_kdf
  by unfold_locales (simp_all add: prefix_kdf_def)

text \<open>C30. A password of an allowed length is hashed, and the stored hash verifies exactly the
  passwords with the same Argon2id key under the stored salt and parameters, the password
  itself first of all: printing and parsing the hash lose nothing.\<close>

theorem hash_verify_round_trip:
  assumes "argon2_kdf A" "12 \<le> length password" "length password \<le> 128" "length salt = 16"
  shows "\<exists>h. HashPassword A (Inr salt) password = Inr h \<and> VerifyPassword A password h = Inr True
    \<and> (\<forall>pw. VerifyPassword A pw h = Inr (IDKey A (str_bytes password) salt 3 65536 2 32 = IDKey A (str_bytes pw) salt 3 65536 2 32))"
proof -
  obtain h where h: "argon2idHash A (Inr salt) password = Inr h" by (simp add: argon2idHash_def Let_def)
  then show ?thesis
    using argon2_kdf.verify_hashed [OF assms(1) h assms(4)] assms(2,3) by (auto simp: HashPassword_def)
qed

theorem hash_verify_round_trip_witness:
  "\<exists>h. HashPassword prefix_kdf (Inr (replicate 16 7)) ''correct horse battery'' = Inr h
    \<and> VerifyPassword prefix_kdf ''correct horse battery'' h = Inr True
    \<and> VerifyPassword prefix_kdf ''another password'' h = Inr False"
  using hash_verify_round_trip [of prefix_kdf "''correct horse battery''" "replicate 16 7"] pk.argon2_kdf_axioms
  by (auto simp: prefix_kdf_def str_bytes_def)

section \<open>The policy\<close>

lemma password_flags_eq:
  "password_flags cs (u, l, d, s) = (u \<or> (\<exists>c\<in>set cs. is_upper c), l \<or> (\<exists>c\<in>set cs. is_lower c), d \<or> (\<exists>c\<in>set cs. is_digit c),
     s \<or> (\<exists>c\<in>set cs. \<not> is_upper c \<and> \<not> is_lower c \<and> \<not> is_digit c))"
proof -
  have ex: "is_upper c \<Longrightarrow> \<not> is_lower c \<and> \<not> is_digit c" "is_lower c \<Longrightarrow> \<not> is_digit c" for c
    by (auto simp: is_upper_def is_lower_def is_digit_def)
  show ?thesis by (induction cs arbitrary: u l d s) (auto dest: ex)
qed

lemma password_policy:
  "ValidatePasswordStrength pw = None \<longleftrightarrow> 12 \<le> length pw \<and> length pw \<le> 128 \<and> (\<exists>c\<in>set pw. is_upper c) \<and> (\<exists>c\<in>set pw. is_lower c)
     \<and> (\<exists>c\<in>set pw. is_digit c) \<and> (\<exists>c\<in>set pw. \<not> is_upper c \<and> \<not> is_lower c \<and> \<not> is_digit c)"
  by (auto simp: ValidatePasswordStrength_def password_flags_eq Let_def)

text \<open>A password that passes the policy can be hashed.\<close>

lemma policy_hashable:
  "ValidatePasswordStrength pw = None \<Longrightarrow> \<exists>h. HashPassword A (Inr salt) pw = Inr h"
  by (auto simp: password_policy HashPassword_def argon2idHash_def Let_def)

end
