(* ===== verification/AuthStore.thy ===== *)
theory AuthStore
  imports AuthPassword "HOL-Library.AList"
begin

text \<open>
  The store of users and sessions (\<open>pkg/auth/store.go\<close>): caches in memory in front of an SQLite
  database.  The caches are association lists with distinct keys.  The database is the four
  tables of the schema; a statement does what its SQL text in the source says, or fails and
  changes nothing when the argument \<open>err\<close> says so, the errors of an operation with several statements
  being numbered in source order.  Random bytes and readings of the clock are arguments.  The
  store keeps no references to values its callers change: users and sessions are handed out as
  copies.
\<close>

section \<open>Errors\<close>

definition ErrUserNotFound :: string where "ErrUserNotFound = ''user not found''"
definition ErrUserExists :: string where "ErrUserExists = ''username or email already exists''"
definition ErrSessionNotFound :: string where "ErrSessionNotFound = ''session not found''"
definition ErrSessionExpired :: string where "ErrSessionExpired = ''session expired''"
definition ErrSessionRevoked :: string where "ErrSessionRevoked = ''session revoked''"
definition ErrInvalidCredentials :: string where "ErrInvalidCredentials = ''invalid credentials''"
definition ErrAccountLocked :: string where
  "ErrAccountLocked = ''account locked '' @ [CHR 0xE2, CHR 0x80, CHR 0x94] @ '' contact administrator''"
definition ErrInactivityTimeout :: string where "ErrInactivityTimeout = ''session expired due to inactivity''"
definition ErrTOTPRequired :: string where "ErrTOTPRequired = ''2FA code required''"

section \<open>Tables and store\<close>

text \<open>A row of the table of backup codes: id, user, hash and whether it was used.  A row of the table
  of users has the columns of \<open>User\<close> but the avatar, which stays empty.\<close>

record Db =
  db_users :: "(string \<times> User) list"
  db_sessions :: "(string \<times> Session) list"
  db_audit :: "AuthAuditEvent list"
  db_backup :: "(string \<times> string \<times> string \<times> bool) list"

record Store =
  st_db :: Db
  st_users :: "(string \<times> User) list"
  st_byName :: "(string \<times> string) list"
  st_byEmail :: "(string \<times> string) list"
  st_sessions :: "(string \<times> Session) list"
  st_inactivityTimeout :: duration

section \<open>Statements\<close>

text \<open>\<open>UPDATE ... WHERE P\<close>, and \<open>INSERT\<close> into the table of users with its primary key and its two unique
  columns; the column a violated constraint names is left out.\<close>

definition sql_update :: "('k \<times> 'v \<Rightarrow> bool) \<Rightarrow> ('v \<Rightarrow> 'v) \<Rightarrow> ('k \<times> 'v) list \<Rightarrow> ('k \<times> 'v) list" where
  "sql_update P f rows = map (\<lambda>(k, v). if P (k, v) then (k, f v) else (k, v)) rows"

definition sql_insert_user :: "error \<Rightarrow> User \<Rightarrow> Db \<Rightarrow> error \<times> Db" where
  "sql_insert_user err u db =
     (case err of
        Some e \<Rightarrow> (Some e, db)
      | None \<Rightarrow>
          if list_ex (\<lambda>(k, v). k = u_ID u \<or> u_Username v = u_Username u \<or> u_Email v = u_Email u) (db_users db)
          then (Some ''UNIQUE constraint failed'', db)
          else (None, db\<lparr>db_users := db_users db @ [(u_ID u, u\<lparr>u_LastLogin := 0, u_AvatarURL := []\<rparr>)]\<rparr>))"

definition sql_insert_session :: "error \<Rightarrow> Session \<Rightarrow> Db \<Rightarrow> error \<times> Db" where
  "sql_insert_session err s db =
     (case err of
        Some e \<Rightarrow> (Some e, db)
      | None \<Rightarrow>
          if list_ex (\<lambda>(k, _). k = s_ID s) (db_sessions db) then (Some ''UNIQUE constraint failed'', db)
          else (None, db\<lparr>db_sessions := db_sessions db @ [(s_ID s, s)]\<rparr>))"

definition exec_users :: "error \<Rightarrow> (string \<times> User \<Rightarrow> bool) \<Rightarrow> (User \<Rightarrow> User) \<Rightarrow> Db \<Rightarrow> error \<times> Db" where
  "exec_users err P f db =
     (case err of Some e \<Rightarrow> (Some e, db) | None \<Rightarrow> (None, db\<lparr>db_users := sql_update P f (db_users db)\<rparr>))"

definition exec_sessions :: "error \<Rightarrow> (string \<times> Session \<Rightarrow> bool) \<Rightarrow> (Session \<Rightarrow> Session) \<Rightarrow> Db \<Rightarrow> error \<times> Db" where
  "exec_sessions err P f db =
     (case err of Some e \<Rightarrow> (Some e, db) | None \<Rightarrow> (None, db\<lparr>db_sessions := sql_update P f (db_sessions db)\<rparr>))"

section \<open>Helpers\<close>

definition newID :: "bytes \<Rightarrow> string" where
  "newID b = concat (map hex_byte b)"

definition generateTempPassword :: "bytes \<Rightarrow> string" where
  "generateTempPassword b = ''FLX-'' @ concat (map hex_byte (take 6 b)) @ ''!''"

text \<open>A change of the cached value under a key, if there is one.\<close>

definition update_key :: "'k \<Rightarrow> ('v \<Rightarrow> 'v) \<Rightarrow> ('k \<times> 'v) list \<Rightarrow> ('k \<times> 'v) list" where
  "update_key k f xs = (case map_of xs k of None \<Rightarrow> xs | Some v \<Rightarrow> AList.update k (f v) xs)"

section \<open>Users\<close>

definition CreateUser :: "bytes \<Rightarrow> gotime \<Rightarrow> error \<Rightarrow> User \<Rightarrow> Store \<Rightarrow> error \<times> User \<times> Store" where
  "CreateUser rnd now err u s =
     (if map_of (st_byName s) (u_Username u) \<noteq> None then (Some ErrUserExists, u, s)
      else if map_of (st_byEmail s) (u_Email u) \<noteq> None then (Some ErrUserExists, u, s)
      else let u = u\<lparr>u_ID := newID rnd, u_CreatedAt := now, u_UpdatedAt := now\<rparr> in
        case sql_insert_user err u (st_db s) of
          (Some e, db) \<Rightarrow> (Some (''DB insert user: '' @ e), u, s\<lparr>st_db := db\<rparr>)
        | (None, db) \<Rightarrow>
            (None, u, s\<lparr>st_db := db, st_users := AList.update (u_ID u) u (st_users s),
               st_byName := AList.update (u_Username u) (u_ID u) (st_byName s),
               st_byEmail := AList.update (u_Email u) (u_ID u) (st_byEmail s)\<rparr>))"

definition GetUserByID :: "string \<Rightarrow> Store \<Rightarrow> string + User" where
  "GetUserByID id' s = (case map_of (st_users s) id' of None \<Rightarrow> Inl ErrUserNotFound | Some u \<Rightarrow> Inr u)"

text \<open>A name without a user would be a null pointer in the code; the invariant excludes it.\<close>

definition GetUserByUsername :: "string \<Rightarrow> Store \<Rightarrow> string + User" where
  "GetUserByUsername username s =
     (case map_of (st_byName s) username of
        None \<Rightarrow> Inl ErrUserNotFound
      | Some id' \<Rightarrow> (case map_of (st_users s) id' of None \<Rightarrow> Inl ''invalid memory address or nil pointer dereference'' | Some u \<Rightarrow> Inr u))"

definition ListUsers :: "Store \<Rightarrow> User list" where
  "ListUsers s = map snd (st_users s)"

definition UpdateUser :: "gotime \<Rightarrow> error \<Rightarrow> User \<Rightarrow> Store \<Rightarrow> error \<times> Store" where
  "UpdateUser now err u s =
     (let u = u\<lparr>u_UpdatedAt := now\<rparr>;
          (e, db) = exec_users err (\<lambda>(k, _). k = u_ID u)
            (\<lambda>v. v\<lparr>u_Role := u_Role u, u_Active := u_Active u, u_Locked := u_Locked u, u_FailedAttempts := u_FailedAttempts u,
               u_DisplayName := u_DisplayName u, u_TOTPEnabled := u_TOTPEnabled u, u_LastLogin := u_LastLogin u,
               u_UpdatedAt := u_UpdatedAt u\<rparr>) (st_db s);
          s = s\<lparr>st_db := db\<rparr>
      in case e of Some e \<Rightarrow> (Some e, s) | None \<Rightarrow> (None, s\<lparr>st_users := AList.update (u_ID u) u (st_users s)\<rparr>))"

definition UpdateTOTPSecret :: "gotime \<Rightarrow> error \<Rightarrow> string \<Rightarrow> string \<Rightarrow> bool \<Rightarrow> Store \<Rightarrow> error \<times> Store" where
  "UpdateTOTPSecret now err userID secret enabled s =
     (let f = (\<lambda>v. v\<lparr>u_TOTPSecret := secret, u_TOTPEnabled := enabled, u_UpdatedAt := now\<rparr>);
          (e, db) = exec_users err (\<lambda>(k, _). k = userID) f (st_db s);
          s = s\<lparr>st_db := db\<rparr>
      in case e of Some e \<Rightarrow> (Some e, s) | None \<Rightarrow> (None, s\<lparr>st_users := update_key userID f (st_users s)\<rparr>))"

text \<open>A transaction takes effect as a whole, or not at all if one of its statements or the commit
  fails.  \<open>err\<close> numbers the begin, the statements and the commit.\<close>

fun first_error :: "error list \<Rightarrow> error" where
  "first_error [] = None"
| "first_error (e # es) = (case e of Some x \<Rightarrow> Some x | None \<Rightarrow> first_error es)"

definition replace_codes :: "string \<Rightarrow> (bytes \<times> string) list \<Rightarrow> Db \<Rightarrow> Db" where
  "replace_codes userID codes db =
     db\<lparr>db_backup := filter (\<lambda>(_, uid, _). uid \<noteq> userID) (db_backup db) @ map (\<lambda>(rnd, h). (newID rnd, userID, h, False)) codes\<rparr>"

definition UpdateBackupCodes :: "(nat \<Rightarrow> error) \<Rightarrow> string \<Rightarrow> (bytes \<times> string) list \<Rightarrow> Store \<Rightarrow> error \<times> Store" where
  "UpdateBackupCodes err userID codes s =
     (case first_error (map err [0..<length codes + 3]) of
        Some e \<Rightarrow> (Some e, s)
      | None \<Rightarrow> (None, s\<lparr>st_db := replace_codes userID codes (st_db s)\<rparr>))"

text \<open>In the two transactions below an error gets a text that says which statement failed; after
  a failed begin it is passed on as it is.\<close>

fun tx_error :: "(string \<times> error) list \<Rightarrow> error" where
  "tx_error [] = None"
| "tx_error ((w, e) # es) = (case e of Some x \<Rightarrow> Some (w @ x) | None \<Rightarrow> tx_error es)"

definition EnableTOTPWithBackupCodes ::
    "gotime \<Rightarrow> (nat \<Rightarrow> error) \<Rightarrow> string \<Rightarrow> string \<Rightarrow> (bytes \<times> string) list \<Rightarrow> Store \<Rightarrow> error \<times> Store" where
  "EnableTOTPWithBackupCodes now err userID secret codes s =
     (let f = (\<lambda>v. v\<lparr>u_TOTPSecret := secret, u_TOTPEnabled := True, u_UpdatedAt := now\<rparr>); n = length codes in
      case tx_error ([([], err 0), (''enable TOTP: '', err 1), (''clear backup codes: '', err 2)] @
          map (\<lambda>i. (''insert backup code: '', err (3 + i))) [0..<n] @ [(''commit EnableTOTP: '', err (3 + n))]) of
        Some e \<Rightarrow> (Some e, s)
      | None \<Rightarrow>
          let db = replace_codes userID codes (st_db s);
              db = db\<lparr>db_users := sql_update (\<lambda>(k, _). k = userID) f (db_users db)\<rparr>
          in (None, s\<lparr>st_db := db, st_users := update_key userID f (st_users s)\<rparr>))"

definition DisableTOTP :: "gotime \<Rightarrow> (nat \<Rightarrow> error) \<Rightarrow> string \<Rightarrow> Store \<Rightarrow> error \<times> Store" where
  "DisableTOTP now err userID s =
     (let f = (\<lambda>v. v\<lparr>u_TOTPSecret := [], u_TOTPEnabled := False, u_UpdatedAt := now\<rparr>) in
      case tx_error [([], err 0), (''clear TOTP secret: '', err 1), (''clear backup codes: '', err 2), (''commit DisableTOTP: '', err 3)] of
        Some e \<Rightarrow> (Some e, s)
      | None \<Rightarrow>
          let db = replace_codes userID [] (st_db s);
              db = db\<lparr>db_users := sql_update (\<lambda>(k, _). k = userID) f (db_users db)\<rparr>
          in (None, s\<lparr>st_db := db, st_users := update_key userID f (st_users s)\<rparr>))"

definition UpdatePasswordHash :: "gotime \<Rightarrow> error \<Rightarrow> string \<Rightarrow> string \<Rightarrow> Store \<Rightarrow> error \<times> Store" where
  "UpdatePasswordHash now err userID hash s =
     (let (e, db) = exec_users err (\<lambda>(k, _). k = userID) (\<lambda>v. v\<lparr>u_PasswordHash := hash, u_UpdatedAt := now\<rparr>) (st_db s);
          s = s\<lparr>st_db := db\<rparr>
      in case e of Some e \<Rightarrow> (Some e, s)
         | None \<Rightarrow> (None, s\<lparr>st_users := update_key userID (\<lambda>v. v\<lparr>u_PasswordHash := hash\<rparr>) (st_users s)\<rparr>))"

section \<open>Sessions\<close>

definition CreateSession :: "bytes \<Rightarrow> gotime \<Rightarrow> error \<Rightarrow> Session \<Rightarrow> Store \<Rightarrow> error \<times> Session \<times> Store" where
  "CreateSession rnd now err sess s =
     (let sess = sess\<lparr>s_ID := newID rnd, s_CreatedAt := now, s_LastActivityAt := now\<rparr> in
      case sql_insert_session err sess (st_db s) of
        (Some e, db) \<Rightarrow> (Some (''DB insert session: '' @ e), sess, s\<lparr>st_db := db\<rparr>)
      | (None, db) \<Rightarrow> (None, sess, s\<lparr>st_db := db, st_sessions := AList.update (s_ID sess) sess (st_sessions s)\<rparr>))"

text \<open>Readings 0 and 1 of the clock are those of \<open>IsExpired\<close> and \<open>IsInactive\<close>.\<close>

definition GetSession :: "clock \<Rightarrow> string \<Rightarrow> Store \<Rightarrow> string + Session" where
  "GetSession clk sessionID s =
     (case map_of (st_sessions s) sessionID of
        None \<Rightarrow> Inl ErrSessionNotFound
      | Some sess \<Rightarrow>
          if s_Revoked sess then Inl ErrSessionRevoked
          else if Session_IsExpired (clk 0) sess then Inl ErrSessionExpired
          else if Session_IsInactive (clk 1) (st_inactivityTimeout s) sess then Inl ErrInactivityTimeout
          else Inr sess)"

definition TouchSession :: "gotime \<Rightarrow> error \<Rightarrow> string \<Rightarrow> Store \<Rightarrow> error \<times> Store" where
  "TouchSession now err sessionID s =
     (case map_of (st_sessions s) sessionID of
        None \<Rightarrow> (Some ErrSessionNotFound, s)
      | Some sess \<Rightarrow>
          let f = (\<lambda>v. v\<lparr>s_LastActivityAt := now\<rparr>);
              s = s\<lparr>st_sessions := AList.update sessionID (f sess) (st_sessions s)\<rparr>;
              (e, db) = exec_sessions err (\<lambda>(k, _). k = sessionID) f (st_db s)
          in (e, s\<lparr>st_db := db\<rparr>))"

definition RevokeSession :: "error \<Rightarrow> string \<Rightarrow> Store \<Rightarrow> error \<times> Store" where
  "RevokeSession err sessionID s =
     (let f = (\<lambda>v. v\<lparr>s_Revoked := True\<rparr>);
          s = s\<lparr>st_sessions := update_key sessionID f (st_sessions s)\<rparr>;
          (e, db) = exec_sessions err (\<lambda>(k, _). k = sessionID) f (st_db s)
      in (e, s\<lparr>st_db := db\<rparr>))"

definition RevokeAllUserSessions :: "error \<Rightarrow> string \<Rightarrow> Store \<Rightarrow> error \<times> Store" where
  "RevokeAllUserSessions err userID s =
     (let f = (\<lambda>v. v\<lparr>s_Revoked := True\<rparr>);
          s = s\<lparr>st_sessions := map (\<lambda>(k, v). if s_UserID v = userID then (k, f v) else (k, v)) (st_sessions s)\<rparr>;
          (e, db) = exec_sessions err (\<lambda>(_, v). s_UserID v = userID) f (st_db s)
      in (e, s\<lparr>st_db := db\<rparr>))"

section \<open>Audit log\<close>

text \<open>The table has no column for the metadata of an event, and a failed write is only logged.\<close>

definition WriteAuditEvent :: "bytes \<Rightarrow> gotime \<Rightarrow> error \<Rightarrow> AuthAuditEvent \<Rightarrow> Store \<Rightarrow> Store" where
  "WriteAuditEvent rnd now err ev s =
     (case err of
        Some _ \<Rightarrow> s
      | None \<Rightarrow> s\<lparr>st_db := (st_db s)\<lparr>db_audit := db_audit (st_db s) @ [ev\<lparr>ae_ID := newID rnd, ae_At := now, ae_Metadata := []\<rparr>]\<rparr>\<rparr>)"

section \<open>Failed logins\<close>

definition maxFailedAttempts :: int where "maxFailedAttempts = 5"

definition RecordFailedLogin :: "gotime \<Rightarrow> error \<Rightarrow> string \<Rightarrow> Store \<Rightarrow> error \<times> Store" where
  "RecordFailedLogin now err userID s =
     (case map_of (st_users s) userID of
        None \<Rightarrow> (Some ErrUserNotFound, s)
      | Some u \<Rightarrow>
          let u = u\<lparr>u_FailedAttempts := u_FailedAttempts u + 1\<rparr>;
              u = (if u_FailedAttempts u \<ge> maxFailedAttempts then u\<lparr>u_Locked := True\<rparr> else u);
              u = u\<lparr>u_UpdatedAt := now\<rparr>;
              s = s\<lparr>st_users := AList.update userID u (st_users s)\<rparr>;
              (e, db) = exec_users err (\<lambda>(k, _). k = userID)
                (\<lambda>v. v\<lparr>u_FailedAttempts := u_FailedAttempts u, u_Locked := u_Locked u, u_UpdatedAt := now\<rparr>) (st_db s)
          in (e, s\<lparr>st_db := db\<rparr>))"

definition ResetFailedLogin :: "gotime \<Rightarrow> error \<Rightarrow> string \<Rightarrow> Store \<Rightarrow> error \<times> Store" where
  "ResetFailedLogin now err userID s =
     (case map_of (st_users s) userID of
        None \<Rightarrow> (Some ErrUserNotFound, s)
      | Some u \<Rightarrow>
          let f = (\<lambda>v. v\<lparr>u_FailedAttempts := 0, u_UpdatedAt := now\<rparr>);
              s = s\<lparr>st_users := AList.update userID (f u) (st_users s)\<rparr>;
              (e, db) = exec_users err (\<lambda>(k, _). k = userID) f (st_db s)
          in (e, s\<lparr>st_db := db\<rparr>))"

section \<open>Start\<close>

definition DevTOTPSecret :: string where "DevTOTPSecret = ''KVKVEU2HKVKTEMKS''"

definition DevModeBootstrap :: "gotime \<Rightarrow> error \<Rightarrow> error \<Rightarrow> Store \<Rightarrow> error \<times> Store" where
  "DevModeBootstrap now err0 err1 s =
     (let f = (\<lambda>v. v\<lparr>u_Locked := False, u_FailedAttempts := 0, u_UpdatedAt := now\<rparr>) in
      case exec_users err0 (\<lambda>_. True) f (st_db s) of
        (Some e, db) \<Rightarrow> (Some (''dev bootstrap: clear locks: '' @ e), s\<lparr>st_db := db\<rparr>)
      | (None, db) \<Rightarrow>
          (case exec_users err1 (\<lambda>(_, v). u_Username v = ''admin'')
               (\<lambda>v. v\<lparr>u_TOTPSecret := DevTOTPSecret, u_TOTPEnabled := True, u_UpdatedAt := now\<rparr>) db of
             (Some e, db) \<Rightarrow> (Some (''dev bootstrap: set admin TOTP: '' @ e), s\<lparr>st_db := db\<rparr>)
           | (None, db) \<Rightarrow>
               let us = map (\<lambda>(k, v). (k, f v)) (st_users s);
                   us = (case map_of (st_byName s) ''admin'' of
                           None \<Rightarrow> us
                         | Some id' \<Rightarrow> update_key id' (\<lambda>v. v\<lparr>u_TOTPSecret := DevTOTPSecret, u_TOTPEnabled := True\<rparr>) us)
               in (None, s\<lparr>st_db := db, st_users := us\<rparr>)))"

text \<open>The rows of the query are put into the caches one by one; the last login is not read back.
  \<open>err\<close> is an error of the query or of a row.\<close>

fun load_rows :: "(string \<times> User) list \<Rightarrow> Store \<Rightarrow> Store" where
  "load_rows [] s = s"
| "load_rows ((k, row) # rows) s =
     (let u = row\<lparr>u_ID := k, u_LastLogin := 0\<rparr> in
      load_rows rows (s\<lparr>st_users := AList.update (u_ID u) u (st_users s),
        st_byName := AList.update (u_Username u) (u_ID u) (st_byName s),
        st_byEmail := AList.update (u_Email u) (u_ID u) (st_byEmail s)\<rparr>))"

definition loadCache :: "error \<Rightarrow> Store \<Rightarrow> error \<times> Store" where
  "loadCache err s = (case err of Some e \<Rightarrow> (Some e, s) | None \<Rightarrow> (None, load_rows (db_users (st_db s)) s))"

text \<open>\<open>pwd\<close> and \<open>salt\<close> are the random bytes of the temporary password and of its hash.\<close>

definition ensureDefaultAdmin :: "argon2 \<Rightarrow> bytes \<Rightarrow> string + bytes \<Rightarrow> bytes \<Rightarrow> gotime \<Rightarrow> error \<Rightarrow> Store \<Rightarrow> Store" where
  "ensureDefaultAdmin A pwd salt rnd now err s =
     (if map_of (st_byName s) ''admin'' \<noteq> None then s
      else case HashPassword A salt (generateTempPassword pwd) of
        Inl _ \<Rightarrow> s
      | Inr hash \<Rightarrow>
          let admin = User0\<lparr>u_Username := ''admin'', u_Email := ''admin@falx.local'', u_PasswordHash := hash,
                u_Role := RoleSuperAdmin, u_Active := True, u_DisplayName := ''System Administrator'', u_CreatedBy := ''system''\<rparr>;
              (_, _, s) = CreateUser rnd now err admin s
          in s)"

definition NewStore :: "argon2 \<Rightarrow> bytes \<Rightarrow> string + bytes \<Rightarrow> bytes \<Rightarrow> gotime \<Rightarrow> (nat \<Rightarrow> error) \<Rightarrow> duration \<Rightarrow> Db \<Rightarrow> string + Store" where
  "NewStore A pwd salt rnd now err timeout db =
     (case err 0 of Some e \<Rightarrow> Inl (''open DB: '' @ e)
      | None \<Rightarrow> (case err 1 of Some e \<Rightarrow> Inl (''DB migration: '' @ e)
      | None \<Rightarrow>
          (case loadCache (err 2) \<lparr>st_db = db, st_users = [], st_byName = [], st_byEmail = [], st_sessions = [],
               st_inactivityTimeout = timeout\<rparr> of
             (Some e, _) \<Rightarrow> Inl (''cache load: '' @ e)
           | (None, s) \<Rightarrow> Inr (ensureDefaultAdmin A pwd salt rnd now (err 3) s))))"

section \<open>Maps\<close>

lemma map_of_update_key [simp]: "map_of (update_key k f xs) = (map_of xs)(k := map_option f (map_of xs k))"
  by (auto simp: update_key_def update_conv' split: option.split)

lemma map_of_sql_update: "map_of (sql_update P f xs) k = map_option (\<lambda>v. if P (k, v) then f v else v) (map_of xs k)"
  by (induction xs) (auto simp: sql_update_def)

lemma map_of_map_if: "map_of (map (\<lambda>(k, v). if P v then (k, f v) else (k, v)) xs) k = map_option (\<lambda>v. if P v then f v else v) (map_of xs k)"
  by (induction xs) auto

lemma map_of_map_val: "map_of (map (\<lambda>(k, v). (k, f v)) xs) k = map_option f (map_of xs k)"
  by (induction xs) auto

lemma keys_sql_update [simp]: "map fst (sql_update P f xs) = map fst xs"
  by (induction xs) (auto simp: sql_update_def)

lemma keys_map_if [simp]: "map fst (map (\<lambda>(k, v). if P v then (k, f v) else (k, v)) xs) = map fst xs"
  by (induction xs) auto

lemma keys_map_val [simp]: "map fst (map (\<lambda>(k, v). (k, f v)) xs) = map fst xs"
  by (induction xs) auto

lemma distinct_update_key: "distinct (map fst xs) \<Longrightarrow> distinct (map fst (update_key k f xs))"
  by (auto simp: update_key_def distinct_update split: option.split)

section \<open>The invariant\<close>

text \<open>Every user is filed under its own id and found by its name and its address, the two
  indexes point at nothing else, and every session is filed under its own id.\<close>

definition indexed :: "(string \<rightharpoonup> User) \<Rightarrow> (string \<rightharpoonup> string) \<Rightarrow> (string \<rightharpoonup> string) \<Rightarrow> bool" where
  "indexed us ns es \<longleftrightarrow>
     (\<forall>i u. us i = Some u \<longrightarrow> u_ID u = i \<and> ns (u_Username u) = Some i \<and> es (u_Email u) = Some i)
     \<and> (\<forall>n i. ns n = Some i \<longrightarrow> (\<exists>u. us i = Some u \<and> u_Username u = n))
     \<and> (\<forall>e i. es e = Some i \<longrightarrow> (\<exists>u. us i = Some u \<and> u_Email u = e))"

definition users_ok :: "(string \<times> User) list \<Rightarrow> (string \<times> string) list \<Rightarrow> (string \<times> string) list \<Rightarrow> bool" where
  "users_ok us ns es \<longleftrightarrow> distinct (map fst us) \<and> indexed (map_of us) (map_of ns) (map_of es)"

definition store_ok :: "Store \<Rightarrow> bool" where
  "store_ok s \<longleftrightarrow> users_ok (st_users s) (st_byName s) (st_byEmail s)
     \<and> (\<forall>i ss. map_of (st_sessions s) i = Some ss \<longrightarrow> s_ID ss = i)"

text \<open>A change of users that keeps their ids, names and addresses, and a new user.\<close>

lemma indexed_change:
  assumes "indexed us ns es" "\<And>i. us' i = map_option (g i) (us i)"
    and "\<And>i u. us i = Some u \<Longrightarrow> u_ID (g i u) = u_ID u \<and> u_Username (g i u) = u_Username u \<and> u_Email (g i u) = u_Email u"
  shows "indexed us' ns es"
  unfolding indexed_def
proof (intro conjI allI impI)
  fix i u assume "us' i = Some u"
  then obtain v where v: "us i = Some v" "u = g i v" using assms(2) by auto
  then show "u_ID u = i" "ns (u_Username u) = Some i" "es (u_Email u) = Some i"
    using assms(1) assms(3) [OF v(1)] by (auto simp: indexed_def)
next
  fix n i assume "ns n = Some i"
  then obtain u where u: "us i = Some u" "u_Username u = n" using assms(1) unfolding indexed_def by blast
  then show "\<exists>u. us' i = Some u \<and> u_Username u = n" using assms(2) assms(3) [OF u(1)] by auto
next
  fix e i assume "es e = Some i"
  then obtain u where u: "us i = Some u" "u_Email u = e" using assms(1) unfolding indexed_def by blast
  then show "\<exists>u. us' i = Some u \<and> u_Email u = e" using assms(2) assms(3) [OF u(1)] by auto
qed

lemma indexedD:
  assumes "indexed us ns es"
  shows "us i = Some u \<Longrightarrow> u_ID u = i" "us i = Some u \<Longrightarrow> ns (u_Username u) = Some i" "ns n = Some i \<Longrightarrow> \<exists>u. us i = Some u \<and> u_Username u = n"
    "ns n = Some i \<Longrightarrow> us i = Some u \<Longrightarrow> u_Username u = n"
  using assms unfolding indexed_def by fastforce+

lemma indexed_insert:
  assumes "indexed us ns es" "us (u_ID u) = None" "ns (u_Username u) = None" "es (u_Email u) = None"
  shows "indexed (us(u_ID u \<mapsto> u)) (ns(u_Username u \<mapsto> u_ID u)) (es(u_Email u \<mapsto> u_ID u))"
  using assms unfolding indexed_def by (auto split: if_splits) (metis option.distinct(1))+

lemma users_ok_update_key:
  assumes "users_ok us ns es" "\<And>u. u_ID (f u) = u_ID u \<and> u_Username (f u) = u_Username u \<and> u_Email (f u) = u_Email u"
  shows "users_ok (update_key k f us) ns es"
proof -
  have "indexed ((map_of us)(k := map_option f (map_of us k))) (map_of ns) (map_of es)"
    by (rule indexed_change [where us = "map_of us" and g = "\<lambda>i. if i = k then f else id"])
      (use assms in \<open>simp_all add: users_ok_def option.map_id\<close>)
  then show ?thesis using assms(1) by (simp add: users_ok_def distinct_update_key)
qed

lemma users_ok_update:
  assumes "users_ok us ns es" "map_of us k = Some v" "u_ID u = u_ID v" "u_Username u = u_Username v" "u_Email u = u_Email v"
  shows "users_ok (AList.update k u us) ns es"
proof -
  have "indexed ((map_of us)(k \<mapsto> u)) (map_of ns) (map_of es)"
    by (rule indexed_change [where us = "map_of us" and g = "\<lambda>i. if i = k then (\<lambda>_. u) else id"])
      (use assms(1) assms(2-5) in \<open>auto simp: users_ok_def option.map_id simp del: map_of_eq_Some_iff split: if_splits\<close>)
  then show ?thesis using assms(1) by (simp add: users_ok_def distinct_update update_conv')
qed

lemma users_ok_insert:
  assumes "users_ok us ns es" "map_of us (u_ID u) = None" "map_of ns (u_Username u) = None" "map_of es (u_Email u) = None"
  shows "users_ok (AList.update (u_ID u) u us) (AList.update (u_Username u) (u_ID u) ns) (AList.update (u_Email u) (u_ID u) es)"
  using assms indexed_insert [of "map_of us" "map_of ns" "map_of es" u] by (simp add: users_ok_def distinct_update update_conv')

lemma users_ok_map:
  assumes "users_ok us ns es" "\<And>u. u_ID (f u) = u_ID u \<and> u_Username (f u) = u_Username u \<and> u_Email (f u) = u_Email u"
  shows "users_ok (map (\<lambda>(k, v). (k, f v)) us) ns es"
proof -
  have "indexed (map_of (map (\<lambda>(k, v). (k, f v)) us)) (map_of ns) (map_of es)"
    by (rule indexed_change [where us = "map_of us" and g = "\<lambda>_. f"]) (use assms in \<open>simp_all add: users_ok_def map_of_map_val\<close>)
  then show ?thesis using assms(1) keys_map_val [of f us] unfolding users_ok_def by argo
qed

section \<open>Operations as steps\<close>

text \<open>Every operation that changes the store, with its arguments; the clock and the errors of the
  database come with the step.\<close>

datatype store_op =
    OpCreateUser bytes User
  | OpUpdateUser User
  | OpUpdateTOTPSecret string string bool
  | OpUpdateBackupCodes string "(bytes \<times> string) list"
  | OpEnableTOTP string string "(bytes \<times> string) list"
  | OpDisableTOTP string
  | OpUpdatePasswordHash string string
  | OpCreateSession bytes Session
  | OpTouchSession string
  | OpRevokeSession string
  | OpRevokeAll string
  | OpAudit bytes AuthAuditEvent
  | OpFailedLogin string
  | OpResetFailed string
  | OpDevMode

fun store_exec :: "gotime \<Rightarrow> (nat \<Rightarrow> error) \<Rightarrow> store_op \<Rightarrow> Store \<Rightarrow> Store" where
  "store_exec now err (OpCreateUser rnd u) s = snd (snd (CreateUser rnd now (err 0) u s))"
| "store_exec now err (OpUpdateUser u) s = snd (UpdateUser now (err 0) u s)"
| "store_exec now err (OpUpdateTOTPSecret uid secret en) s = snd (UpdateTOTPSecret now (err 0) uid secret en s)"
| "store_exec now err (OpUpdateBackupCodes uid codes) s = snd (UpdateBackupCodes err uid codes s)"
| "store_exec now err (OpEnableTOTP uid secret codes) s = snd (EnableTOTPWithBackupCodes now err uid secret codes s)"
| "store_exec now err (OpDisableTOTP uid) s = snd (DisableTOTP now err uid s)"
| "store_exec now err (OpUpdatePasswordHash uid h) s = snd (UpdatePasswordHash now (err 0) uid h s)"
| "store_exec now err (OpCreateSession rnd ss) s = snd (snd (CreateSession rnd now (err 0) ss s))"
| "store_exec now err (OpTouchSession sid) s = snd (TouchSession now (err 0) sid s)"
| "store_exec now err (OpRevokeSession sid) s = snd (RevokeSession (err 0) sid s)"
| "store_exec now err (OpRevokeAll uid) s = snd (RevokeAllUserSessions (err 0) uid s)"
| "store_exec now err (OpAudit rnd ev) s = WriteAuditEvent rnd now (err 0) ev s"
| "store_exec now err (OpFailedLogin uid) s = snd (RecordFailedLogin now (err 0) uid s)"
| "store_exec now err (OpResetFailed uid) s = snd (ResetFailedLogin now (err 0) uid s)"
| "store_exec now err OpDevMode s = snd (DevModeBootstrap now (err 0) (err 1) s)"

text \<open>What the callers guarantee: a new user gets an unused random id, and \<open>UpdateUser\<close> gets a
  user of the store with changes only in the columns it writes.\<close>

definition same_identity :: "User \<Rightarrow> User \<Rightarrow> bool" where
  "same_identity u v \<longleftrightarrow> u_ID u = u_ID v \<and> u_Username u = u_Username v \<and> u_Email u = u_Email v \<and> u_PasswordHash u = u_PasswordHash v
     \<and> u_TOTPSecret u = u_TOTPSecret v \<and> u_CreatedAt u = u_CreatedAt v \<and> u_CreatedBy u = u_CreatedBy v"

fun op_ok :: "store_op \<Rightarrow> Store \<Rightarrow> bool" where
  "op_ok (OpCreateUser rnd u) s \<longleftrightarrow> map_of (st_users s) (newID rnd) = None"
| "op_ok (OpUpdateUser u) s \<longleftrightarrow> (case map_of (st_users s) (u_ID u) of None \<Rightarrow> False | Some v \<Rightarrow> same_identity u v)"
| "op_ok _ s \<longleftrightarrow> True"

lemma store_ok_create:
  assumes "store_ok s" "map_of (st_users s) (newID rnd) = None"
  shows "store_ok (snd (snd (CreateUser rnd now err u s)))"
proof -
  let ?u = "u\<lparr>u_ID := newID rnd, u_CreatedAt := now, u_UpdatedAt := now\<rparr>"
  obtain e db where i: "sql_insert_user err ?u (st_db s) = (e, db)" by fastforce
  show ?thesis
  proof (cases "map_of (st_byName s) (u_Username u) = None \<and> map_of (st_byEmail s) (u_Email u) = None \<and> e = None")
    case True
    then show ?thesis
      using assms users_ok_insert [of "st_users s" "st_byName s" "st_byEmail s" ?u] i
      by (simp add: CreateUser_def Let_def store_ok_def)
  next
    case False
    then show ?thesis using assms(1) i by (cases e) (auto simp: CreateUser_def Let_def store_ok_def)
  qed
qed

lemma store_ok_users:
  assumes "store_ok s" "st_byName s' = st_byName s" "st_byEmail s' = st_byEmail s" "st_sessions s' = st_sessions s"
    and "users_ok (st_users s') (st_byName s) (st_byEmail s)"
  shows "store_ok s'"
  using assms by (simp add: store_ok_def)

lemma store_ok_sessions:
  assumes "store_ok s" "st_users s' = st_users s" "st_byName s' = st_byName s" "st_byEmail s' = st_byEmail s"
    and "\<And>i ss. map_of (st_sessions s') i = Some ss \<Longrightarrow> s_ID ss = i"
  shows "store_ok s'"
  using assms by (simp add: store_ok_def)

lemma store_ok_indexed: "store_ok s \<Longrightarrow> indexed (map_of (st_users s)) (map_of (st_byName s)) (map_of (st_byEmail s))"
  by (simp add: store_ok_def users_ok_def)

lemma store_okD:
  "store_ok s \<Longrightarrow> users_ok (st_users s) (st_byName s) (st_byEmail s)"
  "store_ok s \<Longrightarrow> map_of (st_sessions s) i = Some ss \<Longrightarrow> s_ID ss = i"
  by (simp_all add: store_ok_def)

lemmas user_op_defs = UpdateUser_def UpdateTOTPSecret_def UpdatePasswordHash_def RecordFailedLogin_def ResetFailedLogin_def
  EnableTOTPWithBackupCodes_def DisableTOTP_def exec_users_def Let_def

lemmas session_op_defs = CreateSession_def TouchSession_def RevokeSession_def RevokeAllUserSessions_def sql_insert_session_def
  exec_sessions_def Let_def

lemma store_ok_user_ops:
  assumes "store_ok s"
  shows "op_ok (OpUpdateUser u) s \<Longrightarrow> store_ok (snd (UpdateUser now err u s))"
    "store_ok (snd (UpdateTOTPSecret now err uid secret en s))"
    "store_ok (snd (UpdatePasswordHash now err uid h s))"
    "store_ok (snd (EnableTOTPWithBackupCodes now errs uid secret codes s))"
    "store_ok (snd (DisableTOTP now errs uid s))"
    "store_ok (snd (RecordFailedLogin now err uid s))"
    "store_ok (snd (ResetFailedLogin now err uid s))"
  by (rule store_ok_users [OF assms];
      use assms store_okD(1) [OF assms] in \<open>auto simp: user_op_defs same_identity_def intro!: users_ok_update_key
        intro: users_ok_update split: option.splits if_splits\<close>)+

lemma store_ok_session_ops:
  assumes "store_ok s"
  shows "store_ok (snd (snd (CreateSession rnd now err ss s)))"
    "store_ok (snd (TouchSession now err sid s))"
    "store_ok (snd (RevokeSession err sid s))"
    "store_ok (snd (RevokeAllUserSessions err uid s))"
  by (rule store_ok_sessions [OF assms];
      use store_okD(2) [OF assms] in \<open>auto simp: session_op_defs update_conv' map_of_map_if split: option.splits if_splits\<close>)+

lemma store_ok_dev_mode:
  assumes "store_ok s"
  shows "store_ok (snd (DevModeBootstrap now err0 err1 s))"
proof -
  let ?f = "\<lambda>v. v\<lparr>u_Locked := False, u_FailedAttempts := 0, u_UpdatedAt := now\<rparr>"
  note ok = store_okD(1) [OF assms]
  have ok1: "users_ok (map (\<lambda>(k, v). (k, ?f v)) (st_users s)) (st_byName s) (st_byEmail s)"
    by (rule users_ok_map [OF ok]) simp
  show ?thesis
    by (rule store_ok_users [OF assms])
      (use ok ok1 in \<open>auto simp: DevModeBootstrap_def exec_users_def Let_def intro!: users_ok_update_key split: option.splits\<close>)
qed

text \<open>The states a store can get into from an initial one, whatever the errors of the database.\<close>

inductive store_reach :: "Store \<Rightarrow> Store \<Rightarrow> bool" for s0 where
  init: "store_reach s0 s0"
| step: "store_reach s0 s \<Longrightarrow> op_ok op' s \<Longrightarrow> store_reach s0 (store_exec now err op' s)"

lemma store_ok_exec:
  assumes "store_ok s" "op_ok op' s"
  shows "store_ok (store_exec now err op' s)"
proof (cases op')
  case (OpCreateUser rnd u)
  then show ?thesis using store_ok_create [OF assms(1)] assms(2) by simp
next
  case (OpUpdateUser u)
  then show ?thesis using store_ok_user_ops(1) [OF assms(1)] assms(2) by simp
next
  case (OpUpdateBackupCodes uid codes)
  then show ?thesis using assms(1) by (simp add: UpdateBackupCodes_def store_ok_def split: option.split)
next
  case (OpAudit rnd ev)
  then show ?thesis using assms(1) by (simp add: WriteAuditEvent_def store_ok_def split: option.split)
qed (simp_all add: store_ok_user_ops(2-7) [OF assms(1)] store_ok_session_ops [OF assms(1)] store_ok_dev_mode [OF assms(1)])

lemma store_reach_ok: "store_reach s0 s \<Longrightarrow> store_ok s0 \<Longrightarrow> store_ok s"
  by (induction rule: store_reach.induct) (auto intro: store_ok_exec)

section \<open>Loading\<close>

text \<open>What the constraints of the schema guarantee of the table of users.\<close>

definition table_ok :: "(string \<times> User) list \<Rightarrow> bool" where
  "table_ok rows \<longleftrightarrow> distinct (map fst rows) \<and> distinct (map (\<lambda>r. u_Username (snd r)) rows) \<and> distinct (map (\<lambda>r. u_Email (snd r)) rows)
     \<and> (\<forall>r\<in>set rows. u_ID (snd r) = fst r)"

lemma load_rows_fields [simp]:
  "st_db (load_rows rows s) = st_db s" "st_sessions (load_rows rows s) = st_sessions s"
  by (induction rows s rule: load_rows.induct) (simp_all add: Let_def)

lemma load_rows_ok:
  assumes "store_ok s" "table_ok rows"
    and "\<forall>r\<in>set rows. map_of (st_users s) (fst r) = None \<and> map_of (st_byName s) (u_Username (snd r)) = None
      \<and> map_of (st_byEmail s) (u_Email (snd r)) = None"
  shows "store_ok (load_rows rows s)
    \<and> (\<forall>k. map_of (st_users (load_rows rows s)) k = (case map_of rows k of Some r \<Rightarrow> Some (r\<lparr>u_LastLogin := 0\<rparr>) | None \<Rightarrow> map_of (st_users s) k))"
  using assms
proof (induction rows arbitrary: s)
  case (Cons r rows)
  obtain k row where r: "r = (k, row)" by fastforce
  let ?u = "row\<lparr>u_ID := k, u_LastLogin := 0\<rparr>"
  let ?s = "s\<lparr>st_users := AList.update k ?u (st_users s), st_byName := AList.update (u_Username row) k (st_byName s),
        st_byEmail := AList.update (u_Email row) k (st_byEmail s)\<rparr>"
  have id: "u_ID row = k" using Cons.prems(2) by (simp add: table_ok_def r)
  then have u: "?u = row\<lparr>u_LastLogin := 0\<rparr>" by simp
  have "store_ok ?s"
    using Cons.prems(1,3) users_ok_insert [of "st_users s" "st_byName s" "st_byEmail s" ?u] by (simp add: store_ok_def r)
  moreover have "table_ok rows" using Cons.prems(2) by (simp add: table_ok_def r)
  moreover have "\<forall>r'\<in>set rows. map_of (st_users ?s) (fst r') = None \<and> map_of (st_byName ?s) (u_Username (snd r')) = None
      \<and> map_of (st_byEmail ?s) (u_Email (snd r')) = None"
  proof
    fix r' assume r': "r' \<in> set rows"
    then have "fst r' \<noteq> k" "u_Username (snd r') \<noteq> u_Username row" "u_Email (snd r') \<noteq> u_Email row"
      using Cons.prems(2) by (force simp: table_ok_def r)+
    then show "map_of (st_users ?s) (fst r') = None \<and> map_of (st_byName ?s) (u_Username (snd r')) = None
      \<and> map_of (st_byEmail ?s) (u_Email (snd r')) = None"
      using Cons.prems(3) r' by (auto simp: update_conv')
  qed
  ultimately have IH: "store_ok (load_rows rows ?s)"
      "map_of (st_users (load_rows rows ?s)) i = (case map_of rows i of Some r \<Rightarrow> Some (r\<lparr>u_LastLogin := 0\<rparr>) | None \<Rightarrow> map_of (st_users ?s) i)" for i
    using Cons.IH [of ?s] by blast+
  have l: "load_rows (r # rows) s = load_rows rows ?s" by (simp add: r Let_def)
  have "map_of rows k = None" using Cons.prems(2) by (auto simp: table_ok_def r map_of_eq_None_iff)
  then have "map_of (st_users (load_rows (r # rows) s)) i =
      (case map_of (r # rows) i of Some r \<Rightarrow> Some (r\<lparr>u_LastLogin := 0\<rparr>) | None \<Rightarrow> map_of (st_users s) i)" for i
    unfolding l IH(2) using u by (auto simp: r update_conv' split: option.split)
  then show ?case unfolding l using IH(1) by (simp add: l)
qed simp

abbreviation empty_store :: "duration \<Rightarrow> Db \<Rightarrow> Store" where
  "empty_store timeout db \<equiv>
     \<lparr>st_db = db, st_users = [], st_byName = [], st_byEmail = [], st_sessions = [], st_inactivityTimeout = timeout\<rparr>"

lemma load_empty_ok:
  assumes "table_ok (db_users db)"
  shows "store_ok (load_rows (db_users db) (empty_store timeout db))"
    "map_of (st_users (load_rows (db_users db) (empty_store timeout db))) k = map_option (\<lambda>r. r\<lparr>u_LastLogin := 0\<rparr>) (map_of (db_users db) k)"
proof -
  have ok: "store_ok (empty_store timeout db)" by (simp add: store_ok_def users_ok_def indexed_def)
  have "store_ok (load_rows (db_users db) (empty_store timeout db))
      \<and> (\<forall>k. map_of (st_users (load_rows (db_users db) (empty_store timeout db))) k =
          (case map_of (db_users db) k of Some r \<Rightarrow> Some (r\<lparr>u_LastLogin := 0\<rparr>) | None \<Rightarrow> map_of (st_users (empty_store timeout db)) k))"
    by (rule load_rows_ok [OF ok assms]) simp
  then show "store_ok (load_rows (db_users db) (empty_store timeout db))"
      "map_of (st_users (load_rows (db_users db) (empty_store timeout db))) k = map_option (\<lambda>r. r\<lparr>u_LastLogin := 0\<rparr>) (map_of (db_users db) k)"
    by (auto split: option.split)
qed

lemma ensureDefaultAdmin_ok:
  assumes "store_ok s" "map_of (st_users s) (newID rnd) = None"
  shows "store_ok (ensureDefaultAdmin A pwd salt rnd now err s)"
  using assms store_ok_create [OF assms] by (auto simp: ensureDefaultAdmin_def Let_def case_prod_unfold split: sum.split)

lemma NewStore_ok:
  assumes "NewStore A pwd salt rnd now err timeout db = Inr s" "table_ok (db_users db)" "map_of (db_users db) (newID rnd) = None"
  shows "store_ok s"
proof -
  have "s = ensureDefaultAdmin A pwd salt rnd now (err 3) (load_rows (db_users db) (empty_store timeout db))"
    using assms(1) by (auto simp: NewStore_def loadCache_def split: option.splits)
  then show ?thesis
    using ensureDefaultAdmin_ok [OF load_empty_ok(1) [OF assms(2)]] load_empty_ok(2) [OF assms(2)] assms(3) by simp
qed

text \<open>C11. The store is well formed in every state: starting from any database that satisfies the
  constraints of the schema, after any sequence of operations with any errors of the database,
  every user is filed under its id and found by name and address, no name, address or id is
  shared, every session is filed under its id, and so looking a user up by name never follows
  a null pointer.\<close>

theorem store_invariant:
  assumes "NewStore A pwd salt rnd now err timeout db = Inr s0" "table_ok (db_users db)" "map_of (db_users db) (newID rnd) = None"
    and "store_reach s0 s"
  shows "store_ok s \<and> distinct (map u_ID (ListUsers s)) \<and> distinct (map u_Username (ListUsers s))
    \<and> (\<forall>name. GetUserByUsername name s =
         (case find (\<lambda>u. u_Username u = name) (ListUsers s) of Some u \<Rightarrow> Inr u | None \<Rightarrow> Inl ErrUserNotFound))"
proof -
  have ok: "store_ok s" using NewStore_ok [OF assms(1-3)] store_reach_ok [OF assms(4)] by blast
  then have dk: "distinct (map fst (st_users s))" and ix: "indexed (map_of (st_users s)) (map_of (st_byName s)) (map_of (st_byEmail s))"
    by (simp_all add: store_ok_def users_ok_def)
  have mem: "map_of (st_users s) i = Some u" if "(i, u) \<in> set (st_users s)" for i u using that dk by simp
  have ids: "map u_ID (ListUsers s) = map fst (st_users s)"
    using ix mem by (auto simp: ListUsers_def indexed_def)
  have inj: "inj_on u_Username (set (ListUsers s))"
  proof (rule inj_onI)
    fix u v assume "u \<in> set (ListUsers s)" "v \<in> set (ListUsers s)" and eq: "u_Username u = u_Username v"
    then obtain i j where "(i, u) \<in> set (st_users s)" "(j, v) \<in> set (st_users s)" by (auto simp: ListUsers_def)
    then have "map_of (st_users s) i = Some u" "map_of (st_users s) j = Some v" by (auto intro: mem)
    moreover from this have "i = j" using indexedD(2) [OF ix, of i u] indexedD(2) [OF ix, of j v] eq by simp
    ultimately show "u = v" by simp
  qed
  have dl: "distinct (ListUsers s)" using ids dk by (metis distinct_map)
  have "GetUserByUsername name s = (case find (\<lambda>u. u_Username u = name) (ListUsers s) of Some u \<Rightarrow> Inr u | None \<Rightarrow> Inl ErrUserNotFound)" for name
  proof (cases "map_of (st_byName s) name")
    case None
    have "\<not> (\<exists>u\<in>set (ListUsers s). u_Username u = name)"
    proof
      assume "\<exists>u\<in>set (ListUsers s). u_Username u = name"
      then obtain i u where "(i, u) \<in> set (st_users s)" and n: "u_Username u = name" by (auto simp: ListUsers_def)
      then have "map_of (st_users s) i = Some u" by (intro mem)
      then show False using indexedD(2) [OF ix] None n by fastforce
    qed
    then have "find (\<lambda>u. u_Username u = name) (ListUsers s) = None" by (simp add: find_None_iff)
    then show ?thesis using None by (simp add: GetUserByUsername_def)
  next
    case (Some i)
    then obtain u where u: "map_of (st_users s) i = Some u" "u_Username u = name" using indexedD(3) [OF ix] by blast
    then have ul: "u \<in> set (ListUsers s)" by (force simp: ListUsers_def dest: map_of_SomeD)
    obtain w where w: "find (\<lambda>u. u_Username u = name) (ListUsers s) = Some w" "w \<in> set (ListUsers s)" "u_Username w = name"
      using ul u(2) by (cases "find (\<lambda>u. u_Username u = name) (ListUsers s)") (auto simp: find_None_iff find_Some_iff)
    then have "w = u" using inj ul u(2) by (auto dest: inj_onD)
    then show ?thesis using Some u(1) w(1) by (simp add: GetUserByUsername_def)
  qed
  then show ?thesis using ok ids dk inj dl by (auto simp: distinct_map)
qed

definition sample_db :: Db where
  "sample_db = \<lparr>db_users = [(''a1'', User0\<lparr>u_ID := ''a1'', u_Username := ''admin'', u_Email := ''admin@falx.local'', u_Role := RoleSuperAdmin,
     u_Active := True\<rparr>)], db_sessions = [], db_audit = [], db_backup = []\<rparr>"

definition sample_store :: Store where
  "sample_store = load_rows (db_users sample_db) (empty_store Minute sample_db)"

lemma sample_store:
  "NewStore prefix_kdf [] (Inl ''no entropy'') [1] 5 (\<lambda>_. None) Minute sample_db = Inr sample_store"
  "table_ok (db_users sample_db)" "map_of (db_users sample_db) (newID [1]) = None"
proof -
  have "map_of (st_byName sample_store) ''admin'' \<noteq> None" by code_simp
  then show "NewStore prefix_kdf [] (Inl ''no entropy'') [1] 5 (\<lambda>_. None) Minute sample_db = Inr sample_store"
    by (simp add: NewStore_def loadCache_def ensureDefaultAdmin_def sample_store_def)
  show "table_ok (db_users sample_db)" by (simp add: table_ok_def sample_db_def)
  show "map_of (db_users sample_db) (newID [1]) = None" by code_simp
qed

theorem store_invariant_witness:
  "GetUserByUsername ''eve'' (store_exec 9 (\<lambda>_. None) (OpFailedLogin ''a1'') sample_store) =
     (case find (\<lambda>u. u_Username u = ''eve'') (ListUsers (store_exec 9 (\<lambda>_. None) (OpFailedLogin ''a1'') sample_store)) of
        Some u \<Rightarrow> Inr u | None \<Rightarrow> Inl ErrUserNotFound)"
proof -
  have "store_reach sample_store (store_exec 9 (\<lambda>_. None) (OpFailedLogin ''a1'') sample_store)"
    by (intro store_reach.intros) simp
  from store_invariant [OF sample_store this] show ?thesis by blast
qed

section \<open>Durability\<close>

text \<open>What the database keeps of a user across a restart: everything but the time of the last
  login, the time of the last update and the avatar.\<close>

definition persisted :: "User \<Rightarrow> User" where
  "persisted u = u\<lparr>u_LastLogin := 0, u_UpdatedAt := 0, u_AvatarURL := []\<rparr>"

text \<open>The abstraction relation: cache and table agree on that, and a cached session is the row.\<close>

definition synced :: "Store \<Rightarrow> bool" where
  "synced s \<longleftrightarrow> table_ok (db_users (st_db s))
     \<and> (\<forall>k. map_option persisted (map_of (st_users s) k) = map_option persisted (map_of (db_users (st_db s)) k))
     \<and> (\<forall>k ss. map_of (st_sessions s) k = Some ss \<longrightarrow> map_of (db_sessions (st_db s)) k = Some ss)"

lemma table_ok_update:
  assumes "table_ok rows" "\<And>u. u_ID (f u) = u_ID u \<and> u_Username (f u) = u_Username u \<and> u_Email (f u) = u_Email u"
  shows "table_ok (sql_update P f rows)"
proof -
  have "map (\<lambda>r. u_Username (snd r)) (sql_update P f rows) = map (\<lambda>r. u_Username (snd r)) rows"
      "map (\<lambda>r. u_Email (snd r)) (sql_update P f rows) = map (\<lambda>r. u_Email (snd r)) rows"
    using assms(2) by (auto simp: sql_update_def)
  moreover have "\<forall>r\<in>set (sql_update P f rows). u_ID (snd r) = fst r"
    using assms by (auto simp: sql_update_def table_ok_def)
  ultimately show ?thesis using assms(1) by (simp add: table_ok_def)
qed

lemma synced_users:
  assumes "synced s" "table_ok (db_users (st_db s'))" "st_sessions s' = st_sessions s" "db_sessions (st_db s') = db_sessions (st_db s)"
    and "\<And>k. map_option persisted (map_of (st_users s') k) = map_option persisted (map_of (db_users (st_db s')) k)"
  shows "synced s'"
  using assms by (simp add: synced_def)

lemma syncedD:
  "synced s \<Longrightarrow> table_ok (db_users (st_db s))"
  "synced s \<Longrightarrow> map_option persisted (map_of (st_users s) k) = map_option persisted (map_of (db_users (st_db s)) k)"
  "synced s \<Longrightarrow> map_of (st_sessions s) k = Some ss \<Longrightarrow> map_of (db_sessions (st_db s)) k = Some ss"
  by (simp_all add: synced_def)

text \<open>A statement that changes one user, with the change of the cache it comes with.\<close>

lemma synced_update_key:
  assumes "synced s" "\<And>u. u_ID (f u) = u_ID u \<and> u_Username (f u) = u_Username u \<and> u_Email (f u) = u_Email u"
    and "\<And>u v. persisted u = persisted v \<Longrightarrow> persisted (g u) = persisted (f v)"
    and "st_users s' = update_key uid g (st_users s)" "db_users (st_db s') = sql_update (\<lambda>(k, _). k = uid) f (db_users (st_db s))"
    and "st_sessions s' = st_sessions s" "db_sessions (st_db s') = db_sessions (st_db s)"
  shows "synced s'"
proof (rule synced_users [OF assms(1) _ assms(6,7)])
  show "table_ok (db_users (st_db s'))" unfolding assms(5) by (rule table_ok_update [OF syncedD(1) [OF assms(1)]]) (use assms(2) in blast)
  fix k
  show "map_option persisted (map_of (st_users s') k) = map_option persisted (map_of (db_users (st_db s')) k)"
    using syncedD(2) [OF assms(1), of k] assms(3)
    by (cases "map_of (st_users s) k"; cases "map_of (db_users (st_db s)) k") (auto simp: assms(4,5) map_of_sql_update)
qed

lemma update_is_update_key: "map_of xs k = Some v \<Longrightarrow> AList.update k (f v) xs = update_key k f xs"
  by (simp add: update_key_def)

lemma persisted_eq:
  "persisted u = persisted v \<longleftrightarrow> u_ID u = u_ID v \<and> u_Username u = u_Username v \<and> u_Email u = u_Email v \<and> u_PasswordHash u = u_PasswordHash v
     \<and> u_Role u = u_Role v \<and> u_Active u = u_Active v \<and> u_Locked u = u_Locked v \<and> u_FailedAttempts u = u_FailedAttempts v
     \<and> u_CreatedAt u = u_CreatedAt v \<and> u_CreatedBy u = u_CreatedBy v \<and> u_TOTPSecret u = u_TOTPSecret v \<and> u_TOTPEnabled u = u_TOTPEnabled v
     \<and> u_DisplayName u = u_DisplayName v"
  by (cases u; cases v) (auto simp: persisted_def)

lemma synced_user_ops:
  assumes "synced s" "store_ok s"
  shows "op_ok (OpUpdateUser u) s \<Longrightarrow> synced (snd (UpdateUser now None u s))"
    "synced (snd (UpdateTOTPSecret now None uid secret en s))"
    "synced (snd (UpdatePasswordHash now None uid h s))"
    "synced (snd (RecordFailedLogin now None uid s))"
    "synced (snd (ResetFailedLogin now None uid s))"
proof -
  show "synced (snd (UpdateTOTPSecret now None uid secret en s))"
    by (rule synced_update_key [OF assms(1)]) (auto simp: user_op_defs persisted_eq)
  show "synced (snd (UpdatePasswordHash now None uid h s))"
    by (rule synced_update_key [OF assms(1)]) (auto simp: user_op_defs persisted_eq)
  show "synced (snd (ResetFailedLogin now None uid s))"
  proof (cases "map_of (st_users s) uid")
    case (Some v)
    let ?f = "\<lambda>v. v\<lparr>u_FailedAttempts := 0, u_UpdatedAt := now\<rparr>"
    show ?thesis
      by (rule synced_update_key [OF assms(1), where f = ?f and g = ?f and uid = uid])
        (use Some in \<open>auto simp: user_op_defs persisted_eq update_key_def\<close>)
  qed (use assms(1) in \<open>simp add: user_op_defs\<close>)
  show "synced (snd (RecordFailedLogin now None uid s))"
  proof (cases "map_of (st_users s) uid")
    case (Some v)
    let ?n = "u_FailedAttempts v + 1"
    let ?l = "u_Locked v \<or> ?n \<ge> maxFailedAttempts"
    let ?f = "\<lambda>v. v\<lparr>u_FailedAttempts := ?n, u_Locked := ?l, u_UpdatedAt := now\<rparr>"
    show ?thesis
      by (rule synced_update_key [OF assms(1), where f = ?f and g = ?f and uid = uid])
        (use Some in \<open>auto simp: user_op_defs persisted_eq update_key_def\<close>)
  qed (use assms(1) in \<open>simp add: user_op_defs\<close>)
  show "synced (snd (UpdateUser now None u s))" if op': "op_ok (OpUpdateUser u) s"
  proof -
    obtain v where v: "map_of (st_users s) (u_ID u) = Some v" "same_identity u v" using op' by (auto split: option.splits)
    let ?f = "\<lambda>v. v\<lparr>u_Role := u_Role u, u_Active := u_Active u, u_Locked := u_Locked u, u_FailedAttempts := u_FailedAttempts u,
               u_DisplayName := u_DisplayName u, u_TOTPEnabled := u_TOTPEnabled u, u_LastLogin := u_LastLogin u, u_UpdatedAt := now\<rparr>"
    obtain row where row: "map_of (db_users (st_db s)) (u_ID u) = Some row" "persisted v = persisted row"
      using syncedD(2) [OF assms(1), of "u_ID u"] v(1) by (cases "map_of (db_users (st_db s)) (u_ID u)") auto
    let ?s = "snd (UpdateUser now None u s)"
    have us: "map_of (st_users ?s) = (map_of (st_users s))(u_ID u \<mapsto> u\<lparr>u_UpdatedAt := now\<rparr>)"
      and rows: "db_users (st_db ?s) = sql_update (\<lambda>(k, _). k = u_ID u) ?f (db_users (st_db s))"
      by (simp_all add: user_op_defs update_conv')
    show ?thesis
    proof (rule synced_users [OF assms(1)])
      show "table_ok (db_users (st_db ?s))" unfolding rows by (rule table_ok_update [OF syncedD(1) [OF assms(1)]]) simp
      show "map_option persisted (map_of (st_users ?s) k) = map_option persisted (map_of (db_users (st_db ?s)) k)" for k
      proof (cases "k = u_ID u")
        case True
        have "persisted (u\<lparr>u_UpdatedAt := now\<rparr>) = persisted (?f row)" using row(2) v(2) by (simp add: persisted_eq same_identity_def)
        then show ?thesis using True row(1) by (simp add: us rows map_of_sql_update)
      qed (use syncedD(2) [OF assms(1), of k] in \<open>simp add: us rows map_of_sql_update option.map_ident\<close>)
    qed (simp_all add: user_op_defs)
  qed
qed

lemma synced_totp_ops:
  assumes "synced s"
  shows "synced (snd (EnableTOTPWithBackupCodes now (\<lambda>_. None) uid secret codes s))"
    "synced (snd (DisableTOTP now (\<lambda>_. None) uid s))"
    "synced (snd (UpdateBackupCodes (\<lambda>_. None) uid codes s))"
proof -
  have tx: "tx_error (map (\<lambda>i. (w, None)) is @ es) = tx_error es" for w :: string and "is" :: "nat list" and es
    by (induction "is") simp_all
  have fe: "first_error (map (\<lambda>_. None) is) = None" for "is" :: "nat list" by (induction "is") simp_all
  show "synced (snd (EnableTOTPWithBackupCodes now (\<lambda>_. None) uid secret codes s))"
    by (rule synced_update_key [OF assms]) (auto simp: user_op_defs tx persisted_eq replace_codes_def)
  show "synced (snd (DisableTOTP now (\<lambda>_. None) uid s))"
    by (rule synced_update_key [OF assms]) (auto simp: user_op_defs persisted_eq replace_codes_def)
  show "synced (snd (UpdateBackupCodes (\<lambda>_. None) uid codes s))"
    using assms fe [of "[0..<length codes + 3]"] by (simp add: UpdateBackupCodes_def replace_codes_def synced_def del: upt_Suc)
qed

lemma synced_session_ops:
  assumes "synced s" "store_ok s"
  shows "synced (snd (snd (CreateSession rnd now None ss s)))"
    "synced (snd (TouchSession now None sid s))"
    "synced (snd (RevokeSession None sid s))"
    "synced (snd (RevokeAllUserSessions None uid s))"
proof -
  have m: "synced s'" if "st_users s' = st_users s" "db_users (st_db s') = db_users (st_db s)"
      "\<And>k t. map_of (st_sessions s') k = Some t \<Longrightarrow> map_of (db_sessions (st_db s')) k = Some t" for s'
    using assms(1) that by (simp add: synced_def)
  note d = syncedD(3) [OF assms(1)]
  show "synced (snd (snd (CreateSession rnd now None ss s)))"
  proof (cases "list_ex (\<lambda>(k, _). k = newID rnd) (db_sessions (st_db s))")
    case False
    then have "map_of (db_sessions (st_db s)) (newID rnd) = None" by (auto simp: list_ex_iff map_of_eq_None_iff)
    then show ?thesis
      by (intro m) (use False d in \<open>auto simp: session_op_defs update_conv' map_add_def split: if_splits\<close>)
  qed (use assms(1) in \<open>simp add: session_op_defs synced_def\<close>)
  show "synced (snd (TouchSession now None sid s))"
    by (rule m) (use d in \<open>auto simp: session_op_defs update_conv' map_of_sql_update split: option.splits if_splits\<close>)
  show "synced (snd (RevokeSession None sid s))"
    by (rule m) (use d in \<open>auto simp: session_op_defs map_of_sql_update split: if_splits\<close>)
  show "synced (snd (RevokeAllUserSessions None uid s))"
    by (rule m) (use d in \<open>auto simp: session_op_defs map_of_map_if map_of_sql_update split: if_splits\<close>)
qed

lemma synced_create:
  assumes "synced s" "store_ok s" "map_of (st_users s) (newID rnd) = None"
  shows "synced (snd (snd (CreateUser rnd now None u s)))"
proof -
  let ?u = "u\<lparr>u_ID := newID rnd, u_CreatedAt := now, u_UpdatedAt := now\<rparr>"
  let ?clash = "list_ex (\<lambda>(k, v). k = u_ID ?u \<or> u_Username v = u_Username ?u \<or> u_Email v = u_Email ?u) (db_users (st_db s))"
  show ?thesis
  proof (cases "map_of (st_byName s) (u_Username u) \<noteq> None \<or> map_of (st_byEmail s) (u_Email u) \<noteq> None \<or> ?clash")
    case True
    then show ?thesis using assms(1) by (auto simp: CreateUser_def Let_def sql_insert_user_def synced_def)
  next
    case False
    let ?s = "snd (snd (CreateUser rnd now None u s))"
    let ?row = "?u\<lparr>u_LastLogin := 0, u_AvatarURL := []\<rparr>"
    have us: "map_of (st_users ?s) = (map_of (st_users s))(newID rnd \<mapsto> ?u)"
      and rows: "db_users (st_db ?s) = db_users (st_db s) @ [(newID rnd, ?row)]"
      and ss: "st_sessions ?s = st_sessions s" "db_sessions (st_db ?s) = db_sessions (st_db s)"
      using False by (auto simp: CreateUser_def Let_def sql_insert_user_def update_conv')
    have no: "\<forall>r\<in>set (db_users (st_db s)). fst r \<noteq> newID rnd \<and> u_Username (snd r) \<noteq> u_Username u \<and> u_Email (snd r) \<noteq> u_Email u"
      using False by (auto simp: list_ex_iff)
    have none: "map_of (db_users (st_db s)) (newID rnd) = None" using no by (auto simp: map_of_eq_None_iff)
    show ?thesis
    proof (rule synced_users [OF assms(1) _ ss])
      show "table_ok (db_users (st_db ?s))" using syncedD(1) [OF assms(1)] no unfolding rows by (force simp: table_ok_def)
      show "map_option persisted (map_of (st_users ?s) k) = map_option persisted (map_of (db_users (st_db ?s)) k)" for k
        using syncedD(2) [OF assms(1), of k] none
        by (cases "k = newID rnd") (auto simp: us rows persisted_eq map_add_def split: option.split)
    qed
  qed
qed

text \<open>A row of a synced store is the user with that name.\<close>

lemma synced_name:
  assumes "synced s" "store_ok s" "map_of (db_users (st_db s)) k = Some row"
  shows "map_of (st_byName s) (u_Username row) = Some k"
proof -
  obtain v where v: "map_of (st_users s) k = Some v" "persisted v = persisted row"
    using syncedD(2) [OF assms(1), of k] assms(3) by (cases "map_of (st_users s) k") auto
  then have "u_Username v = u_Username row" by (simp add: persisted_eq)
  moreover have "map_of (st_byName s) (u_Username v) = Some k"
    using indexedD(2) [OF store_ok_indexed [OF assms(2)]] v(1) by blast
  ultimately show ?thesis by simp
qed

lemma synced_dev_mode:
  assumes "synced s" "store_ok s"
  shows "synced (snd (DevModeBootstrap now None None s))"
proof -
  let ?f = "\<lambda>v. v\<lparr>u_Locked := False, u_FailedAttempts := 0, u_UpdatedAt := now\<rparr>"
  let ?g = "\<lambda>v. v\<lparr>u_TOTPSecret := DevTOTPSecret, u_TOTPEnabled := True, u_UpdatedAt := now\<rparr>"
  let ?h = "\<lambda>v. v\<lparr>u_TOTPSecret := DevTOTPSecret, u_TOTPEnabled := True\<rparr>"
  let ?s = "snd (DevModeBootstrap now None None s)"
  let ?is = "\<lambda>k. map_of (st_byName s) ''admin'' = Some k"
  have rows: "db_users (st_db ?s) = sql_update (\<lambda>(_, v). u_Username v = ''admin'') ?g (sql_update (\<lambda>_. True) ?f (db_users (st_db s)))"
    and ss: "st_sessions ?s = st_sessions s" "db_sessions (st_db ?s) = db_sessions (st_db s)"
    by (simp_all add: DevModeBootstrap_def exec_users_def Let_def)
  have us: "map_of (st_users ?s) k = map_option (\<lambda>v. if ?is k then ?h (?f v) else ?f v) (map_of (st_users s) k)" for k
    by (cases "map_of (st_users s) k") (auto simp: DevModeBootstrap_def exec_users_def Let_def map_of_map_val split: option.splits)
  show ?thesis
  proof (rule synced_users [OF assms(1) _ ss])
    show "table_ok (db_users (st_db ?s))"
      unfolding rows by (intro table_ok_update syncedD(1) [OF assms(1)]) simp_all
    show "map_option persisted (map_of (st_users ?s) k) = map_option persisted (map_of (db_users (st_db ?s)) k)" for k
    proof (cases "map_of (db_users (st_db s)) k")
      case None
      then show ?thesis using syncedD(2) [OF assms(1), of k] by (cases "map_of (st_users s) k") (auto simp: us rows map_of_sql_update)
    next
      case (Some row)
      then obtain v where v: "map_of (st_users s) k = Some v" "persisted v = persisted row"
        using syncedD(2) [OF assms(1), of k] by (cases "map_of (st_users s) k") auto
      have "?is k \<longleftrightarrow> u_Username row = ''admin''"
      proof
        assume "?is k"
        then have "u_Username v = ''admin''"
          using indexedD(4) [OF store_ok_indexed [OF assms(2)]] v(1) by blast
        then show "u_Username row = ''admin''" using v(2) by (simp add: persisted_eq)
      qed (use synced_name [OF assms Some] in simp)
      then show ?thesis using Some v by (auto simp: us rows map_of_sql_update persisted_eq)
    qed
  qed
qed

inductive fault_free :: "Store \<Rightarrow> Store \<Rightarrow> bool" for s0 where
  start: "fault_free s0 s0"
| step: "fault_free s0 s \<Longrightarrow> op_ok op' s \<Longrightarrow> fault_free s0 (store_exec now (\<lambda>_. None) op' s)"

lemma synced_exec:
  assumes "synced s" "store_ok s" "op_ok op' s"
  shows "synced (store_exec now (\<lambda>_. None) op' s)"
proof (cases op')
  case (OpCreateUser rnd u)
  then show ?thesis using synced_create [OF assms(1,2)] assms(3) by simp
next
  case (OpUpdateUser u)
  then show ?thesis using synced_user_ops(1) [OF assms(1,2)] assms(3) by simp
next
  case (OpAudit rnd ev)
  then show ?thesis using assms(1) by (simp add: WriteAuditEvent_def synced_def)
qed (simp_all add: synced_user_ops(2-5) [OF assms(1,2)] synced_totp_ops [OF assms(1)] synced_session_ops [OF assms(1,2)]
    synced_dev_mode [OF assms(1,2)])

lemma fault_free_synced: "fault_free s0 s \<Longrightarrow> synced s0 \<Longrightarrow> store_ok s0 \<Longrightarrow> synced s \<and> store_ok s"
  by (induction rule: fault_free.induct) (auto intro: synced_exec store_ok_exec)

lemma load_synced:
  assumes "table_ok (db_users db)"
  shows "synced (load_rows (db_users db) (empty_store timeout db))"
proof -
  have "map_option persisted (map_option (\<lambda>r. r\<lparr>u_LastLogin := 0\<rparr>) o') = map_option persisted o'" for o'
    by (cases o') (simp_all add: persisted_def)
  then show ?thesis using assms load_empty_ok(2) [OF assms] by (simp add: synced_def)
qed

lemma NewStore_synced:
  assumes "NewStore A pwd salt rnd now (\<lambda>_. None) timeout db = Inr s" "table_ok (db_users db)" "map_of (db_users db) (newID rnd) = None"
  shows "synced s"
proof -
  let ?l = "load_rows (db_users db) (empty_store timeout db)"
  have "s = ensureDefaultAdmin A pwd salt rnd now None ?l" using assms(1) by (simp add: NewStore_def loadCache_def)
  moreover have "map_of (st_users ?l) (newID rnd) = None" using load_empty_ok(2) [OF assms(2)] assms(3) by simp
  ultimately show ?thesis
    using load_synced [OF assms(2)] synced_create [OF load_synced [OF assms(2)] load_empty_ok(1) [OF assms(2)]]
    by (auto simp: ensureDefaultAdmin_def Let_def case_prod_unfold split: sum.split)
qed

text \<open>C29. Nothing the store acknowledged is lost by a restart: after any sequence of operations
  without database errors, a store opened on the same database has exactly the same users, with
  the same names, hashes, roles, locks, counters of failed logins and second factors; only the
  times of the last login and update and the avatar may differ.\<close>

theorem restart_restores_users:
  assumes "NewStore A pwd salt rnd now (\<lambda>_. None) timeout db = Inr s0" "table_ok (db_users db)" "map_of (db_users db) (newID rnd) = None"
    and "fault_free s0 s" "map_of (st_byName s) ''admin'' \<noteq> None"
  shows "\<exists>s'. NewStore A' pwd' salt' rnd' now' (\<lambda>_. None) timeout' (st_db s) = Inr s'
    \<and> (\<forall>k. map_option persisted (map_of (st_users s') k) = map_option persisted (map_of (st_users s) k))"
proof -
  have ok: "synced s" "store_ok s"
    using fault_free_synced [OF assms(4) NewStore_synced [OF assms(1-3)] NewStore_ok [OF assms(1-3)]] by blast+
  let ?l = "load_rows (db_users (st_db s)) (empty_store timeout' (st_db s))"
  have sl: "synced ?l" and ol: "store_ok ?l" using load_synced load_empty_ok(1) syncedD(1) [OF ok(1)] by blast+
  have same: "map_option persisted (map_of (st_users ?l) k) = map_option persisted (map_of (st_users s) k)" for k
    using syncedD(2) [OF sl, of k] syncedD(2) [OF ok(1), of k] by simp
  obtain i u where "map_of (st_users s) i = Some u" "u_Username u = ''admin''"
    using indexedD(3) [OF store_ok_indexed [OF ok(2)]] assms(5) by blast
  then obtain v where v: "map_of (st_users ?l) i = Some v" "u_Username v = ''admin''"
    using same [of i] by (cases "map_of (st_users ?l) i") (auto simp: persisted_eq)
  then have "map_of (st_byName ?l) ''admin'' = Some i"
    using indexedD(2) [OF store_ok_indexed [OF ol] v(1)] by simp
  then have "NewStore A' pwd' salt' rnd' now' (\<lambda>_. None) timeout' (st_db s) = Inr ?l"
    by (simp add: NewStore_def loadCache_def ensureDefaultAdmin_def)
  then show ?thesis using same by blast
qed

theorem restart_restores_users_witness:
  "\<exists>s'. NewStore prefix_kdf [] (Inl ''no entropy'') [] 77 (\<lambda>_. None) Minute
      (st_db (store_exec 9 (\<lambda>_. None) (OpFailedLogin ''a1'') sample_store)) = Inr s'
    \<and> map_option u_FailedAttempts (map_of (st_users s') ''a1'') = Some 1"
proof -
  let ?s = "store_exec 9 (\<lambda>_. None) (OpFailedLogin ''a1'') sample_store"
  have "fault_free sample_store ?s" by (intro fault_free.intros) simp
  moreover have "map_of (st_byName ?s) ''admin'' \<noteq> None" by code_simp
  ultimately obtain s' where s': "NewStore prefix_kdf [] (Inl ''no entropy'') [] 77 (\<lambda>_. None) Minute (st_db ?s) = Inr s'"
      "map_option persisted (map_of (st_users s') ''a1'') = map_option persisted (map_of (st_users ?s) ''a1'')"
    using restart_restores_users [OF sample_store] by blast
  have f: "map_option u_FailedAttempts (map_option persisted o') = map_option u_FailedAttempts o'" for o'
    by (cases o') (simp_all add: persisted_def)
  have "map_option u_FailedAttempts (map_of (st_users ?s) ''a1'') = Some 1" by code_simp
  then have "map_option u_FailedAttempts (map_of (st_users s') ''a1'') = Some 1" using s'(2) f by metis
  then show ?thesis using s'(1) by blast
qed

end
