(* ===== verification/GoSha1.thy ===== *)
theory GoSha1
  imports GoEncoding
begin

text \<open>
  \<open>crypto/sha1\<close> (FIPS 180-4) and \<open>crypto/hmac\<close> (RFC 2104) of Go's standard library, with the
  lengths of their results.
\<close>

section \<open>SHA-1\<close>

definition rol :: "nat \<Rightarrow> u32 \<Rightarrow> u32" where
  "rol n w = or (push_bit n w) (drop_bit (32 - n) w)"

type_synonym sha1_state = "u32 \<times> u32 \<times> u32 \<times> u32 \<times> u32"

definition sha1_init :: sha1_state where
  "sha1_init = (0x67452301, 0xEFCDAB89, 0x98BADCFE, 0x10325476, 0xC3D2E1F0)"

definition sha1_fk :: "nat \<Rightarrow> u32 \<Rightarrow> u32 \<Rightarrow> u32 \<Rightarrow> u32 \<times> u32" where
  "sha1_fk t b c d =
     (if t < 20 then (or (and b c) (and (not b) d), 0x5A827999)
      else if t < 40 then (xor (xor b c) d, 0x6ED9EBA1)
      else if t < 60 then (or (or (and b c) (and b d)) (and c d), 0x8F1BBCDC)
      else (xor (xor b c) d, 0xCA62C1D6))"

text \<open>The message schedule, the newest word first.\<close>

fun sha1_schedule :: "nat \<Rightarrow> u32 list \<Rightarrow> u32 list" where
  "sha1_schedule 0 ws = ws"
| "sha1_schedule (Suc n) ws =
     sha1_schedule n (rol 1 (xor (xor (ws ! 2) (ws ! 7)) (xor (ws ! 13) (ws ! 15))) # ws)"

fun sha1_rounds :: "nat \<Rightarrow> u32 list \<Rightarrow> sha1_state \<Rightarrow> sha1_state" where
  "sha1_rounds t [] s = s"
| "sha1_rounds t (w # ws) (a, b, c, d, e) =
     (let (f, k) = sha1_fk t b c d in sha1_rounds (Suc t) ws (rol 5 a + f + e + k + w, a, rol 30 b, c, d))"

definition sha1_block :: "sha1_state \<Rightarrow> bytes \<Rightarrow> sha1_state" where
  "sha1_block s blk =
     (let ws = rev (sha1_schedule 64 (rev (map get_be (chunks 4 blk))));
          (a, b, c, d, e) = s;
          (a', b', c', d', e') = sha1_rounds 0 ws s
      in (a + a', b + b', c + c', d + d', e + e'))"

definition sha1_pad :: "bytes \<Rightarrow> bytes" where
  "sha1_pad m =
     (let n = length m in m @ [0x80] @ replicate ((119 - n mod 64) mod 64) 0 @ put_be 8 (of_nat (8 * n) :: u64))"

definition sha1 :: "bytes \<Rightarrow> bytes" where
  "sha1 m =
     (let (a, b, c, d, e) = foldl sha1_block sha1_init (chunks 64 (sha1_pad m))
      in put_be 4 a @ put_be 4 b @ put_be 4 c @ put_be 4 d @ put_be 4 e)"

section \<open>HMAC\<close>

definition hmac_sha1 :: "bytes \<Rightarrow> bytes \<Rightarrow> bytes" where
  "hmac_sha1 key msg =
     (let key = (if length key > 64 then sha1 key else key);
          key = key @ replicate (64 - length key) 0;
          ipad = map (xor 0x36) key;
          opad = map (xor 0x5c) key
      in sha1 (opad @ sha1 (ipad @ msg)))"

lemma length_sha1 [simp]: "length (sha1 m) = 20"
  by (simp add: sha1_def Let_def split: prod.split)

lemma length_hmac_sha1 [simp]: "length (hmac_sha1 k m) = 20"
  by (simp add: hmac_sha1_def Let_def)

end
