(* ===== verification/AuthTotp.thy ===== *)
theory AuthTotp
  imports AuthPassword GoSha1 "HOL-Library.AList"
begin

text \<open>
  Time-based one-time passwords (\<open>pkg/auth/totp.go\<close>): the codes of RFC 4226 and RFC 6238 over
  the SHA-1 of theory \<open>GoSha1\<close>, their verification with the cache of used codes, and the backup
  codes.  The cache is an association list from keys to the Unix time of use.  Random bytes are
  arguments.
\<close>

section \<open>Codes\<close>

definition totpDigits :: nat where "totpDigits = 6"
definition totpPeriod :: int where "totpPeriod = 30"
definition totpWindow :: int where "totpWindow = 1"
definition totpIssuer :: string where "totpIssuer = ''FALX-V2''"

definition GenerateTOTPSecret :: "string + bytes \<Rightarrow> string + string" where
  "GenerateTOTPSecret rnd =
     (case rnd of Inl e \<Rightarrow> Inl (''generate TOTP secret: '' @ e) | Inr secret \<Rightarrow> Inr (base32_EncodeToString secret))"

text \<open>\<open>fmt.Sprintf("%0*d", width, n)\<close>.\<close>

definition zero_pad :: "nat \<Rightarrow> string \<Rightarrow> string" where
  "zero_pad w s = replicate (w - length s) (CHR ''0'') @ s"

definition hotp :: "bytes \<Rightarrow> u64 \<Rightarrow> nat \<Rightarrow> u32" where
  "hotp key counter digits =
     (let msg = put_be 8 counter;
          h = hmac_sha1 key msg;
          offset = unat (and (h ! (length h - 1)) 0x0F);
          code = or (or (or (push_bit 24 (ucast (and (h ! offset) 0x7F))) (push_bit 16 (ucast (h ! (offset + 1)))))
                   (push_bit 8 (ucast (h ! (offset + 2))))) (ucast (h ! (offset + 3)));
          m = of_nat (10 ^ digits)
      in code mod m)"

definition totp_string :: "bytes \<Rightarrow> u64 \<Rightarrow> string" where
  "totp_string key counter = zero_pad totpDigits (dec (unat (hotp key counter totpDigits)))"

text \<open>The division of \<open>GenerateTOTP\<close> is rounded down, in floating point; times are small enough
  for it to be exact.\<close>

definition GenerateTOTP :: "string \<Rightarrow> gotime \<Rightarrow> string + string" where
  "GenerateTOTP secret t =
     (case base32_DecodeString (to_upper secret) of
        None \<Rightarrow> Inl ''invalid TOTP secret''
      | Some key \<Rightarrow> Inr (totp_string key (word_of_int (time_Unix t div totpPeriod))))"

section \<open>Verification\<close>

type_synonym totp_cache = "(string \<times> int) list"

text \<open>Go's division of integers rounds towards zero.\<close>

definition go_div :: "int \<Rightarrow> int \<Rightarrow> int" where
  "go_div a b = sgn a * sgn b * (\<bar>a\<bar> div \<bar>b\<bar>)"

definition totp_counter :: "int \<Rightarrow> int \<Rightarrow> u64" where
  "totp_counter now delta = word_of_int (go_div (now + delta * totpPeriod) totpPeriod)"

definition cache_key :: "string \<Rightarrow> u64 \<Rightarrow> string" where
  "cache_key secret counter = secret @ '':'' @ dec (unat counter)"

definition purge_cache :: "int \<Rightarrow> totp_cache \<Rightarrow> totp_cache" where
  "purge_cache now cache = (let cutoff = now - (totpWindow + 1) * totpPeriod in filter (\<lambda>(k, ts). \<not> ts < cutoff) cache)"

fun verify_window :: "string \<Rightarrow> bytes \<Rightarrow> string \<Rightarrow> int \<Rightarrow> int list \<Rightarrow> totp_cache \<Rightarrow> bool \<times> totp_cache" where
  "verify_window secret key code now [] cache = (False, cache)"
| "verify_window secret key code now (delta # ds) cache =
     (let counter = totp_counter now delta in
      if code = totp_string key counter
      then let k = cache_key secret counter in
           if map_of cache k \<noteq> None then (False, cache)
           else (True, purge_cache now (AList.update k now cache))
      else verify_window secret key code now ds cache)"

definition VerifyTOTPCode :: "gotime \<Rightarrow> string \<Rightarrow> string \<Rightarrow> totp_cache \<Rightarrow> bool \<times> totp_cache" where
  "VerifyTOTPCode t secret code cache =
     (if length code \<noteq> totpDigits then (False, cache)
      else case base32_DecodeString (to_upper secret) of
        None \<Rightarrow> (False, cache)
      | Some key \<Rightarrow> verify_window secret key code (time_Unix t) [- totpWindow..totpWindow] cache)"

section \<open>Backup codes\<close>

definition backupCodeCount :: nat where "backupCodeCount = 8"

definition backup_charset :: string where
  "backup_charset = ''ABCDEFGHJKLMNPQRSTUVWXYZ23456789''"

definition backup_code :: "bytes \<Rightarrow> string" where
  "backup_code b =
     (let code = map (\<lambda>v. backup_charset ! unat (v mod of_nat (length backup_charset))) b
      in take 4 code @ ''-'' @ drop 4 code)"

text \<open>The random bytes of the codes in turn; the first failure ends the loop.\<close>

fun GenerateBackupCodes :: "(string + bytes) list \<Rightarrow> string + string list" where
  "GenerateBackupCodes [] = Inr []"
| "GenerateBackupCodes (r # rs) =
     (case r of Inl e \<Rightarrow> Inl e
      | Inr b \<Rightarrow> (case GenerateBackupCodes rs of Inl e \<Rightarrow> Inl e | Inr cs \<Rightarrow> Inr (backup_code b # cs)))"

fun HashBackupCodes :: "argon2 \<Rightarrow> (string \<times> (string + bytes)) list \<Rightarrow> string + string list" where
  "HashBackupCodes A [] = Inr []"
| "HashBackupCodes A ((code, rnd) # cs) =
     (case HashBackupCode A rnd code of Inl e \<Rightarrow> Inl e
      | Inr h \<Rightarrow> (case HashBackupCodes A cs of Inl e \<Rightarrow> Inl e | Inr hs \<Rightarrow> Inr (h # hs)))"

section \<open>Properties of the codes\<close>

lemma hotp_bound: "unat (hotp key counter 6) < 10 ^ 6"
  by (simp add: hotp_def Let_def unat_mod)

lemma dec_length: "n < 10 ^ Suc k \<Longrightarrow> length (dec n) \<le> Suc k"
proof (induction n arbitrary: k rule: dec.induct)
  case (1 n)
  show ?case
  proof (cases "n < 10")
    case False
    then obtain k' where k: "k = Suc k'" using 1(2) by (cases k) auto
    then have "n div 10 < 10 ^ Suc k'" using 1(2) by (simp add: less_mult_imp_div_less mult.commute)
    with 1(1) [OF False] have "length (dec (n div 10)) \<le> Suc k'" by blast
    then show ?thesis using False k by (simp add: dec.simps [of n])
  qed (simp add: dec.simps [of n])
qed

lemma length_totp_string: "length (totp_string key counter) = 6"
  using dec_length [of "unat (hotp key counter 6)" 5] hotp_bound [of key counter]
  by (simp add: totp_string_def zero_pad_def totpDigits_def)

lemma totp_deltas: "[- totpWindow..totpWindow] = [-1, 0, 1]"
  by (simp add: totpWindow_def upto_rec1)

lemma totp_counter_pos:
  assumes "0 \<le> now + delta * 30"
  shows "totp_counter now delta = word_of_int (now div 30 + delta)"
proof -
  have "go_div (now + delta * 30) 30 = (now + delta * 30) div 30"
    using assms by (auto simp: go_div_def sgn_if)
  then show ?thesis by (simp add: totp_counter_def totpPeriod_def)
qed

text \<open>The first counter of the window whose code is the given one.\<close>

definition matching_counter :: "bytes \<Rightarrow> string \<Rightarrow> int \<Rightarrow> int list \<Rightarrow> u64 option" where
  "matching_counter key code now ds = find (\<lambda>c. code = totp_string key c) (map (totp_counter now) ds)"

lemma verify_window_match:
  "verify_window secret key code now ds cache =
     (case matching_counter key code now ds of
        None \<Rightarrow> (False, cache)
      | Some c \<Rightarrow> if map_of cache (cache_key secret c) \<noteq> None then (False, cache)
          else (True, purge_cache now (AList.update (cache_key secret c) now cache)))"
  by (induction ds) (auto simp: matching_counter_def Let_def)

lemma cache_key_inj: "cache_key s c = cache_key s' c' \<Longrightarrow> s = s' \<and> c = c'"
proof -
  assume eq: "cache_key s c = cache_key s' c'"
  have nc: "CHR '':'' \<notin> set (dec n)" for n using dec_digits [of "CHR '':''" n] by (auto simp: is_dec_digit_def)
  have tw: "takeWhile (\<lambda>x. x \<noteq> CHR '':'') (rev (dec n) @ CHR '':'' # u) = rev (dec n)"
      "dropWhile (\<lambda>x. x \<noteq> CHR '':'') (rev (dec n) @ CHR '':'' # u) = CHR '':'' # u" for n u
    using nc [of n] by (auto simp: takeWhile_append dropWhile_append)
  have r: "rev (dec (unat c)) @ CHR '':'' # rev s = rev (dec (unat c')) @ CHR '':'' # rev s'"
    using arg_cong [OF eq, of rev] by (simp add: cache_key_def)
  have "rev (dec (unat c)) = rev (dec (unat c'))" "rev s = rev s'"
    using arg_cong [OF r, of "takeWhile (\<lambda>x. x \<noteq> CHR '':'')"] arg_cong [OF r, of "dropWhile (\<lambda>x. x \<noteq> CHR '':'')"] unfolding tw by simp_all
  then have "dec (unat c) = dec (unat c')" "s = s'" by simp_all
  then have "unat c = unat c'" by (metis dec_value_dec)
  then have "c = c'" by (rule unsigned_word_eqI)
  then show ?thesis using \<open>s = s'\<close> by simp
qed

section \<open>Acceptance\<close>

lemma matching_counter_ex:
  "(\<exists>c. matching_counter key code now ds = Some c) \<longleftrightarrow> (\<exists>d\<in>set ds. code = totp_string key (totp_counter now d))"
  unfolding not_None_eq [symmetric] matching_counter_def find_None_iff by auto

text \<open>C37. As long as no code of the account was used, a code is accepted exactly if it is the code
  \<open>GenerateTOTP\<close> computes for a time in the current period of 30 seconds, the one before or the
  one after; a secret that is not base32 accepts nothing.\<close>

theorem totp_accepts:
  assumes "30 \<le> time_Unix t" "\<forall>c. map_of cache (cache_key secret c) = None"
  shows "fst (VerifyTOTPCode t secret code cache) \<longleftrightarrow>
    (\<exists>t'. \<bar>time_Unix t' div 30 - time_Unix t div 30\<bar> \<le> 1 \<and> GenerateTOTP secret t' = Inr code)"
proof (cases "base32_DecodeString (to_upper secret)")
  case None
  then show ?thesis by (simp add: VerifyTOTPCode_def GenerateTOTP_def)
next
  case (Some key)
  define n where "n = time_Unix t"
  have ctr: "totp_counter n d = word_of_int (n div 30 + d)" if "d \<in> {-1, 0, 1}" for d
    using assms(1) that by (intro totp_counter_pos) (auto simp: n_def)
  have "fst (VerifyTOTPCode t secret code cache) \<longleftrightarrow> length code = 6 \<and> (\<exists>d\<in>{-1, 0, 1}. code = totp_string key (totp_counter n d))"
    using Some assms(2) matching_counter_ex [of key code n "[-1, 0, 1]"]
    by (auto simp: VerifyTOTPCode_def totp_deltas verify_window_match totpDigits_def n_def split: option.split)
  also have "\<dots> \<longleftrightarrow> (\<exists>d\<in>{-1, 0, 1}. code = totp_string key (word_of_int (n div 30 + d)))"
    using ctr by (auto simp: length_totp_string)
  also have "\<dots> \<longleftrightarrow> (\<exists>t'. \<bar>time_Unix t' div 30 - n div 30\<bar> \<le> 1 \<and> GenerateTOTP secret t' = Inr code)"
  proof
    assume "\<exists>d\<in>{-1, 0, 1}. code = totp_string key (word_of_int (n div 30 + d))"
    then obtain d where d: "d \<in> {-1, 0, 1}" "code = totp_string key (word_of_int (n div 30 + d))" by blast
    define t' where "t' = ((n div 30 + d) * 30 + 62135596800) * 1000000000"
    have "time_Unix t' = (n div 30 + d) * 30" by (simp add: time_Unix_def t'_def)
    then have "time_Unix t' div 30 = n div 30 + d" by simp
    then show "\<exists>t'. \<bar>time_Unix t' div 30 - n div 30\<bar> \<le> 1 \<and> GenerateTOTP secret t' = Inr code"
      using d Some by (intro exI [of _ t']) (auto simp: GenerateTOTP_def totpPeriod_def)
  next
    assume "\<exists>t'. \<bar>time_Unix t' div 30 - n div 30\<bar> \<le> 1 \<and> GenerateTOTP secret t' = Inr code"
    then obtain t' where t': "\<bar>time_Unix t' div 30 - n div 30\<bar> \<le> 1" "GenerateTOTP secret t' = Inr code" by blast
    define d where "d = time_Unix t' div 30 - n div 30"
    have "d = -1 \<or> d = 0 \<or> d = 1" using t'(1) unfolding d_def by linarith
    moreover have "time_Unix t' div 30 = n div 30 + d" by (simp add: d_def)
    then have "code = totp_string key (word_of_int (n div 30 + d))" using t'(2) Some by (simp add: GenerateTOTP_def totpPeriod_def)
    ultimately show "\<exists>d\<in>{-1, 0, 1}. code = totp_string key (word_of_int (n div 30 + d))" by blast
  qed
  finally show ?thesis by (simp add: n_def)
qed

theorem totp_accepts_witness:
  "\<exists>code. GenerateTOTP ''KVKVEU2HKVKTEMKS'' 63900000000000000000 = Inr code
    \<and> fst (VerifyTOTPCode 63900000000000000000 ''KVKVEU2HKVKTEMKS'' code [])"
proof -
  have "base32_DecodeString (to_upper ''KVKVEU2HKVKTEMKS'') \<noteq> None" by code_simp
  then obtain code where code: "GenerateTOTP ''KVKVEU2HKVKTEMKS'' 63900000000000000000 = Inr code"
    by (auto simp: GenerateTOTP_def)
  then show ?thesis
    using totp_accepts [of 63900000000000000000 "[]" "''KVKVEU2HKVKTEMKS''" code]
    by (auto simp: time_Unix_def intro!: exI [of _ "63900000000000000000"])
qed

section \<open>Replay\<close>

text \<open>A sequence of verifications, with the accounts and counters of the accepted codes.\<close>

fun totp_run :: "(gotime \<times> string \<times> string) list \<Rightarrow> totp_cache \<Rightarrow> (string \<times> u64) list \<times> totp_cache" where
  "totp_run [] cache = ([], cache)"
| "totp_run ((t, secret, code) # es) cache =
     (let (ok, cache') = VerifyTOTPCode t secret code cache; (acc, cache'') = totp_run es cache' in
      (if ok then (secret, the (matching_counter (the (base32_DecodeString (to_upper secret))) code (time_Unix t) [- totpWindow..totpWindow])) # acc
       else acc, cache''))"

text \<open>The codes known to have been used at or after a time.\<close>

definition used_since :: "int \<Rightarrow> totp_cache \<Rightarrow> (string \<times> u64) set" where
  "used_since T cache = {(s, c). \<exists>ts \<ge> T. map_of cache (cache_key s c) = Some ts}"

lemma map_of_purge:
  assumes "map_of cache k = Some ts" "now - 60 \<le> ts"
  shows "map_of (purge_cache now cache) k = Some ts"
  using assms by (induction cache) (auto simp: purge_cache_def totpWindow_def totpPeriod_def Let_def split: if_splits)

lemma verify_used:
  assumes "VerifyTOTPCode t secret code cache = (ok, cache')" "T \<le> time_Unix t" "time_Unix t \<le> T + 60"
  shows "used_since T cache \<subseteq> used_since T cache'"
    and "ok \<Longrightarrow> (secret, the (matching_counter (the (base32_DecodeString (to_upper secret))) code (time_Unix t) [- totpWindow..totpWindow]))
      \<in> used_since T cache' - used_since T cache"
proof -
  define now where "now = time_Unix t"
  show "used_since T cache \<subseteq> used_since T cache'"
  proof (cases ok)
    case False
    then have "cache' = cache"
      using assms(1) by (auto simp: VerifyTOTPCode_def verify_window_match split: if_splits option.splits)
    then show ?thesis by simp
  next
    case True
    then obtain k where k: "map_of cache k = None" "cache' = purge_cache now (AList.update k now cache)"
      using assms(1) by (auto simp: VerifyTOTPCode_def verify_window_match now_def split: if_splits option.splits)
    show ?thesis
    proof (rule subrelI)
      fix s c assume "(s, c) \<in> used_since T cache"
      then obtain ts where ts: "T \<le> ts" "map_of cache (cache_key s c) = Some ts" by (auto simp: used_since_def)
      then have "map_of (AList.update k now cache) (cache_key s c) = Some ts" using k(1) by (auto simp: update_conv')
      then have "map_of cache' (cache_key s c) = Some ts"
        unfolding k(2) by (rule map_of_purge) (use ts(1) assms(3) in \<open>simp add: now_def\<close>)
      then show "(s, c) \<in> used_since T cache'" using ts(1) by (auto simp: used_since_def)
    qed
  qed
  assume ok
  then obtain key c where key: "base32_DecodeString (to_upper secret) = Some key"
    and c: "matching_counter key code now [- totpWindow..totpWindow] = Some c" "map_of cache (cache_key secret c) = None"
      "cache' = purge_cache now (AList.update (cache_key secret c) now cache)"
    using assms(1) by (auto simp: VerifyTOTPCode_def verify_window_match now_def split: if_splits option.splits)
  have "map_of cache' (cache_key secret c) = Some now"
    unfolding c(3) by (rule map_of_purge) (simp_all add: update_conv')
  then show "(secret, the (matching_counter (the (base32_DecodeString (to_upper secret))) code (time_Unix t) [- totpWindow..totpWindow]))
      \<in> used_since T cache' - used_since T cache"
    using key c(1,2) assms(2) by (auto simp: used_since_def now_def)
qed

lemma totp_run_distinct:
  assumes "\<forall>e\<in>set es. T \<le> time_Unix (fst e) \<and> time_Unix (fst e) \<le> T + 60"
  shows "distinct (fst (totp_run es cache)) \<and> set (fst (totp_run es cache)) \<inter> used_since T cache = {}"
  using assms
proof (induction es arbitrary: cache)
  case (Cons e es)
  obtain t secret code where e: "e = (t, secret, code)" by (rule prod_cases3)
  obtain ok cache' where v: "VerifyTOTPCode t secret code cache = (ok, cache')" by fastforce
  obtain acc cache'' where r: "totp_run es cache' = (acc, cache'')" by fastforce
  have t: "T \<le> time_Unix t" "time_Unix t \<le> T + 60" using Cons.prems by (simp_all add: e)
  have IH: "distinct acc" "set acc \<inter> used_since T cache' = {}" using Cons.IH [of cache'] Cons.prems r by simp_all
  show ?case using IH verify_used [OF v t] by (cases ok) (auto simp: e v r)
qed simp

text \<open>C12. No code is accepted twice within a minute: in any sequence of verifications of any
  accounts that lies within 60 seconds, the accepted pairs of account secret and counter are
  distinct, and none is one that was already used in that minute.\<close>

theorem totp_single_use:
  assumes "\<forall>e\<in>set es. T \<le> time_Unix (fst e) \<and> time_Unix (fst e) \<le> T + 60"
  shows "distinct (fst (totp_run es cache)) \<and> set (fst (totp_run es cache)) \<inter> used_since T cache = {}"
  using assms by (rule totp_run_distinct)

theorem totp_single_use_witness:
  "\<exists>code c. totp_run (replicate 2 (63900000000000000000, ''KVKVEU2HKVKTEMKS'', code)) [] = ([(''KVKVEU2HKVKTEMKS'', c)], snd
     (totp_run (replicate 2 (63900000000000000000, ''KVKVEU2HKVKTEMKS'', code)) []))"
proof -
  let ?s = "''KVKVEU2HKVKTEMKS''" and ?t = "63900000000000000000"
  obtain key where key: "base32_DecodeString (to_upper ?s) = Some key" by (cases "base32_DecodeString (to_upper ?s)") (simp, code_simp, blast)
  define now where "now = time_Unix ?t"
  define code where "code = totp_string key (totp_counter now (-1))"
  define c where "c = totp_counter now (-1)"
  have m: "matching_counter key code now [- totpWindow..totpWindow] = Some c"
    by (simp add: matching_counter_def totp_deltas code_def c_def)
  have len: "length code = totpDigits" by (simp add: code_def length_totp_string totpDigits_def)
  obtain cache' where v: "VerifyTOTPCode ?t ?s code [] = (True, cache')"
    using key m len by (simp add: VerifyTOTPCode_def verify_window_match now_def)
  obtain ok2 cache'' where v2: "VerifyTOTPCode ?t ?s code cache' = (ok2, cache'')" by fastforce
  have "distinct (fst (totp_run (replicate 2 (?t, ?s, code)) []))"
    using totp_single_use [of "replicate 2 (?t, ?s, code)" now "[]"] by (simp add: now_def)
  then have "\<not> ok2" using v v2 key m by (cases ok2) (simp_all add: numeral_2_eq_2 now_def)
  then show ?thesis
    using v v2 key m by (intro exI [of _ code] exI [of _ c]) (simp add: numeral_2_eq_2 now_def)
qed

text \<open>After a minute a code may be accepted again: the cache forgets uses that are more than 60
  seconds old, but a code that was used as early as possible, in the period before its own,
  stays in the window for up to 89 seconds.\<close>

lemma totp_replay_gap:
  assumes "0 \<le> c" "now = 30 * c"
  shows "totp_counter now 1 = totp_counter (now + 61) (- 1)"
    and "map_of (purge_cache (now + 61) [(k, now)]) k = None"
  using assms totp_counter_pos [of now 1] totp_counter_pos [of "now + 61" "- 1"]
  by (simp_all add: purge_cache_def totpWindow_def totpPeriod_def Let_def)

section \<open>Backup codes\<close>

lemma backup_code_chars:
  assumes "length b = 8"
  shows "length (backup_code b) = 9" "set (backup_code b) \<subseteq> insert (CHR ''-'') (set backup_charset)"
proof -
  define f where "f v = backup_charset ! unat (v mod of_nat (length backup_charset))" for v :: u8
  have n: "length backup_charset = 32" by (simp add: backup_charset_def)
  have "unat (v mod 32 :: u8) < 32" for v by (simp add: unat_mod)
  then have f: "f v \<in> set backup_charset" for v using n by (simp add: f_def nth_mem)
  have code: "backup_code b = take 4 (map f b) @ ''-'' @ drop 4 (map f b)"
    unfolding backup_code_def Let_def f_def by simp
  show "length (backup_code b) = 9" using assms by (simp add: code)
  show "set (backup_code b) \<subseteq> insert (CHR ''-'') (set backup_charset)"
    using f set_take_subset [of 4 "map f b"] set_drop_subset [of 4 "map f b"] unfolding code by auto
qed

end
