(* ===== verification/AuthService.thy ===== *)
theory AuthService
  imports AuthStore AuthTotp
begin

text \<open>
  Tokens, the authentication service and the handlers that lock and unlock users
  (\<open>pkg/auth/jwt.go\<close>, \<open>service.go\<close>, \<open>handlers.go\<close>).  Signing and parsing of tokens come from
  \<open>golang-jwt\<close> and are parameters; a date in a token is a number of Unix seconds.  An operation gets the
  readings of the clock, random bytes and errors of the database numbered by the place in the
  source where they occur.  The state of a service is its store, the limiters of logins, the
  pending enrolments and the cache of used codes, which is a global variable in the code.
\<close>

section \<open>Tokens\<close>

record JWTConfig =
  jc_PrivateKeyPath :: string
  jc_PublicKeyPath :: string
  jc_AccessTokenTTL :: duration
  jc_RefreshTokenTTL :: duration
  jc_InactivityTimeout :: duration
  jc_Issuer :: string

definition DefaultJWTConfig :: JWTConfig where
  "DefaultJWTConfig = \<lparr>jc_PrivateKeyPath = ''/etc/falx/keys/jwt_private.pem'', jc_PublicKeyPath = ''/etc/falx/keys/jwt_public.pem'',
     jc_AccessTokenTTL = 15 * Minute, jc_RefreshTokenTTL = 7 * 24 * Hour, jc_InactivityTimeout = 25 * Minute, jc_Issuer = ''falx-v2''\<rparr>"

record falxClaims =
  fc_Subject :: string
  fc_Issuer :: string
  fc_IssuedAt :: int
  fc_ExpiresAt :: int
  fc_NotBefore :: int
  fc_Username :: string
  fc_Role :: Role
  fc_SessionID :: string
  fc_TokenType :: string
  fc_TFAVerified :: bool
  fc_Scope :: string
  fc_Permissions :: "Permission list"

text \<open>The libraries and the configuration: \<open>SignedString\<close> with the private key, and \<open>ParseWithClaims\<close>
  at a time with the required issuer and the public key.\<close>

record auth_lib =
  al_argon2 :: argon2
  al_sign :: "falxClaims \<Rightarrow> string + string"
  al_parse :: "gotime \<Rightarrow> string \<Rightarrow> string \<Rightarrow> string + falxClaims"
  al_cfg :: JWTConfig

definition access_claims :: "auth_lib \<Rightarrow> gotime \<Rightarrow> User \<Rightarrow> string \<Rightarrow> bool \<Rightarrow> string \<Rightarrow> falxClaims" where
  "access_claims L now user sessionID tfaVerified scope =
     \<lparr>fc_Subject = u_ID user, fc_Issuer = jc_Issuer (al_cfg L), fc_IssuedAt = time_Unix now,
      fc_ExpiresAt = time_Unix (time_Add now (jc_AccessTokenTTL (al_cfg L))), fc_NotBefore = time_Unix now,
      fc_Username = u_Username user, fc_Role = u_Role user, fc_SessionID = sessionID, fc_TokenType = ''access'',
      fc_TFAVerified = tfaVerified, fc_Scope = scope,
      fc_Permissions = (case RolePermissions (u_Role user) of None \<Rightarrow> [] | Some ps \<Rightarrow> ps)\<rparr>"

definition GenerateAccessToken :: "auth_lib \<Rightarrow> gotime \<Rightarrow> User \<Rightarrow> string \<Rightarrow> bool \<Rightarrow> string \<Rightarrow> string + (string \<times> gotime)" where
  "GenerateAccessToken L now user sessionID tfaVerified scope =
     (case al_sign L (access_claims L now user sessionID tfaVerified scope) of
        Inl e \<Rightarrow> Inl (''sign access token: '' @ e)
      | Inr signedTok \<Rightarrow> Inr (signedTok, time_Add now (jc_AccessTokenTTL (al_cfg L))))"

definition token_chars :: string where
  "token_chars = ''ABCDEFGHIJKLMNOPQRSTUVWXYZabcdefghijklmnopqrstuvwxyz0123456789-_''"

definition urlSafeEncode :: "bytes \<Rightarrow> string" where
  "urlSafeEncode b = map (\<lambda>v. token_chars ! unat (v mod 64)) b"

definition GenerateRefreshToken :: "auth_lib \<Rightarrow> string + bytes \<Rightarrow> string + bytes \<Rightarrow> string + (string \<times> string)" where
  "GenerateRefreshToken L rnd salt =
     (case rnd of
        Inl e \<Rightarrow> Inl (''refresh token entropy: '' @ e)
      | Inr b \<Rightarrow>
          let raw = urlSafeEncode b in
          (case HashPassword (al_argon2 L) salt raw of
             Inl e \<Rightarrow> Inl (''hash refresh token: '' @ e)
           | Inr hashed \<Rightarrow> Inr (raw, hashed)))"

definition VerifyAccessToken :: "auth_lib \<Rightarrow> gotime \<Rightarrow> string \<Rightarrow> string + TokenClaims" where
  "VerifyAccessToken L now tokenStr =
     (case al_parse L now (jc_Issuer (al_cfg L)) tokenStr of
        Inl e \<Rightarrow> Inl (''invalid token: '' @ e)
      | Inr c \<Rightarrow>
          if fc_TokenType c \<noteq> ''access'' then Inl ''wrong token type: expected access''
          else Inr \<lparr>tc_UserID = fc_Subject c, tc_Username = fc_Username c, tc_Role = fc_Role c, tc_SessionID = fc_SessionID c,
                  tc_IssuedAt = fc_IssuedAt c, tc_ExpiresAt = fc_ExpiresAt c, tc_TokenType = fc_TokenType c,
                  tc_TFAVerified = fc_TFAVerified c, tc_Scope = fc_Scope c, tc_Permissions = fc_Permissions c\<rparr>)"

section \<open>State\<close>

record loginRateLimiter =
  lrl_attempts :: int
  lrl_resetAt :: gotime

record pendingTOTPEntry =
  pe_secret :: string
  pe_plainCodes :: "string list"
  pe_expiresAt :: gotime

record Service =
  sv_store :: Store
  sv_loginRL :: "(string \<times> loginRateLimiter) list"
  sv_pendingTOTP :: "(string \<times> pendingTOTPEntry) list"
  sv_totpCache :: totp_cache

record auth_env =
  e_clk :: clock
  e_rnd :: "nat \<Rightarrow> string + bytes"
  e_id :: "nat \<Rightarrow> bytes"
  e_err :: "nat \<Rightarrow> error"

definition NewService :: "Store \<Rightarrow> totp_cache \<Rightarrow> Service" where
  "NewService store cache = \<lparr>sv_store = store, sv_loginRL = [], sv_pendingTOTP = [], sv_totpCache = cache\<rparr>"

text \<open>An operation of the store on the service, without and with an error result.\<close>

definition on_store :: "(Store \<Rightarrow> Store) \<Rightarrow> Service \<Rightarrow> Service" where
  "on_store f v = v\<lparr>sv_store := f (sv_store v)\<rparr>"

definition audit :: "auth_env \<Rightarrow> nat \<Rightarrow> AuthAuditEvent \<Rightarrow> Service \<Rightarrow> Service" where
  "audit E n ev = on_store (WriteAuditEvent (e_id E n) (e_clk E n) (e_err E n) ev)"

definition auditLogin :: "auth_env \<Rightarrow> nat \<Rightarrow> string \<Rightarrow> string \<Rightarrow> string \<Rightarrow> string \<Rightarrow> bool \<Rightarrow> string \<Rightarrow> Service \<Rightarrow> Service" where
  "auditLogin E n userID username ip ua success reason =
     audit E n (AuthAuditEvent0\<lparr>ae_UserID := userID, ae_Username := username, ae_Action := ''login'', ae_IPAddress := ip,
       ae_UserAgent := ua, ae_Success := success, ae_FailReason := reason\<rparr>)"

section \<open>The limiter of logins\<close>

text \<open>\<open>net.SplitHostPort\<close>: the host, empty on an error.\<close>

fun last_index :: "char \<Rightarrow> string \<Rightarrow> nat option" where
  "last_index c [] = None"
| "last_index c (x # xs) = (case last_index c xs of Some i \<Rightarrow> Some (Suc i) | None \<Rightarrow> if x = c then Some 0 else None)"

definition SplitHost :: "string \<Rightarrow> string" where
  "SplitHost hp =
     (case last_index (CHR '':'') hp of
        None \<Rightarrow> []
      | Some i \<Rightarrow>
          if hd hp = CHR ''['' then
            (case index_of hp (CHR '']'') of
               None \<Rightarrow> []
             | Some en \<Rightarrow>
                 if en + 1 \<noteq> i then []
                 else if CHR ''['' \<in> set (drop 1 hp) \<or> CHR '']'' \<in> set (drop (en + 1) hp) then []
                 else drop 1 (take en hp))
          else if CHR '':'' \<in> set (take i hp) then []
          else if CHR ''['' \<in> set hp \<or> CHR '']'' \<in> set hp then []
          else take i hp)"

definition loginRateLimit :: int where "loginRateLimit = 10"
definition loginRateWindow :: duration where "loginRateWindow = Minute"

text \<open>The error ends with the remaining time, which is left out.\<close>

definition checkLoginRate :: "gotime \<Rightarrow> string \<Rightarrow> Service \<Rightarrow> error \<times> Service" where
  "checkLoginRate now ipAddr v =
     (let h = SplitHost ipAddr; ip = (if h = [] then ipAddr else h);
          rls = filter (\<lambda>(_, r). \<not> time_After now (lrl_resetAt r)) (sv_loginRL v);
          fresh = AList.update ip \<lparr>lrl_attempts = 1, lrl_resetAt = time_Add now loginRateWindow\<rparr> rls in
      case map_of rls ip of
        None \<Rightarrow> (None, v\<lparr>sv_loginRL := fresh\<rparr>)
      | Some rl \<Rightarrow>
          if time_After now (lrl_resetAt rl) then (None, v\<lparr>sv_loginRL := fresh\<rparr>)
          else let rl = rl\<lparr>lrl_attempts := lrl_attempts rl + 1\<rparr>;
                   v = v\<lparr>sv_loginRL := AList.update ip rl rls\<rparr>
               in (if lrl_attempts rl > loginRateLimit then Some ''too many login attempts'' else None, v))"

section \<open>Login\<close>

definition verifyTOTP :: "gotime \<Rightarrow> string \<Rightarrow> string \<Rightarrow> Service \<Rightarrow> bool \<times> Service" where
  "verifyTOTP t secret code v =
     (let (ok, cache) = VerifyTOTPCode t secret code (sv_totpCache v) in (ok, v\<lparr>sv_totpCache := cache\<rparr>))"

definition token_scope :: "User \<Rightarrow> bool \<times> string" where
  "token_scope user =
     (let enforce2FA = Requires2FA (u_Role user) in
      (u_TOTPEnabled user \<or> \<not> enforce2FA, if enforce2FA \<and> \<not> u_TOTPEnabled user then ScopePreAuth else ScopeSession))"

text \<open>The part after the credentials were verified.\<close>

definition login_session :: "auth_lib \<Rightarrow> auth_env \<Rightarrow> User \<Rightarrow> string \<Rightarrow> string \<Rightarrow> Service \<Rightarrow> (string + LoginResponse) \<times> Service" where
  "login_session L E user ipAddr userAgent v =
     (let v = on_store (\<lambda>s. snd (ResetFailedLogin (e_clk E 8) (e_err E 8) (u_ID user) s)) v in
      case GenerateRefreshToken L (e_rnd E 1) (e_rnd E 2) of
        Inl e \<Rightarrow> (Inl (''generate refresh token: '' @ e), v)
      | Inr (rawRefresh, hashedRefresh) \<Rightarrow>
          let sess = \<lparr>s_ID = [], s_UserID = u_ID user, s_RefreshToken = hashedRefresh, s_UserAgent = userAgent, s_IPAddress = ipAddr,
                s_CreatedAt = 0, s_LastActivityAt = 0, s_ExpiresAt = time_Add (e_clk E 9) (jc_RefreshTokenTTL (al_cfg L)), s_Revoked = False\<rparr>;
              (err, sess, store) = CreateSession (e_id E 10) (e_clk E 10) (e_err E 10) sess (sv_store v);
              v = v\<lparr>sv_store := store\<rparr>
          in case err of
               Some e \<Rightarrow> (Inl (''create session: '' @ e), v)
             | None \<Rightarrow>
                 let (tfaVerified, scope) = token_scope user in
                 (case GenerateAccessToken L (e_clk E 11) user (s_ID sess) tfaVerified scope of
                    Inl e \<Rightarrow> (Inl (''generate access token: '' @ e), v)
                  | Inr (accessToken, expiry) \<Rightarrow>
                      let user = user\<lparr>u_LastLogin := e_clk E 12\<rparr>;
                          v = on_store (\<lambda>s. snd (UpdateUser (e_clk E 13) (e_err E 13) user s)) v;
                          v = auditLogin E 14 (u_ID user) (u_Username user) ipAddr userAgent True [] v
                      in (Inr \<lparr>lresp_Tokens = \<lparr>tp_AccessToken = accessToken, tp_RefreshToken = rawRefresh, tp_TokenType = ''Bearer'',
                                 tp_ExpiresIn = go_div (jc_AccessTokenTTL (al_cfg L)) Second, tp_ExpiresAt = expiry\<rparr>,
                               lresp_User = UserToView user\<rparr>, v)))"

definition Login :: "auth_lib \<Rightarrow> auth_env \<Rightarrow> LoginRequest \<Rightarrow> string \<Rightarrow> string \<Rightarrow> Service \<Rightarrow> (string + LoginResponse) \<times> Service" where
  "Login L E req ipAddr userAgent v =
     (let (err, v) = checkLoginRate (e_clk E 0) ipAddr v in
      case err of
        Some e \<Rightarrow> (Inl e, v)
      | None \<Rightarrow>
     (case GetUserByUsername (lr_Username req) (sv_store v) of
        Inl _ \<Rightarrow> (Inl ErrInvalidCredentials, auditLogin E 1 [] (lr_Username req) ipAddr userAgent False ''user_not_found'' v)
      | Inr user \<Rightarrow>
          let fail = (\<lambda>n. auditLogin E n (u_ID user) (u_Username user) ipAddr userAgent False) in
          if \<not> u_Active user then (Inl ErrInvalidCredentials, fail 2 ''account_inactive'' v)
          else if u_Locked user then (Inl ErrAccountLocked, fail 3 ''account_locked'' v)
          else if VerifyPassword (al_argon2 L) (lr_Password req) (u_PasswordHash user) \<noteq> Inr True
          then let v = on_store (\<lambda>s. snd (RecordFailedLogin (e_clk E 4) (e_err E 4) (u_ID user) s)) v
               in (Inl ErrInvalidCredentials, fail 5 ''wrong_password'' v)
          else if \<not> u_TOTPEnabled user then login_session L E user ipAddr userAgent v
          else if lr_TOTPCode req = [] then (Inl ErrTOTPRequired, v)
          else let (ok, v) = verifyTOTP (e_clk E 6) (u_TOTPSecret user) (lr_TOTPCode req) v in
            if \<not> ok then (Inl ErrInvalidCredentials, fail 7 ''invalid_totp'' v)
            else login_session L E user ipAddr userAgent v))"

section \<open>Refresh\<close>

definition RefreshTokens :: "auth_lib \<Rightarrow> auth_env \<Rightarrow> string \<Rightarrow> string \<Rightarrow> Service \<Rightarrow> (string + TokenPair) \<times> Service" where
  "RefreshTokens L E sessionID rawRefresh v =
     (case GetSession (e_clk E) sessionID (sv_store v) of
        Inl e \<Rightarrow> (Inl e, v)
      | Inr session \<Rightarrow>
          if VerifyPassword (al_argon2 L) rawRefresh (s_RefreshToken session) \<noteq> Inr True
          then (Inl ErrInvalidCredentials, on_store (\<lambda>s. snd (RevokeAllUserSessions (e_err E 2) (s_UserID session) s)) v)
          else
     (case GetUserByID (s_UserID session) (sv_store v) of
        Inl e \<Rightarrow> (Inl e, v)
      | Inr user \<Rightarrow>
          if \<not> u_Active user \<or> u_Locked user then (Inl ErrInvalidCredentials, v)
          else
          let (err, store) = RevokeSession (e_err E 3) sessionID (sv_store v); v = v\<lparr>sv_store := store\<rparr> in
          case err of
            Some e \<Rightarrow> (Inl (''session rotation failed: '' @ e), v)
          | None \<Rightarrow>
          (case GenerateRefreshToken L (e_rnd E 4) (e_rnd E 5) of
             Inl e \<Rightarrow> (Inl e, v)
           | Inr (rawNew, hashedNew) \<Rightarrow>
               let session = session\<lparr>s_RefreshToken := hashedNew, s_LastActivityAt := e_clk E 6,
                     s_ExpiresAt := time_Add (e_clk E 7) (jc_RefreshTokenTTL (al_cfg L))\<rparr>;
                   (err, session, store) = CreateSession (e_id E 8) (e_clk E 8) (e_err E 8) session (sv_store v);
                   v = v\<lparr>sv_store := store\<rparr>
               in case err of
                    Some e \<Rightarrow> (Inl (''create rotated session: '' @ e), v)
                  | None \<Rightarrow>
                      let (tfaOK, refreshScope) = token_scope user in
                      (case GenerateAccessToken L (e_clk E 9) user (s_ID session) tfaOK refreshScope of
                         Inl e \<Rightarrow> (Inl e, v)
                       | Inr (accessToken, expiry) \<Rightarrow>
                           (Inr \<lparr>tp_AccessToken = accessToken, tp_RefreshToken = rawNew, tp_TokenType = ''Bearer'',
                              tp_ExpiresIn = go_div (jc_AccessTokenTTL (al_cfg L)) Second, tp_ExpiresAt = expiry\<rparr>, v)))))"

section \<open>Logout\<close>

definition Logout :: "auth_env \<Rightarrow> string \<Rightarrow> string \<Rightarrow> string \<Rightarrow> Service \<Rightarrow> error \<times> Service" where
  "Logout E sessionID userID ipAddr v =
     (let (err, store) = RevokeSession (e_err E 0) sessionID (sv_store v); v = v\<lparr>sv_store := store\<rparr> in
      case err of
        Some e \<Rightarrow> (Some e, v)
      | None \<Rightarrow> (None, audit E 1 (AuthAuditEvent0\<lparr>ae_UserID := userID, ae_Action := ''logout'', ae_IPAddress := ipAddr, ae_Success := True\<rparr>) v))"

definition LogoutAll :: "auth_env \<Rightarrow> string \<Rightarrow> string \<Rightarrow> Service \<Rightarrow> error \<times> Service" where
  "LogoutAll E userID ipAddr v =
     (let (err, store) = RevokeAllUserSessions (e_err E 0) userID (sv_store v); v = v\<lparr>sv_store := store\<rparr> in
      (err, audit E 1 (AuthAuditEvent0\<lparr>ae_UserID := userID, ae_Action := ''logout_all'', ae_IPAddress := ipAddr, ae_Success := err = None\<rparr>) v))"

section \<open>Users\<close>

definition Register :: "auth_lib \<Rightarrow> auth_env \<Rightarrow> RegisterRequest \<Rightarrow> string \<Rightarrow> string \<Rightarrow> Service \<Rightarrow> (string + UserView) \<times> Service" where
  "Register L E req actorID actorIP v =
     (case ValidatePasswordStrength (rr_Password req) of
        Some e \<Rightarrow> (Inl e, v)
      | None \<Rightarrow>
     (case GetUserByID actorID (sv_store v) of
        Inl e \<Rightarrow> (Inl e, v)
      | Inr actor \<Rightarrow>
          if \<not> CanManageRole actor (rr_Role req) then (Inl (''insufficient privileges to assign role '' @ rr_Role req), v)
          else
     (case HashPassword (al_argon2 L) (e_rnd E 0) (rr_Password req) of
        Inl e \<Rightarrow> (Inl e, v)
      | Inr hash \<Rightarrow>
          let user = User0\<lparr>u_Username := rr_Username req, u_Email := rr_Email req, u_PasswordHash := hash, u_Role := rr_Role req,
                u_Active := True, u_DisplayName := rr_DisplayName req, u_CreatedBy := actorID\<rparr>;
              (err, user, store) = CreateUser (e_id E 1) (e_clk E 1) (e_err E 1) user (sv_store v);
              v = v\<lparr>sv_store := store\<rparr>
          in case err of
               Some e \<Rightarrow> (Inl e, v)
             | None \<Rightarrow>
                 (Inr (UserToView user), audit E 2 (AuthAuditEvent0\<lparr>ae_UserID := actorID, ae_Action := ''user_create'', ae_Resource := u_ID user,
                    ae_IPAddress := actorIP, ae_Success := True, ae_Metadata := [(''new_user'', u_Username user), (''role'', rr_Role req)]\<rparr>) v))))"

definition ChangePassword :: "auth_lib \<Rightarrow> auth_env \<Rightarrow> string \<Rightarrow> ChangePasswordRequest \<Rightarrow> string \<Rightarrow> Service \<Rightarrow> error \<times> Service" where
  "ChangePassword L E userID req ip v =
     (case GetUserByID userID (sv_store v) of
        Inl e \<Rightarrow> (Some e, v)
      | Inr user \<Rightarrow>
          if VerifyPassword (al_argon2 L) (cp_OldPassword req) (u_PasswordHash user) \<noteq> Inr True then (Some ErrInvalidCredentials, v)
          else
     (case ValidatePasswordStrength (cp_NewPassword req) of
        Some e \<Rightarrow> (Some e, v)
      | None \<Rightarrow>
     (case HashPassword (al_argon2 L) (e_rnd E 0) (cp_NewPassword req) of
        Inl e \<Rightarrow> (Some e, v)
      | Inr hash \<Rightarrow>
          let (err, store) = UpdatePasswordHash (e_clk E 1) (e_err E 1) userID hash (sv_store v); v = v\<lparr>sv_store := store\<rparr> in
          case err of
            Some e \<Rightarrow> (Some e, v)
          | None \<Rightarrow>
              let v = on_store (\<lambda>s. snd (RevokeAllUserSessions (e_err E 2) userID s)) v
              in (None, audit E 3 (AuthAuditEvent0\<lparr>ae_UserID := userID, ae_Action := ''password_change'', ae_IPAddress := ip,
                   ae_Success := True\<rparr>) v))))"

section \<open>Requests\<close>

text \<open>Readings 0 of the parser, 1 and 2 of \<open>GetSession\<close>, 3 of \<open>TouchSession\<close>.\<close>

definition ValidateRequest :: "auth_lib \<Rightarrow> auth_env \<Rightarrow> string \<Rightarrow> Service \<Rightarrow> (string + TokenClaims) \<times> Service" where
  "ValidateRequest L E tokenStr v =
     (case VerifyAccessToken L (e_clk E 0) tokenStr of
        Inl e \<Rightarrow> (Inl e, v)
      | Inr claims \<Rightarrow>
     (case GetSession (clk_from 1 (e_clk E)) (tc_SessionID claims) (sv_store v) of
        Inl e \<Rightarrow> (Inl e, v)
      | Inr _ \<Rightarrow> (Inr claims, on_store (\<lambda>s. snd (TouchSession (e_clk E 3) (e_err E 3) (tc_SessionID claims) s)) v)))"

definition IssueUpgradedToken :: "auth_lib \<Rightarrow> auth_env \<Rightarrow> string \<Rightarrow> string \<Rightarrow> Service \<Rightarrow> string + TokenPair" where
  "IssueUpgradedToken L E userID sessionID v =
     (case GetUserByID userID (sv_store v) of
        Inl e \<Rightarrow> Inl e
      | Inr user \<Rightarrow>
     (case GenerateAccessToken L (e_clk E 0) user sessionID True ScopeSession of
        Inl e \<Rightarrow> Inl (''issue upgraded token: '' @ e)
      | Inr (accessToken, expiry) \<Rightarrow>
          Inr \<lparr>tp_AccessToken = accessToken, tp_RefreshToken = [], tp_TokenType = ''Bearer'',
            tp_ExpiresIn = go_div (jc_AccessTokenTTL (al_cfg L)) Second, tp_ExpiresAt = expiry\<rparr>))"

section \<open>Second factors\<close>

text \<open>The secret and the codes of an enrolment; the texts for display are left out.  Random values 0
  are the secret, 1 to 8 the backup codes, and in the confirmation 0 to 7 the salts.\<close>

definition BeginTOTPSetup :: "auth_env \<Rightarrow> string \<Rightarrow> Service \<Rightarrow> (string + (string \<times> string list)) \<times> Service" where
  "BeginTOTPSetup E userID v =
     (case GetUserByID userID (sv_store v) of
        Inl _ \<Rightarrow> (Inl ErrUserNotFound, v)
      | Inr user \<Rightarrow>
     (case GenerateTOTPSecret (e_rnd E 0) of
        Inl e \<Rightarrow> (Inl (''generate TOTP enrollment: '' @ e), v)
      | Inr secret \<Rightarrow>
     (case GenerateBackupCodes (map (\<lambda>i. e_rnd E (1 + i)) [0..<backupCodeCount]) of
        Inl e \<Rightarrow> (Inl (''generate TOTP enrollment: '' @ e), v)
      | Inr plain \<Rightarrow>
          (Inr (secret, plain),
           v\<lparr>sv_pendingTOTP := AList.update userID \<lparr>pe_secret = secret, pe_plainCodes = plain,
               pe_expiresAt = time_Add (e_clk E 0) (10 * Minute)\<rparr> (sv_pendingTOTP v)\<rparr>))))"

definition ConfirmTOTPSetup :: "auth_lib \<Rightarrow> auth_env \<Rightarrow> string \<Rightarrow> string \<Rightarrow> Service \<Rightarrow> (string + string list) \<times> Service" where
  "ConfirmTOTPSetup L E userID code v =
     (let drop_entry = (\<lambda>v. v\<lparr>sv_pendingTOTP := AList.delete userID (sv_pendingTOTP v)\<rparr>);
          dash = [CHR 0xE2, CHR 0x80, CHR 0x94]; none = ''no pending TOTP enrollment '' @ dash @ '' call /auth/totp/begin first'' in
      case map_of (sv_pendingTOTP v) userID of
        None \<Rightarrow> (Inl none, drop_entry v)
      | Some entry \<Rightarrow>
          if time_After (e_clk E 0) (pe_expiresAt entry) then (Inl none, drop_entry v)
          else let (ok, v) = verifyTOTP (e_clk E 1) (pe_secret entry) code v in
          if \<not> ok then (Inl (''invalid TOTP code '' @ dash @ '' check your authenticator app clock''), v)
          else
     (case HashBackupCodes (al_argon2 L) (zip (pe_plainCodes entry) (map (e_rnd E) [0..<length (pe_plainCodes entry)])) of
        Inl e \<Rightarrow> (Inl (''hash backup codes: '' @ e), v)
      | Inr hashes \<Rightarrow>
          let (err, store) = UpdateTOTPSecret (e_clk E 2) (e_err E 0) userID (pe_secret entry) True (sv_store v); v = v\<lparr>sv_store := store\<rparr> in
          case err of
            Some e \<Rightarrow> (Inl (''save TOTP secret: '' @ e), v)
          | None \<Rightarrow>
              let v = on_store (\<lambda>s. snd (UpdateBackupCodes (\<lambda>i. e_err E (1 + i)) userID
                        (zip (map (e_id E) [0..<length hashes]) hashes) s)) v
              in (Inr (pe_plainCodes entry), drop_entry v)))"

definition DisableTOTPSetup :: "auth_env \<Rightarrow> string \<Rightarrow> string \<Rightarrow> string \<Rightarrow> Service \<Rightarrow> error \<times> Service" where
  "DisableTOTPSetup E targetUserID actorUserID actorIP v =
     (case GetUserByID targetUserID (sv_store v) of
        Inl _ \<Rightarrow> (Some ErrUserNotFound, v)
      | Inr _ \<Rightarrow>
          let (err, store) = DisableTOTP (e_clk E 0) (e_err E) targetUserID (sv_store v); v = v\<lparr>sv_store := store\<rparr> in
          case err of
            Some e \<Rightarrow> (Some (''disable TOTP: '' @ e), v)
          | None \<Rightarrow>
              let v = on_store (\<lambda>s. snd (RevokeAllUserSessions (e_err E 4) targetUserID s)) v
              in (None, audit E 5 (AuthAuditEvent0\<lparr>ae_UserID := actorUserID, ae_Action := ''totp_disable'', ae_Resource := targetUserID,
                   ae_IPAddress := actorIP, ae_Success := True\<rparr>) v))"

section \<open>Locking and unlocking\<close>

text \<open>The handlers, with the status of the response.\<close>

definition LockUser :: "auth_env \<Rightarrow> TokenClaims \<Rightarrow> string \<Rightarrow> string \<Rightarrow> Service \<Rightarrow> nat \<times> Service" where
  "LockUser E actorClaims targetID ip v =
     (case GetUserByID targetID (sv_store v) of
        Inl _ \<Rightarrow> (404, v)
      | Inr target \<Rightarrow>
          if \<not> CanManageRole (User0\<lparr>u_Role := tc_Role actorClaims\<rparr>) (u_Role target) then (403, v)
          else let target = target\<lparr>u_Locked := True\<rparr>;
                   v = on_store (\<lambda>s. snd (UpdateUser (e_clk E 0) (e_err E 0) target s)) v;
                   v = on_store (\<lambda>s. snd (RevokeAllUserSessions (e_err E 1) (u_ID target) s)) v
               in (200, audit E 2 (AuthAuditEvent0\<lparr>ae_UserID := tc_UserID actorClaims, ae_Action := ''user_lock'', ae_Resource := u_ID target,
                    ae_IPAddress := ip, ae_Success := True\<rparr>) v))"

definition UnlockUser :: "auth_env \<Rightarrow> TokenClaims \<Rightarrow> string \<Rightarrow> string \<Rightarrow> Service \<Rightarrow> nat \<times> Service" where
  "UnlockUser E actorClaims targetID ip v =
     (case GetUserByID targetID (sv_store v) of
        Inl _ \<Rightarrow> (404, v)
      | Inr target \<Rightarrow>
          let target = target\<lparr>u_Locked := False, u_FailedAttempts := 0\<rparr>;
              v = on_store (\<lambda>s. snd (UpdateUser (e_clk E 0) (e_err E 0) target s)) v
          in (200, audit E 1 (AuthAuditEvent0\<lparr>ae_UserID := tc_UserID actorClaims, ae_Action := ''user_unlock'', ae_Resource := u_ID target,
               ae_IPAddress := ip, ae_Success := True\<rparr>) v))"

end
