(* ===== verification/AuthSafety.thy ===== *)
theory AuthSafety
  imports AuthService
begin

text \<open>
  What the authentication service guarantees over any sequence of its operations: every change of
  the store is a sequence of operations of the store that keeps its invariant, a revoked
  session is never accepted again, roles do not change and new users get a lower role than their
  creator, a login needs the credentials, and wrong passwords and logins per address are bounded.
\<close>

section \<open>Operations as steps\<close>

datatype auth_op =
    OpLogin LoginRequest string string
  | OpRefresh string string
  | OpLogout string string string
  | OpLogoutAll string string
  | OpRegister RegisterRequest string string
  | OpChangePassword string ChangePasswordRequest string
  | OpValidate string
  | OpBeginTOTP string
  | OpConfirmTOTP string string
  | OpDisableTOTPSetup string string string
  | OpLock TokenClaims string string
  | OpUnlock TokenClaims string string

fun auth_exec :: "auth_lib \<Rightarrow> auth_env \<Rightarrow> auth_op \<Rightarrow> Service \<Rightarrow> Service" where
  "auth_exec L E (OpLogin req ip ua) v = snd (Login L E req ip ua v)"
| "auth_exec L E (OpRefresh sid raw) v = snd (RefreshTokens L E sid raw v)"
| "auth_exec L E (OpLogout sid uid ip) v = snd (Logout E sid uid ip v)"
| "auth_exec L E (OpLogoutAll uid ip) v = snd (LogoutAll E uid ip v)"
| "auth_exec L E (OpRegister req actor ip) v = snd (Register L E req actor ip v)"
| "auth_exec L E (OpChangePassword uid req ip) v = snd (ChangePassword L E uid req ip v)"
| "auth_exec L E (OpValidate tok) v = snd (ValidateRequest L E tok v)"
| "auth_exec L E (OpBeginTOTP uid) v = snd (BeginTOTPSetup E uid v)"
| "auth_exec L E (OpConfirmTOTP uid code) v = snd (ConfirmTOTPSetup L E uid code v)"
| "auth_exec L E (OpDisableTOTPSetup uid actor ip) v = snd (DisableTOTPSetup E uid actor ip v)"
| "auth_exec L E (OpLock claims uid ip) v = snd (LockUser E claims uid ip v)"
| "auth_exec L E (OpUnlock claims uid ip) v = snd (UnlockUser E claims uid ip v)"

text \<open>The only hypothesis on a step: the 128 random bits of a new user's id are not the id of another.\<close>

fun fresh_id :: "auth_env \<Rightarrow> auth_op \<Rightarrow> Service \<Rightarrow> bool" where
  "fresh_id E (OpRegister req actor ip) v \<longleftrightarrow> map_of (st_users (sv_store v)) (newID (e_id E 1)) = None"
| "fresh_id E _ v \<longleftrightarrow> True"

inductive auth_run :: "auth_lib \<Rightarrow> Service \<Rightarrow> Service \<Rightarrow> bool" for L v0 where
  start: "auth_run L v0 v0"
| step: "auth_run L v0 v \<Longrightarrow> fresh_id E op' v \<Longrightarrow> auth_run L v0 (auth_exec L E op' v)"

section \<open>The operations of the store a service uses\<close>

text \<open>How the service calls the store: a user is created by one of a higher role, and \<open>UpdateUser\<close>
  keeps the role of the user.\<close>

fun call_ok :: "store_op \<Rightarrow> Store \<Rightarrow> bool" where
  "call_ok (OpCreateUser rnd u) s \<longleftrightarrow> map_of (st_users s) (newID rnd) = None
     \<and> (\<exists>actor. map_of (st_users s) (u_CreatedBy u) = Some actor \<and> Role_Level (u_Role u) < Role_Level (u_Role actor))"
| "call_ok (OpUpdateUser u) s \<longleftrightarrow> (\<exists>v. map_of (st_users s) (u_ID u) = Some v \<and> same_identity u v \<and> u_Role u = u_Role v)"
| "call_ok OpDevMode s \<longleftrightarrow> False"
| "call_ok _ s \<longleftrightarrow> True"

inductive calls :: "Store \<Rightarrow> Store \<Rightarrow> bool" for s0 where
  none: "calls s0 s0"
| call: "calls s0 s \<Longrightarrow> call_ok op' s \<Longrightarrow> calls s0 (store_exec now err op' s)"

lemma call_ok_op_ok: "call_ok op' s \<Longrightarrow> op_ok op' s"
  by (cases op') auto

lemma calls_reach: "calls s0 s \<Longrightarrow> store_reach s0 s"
  by (induction rule: calls.induct) (auto intro: store_reach.intros call_ok_op_ok)

lemma calls_trans: "calls s1 s2 \<Longrightarrow> calls s0 s1 \<Longrightarrow> calls s0 s2"
  by (induction rule: calls.induct) (auto intro: calls.intros)

lemma calls_ops:
  assumes "calls s0 s"
  shows "calls s0 (snd (UpdateTOTPSecret now e uid secret en s))"
    and "calls s0 (snd (UpdateBackupCodes errs uid codes s))"
    and "calls s0 (snd (DisableTOTP now errs uid s))"
    and "calls s0 (snd (UpdatePasswordHash now e uid h s))"
    and "calls s0 (snd (snd (CreateSession rnd now e ss s)))"
    and "calls s0 (snd (TouchSession now e sid s))"
    and "calls s0 (snd (RevokeSession e sid s))"
    and "calls s0 (snd (RevokeAllUserSessions e uid s))"
    and "calls s0 (WriteAuditEvent rnd now e ev s)"
    and "calls s0 (snd (RecordFailedLogin now e uid s))"
    and "calls s0 (snd (ResetFailedLogin now e uid s))"
    and "call_ok (OpUpdateUser u) s \<Longrightarrow> calls s0 (snd (UpdateUser now e u s))"
    and "call_ok (OpCreateUser rnd u) s \<Longrightarrow> calls s0 (snd (snd (CreateUser rnd now e u s)))"
  using calls.call [OF assms, of "OpUpdateTOTPSecret uid secret en" now "\<lambda>_. e"]
    calls.call [OF assms, of "OpUpdateBackupCodes uid codes" now errs] calls.call [OF assms, of "OpDisableTOTP uid" now errs]
    calls.call [OF assms, of "OpUpdatePasswordHash uid h" now "\<lambda>_. e"] calls.call [OF assms, of "OpCreateSession rnd ss" now "\<lambda>_. e"]
    calls.call [OF assms, of "OpTouchSession sid" now "\<lambda>_. e"] calls.call [OF assms, of "OpRevokeSession sid" now "\<lambda>_. e"]
    calls.call [OF assms, of "OpRevokeAll uid" now "\<lambda>_. e"] calls.call [OF assms, of "OpAudit rnd ev" now "\<lambda>_. e"]
    calls.call [OF assms, of "OpFailedLogin uid" now "\<lambda>_. e"] calls.call [OF assms, of "OpResetFailed uid" now "\<lambda>_. e"]
    calls.call [OF assms, of "OpUpdateUser u" now "\<lambda>_. e"] calls.call [OF assms, of "OpCreateUser rnd u" now "\<lambda>_. e"]
  by simp_all

lemma calls_eqs:
  assumes "calls s0 s"
  shows "UpdateTOTPSecret now e uid secret en s = (r, s') \<Longrightarrow> calls s0 s'"
    and "DisableTOTP now errs uid s = (r, s') \<Longrightarrow> calls s0 s'"
    and "UpdatePasswordHash now e uid h s = (r, s') \<Longrightarrow> calls s0 s'"
    and "CreateSession rnd now e ss s = (r, ss', s') \<Longrightarrow> calls s0 s'"
    and "RevokeSession e sid s = (r, s') \<Longrightarrow> calls s0 s'"
    and "RevokeAllUserSessions e uid s = (r, s') \<Longrightarrow> calls s0 s'"
    and "call_ok (OpCreateUser rnd u) s \<Longrightarrow> CreateUser rnd now e u s = (r, u', s') \<Longrightarrow> calls s0 s'"
  using calls_ops(1,3-5,7,8,13) [OF assms] by (metis snd_conv)+

text \<open>The limiter, the enrolments and the codes do not touch the store.\<close>

lemma checkLoginRate_store [simp]: "sv_store (snd (checkLoginRate now ip v)) = sv_store v"
  by (simp add: checkLoginRate_def Let_def split: option.split)

lemma verifyTOTP_store [simp]: "sv_store (snd (verifyTOTP t secret code v)) = sv_store v"
  by (simp add: verifyTOTP_def case_prod_unfold Let_def)

lemma on_store_store [simp]: "sv_store (on_store f v) = f (sv_store v)"
  by (simp add: on_store_def)

lemma audit_store [simp]: "sv_store (audit E n ev v) = WriteAuditEvent (e_id E n) (e_clk E n) (e_err E n) ev (sv_store v)"
  by (simp add: audit_def)

lemma WriteAuditEvent_fields [simp]:
  "st_users (WriteAuditEvent rnd now e ev s) = st_users s" "st_byName (WriteAuditEvent rnd now e ev s) = st_byName s"
  "st_byEmail (WriteAuditEvent rnd now e ev s) = st_byEmail s" "st_sessions (WriteAuditEvent rnd now e ev s) = st_sessions s"
  by (simp_all add: WriteAuditEvent_def split: option.split)

lemma GetUserByUsername_stored:
  assumes "store_ok s" "GetUserByUsername name s = Inr u"
  shows "map_of (st_users s) (u_ID u) = Some u" "u_Username u = name"
proof -
  obtain i where i: "map_of (st_byName s) name = Some i" "map_of (st_users s) i = Some u"
    using assms(2) unfolding GetUserByUsername_def by (cases "map_of (st_byName s) name"; simp split: option.splits)
  note ix = store_ok_indexed [OF assms(1)]
  show "map_of (st_users s) (u_ID u) = Some u" using indexedD(1) [OF ix i(2)] i(2) by simp
  show "u_Username u = name" by (rule indexedD(4) [OF ix i])
qed

lemma GetUserByID_stored:
  assumes "store_ok s" "GetUserByID i s = Inr u"
  shows "map_of (st_users s) i = Some u" "u_ID u = i"
proof -
  show i: "map_of (st_users s) i = Some u" using assms(2) unfolding GetUserByID_def by (cases "map_of (st_users s) i") simp_all
  show "u_ID u = i" by (rule indexedD(1) [OF store_ok_indexed [OF assms(1)] i])
qed

lemma CreateSession_users: "CreateSession rnd now e ss s = (r, ss', s') \<Longrightarrow> st_users s' = st_users s"
  by (auto simp: CreateSession_def Let_def split: prod.splits option.splits)

lemma ResetFailedLogin_users:
  "map_of (st_users s) uid = Some u \<Longrightarrow>
     map_of (st_users (snd (ResetFailedLogin now e uid s))) = (map_of (st_users s))(uid \<mapsto> u\<lparr>u_FailedAttempts := 0, u_UpdatedAt := now\<rparr>)"
  by (simp add: ResetFailedLogin_def Let_def case_prod_unfold update_conv')

text \<open>The cases of the second half of a login.\<close>

definition login_sess :: "auth_lib \<Rightarrow> auth_env \<Rightarrow> User \<Rightarrow> string \<Rightarrow> string \<Rightarrow> string \<Rightarrow> Session" where
  "login_sess L E user ip ua hashed =
     \<lparr>s_ID = [], s_UserID = u_ID user, s_RefreshToken = hashed, s_UserAgent = ua, s_IPAddress = ip,
      s_CreatedAt = 0, s_LastActivityAt = 0, s_ExpiresAt = time_Add (e_clk E 9) (jc_RefreshTokenTTL (al_cfg L)), s_Revoked = False\<rparr>"

lemma login_session_cases:
  assumes "login_session L E user ip ua v = (r, v')"
    and "s1 = snd (ResetFailedLogin (e_clk E 8) (e_err E 8) (u_ID user) (sv_store v))"
  obtains (refresh) e where "r = Inl e" "sv_store v' = s1"
  | (session) e e' h ss where "r = Inl e" "CreateSession (e_id E 10) (e_clk E 10) (e_err E 10) (login_sess L E user ip ua h) s1 = (e', ss, sv_store v')"
  | (ok) raw h ss s2 tok ex where "GenerateRefreshToken L (e_rnd E 1) (e_rnd E 2) = Inr (raw, h)"
      "CreateSession (e_id E 10) (e_clk E 10) (e_err E 10) (login_sess L E user ip ua h) s1 = (None, ss, s2)"
      "GenerateAccessToken L (e_clk E 11) user (s_ID ss) (fst (token_scope user)) (snd (token_scope user)) = Inr (tok, ex)"
      "r = Inr \<lparr>lresp_Tokens = \<lparr>tp_AccessToken = tok, tp_RefreshToken = raw, tp_TokenType = ''Bearer'',
         tp_ExpiresIn = go_div (jc_AccessTokenTTL (al_cfg L)) Second, tp_ExpiresAt = ex\<rparr>,
         lresp_User = UserToView (user\<lparr>u_LastLogin := e_clk E 12\<rparr>)\<rparr>"
      "\<exists>ev. sv_store v' = WriteAuditEvent (e_id E 14) (e_clk E 14) (e_err E 14) ev
         (snd (UpdateUser (e_clk E 13) (e_err E 13) (user\<lparr>u_LastLogin := e_clk E 12\<rparr>) s2))"
proof (cases "GenerateRefreshToken L (e_rnd E 1) (e_rnd E 2)")
  case (Inl e)
  then show thesis using assms refresh by (auto simp: login_session_def Let_def)
next
  case (Inr rh)
  obtain raw h where rh: "rh = (raw, h)" by fastforce
  obtain e ss s2 where cs: "CreateSession (e_id E 10) (e_clk E 10) (e_err E 10) (login_sess L E user ip ua h) s1 = (e, ss, s2)"
    using prod_cases3 by blast
  note step = assms(1) [unfolded login_session_def Let_def on_store_store assms(2) [symmetric] Inr rh sum.case prod.case
      login_sess_def [symmetric] cs]
  show thesis
  proof (cases e)
    case (Some x)
    then have "r = Inl (''create session: '' @ x)" "sv_store v' = s2" using step by auto
    then show thesis using session cs by blast
  next
    case None
    obtain tfa scope where ts: "token_scope user = (tfa, scope)" by fastforce
    show thesis
    proof (cases "GenerateAccessToken L (e_clk E 11) user (s_ID ss) tfa scope")
      case (Inl x)
      then have "r = Inl (''generate access token: '' @ x)" "sv_store v' = s2" using step None ts by auto
      then show thesis using session cs by blast
    next
      case at: (Inr te)
      obtain tok ex where te: "te = (tok, ex)" by fastforce
      show thesis
        by (rule ok [OF Inr [unfolded rh] cs [unfolded None] _]) (use step at None ts te in \<open>auto simp: auditLogin_def\<close>)
    qed
  qed
qed

lemma login_session_calls:
  assumes "map_of (st_users (sv_store v)) (u_ID user) = Some user"
  shows "calls (sv_store v) (sv_store (snd (login_session L E user ip ua v)))"
proof -
  define s1 where "s1 = snd (ResetFailedLogin (e_clk E 8) (e_err E 8) (u_ID user) (sv_store v))"
  have c1: "calls (sv_store v) s1" unfolding s1_def by (rule calls_ops(11)) (rule calls.none)
  have u1: "map_of (st_users s1) (u_ID user) = Some (user\<lparr>u_FailedAttempts := 0, u_UpdatedAt := e_clk E 8\<rparr>)"
    using ResetFailedLogin_users [OF assms] by (simp add: s1_def)
  have upd: "calls (sv_store v) (snd (UpdateUser now e (user\<lparr>u_LastLogin := t\<rparr>) s2))"
    if "CreateSession rnd now' e' ss s1 = (r, ss', s2)" for rnd now' e' ss r ss' s2 now e t
    by (rule calls_ops(12) [OF calls_eqs(4) [OF c1 that]])
      (simp add: CreateSession_users [OF that] u1 same_identity_def del: map_of_eq_Some_iff)
  obtain r v' where l: "login_session L E user ip ua v = (r, v')" by fastforce
  from l s1_def have "calls (sv_store v) (sv_store v')"
  proof (cases rule: login_session_cases)
    case refresh
    then show ?thesis using c1 by simp
  next
    case session
    then show ?thesis using calls_eqs(4) [OF c1] by blast
  next
    case (ok raw h ss s2 tok ex)
    from ok(5) obtain ev where "sv_store v' = WriteAuditEvent (e_id E 14) (e_clk E 14) (e_err E 14) ev
         (snd (UpdateUser (e_clk E 13) (e_err E 13) (user\<lparr>u_LastLogin := e_clk E 12\<rparr>) s2))" ..
    then show ?thesis using calls_ops(9) [OF upd [OF ok(2)]] by simp
  qed
  then show ?thesis by (simp add: l)
qed

definition audited :: "Store \<Rightarrow> Store \<Rightarrow> bool" where
  "audited s s' \<longleftrightarrow> s' = s \<or> (\<exists>rnd now e ev. s' = WriteAuditEvent rnd now e ev s)"

lemma audited_auditLogin: "sv_store v = s \<Longrightarrow> audited s (sv_store (auditLogin E n uid name ip ua ok reason v))"
  by (auto simp: audited_def auditLogin_def)

lemma audited_fields:
  "audited s s' \<Longrightarrow> st_users s' = st_users s \<and> st_byName s' = st_byName s \<and> st_sessions s' = st_sessions s"
  by (auto simp: audited_def)

text \<open>The cases of a login.\<close>

lemma Login_cases:
  assumes "Login L E req ip ua v = (r, v')"
  obtains (limited) e where "fst (checkLoginRate (e_clk E 0) ip v) = Some e" "r = Inl e" "sv_store v' = sv_store v"
  | (rejected) e where "r = Inl e" "audited (sv_store v) (sv_store v')"
      "\<And>user. GetUserByUsername (lr_Username req) (sv_store v) = Inr user \<Longrightarrow>
         \<not> u_Active user \<or> u_Locked user \<or> VerifyPassword (al_argon2 L) (lr_Password req) (u_PasswordHash user) = Inr True"
  | (wrong) user ev where "fst (checkLoginRate (e_clk E 0) ip v) = None" "GetUserByUsername (lr_Username req) (sv_store v) = Inr user"
      "u_Active user" "\<not> u_Locked user" "VerifyPassword (al_argon2 L) (lr_Password req) (u_PasswordHash user) \<noteq> Inr True"
      "r = Inl ErrInvalidCredentials"
      "sv_store v' = WriteAuditEvent (e_id E 5) (e_clk E 5) (e_err E 5) ev
         (snd (RecordFailedLogin (e_clk E 4) (e_err E 4) (u_ID user) (sv_store v)))"
  | (session) user v1 where "fst (checkLoginRate (e_clk E 0) ip v) = None" "GetUserByUsername (lr_Username req) (sv_store v) = Inr user"
      "u_Active user" "\<not> u_Locked user" "VerifyPassword (al_argon2 L) (lr_Password req) (u_PasswordHash user) = Inr True"
      "u_TOTPEnabled user \<Longrightarrow> fst (VerifyTOTPCode (e_clk E 6) (u_TOTPSecret user) (lr_TOTPCode req) (sv_totpCache v))"
      "sv_store v1 = sv_store v" "login_session L E user ip ua v1 = (r, v')"
proof -
  obtain err w where w: "checkLoginRate (e_clk E 0) ip v = (err, w)" by fastforce
  then have sw: "sv_store w = sv_store v" and cw: "sv_totpCache w = sv_totpCache v"
    using checkLoginRate_store [of "e_clk E 0" ip v] by (auto simp: checkLoginRate_def Let_def split: option.splits if_splits)
  note step = assms [unfolded Login_def Let_def w prod.case]
  show thesis
  proof (cases err)
    case (Some e)
    then show thesis using step limited [of e] w sw by simp
  next
    case None
    note step = step [unfolded None option.case]
    show thesis
    proof (cases "GetUserByUsername (lr_Username req) (sv_store w)")
      case (Inl e)
      then show thesis using step sw Inl audited_auditLogin [OF sw] by (intro rejected [of ErrInvalidCredentials]) auto
    next
      case (Inr user)
      note step = step [unfolded Inr sum.case]
      let ?ok = "VerifyPassword (al_argon2 L) (lr_Password req) (u_PasswordHash user) = Inr True"
      obtain ok w' where vt: "verifyTOTP (e_clk E 6) (u_TOTPSecret user) (lr_TOTPCode req) w = (ok, w')" by fastforce
      then have sw': "sv_store w' = sv_store v" and okv: "ok = fst (VerifyTOTPCode (e_clk E 6) (u_TOTPSecret user) (lr_TOTPCode req) (sv_totpCache v))"
        using verifyTOTP_store [of "e_clk E 6" "u_TOTPSecret user" "lr_TOTPCode req" w] sw cw by (auto simp: verifyTOTP_def Let_def case_prod_unfold)
      note step = step [unfolded vt prod.case]
      consider "\<not> u_Active user" | "u_Active user" "u_Locked user" | "u_Active user" "\<not> u_Locked user" "\<not> ?ok"
        | "u_Active user" "\<not> u_Locked user" ?ok "\<not> u_TOTPEnabled user"
        | "u_Active user" "\<not> u_Locked user" ?ok "u_TOTPEnabled user" "lr_TOTPCode req = [] \<or> \<not> ok"
        | "u_Active user" "\<not> u_Locked user" ?ok "u_TOTPEnabled user" "lr_TOTPCode req \<noteq> []" ok by blast
      then show thesis
      proof cases
        case 1
        then show thesis using step sw Inr audited_auditLogin [OF sw] by (intro rejected [of ErrInvalidCredentials]) auto
      next
        case 2
        then show thesis using step sw Inr audited_auditLogin [OF sw] by (intro rejected [of ErrAccountLocked]) auto
      next
        case 3
        then show thesis using step w None Inr sw by (intro wrong [of user]) (auto simp: auditLogin_def)
      next
        case 4
        then show thesis using step w None Inr sw by (intro session [of user w]) simp_all
      next
        case 5
        then show thesis using step sw Inr rejected [of ErrTOTPRequired] rejected [of ErrInvalidCredentials] audited_auditLogin [OF sw']
          by (cases "lr_TOTPCode req = []") (auto simp: audited_def)
      next
        case 6
        then show thesis using step w None Inr sw sw' okv by (intro session [of user w']) simp_all
      qed
    qed
  qed
qed

lemma Login_calls:
  assumes "store_ok (sv_store v)"
  shows "calls (sv_store v) (sv_store (snd (Login L E req ip ua v)))"
proof -
  obtain r v' where l: "Login L E req ip ua v = (r, v')" by fastforce
  from l have "calls (sv_store v) (sv_store v')"
  proof (cases rule: Login_cases)
    case limited
    then show ?thesis by (simp add: calls.none)
  next
    case (rejected e)
    then show ?thesis using calls_ops(9) [OF calls.none] calls.none by (auto simp: audited_def)
  next
    case (wrong user ev)
    then show ?thesis using calls_ops(9) [OF calls_ops(10) [OF calls.none]] by simp
  next
    case (session user v1)
    have "map_of (st_users (sv_store v1)) (u_ID user) = Some user"
      using GetUserByUsername_stored(1) [OF assms session(2)] by (simp only: session(7))
    then show ?thesis using login_session_calls [of v1 user L E ip ua] session(7,8) by simp
  qed
  then show ?thesis by (simp add: l)
qed

lemma RefreshTokens_calls: "calls (sv_store v) (sv_store (snd (RefreshTokens L E sid raw v)))"
  unfolding RefreshTokens_def Let_def
  by (auto simp: calls.none calls_ops(8) [OF calls.none] split: sum.split prod.split option.split
      intro: calls_eqs(5) [OF calls.none] calls_eqs(4) [OF calls_eqs(5) [OF calls.none]])

lemma Logout_calls: "calls (sv_store v) (sv_store (snd (Logout E sid uid ip v)))"
  unfolding Logout_def Let_def
  by (auto split: prod.split option.split intro: calls_eqs(5) [OF calls.none] calls_ops(9) [OF calls_eqs(5) [OF calls.none]])

lemma LogoutAll_calls: "calls (sv_store v) (sv_store (snd (LogoutAll E uid ip v)))"
  unfolding LogoutAll_def Let_def by (auto split: prod.split intro: calls_ops(9) [OF calls_eqs(6) [OF calls.none]])

lemma Register_calls:
  assumes "store_ok (sv_store v)" "map_of (st_users (sv_store v)) (newID (e_id E 1)) = None"
  shows "calls (sv_store v) (sv_store (snd (Register L E req actor ip v)))"
proof -
  have create: "calls (sv_store v) s'"
    if "CreateUser (e_id E (Suc 0)) now e u (sv_store v) = (r, u', s')"
      "GetUserByID actor (sv_store v) = Inr a" "CanManageRole a (rr_Role req)" "u_CreatedBy u = actor" "u_Role u = rr_Role req"
    for a u now e r u' s'
    by (rule calls_eqs(7) [OF calls.none _ that(1)])
      (use GetUserByID_stored(1) [OF assms(1) that(2)] assms(2) [unfolded One_nat_def] that(3-5) in
        \<open>simp add: CanManageRole_def del: map_of_eq_Some_iff\<close>)
  show ?thesis
    unfolding Register_def Let_def
    by (auto simp: calls.none split: sum.split prod.split option.split intro!: calls_ops(9))
      (erule create, assumption, assumption, simp, simp)+
qed

lemma ChangePassword_calls: "calls (sv_store v) (sv_store (snd (ChangePassword L E uid req ip v)))"
  unfolding ChangePassword_def Let_def
  by (auto simp: calls.none split: sum.split prod.split option.split
      intro: calls_eqs(3) [OF calls.none] calls_ops(9) [OF calls_ops(8) [OF calls_eqs(3) [OF calls.none]]])

lemma ValidateRequest_calls: "calls (sv_store v) (sv_store (snd (ValidateRequest L E tok v)))"
  unfolding ValidateRequest_def by (auto simp: calls.none calls_ops(6) [OF calls.none] split: sum.split)

lemma BeginTOTPSetup_calls: "calls (sv_store v) (sv_store (snd (BeginTOTPSetup E uid v)))"
  unfolding BeginTOTPSetup_def by (auto simp: calls.none split: sum.split)

lemma ConfirmTOTPSetup_calls: "calls (sv_store v) (sv_store (snd (ConfirmTOTPSetup L E uid code v)))"
proof -
  have vt: "sv_store w = sv_store v" if "verifyTOTP t secret code v = (ok, w)" for t secret ok w
    using verifyTOTP_store [of t secret code v] that by simp
  show ?thesis
    unfolding ConfirmTOTPSetup_def Let_def
    by (auto simp: calls.none vt split: sum.split prod.split option.split
        intro: calls_eqs(1) [OF calls.none] calls_ops(2) [OF calls_eqs(1) [OF calls.none]])
qed

lemma DisableTOTPSetup_calls: "calls (sv_store v) (sv_store (snd (DisableTOTPSetup E uid actor ip v)))"
  unfolding DisableTOTPSetup_def Let_def
  by (auto simp: calls.none split: sum.split prod.split option.split
      intro: calls_eqs(2) [OF calls.none] calls_ops(9) [OF calls_ops(8) [OF calls_eqs(2) [OF calls.none]]])

lemma LockUser_calls:
  assumes "store_ok (sv_store v)"
  shows "calls (sv_store v) (sv_store (snd (LockUser E claims uid ip v)))"
    and "calls (sv_store v) (sv_store (snd (UnlockUser E claims uid ip v)))"
proof -
  have upd: "calls (sv_store v) (snd (UpdateUser now e u' (sv_store v)))"
    if "GetUserByID uid (sv_store v) = Inr u" "same_identity u' u" "u_Role u' = u_Role u" for now e u u'
    by (rule calls_ops(12) [OF calls.none])
      (use GetUserByID_stored [OF assms that(1)] that(2,3) in \<open>simp add: same_identity_def del: map_of_eq_Some_iff\<close>)
  show "calls (sv_store v) (sv_store (snd (LockUser E claims uid ip v)))"
    unfolding LockUser_def Let_def
    by (auto simp: calls.none same_identity_def split: sum.split intro!: calls_ops(9) calls_ops(8) upd)
  show "calls (sv_store v) (sv_store (snd (UnlockUser E claims uid ip v)))"
    unfolding UnlockUser_def Let_def
    by (auto simp: calls.none same_identity_def split: sum.split intro!: calls_ops(9) upd)
qed

lemma auth_exec_calls:
  assumes "store_ok (sv_store v)" "fresh_id E op' v"
  shows "calls (sv_store v) (sv_store (auth_exec L E op' v))"
  using assms by (cases op')
    (simp_all add: Login_calls RefreshTokens_calls Logout_calls LogoutAll_calls Register_calls ChangePassword_calls
      ValidateRequest_calls BeginTOTPSetup_calls ConfirmTOTPSetup_calls DisableTOTPSetup_calls LockUser_calls)

lemma auth_run_calls:
  assumes "auth_run L v0 v" "store_ok (sv_store v0)"
  shows "store_ok (sv_store v) \<and> calls (sv_store v0) (sv_store v)"
  using assms
proof (induction rule: auth_run.induct)
  case start
  then show ?case by (simp add: calls.none)
next
  case (step v E op')
  then have ok: "store_ok (sv_store v)" and c0: "calls (sv_store v0) (sv_store v)" by blast+
  have c: "calls (sv_store v) (sv_store (auth_exec L E op' v))" by (rule auth_exec_calls [OF ok step.hyps(2)])
  show ?case using store_reach_ok [OF calls_reach [OF c] ok] calls_trans [OF c c0] by blast
qed

section \<open>Sessions that were ended\<close>

text \<open>Every cached session has a row, so the primary key of the table keeps a new session from taking
  the id of an old one.\<close>

definition sessions_stored :: "Store \<Rightarrow> bool" where
  "sessions_stored s \<longleftrightarrow> (\<forall>sid. map_of (st_sessions s) sid \<noteq> None \<longrightarrow> sid \<in> fst ` set (db_sessions (st_db s)))"

definition revoked :: "string \<Rightarrow> Store \<Rightarrow> bool" where
  "revoked sid s \<longleftrightarrow> (\<exists>ss. map_of (st_sessions s) sid = Some ss \<and> s_Revoked ss)"

lemma user_ops_sessions:
  shows "st_sessions (snd (UpdateUser now e u s)) = st_sessions s" "db_sessions (st_db (snd (UpdateUser now e u s))) = db_sessions (st_db s)"
    and "st_sessions (snd (UpdateTOTPSecret now e uid secret en s)) = st_sessions s"
      "db_sessions (st_db (snd (UpdateTOTPSecret now e uid secret en s))) = db_sessions (st_db s)"
    and "st_sessions (snd (UpdatePasswordHash now e uid h s)) = st_sessions s"
      "db_sessions (st_db (snd (UpdatePasswordHash now e uid h s))) = db_sessions (st_db s)"
    and "st_sessions (snd (EnableTOTPWithBackupCodes now errs uid secret codes s)) = st_sessions s"
      "db_sessions (st_db (snd (EnableTOTPWithBackupCodes now errs uid secret codes s))) = db_sessions (st_db s)"
    and "st_sessions (snd (DisableTOTP now errs uid s)) = st_sessions s"
      "db_sessions (st_db (snd (DisableTOTP now errs uid s))) = db_sessions (st_db s)"
    and "st_sessions (snd (RecordFailedLogin now e uid s)) = st_sessions s"
      "db_sessions (st_db (snd (RecordFailedLogin now e uid s))) = db_sessions (st_db s)"
    and "st_sessions (snd (ResetFailedLogin now e uid s)) = st_sessions s"
      "db_sessions (st_db (snd (ResetFailedLogin now e uid s))) = db_sessions (st_db s)"
    and "st_sessions (snd (UpdateBackupCodes errs uid codes s)) = st_sessions s"
      "db_sessions (st_db (snd (UpdateBackupCodes errs uid codes s))) = db_sessions (st_db s)"
    and "st_sessions (snd (snd (CreateUser rnd now e u s))) = st_sessions s"
      "db_sessions (st_db (snd (snd (CreateUser rnd now e u s)))) = db_sessions (st_db s)"
    and "db_sessions (st_db (WriteAuditEvent rnd now e ev s)) = db_sessions (st_db s)"
  by (simp_all add: user_op_defs UpdateBackupCodes_def replace_codes_def CreateUser_def sql_insert_user_def WriteAuditEvent_def split: option.split)

lemma image_keys: "fst ` set xs = set (map fst xs)"
  by simp

lemma session_ops_stored:
  assumes "sessions_stored s"
  shows "sessions_stored (snd (snd (CreateSession rnd now e ss s)))"
    and "sessions_stored (snd (TouchSession now e sid s))"
    and "sessions_stored (snd (RevokeSession e sid s))"
    and "sessions_stored (snd (RevokeAllUserSessions e uid s))"
  using assms unfolding sessions_stored_def image_keys session_op_defs
  by (auto simp: update_conv' map_of_map_if keys_sql_update split: option.splits simp del: set_map map_of_eq_None_iff)

lemma session_ops_revoked:
  assumes "sessions_stored s" "revoked sid s"
  shows "revoked sid (snd (snd (CreateSession rnd now e ss s)))"
    and "revoked sid (snd (TouchSession now e sid' s))"
    and "revoked sid (snd (RevokeSession e sid' s))"
    and "revoked sid (snd (RevokeAllUserSessions e uid s))"
  using assms unfolding sessions_stored_def revoked_def session_op_defs
  by (auto simp: update_conv' map_of_map_if list_ex_iff split: option.splits) force+

lemma store_exec_revoked:
  assumes "sessions_stored s" "call_ok op' s"
  shows "sessions_stored (store_exec now err op' s)" "revoked sid s \<Longrightarrow> revoked sid (store_exec now err op' s)"
  using assms session_ops_stored [OF assms(1)] session_ops_revoked [OF assms(1)]
  by (cases op'; simp add: sessions_stored_def revoked_def user_ops_sessions)+

lemma calls_revoked:
  "calls s0 s \<Longrightarrow> sessions_stored s0 \<Longrightarrow> sessions_stored s \<and> (revoked sid s0 \<longrightarrow> revoked sid s)"
  by (induction rule: calls.induct) (auto intro: store_exec_revoked)

lemma revoked_rejected:
  assumes "revoked sid (sv_store v)"
  shows "VerifyAccessToken L (e_clk E 0) tok = Inr claims \<Longrightarrow> tc_SessionID claims = sid \<Longrightarrow> fst (ValidateRequest L E tok v) = Inl ErrSessionRevoked"
    and "fst (RefreshTokens L E sid raw v) = Inl ErrSessionRevoked"
proof -
  have "GetSession clk sid (sv_store v) = Inl ErrSessionRevoked" for clk
    using assms unfolding revoked_def GetSession_def by fastforce
  then show "VerifyAccessToken L (e_clk E 0) tok = Inr claims \<Longrightarrow> tc_SessionID claims = sid \<Longrightarrow>
      fst (ValidateRequest L E tok v) = Inl ErrSessionRevoked"
    and "fst (RefreshTokens L E sid raw v) = Inl ErrSessionRevoked"
    by (simp_all add: ValidateRequest_def RefreshTokens_def)
qed

text \<open>The operations that end a session.\<close>

fun ends_session :: "auth_lib \<Rightarrow> auth_env \<Rightarrow> auth_op \<Rightarrow> Service \<Rightarrow> Session \<Rightarrow> bool" where
  "ends_session L E (OpLogout sid uid ip) v ss \<longleftrightarrow> sid = s_ID ss"
| "ends_session L E (OpLogoutAll uid ip) v ss \<longleftrightarrow> uid = s_UserID ss"
| "ends_session L E (OpRefresh sid raw) v ss \<longleftrightarrow> sid = s_ID ss \<and> \<not> isl (fst (RefreshTokens L E sid raw v))"
| "ends_session L E (OpChangePassword uid req ip) v ss \<longleftrightarrow> uid = s_UserID ss \<and> fst (ChangePassword L E uid req ip v) = None"
| "ends_session L E (OpDisableTOTPSetup uid actor ip) v ss \<longleftrightarrow> uid = s_UserID ss \<and> fst (DisableTOTPSetup E uid actor ip v) = None"
| "ends_session L E (OpLock claims uid ip) v ss \<longleftrightarrow> uid = s_UserID ss \<and> fst (LockUser E claims uid ip v) = 200"
| "ends_session L E _ v ss \<longleftrightarrow> False"

lemma revoke_revokes:
  assumes "map_of (st_sessions s) sid = Some ss"
  shows "revoked sid (snd (RevokeSession e sid s))" "RevokeSession e sid s = (r, s') \<Longrightarrow> revoked sid s'"
    and "revoked sid (snd (RevokeAllUserSessions e (s_UserID ss) s))" "RevokeAllUserSessions e (s_UserID ss) s = (r, s') \<Longrightarrow> revoked sid s'"
proof -
  show 1: "revoked sid (snd (RevokeSession e sid s))" "revoked sid (snd (RevokeAllUserSessions e (s_UserID ss) s))" for e
    using assms by (auto simp: revoked_def session_op_defs map_of_map_if split: option.split)
  show "RevokeSession e sid s = (r, s') \<Longrightarrow> revoked sid s'" "RevokeAllUserSessions e (s_UserID ss) s = (r, s') \<Longrightarrow> revoked sid s'"
    using 1 [of e] by auto
qed

lemma revoked_audit [simp]: "revoked sid (WriteAuditEvent rnd now e ev s) = revoked sid s"
  by (simp add: revoked_def)

lemma ends_session_revokes:
  assumes "store_ok (sv_store v)" "sessions_stored (sv_store v)" "map_of (st_sessions (sv_store v)) sid = Some ss" "ends_session L E op' v ss"
  shows "revoked sid (sv_store (auth_exec L E op' v))"
proof -
  have sid: "s_ID ss = sid" by (rule store_okD(2) [OF assms(1,3)])
  note rev = revoke_revokes [OF assms(3)]
  show ?thesis
  proof (cases op')
    case (OpLogout sid' uid ip)
    then show ?thesis using assms(4) sid rev(2) by (auto simp: Logout_def Let_def split: prod.split option.split)
  next
    case (OpLogoutAll uid ip)
    then show ?thesis using assms(4) rev(4) by (auto simp: LogoutAll_def Let_def split: prod.split)
  next
    case (OpRefresh sid' raw)
    have "revoked sid s2" if "RevokeSession e1 sid (sv_store v) = (r1, s1)" "CreateSession rnd now e2 ss2 s1 = (r2, ss3, s2)"
      for e1 r1 s1 rnd now e2 ss2 r2 ss3 s2
    proof -
      have "sessions_stored s1" using calls_revoked [OF calls_eqs(5) [OF calls.none that(1)] assms(2)] by blast
      then show ?thesis using session_ops_revoked(1) [of s1 sid rnd now e2 ss2] rev(2) [OF that(1)] that(2) by simp
    qed
    then show ?thesis using OpRefresh assms(4) sid
      by (auto simp: RefreshTokens_def Let_def split: sum.splits option.splits prod.splits if_splits)
  next
    case (OpChangePassword uid req ip)
    have "map_of (st_sessions s') sid = Some ss" if "UpdatePasswordHash now e uid' h (sv_store v) = (r, s')" for now e uid' h r s'
      using user_ops_sessions(5) [of now e uid' h "sv_store v"] that assms(3) by simp
    then show ?thesis using OpChangePassword assms(4) revoke_revokes(3)
      by (auto simp: ChangePassword_def Let_def split: sum.splits option.splits prod.splits if_splits)
  next
    case (OpDisableTOTPSetup uid actor ip)
    have "map_of (st_sessions s') sid = Some ss" if "DisableTOTP now errs uid' (sv_store v) = (r, s')" for now errs uid' r s'
      using user_ops_sessions(9) [of now errs uid' "sv_store v"] that assms(3) by simp
    then show ?thesis using OpDisableTOTPSetup assms(4) revoke_revokes(3)
      by (auto simp: DisableTOTPSetup_def Let_def split: sum.splits option.splits prod.splits)
  next
    case (OpLock claims uid ip)
    have "map_of (st_sessions (snd (UpdateUser now e u (sv_store v)))) sid = Some ss" for now e u
      using user_ops_sessions(1) [of now e u "sv_store v"] assms(3) by simp
    then show ?thesis using OpLock assms(4) revoke_revokes(3) GetUserByID_stored(2) [OF assms(1)]
      by (auto simp: LockUser_def Let_def split: sum.splits if_splits)
  qed (use assms(4) in simp_all)
qed

lemma NewStore_sessions: "NewStore A pwd salt rnd now err timeout db = Inr s \<Longrightarrow> st_sessions s = []"
  by (auto simp: NewStore_def loadCache_def ensureDefaultAdmin_def CreateUser_def Let_def split: option.splits sum.splits prod.splits if_splits)

lemma run_from_start:
  assumes "NewStore A pwd salt rnd now err timeout db = Inr s0" "table_ok (db_users db)" "map_of (db_users db) (newID rnd) = None"
    and "auth_run L (NewService s0 cache) v"
  shows "store_ok (sv_store v)" "sessions_stored (sv_store v)"
proof -
  have "store_ok s0" by (rule NewStore_ok [OF assms(1-3)])
  moreover have "sessions_stored s0" using NewStore_sessions [OF assms(1)] by (simp add: sessions_stored_def)
  ultimately show "store_ok (sv_store v)" "sessions_stored (sv_store v)"
    using auth_run_calls [OF assms(4)] calls_revoked [of s0 "sv_store v"] by (auto simp: NewService_def)
qed

text \<open>C1. The end of a session is final.  After a logout, a refresh that returned new tokens, a change of
  the password, the removal of the second factor or the locking of the user, whatever
  errors the database reported, the session is rejected in every later state of the service:
  a request with any valid token that names it, and a refresh with any refresh token.\<close>

theorem session_end_is_final:
  assumes "NewStore A pwd salt rnd now err timeout db = Inr s0" "table_ok (db_users db)" "map_of (db_users db) (newID rnd) = None"
    and "auth_run L (NewService s0 cache) v" "map_of (st_sessions (sv_store v)) sid = Some ss" "ends_session L E op' v ss" "fresh_id E op' v"
    and "auth_run L (auth_exec L E op' v) v'"
  shows "(\<forall>E' tok claims. VerifyAccessToken L (e_clk E' 0) tok = Inr claims \<and> tc_SessionID claims = sid
            \<longrightarrow> fst (ValidateRequest L E' tok v') = Inl ErrSessionRevoked)
    \<and> (\<forall>E' raw. fst (RefreshTokens L E' sid raw v') = Inl ErrSessionRevoked)"
proof -
  note inv = run_from_start [OF assms(1-4)]
  have "revoked sid (sv_store (auth_exec L E op' v))" by (rule ends_session_revokes [OF inv assms(5,6)])
  moreover have "store_ok (sv_store (auth_exec L E op' v))" "sessions_stored (sv_store (auth_exec L E op' v))"
    using run_from_start [OF assms(1-3) auth_run.step [OF assms(4,7)]] .
  ultimately have "revoked sid (sv_store v')"
    using auth_run_calls [OF assms(8)] calls_revoked by blast
  then show ?thesis using revoked_rejected by blast
qed

section \<open>Roles\<close>

text \<open>A user keeps the role and the creator, and a new one has a lower role than the creator.\<close>

definition keeps_roles :: "Store \<Rightarrow> Store \<Rightarrow> bool" where
  "keeps_roles s s' \<longleftrightarrow>
     (\<forall>i u. map_of (st_users s) i = Some u \<longrightarrow> (\<exists>u'. map_of (st_users s') i = Some u' \<and> u_Role u' = u_Role u \<and> u_CreatedBy u' = u_CreatedBy u))
     \<and> (\<forall>i u'. map_of (st_users s') i = Some u' \<and> map_of (st_users s) i = None \<longrightarrow>
          (\<exists>c. map_of (st_users s') (u_CreatedBy u') = Some c \<and> Role_Level (u_Role u') < Role_Level (u_Role c)))"

lemma keeps_rolesI:
  assumes "\<And>i. map_of (st_users s') i = map_option (g i) (map_of (st_users s) i)"
    and "\<And>i u. map_of (st_users s) i = Some u \<Longrightarrow> u_Role (g i u) = u_Role u \<and> u_CreatedBy (g i u) = u_CreatedBy u"
  shows "keeps_roles s s'"
  using assms unfolding keeps_roles_def by auto

lemma keeps_roles_refl [simp]: "st_users s' = st_users s \<Longrightarrow> keeps_roles s s'"
  by (auto simp: keeps_roles_def)

lemma keeps_roles_trans:
  assumes "keeps_roles s0 s1" "keeps_roles s1 s2"
  shows "keeps_roles s0 s2"
  unfolding keeps_roles_def
proof (intro conjI allI impI)
  fix i u assume "map_of (st_users s0) i = Some u"
  then show "\<exists>u'. map_of (st_users s2) i = Some u' \<and> u_Role u' = u_Role u \<and> u_CreatedBy u' = u_CreatedBy u"
    using assms unfolding keeps_roles_def by (metis (no_types))
next
  fix i u assume a: "map_of (st_users s2) i = Some u \<and> map_of (st_users s0) i = None"
  show "\<exists>c. map_of (st_users s2) (u_CreatedBy u) = Some c \<and> Role_Level (u_Role u) < Role_Level (u_Role c)"
  proof (cases "map_of (st_users s1) i")
    case None
    then show ?thesis using assms(2) a unfolding keeps_roles_def by blast
  next
    case (Some w)
    then obtain c where c: "map_of (st_users s1) (u_CreatedBy w) = Some c" "Role_Level (u_Role w) < Role_Level (u_Role c)"
      using assms(1) a unfolding keeps_roles_def by blast
    have "u_Role u = u_Role w \<and> u_CreatedBy u = u_CreatedBy w"
      using assms(2) Some a unfolding keeps_roles_def by (metis option.inject)
    moreover obtain c' where "map_of (st_users s2) (u_CreatedBy w) = Some c'" "u_Role c' = u_Role c"
      using assms(2) c(1) unfolding keeps_roles_def by blast
    ultimately show ?thesis using c(2) by simp
  qed
qed

lemma keeps_roles_update_key:
  assumes "\<And>u. u_Role (f u) = u_Role u \<and> u_CreatedBy (f u) = u_CreatedBy u" "st_users s' = update_key k f (st_users s)"
  shows "keeps_roles s s'"
  by (rule keeps_rolesI [where g = "\<lambda>i. if i = k then f else id"]) (use assms in \<open>simp_all add: option.map_id\<close>)

lemma keeps_roles_update:
  assumes "map_of (st_users s) k = Some v" "u_Role u = u_Role v" "u_CreatedBy u = u_CreatedBy v"
    and "st_users s' = AList.update k u (st_users s)"
  shows "keeps_roles s s'"
  by (rule keeps_rolesI [where g = "\<lambda>i. if i = k then (\<lambda>_. u) else id"])
    (use assms in \<open>auto simp: update_conv' option.map_id simp del: map_of_eq_Some_iff\<close>)

lemma CreateUser_roles:
  assumes "call_ok (OpCreateUser rnd u) s"
  shows "keeps_roles s (snd (snd (CreateUser rnd now e u s)))"
proof -
  let ?u = "u\<lparr>u_ID := newID rnd, u_CreatedAt := now, u_UpdatedAt := now\<rparr>" and ?s = "snd (snd (CreateUser rnd now e u s))"
  have "st_users ?s = st_users s \<or> st_users ?s = AList.update (newID rnd) ?u (st_users s)"
    by (auto simp: CreateUser_def Let_def split: prod.split option.split)
  then show ?thesis
  proof
    assume s': "st_users ?s = AList.update (newID rnd) ?u (st_users s)"
    from assms obtain c where c: "map_of (st_users s) (newID rnd) = None" "map_of (st_users s) (u_CreatedBy u) = Some c"
        "Role_Level (u_Role u) < Role_Level (u_Role c)" by auto
    have m: "map_of (st_users ?s) = (map_of (st_users s))(newID rnd \<mapsto> ?u)" by (simp add: s' update_conv')
    have n: "u_CreatedBy u \<noteq> newID rnd" using c(1,2) by force
    show ?thesis
      unfolding keeps_roles_def m
    proof (intro conjI allI impI)
      fix i w assume "map_of (st_users s) i = Some w"
      moreover from this have "i \<noteq> newID rnd" using c(1) by force
      ultimately show "\<exists>u'. ((map_of (st_users s))(newID rnd \<mapsto> ?u)) i = Some u' \<and> u_Role u' = u_Role w \<and> u_CreatedBy u' = u_CreatedBy w" by simp
    next
      fix i w assume "((map_of (st_users s))(newID rnd \<mapsto> ?u)) i = Some w \<and> map_of (st_users s) i = None"
      then have "w = ?u" by (auto split: if_splits)
      then show "\<exists>c. ((map_of (st_users s))(newID rnd \<mapsto> ?u)) (u_CreatedBy w) = Some c \<and> Role_Level (u_Role w) < Role_Level (u_Role c)"
        using c(2,3) n by simp
    qed
  qed simp
qed

lemma UpdateUser_roles:
  assumes "call_ok (OpUpdateUser u) s"
  shows "keeps_roles s (snd (UpdateUser now e u s))"
proof -
  let ?s = "snd (UpdateUser now e u s)"
  have "st_users ?s = st_users s \<or> st_users ?s = AList.update (u_ID u) (u\<lparr>u_UpdatedAt := now\<rparr>) (st_users s)"
    by (simp add: UpdateUser_def exec_users_def Let_def split: option.split)
  moreover obtain v where "map_of (st_users s) (u_ID u) = Some v" "u_Role u = u_Role v" "u_CreatedBy u = u_CreatedBy v"
    using assms by (auto simp: same_identity_def)
  ultimately show ?thesis using keeps_roles_update [of s "u_ID u" v "u\<lparr>u_UpdatedAt := now\<rparr>" ?s] by auto
qed

lemma login_counters_users:
  "st_users (snd (RecordFailedLogin now e uid s)) = update_key uid (\<lambda>u. u\<lparr>u_FailedAttempts := u_FailedAttempts u + 1,
     u_Locked := (if u_FailedAttempts u + 1 \<ge> maxFailedAttempts then True else u_Locked u), u_UpdatedAt := now\<rparr>) (st_users s)"
  "st_users (snd (ResetFailedLogin now e uid s)) = update_key uid (\<lambda>u. u\<lparr>u_FailedAttempts := 0, u_UpdatedAt := now\<rparr>) (st_users s)"
  by (simp_all add: RecordFailedLogin_def ResetFailedLogin_def update_key_def Let_def exec_users_def split: option.split)

lemma field_updates_users:
  "st_users (snd (UpdateTOTPSecret now e uid secret en s)) \<in> {st_users s,
     update_key uid (\<lambda>v. v\<lparr>u_TOTPSecret := secret, u_TOTPEnabled := en, u_UpdatedAt := now\<rparr>) (st_users s)}"
  "st_users (snd (EnableTOTPWithBackupCodes now errs uid secret codes s)) \<in> {st_users s,
     update_key uid (\<lambda>v. v\<lparr>u_TOTPSecret := secret, u_TOTPEnabled := True, u_UpdatedAt := now\<rparr>) (st_users s)}"
  "st_users (snd (DisableTOTP now errs uid s)) \<in> {st_users s,
     update_key uid (\<lambda>v. v\<lparr>u_TOTPSecret := [], u_TOTPEnabled := False, u_UpdatedAt := now\<rparr>) (st_users s)}"
  "st_users (snd (UpdatePasswordHash now e uid h s)) \<in> {st_users s, update_key uid (\<lambda>v. v\<lparr>u_PasswordHash := h\<rparr>) (st_users s)}"
  by (simp_all add: user_op_defs split: option.split)

lemma session_ops_users:
  "st_users (snd (snd (CreateSession rnd now e ss s))) = st_users s" "st_users (snd (TouchSession now e sid s)) = st_users s"
  "st_users (snd (RevokeSession e sid s)) = st_users s" "st_users (snd (RevokeAllUserSessions e uid s)) = st_users s"
  "st_users (snd (UpdateBackupCodes errs uid codes s)) = st_users s"
  by (simp_all add: session_op_defs UpdateBackupCodes_def split: option.split)

lemma keeps_roles_or:
  assumes "st_users s' \<in> {st_users s, update_key k f (st_users s)}" "\<And>u. u_Role (f u) = u_Role u \<and> u_CreatedBy (f u) = u_CreatedBy u"
  shows "keeps_roles s s'"
  using assms keeps_roles_update_key [OF assms(2), of s' k s] by auto

lemma field_updates_roles:
  "keeps_roles s (snd (UpdateTOTPSecret now e uid secret en s))" "keeps_roles s (snd (EnableTOTPWithBackupCodes now errs uid secret codes s))"
  "keeps_roles s (snd (DisableTOTP now errs uid s))" "keeps_roles s (snd (UpdatePasswordHash now e uid h s))"
  "keeps_roles s (snd (RecordFailedLogin now e uid s))" "keeps_roles s (snd (ResetFailedLogin now e uid s))"
  by (rule keeps_roles_or [OF field_updates_users(1)], simp) (rule keeps_roles_or [OF field_updates_users(2)], simp,
    rule keeps_roles_or [OF field_updates_users(3)], simp, rule keeps_roles_or [OF field_updates_users(4)], simp,
    rule keeps_roles_update_key [OF _ login_counters_users(1)], simp, rule keeps_roles_update_key [OF _ login_counters_users(2)], simp)

lemma store_exec_roles: "call_ok op' s \<Longrightarrow> keeps_roles s (store_exec now err op' s)"
  by (cases op') (simp_all add: CreateUser_roles UpdateUser_roles field_updates_roles session_ops_users del: call_ok.simps(1,2))

lemma calls_roles: "calls s0 s \<Longrightarrow> keeps_roles s0 s"
  by (induction rule: calls.induct) (auto intro: keeps_roles_trans store_exec_roles)

text \<open>C16. Nobody raises a role.  Whatever operations the service performs, every user keeps the role and
  the creator, and every user that was added has a role strictly below the one of the user who
  created it.\<close>

theorem no_role_escalation:
  assumes "store_ok (sv_store v0)" "auth_run L v0 v"
  shows "\<forall>i. case map_of (st_users (sv_store v0)) i of
      Some u \<Rightarrow> \<exists>u'. map_of (st_users (sv_store v)) i = Some u' \<and> u_Role u' = u_Role u \<and> u_CreatedBy u' = u_CreatedBy u
    | None \<Rightarrow> (case map_of (st_users (sv_store v)) i of
        None \<Rightarrow> True
      | Some u' \<Rightarrow> \<exists>c. map_of (st_users (sv_store v)) (u_CreatedBy u') = Some c \<and> Role_Level (u_Role u') < Role_Level (u_Role c))"
  using calls_roles [OF conjunct2 [OF auth_run_calls [OF assms(2,1)]]] unfolding keeps_roles_def
  by (auto simp del: map_of_eq_Some_iff split: option.split)

section \<open>Logins\<close>

lemma login_outcome:
  assumes "Login L E req ip ua v = (Inr resp, v')"
  shows "\<exists>user c ss. GetUserByUsername (lr_Username req) (sv_store v) = Inr user \<and> u_Active user \<and> \<not> u_Locked user
    \<and> VerifyPassword (al_argon2 L) (lr_Password req) (u_PasswordHash user) = Inr True
    \<and> (u_TOTPEnabled user \<longrightarrow> fst (VerifyTOTPCode (e_clk E 6) (u_TOTPSecret user) (lr_TOTPCode req) (sv_totpCache v)))
    \<and> al_sign L c = Inr (tp_AccessToken (lresp_Tokens resp)) \<and> fc_Subject c = u_ID user \<and> fc_Role c = u_Role user
    \<and> (Requires2FA (u_Role user) \<and> (fc_TFAVerified c \<or> fc_Scope c = ScopeSession) \<longrightarrow> u_TOTPEnabled user)
    \<and> map_of (st_sessions (sv_store v')) (fc_SessionID c) = Some ss \<and> s_UserID ss = u_ID user \<and> \<not> s_Revoked ss"
  using assms
proof (cases rule: Login_cases)
  case (session user v1)
  define s1 where "s1 = snd (ResetFailedLogin (e_clk E 8) (e_err E 8) (u_ID user) (sv_store v1))"
  from session(8) s1_def show ?thesis
  proof (cases rule: login_session_cases)
    case (ok raw h ss s2 tok ex)
    let ?c = "access_claims L (e_clk E 11) user (s_ID ss) (fst (token_scope user)) (snd (token_scope user))"
    have "al_sign L ?c = Inr tok" using ok(3) by (auto simp: GenerateAccessToken_def split: sum.splits)
    moreover have "map_of (st_sessions s2) (s_ID ss) = Some ss" "s_UserID ss = u_ID user" "\<not> s_Revoked ss"
      using ok(2) by (auto simp: CreateSession_def login_sess_def Let_def update_conv' split: prod.splits option.splits)
    moreover have "st_sessions (sv_store v') = st_sessions s2" using ok(5) user_ops_sessions(1) by auto
    moreover have "Requires2FA (u_Role user) \<and> (fc_TFAVerified ?c \<or> fc_Scope ?c = ScopeSession) \<longrightarrow> u_TOTPEnabled user"
      by (simp add: access_claims_def token_scope_def Let_def ScopeSession_def ScopePreAuth_def)
    moreover have "fc_Subject ?c = u_ID user" "fc_Role ?c = u_Role user" "fc_SessionID ?c = s_ID ss"
      by (simp_all add: access_claims_def)
    ultimately show ?thesis using session(2-6) ok(4)
      by (intro exI [of _ user] exI [of _ ?c] exI [of _ ss]) simp
  qed (use session in simp_all)
qed simp_all

text \<open>C10. A login that returns tokens had the credentials: the user exists, is active and not locked, the
  password verifies and, with a second factor, so does the code.  The token names the user, its
  role and a session of the user that was just created; for a role that must use two factors it
  is verified or has the full scope only if the user has a second factor.\<close>

theorem login_needs_credentials:
  assumes "Login L E req ip ua v = (Inr resp, v')"
  shows "\<exists>user c ss. GetUserByUsername (lr_Username req) (sv_store v) = Inr user \<and> u_Active user \<and> \<not> u_Locked user
    \<and> VerifyPassword (al_argon2 L) (lr_Password req) (u_PasswordHash user) = Inr True
    \<and> (u_TOTPEnabled user \<longrightarrow> fst (VerifyTOTPCode (e_clk E 6) (u_TOTPSecret user) (lr_TOTPCode req) (sv_totpCache v)))
    \<and> al_sign L c = Inr (tp_AccessToken (lresp_Tokens resp)) \<and> fc_Subject c = u_ID user \<and> fc_Role c = u_Role user
    \<and> (Requires2FA (u_Role user) \<and> (fc_TFAVerified c \<or> fc_Scope c = ScopeSession) \<longrightarrow> u_TOTPEnabled user)
    \<and> map_of (st_sessions (sv_store v')) (fc_SessionID c) = Some ss \<and> s_UserID ss = u_ID user \<and> \<not> s_Revoked ss"
  by (rule login_outcome [OF assms])

text \<open>A login writes back the copy of the user it read at the start, so it undoes the reset of
  the failed attempts: they stay as they were.\<close>

lemma login_restores_failed_attempts:
  assumes "Login L E req ip ua v = (Inr resp, v')" "GetUserByUsername (lr_Username req) (sv_store v) = Inr user" "e_err E 13 = None"
  shows "map_of (st_users (sv_store v')) (u_ID user) = Some (user\<lparr>u_LastLogin := e_clk E 12, u_UpdatedAt := e_clk E 13\<rparr>)"
  using assms(1)
proof (cases rule: Login_cases)
  case (session user' v1)
  then have u: "user' = user" using assms(2) by simp
  define s1 where "s1 = snd (ResetFailedLogin (e_clk E 8) (e_err E 8) (u_ID user') (sv_store v1))"
  from session(8) s1_def show ?thesis
  proof (cases rule: login_session_cases)
    case (ok raw h ss s2 tok ex)
    then show ?thesis using assms(3) u by (auto simp: UpdateUser_def exec_users_def Let_def update_conv')
  qed simp_all
qed simp_all

lemma GenerateRefreshToken_ok:
  assumes "length b = 48"
  shows "\<exists>h. GenerateRefreshToken L (Inr b) (Inr salt) = Inr (urlSafeEncode b, h)"
  using assms by (simp add: GenerateRefreshToken_def HashPassword_def urlSafeEncode_def argon2idHash_def Let_def)

lemma CreateSession_ok:
  assumes "map_of (db_sessions (st_db s)) (newID rnd) = None"
  shows "\<exists>ss s'. CreateSession rnd now None sess s = (None, ss, s')"
  using assms by (force simp: CreateSession_def sql_insert_session_def Let_def list_ex_iff map_of_eq_None_iff)

lemma login_session_complete:
  assumes "e_rnd E 1 = Inr b" "length b = 48" "e_rnd E 2 = Inr salt" "e_err E 10 = None"
    and "map_of (db_sessions (st_db (sv_store v))) (newID (e_id E 10)) = None" "\<forall>c. \<not> isl (al_sign L c)"
  shows "\<exists>resp. fst (login_session L E user ip ua v) = Inr resp \<and> lresp_User resp = UserToView (user\<lparr>u_LastLogin := e_clk E 12\<rparr>)"
proof -
  define s1 where "s1 = snd (ResetFailedLogin (e_clk E 8) (e_err E 8) (u_ID user) (sv_store v))"
  obtain h where h: "GenerateRefreshToken L (e_rnd E 1) (e_rnd E 2) = Inr (urlSafeEncode b, h)"
    using GenerateRefreshToken_ok [OF assms(2)] assms(1,3) by metis
  have "map_of (db_sessions (st_db s1)) (newID (e_id E 10)) = None" using assms(5) by (simp add: s1_def user_ops_sessions)
  then obtain ss s2 where cs: "CreateSession (e_id E 10) (e_clk E 10) (e_err E 10) (login_sess L E user ip ua h) s1 = (None, ss, s2)"
    unfolding assms(4) using CreateSession_ok by blast
  obtain tok where tok: "al_sign L (access_claims L (e_clk E 11) user (s_ID ss) (fst (token_scope user)) (snd (token_scope user))) = Inr tok"
    using assms(6) by (metis isl_def sum.exhaust)
  show ?thesis
    unfolding login_session_def Let_def on_store_store s1_def [symmetric] h sum.case prod.case login_sess_def [symmetric] cs option.case
    by (cases "token_scope user") (use tok in \<open>simp add: GenerateAccessToken_def\<close>)
qed

lemma login_complete:
  assumes "fst (checkLoginRate (e_clk E 0) ip v) = None" "GetUserByUsername (lr_Username req) (sv_store v) = Inr user"
    and "u_Active user" "\<not> u_Locked user" "VerifyPassword (al_argon2 L) (lr_Password req) (u_PasswordHash user) = Inr True"
    and "u_TOTPEnabled user \<longrightarrow> lr_TOTPCode req \<noteq> [] \<and> fst (VerifyTOTPCode (e_clk E 6) (u_TOTPSecret user) (lr_TOTPCode req) (sv_totpCache v))"
    and "e_rnd E 1 = Inr b" "length b = 48" "e_rnd E 2 = Inr salt" "e_err E 10 = None"
    and "map_of (db_sessions (st_db (sv_store v))) (newID (e_id E 10)) = None" "\<forall>c. \<not> isl (al_sign L c)"
  shows "\<exists>resp. fst (Login L E req ip ua v) = Inr resp \<and> lresp_User resp = UserToView (user\<lparr>u_LastLogin := e_clk E 12\<rparr>)"
proof -
  obtain w where w: "checkLoginRate (e_clk E 0) ip v = (None, w)" using assms(1) by (metis fst_conv surj_pair)
  then have sw: "sv_store w = sv_store v" and cw: "sv_totpCache w = sv_totpCache v"
    using checkLoginRate_store [of "e_clk E 0" ip v] by (auto simp: checkLoginRate_def Let_def split: option.splits if_splits)
  obtain ok w' where vt: "verifyTOTP (e_clk E 6) (u_TOTPSecret user) (lr_TOTPCode req) w = (ok, w')" by fastforce
  then have sw': "sv_store w' = sv_store v" and okv: "ok = fst (VerifyTOTPCode (e_clk E 6) (u_TOTPSecret user) (lr_TOTPCode req) (sv_totpCache v))"
    using verifyTOTP_store [of "e_clk E 6" "u_TOTPSecret user" "lr_TOTPCode req" w] sw cw by (auto simp: verifyTOTP_def Let_def case_prod_unfold)
  have ls: "sv_store x = sv_store v \<Longrightarrow> \<exists>resp. fst (login_session L E user ip ua x) = Inr resp \<and> lresp_User resp = UserToView (user\<lparr>u_LastLogin := e_clk E 12\<rparr>)" for x
    by (rule login_session_complete [OF assms(7-10) _ assms(12)]) (simp add: assms(11))
  show ?thesis
    unfolding Login_def Let_def w prod.case option.case sw assms(2) sum.case vt
    using assms(3-6) okv ls [OF sw] ls [OF sw'] by auto
qed

text \<open>C39. A login with the credentials succeeds: if the limiter lets it through, the user is active and
  not locked, the password verifies and so does the code of a second factor, and neither the random
  numbers nor the signature nor the insertion of the session fail, the user gets tokens.\<close>

theorem login_accepts:
  assumes "fst (checkLoginRate (e_clk E 0) ip v) = None" "GetUserByUsername (lr_Username req) (sv_store v) = Inr user"
    and "u_Active user" "\<not> u_Locked user" "VerifyPassword (al_argon2 L) (lr_Password req) (u_PasswordHash user) = Inr True"
    and "u_TOTPEnabled user \<longrightarrow> lr_TOTPCode req \<noteq> [] \<and> fst (VerifyTOTPCode (e_clk E 6) (u_TOTPSecret user) (lr_TOTPCode req) (sv_totpCache v))"
    and "e_rnd E 1 = Inr b" "length b = 48" "e_rnd E 2 = Inr salt" "e_err E 10 = None"
    and "map_of (db_sessions (st_db (sv_store v))) (newID (e_id E 10)) = None" "\<forall>c. \<not> isl (al_sign L c)"
  shows "\<exists>resp. fst (Login L E req ip ua v) = Inr resp \<and> lresp_User resp = UserToView (user\<lparr>u_LastLogin := e_clk E 12\<rparr>)"
  by (rule login_complete [OF assms])

section \<open>An example\<close>

text \<open>A service with two users on a library whose tokens are session ids, and the login of one.\<close>

definition sample_lib :: auth_lib where
  "sample_lib = \<lparr>al_argon2 = prefix_kdf, al_sign = (\<lambda>c. Inr (fc_SessionID c)),
     al_parse = (\<lambda>_ iss tok. Inr \<lparr>fc_Subject = ''b2'', fc_Issuer = iss, fc_IssuedAt = 0, fc_ExpiresAt = 900, fc_NotBefore = 0, fc_Username = ''eve'',
       fc_Role = RoleViewer, fc_SessionID = tok, fc_TokenType = ''access'', fc_TFAVerified = True, fc_Scope = ScopeSession, fc_Permissions = []\<rparr>),
     al_cfg = DefaultJWTConfig\<rparr>"

definition sample_env :: auth_env where
  "sample_env = \<lparr>e_clk = (\<lambda>_. 5), e_rnd = (\<lambda>_. Inr (replicate 48 1)), e_id = (\<lambda>_. [1, 2]), e_err = (\<lambda>_. None)\<rparr>"

definition sample_hash :: string where
  "sample_hash = (case argon2idHash prefix_kdf (Inr (replicate 16 7)) ''correct horse battery'' of Inr h \<Rightarrow> h | Inl _ \<Rightarrow> [])"

definition sample_user :: User where
  "sample_user = User0\<lparr>u_ID := ''b2'', u_Username := ''eve'', u_Email := ''eve@falx.local'', u_PasswordHash := sample_hash,
     u_Role := RoleViewer, u_Active := True\<rparr>"

definition auth_db :: Db where
  "auth_db = sample_db\<lparr>db_users := db_users sample_db @ [(''b2'', sample_user)]\<rparr>"

definition auth_store :: Store where
  "auth_store = load_rows (db_users auth_db) (empty_store Minute auth_db)"

definition sample_service :: Service where
  "sample_service = NewService auth_store []"

definition sample_login :: LoginRequest where
  "sample_login = \<lparr>lr_Username = ''eve'', lr_Password = ''correct horse battery'', lr_TOTPCode = []\<rparr>"

definition logged_in :: Service where
  "logged_in = auth_exec sample_lib sample_env (OpLogin sample_login ''10.0.0.7:41000'' ''curl'') sample_service"

lemma sample_verify:
  "VerifyPassword prefix_kdf pw sample_hash =
     Inr (IDKey prefix_kdf (str_bytes ''correct horse battery'') (replicate 16 7) 3 65536 2 32 = IDKey prefix_kdf (str_bytes pw) (replicate 16 7) 3 65536 2 32)"
proof -
  obtain h where h: "argon2idHash prefix_kdf (Inr (replicate 16 7)) ''correct horse battery'' = Inr h" by (simp add: argon2idHash_def Let_def)
  then show ?thesis using pk.verify_hashed [OF h, of pw] by (simp add: sample_hash_def)
qed

lemma auth_store:
  "NewStore prefix_kdf [] (Inl ''no entropy'') [1] 5 (\<lambda>_. None) Minute auth_db = Inr auth_store"
  "table_ok (db_users auth_db)" "map_of (db_users auth_db) (newID [1]) = None"
proof -
  have "map_of (st_byName auth_store) ''admin'' \<noteq> None"
    by (simp add: auth_store_def auth_db_def sample_db_def sample_user_def User0_def Let_def)
  then show "NewStore prefix_kdf [] (Inl ''no entropy'') [1] 5 (\<lambda>_. None) Minute auth_db = Inr auth_store"
    by (simp add: NewStore_def loadCache_def ensureDefaultAdmin_def auth_store_def)
  show "table_ok (db_users auth_db)" by (simp add: table_ok_def auth_db_def sample_db_def sample_user_def User0_def)
  have "newID [1] = ''01''" by code_simp
  then show "map_of (db_users auth_db) (newID [1]) = None" by (simp add: auth_db_def sample_db_def)
qed

lemma sample_facts:
  "fst (checkLoginRate (e_clk sample_env 0) ip sample_service) = None"
  "GetUserByUsername ''eve'' (sv_store sample_service) = Inr sample_user"
  "VerifyPassword (al_argon2 sample_lib) ''correct horse battery'' (u_PasswordHash sample_user) = Inr True"
  "db_sessions (st_db (sv_store sample_service)) = []" "\<not> isl (al_sign sample_lib c)"
  by (simp_all add: checkLoginRate_def sample_service_def NewService_def GetUserByUsername_def auth_store_def auth_db_def sample_db_def
      sample_user_def User0_def sample_lib_def sample_verify Let_def)

theorem login_accepts_witness:
  "\<exists>resp. fst (Login sample_lib sample_env sample_login ''10.0.0.7:41000'' ''curl'' sample_service) = Inr resp
     \<and> uv_Username (lresp_User resp) = ''eve''"
proof -
  have "\<exists>resp. fst (Login sample_lib sample_env sample_login ''10.0.0.7:41000'' ''curl'' sample_service) = Inr resp
     \<and> lresp_User resp = UserToView (sample_user\<lparr>u_LastLogin := e_clk sample_env 12\<rparr>)"
    by (rule login_accepts [where b = "replicate 48 1" and salt = "replicate 48 1"])
      (use sample_facts in \<open>simp_all add: sample_env_def sample_login_def sample_user_def User0_def\<close>)
  then show ?thesis by (auto simp: UserToView_def sample_user_def)
qed

lemma sample_logged_in:
  "\<exists>resp. Login sample_lib sample_env sample_login ''10.0.0.7:41000'' ''curl'' sample_service = (Inr resp, logged_in)"
proof -
  have "\<exists>resp. fst (Login sample_lib sample_env sample_login ''10.0.0.7:41000'' ''curl'' sample_service) = Inr resp
     \<and> lresp_User resp = UserToView (sample_user\<lparr>u_LastLogin := e_clk sample_env 12\<rparr>)"
    by (rule login_complete [where b = "replicate 48 1" and salt = "replicate 48 1"])
      (use sample_facts in \<open>simp_all add: sample_env_def sample_login_def sample_user_def User0_def\<close>)
  then show ?thesis by (metis auth_exec.simps(1) logged_in_def prod.collapse)
qed

theorem login_needs_credentials_witness:
  "\<exists>tok ss. fst (Login sample_lib sample_env sample_login ''10.0.0.7:41000'' ''curl'' sample_service) \<noteq> Inl ErrInvalidCredentials
     \<and> map_of (st_sessions (sv_store logged_in)) tok = Some ss \<and> s_UserID ss = ''b2'' \<and> \<not> s_Revoked ss"
proof -
  obtain resp where r: "Login sample_lib sample_env sample_login ''10.0.0.7:41000'' ''curl'' sample_service = (Inr resp, logged_in)"
    using sample_logged_in by blast
  from login_needs_credentials [OF r] r sample_facts(2) show ?thesis by (auto simp: sample_login_def sample_user_def User0_def)
qed

lemma sample_run: "auth_run sample_lib (NewService auth_store []) logged_in"
  unfolding logged_in_def sample_service_def by (intro auth_run.intros) simp

theorem session_end_is_final_witness:
  "\<exists>sid ss. map_of (st_sessions (sv_store logged_in)) sid = Some ss \<and> \<not> s_Revoked ss
     \<and> fst (ValidateRequest sample_lib sample_env sid (snd (Logout sample_env sid ''b2'' ''10.0.0.7'' logged_in))) = Inl ErrSessionRevoked"
proof -
  obtain resp where r: "Login sample_lib sample_env sample_login ''10.0.0.7:41000'' ''curl'' sample_service = (Inr resp, logged_in)"
    using sample_logged_in by blast
  obtain sid ss where ss: "map_of (st_sessions (sv_store logged_in)) sid = Some ss" "\<not> s_Revoked ss"
    using login_outcome [OF r] by blast
  have id: "s_ID ss = sid" by (rule store_okD(2) [OF run_from_start(1) [OF auth_store sample_run] ss(1)])
  have c: "VerifyAccessToken sample_lib (e_clk sample_env 0) sid = Inr claims \<Longrightarrow> tc_SessionID claims = sid" for claims
    by (auto simp: VerifyAccessToken_def sample_lib_def)
  have v: "\<exists>claims. VerifyAccessToken sample_lib (e_clk sample_env 0) sid = Inr claims" by (simp add: VerifyAccessToken_def sample_lib_def)
  have "fst (ValidateRequest sample_lib sample_env sid (auth_exec sample_lib sample_env (OpLogout sid ''b2'' ''10.0.0.7'') logged_in)) = Inl ErrSessionRevoked"
    using session_end_is_final [OF auth_store sample_run ss(1), of sample_env "OpLogout sid ''b2'' ''10.0.0.7''"] id c v auth_run.start
    by (auto simp del: auth_exec.simps)
  then show ?thesis using ss by auto
qed

theorem no_role_escalation_witness:
  "\<exists>u. map_of (st_users (sv_store logged_in)) ''b2'' = Some u \<and> u_Role u = RoleViewer"
proof -
  have "store_ok (sv_store (NewService auth_store []))" using NewStore_ok [OF auth_store] by (simp add: NewService_def)
  from no_role_escalation [OF this sample_run, THEN spec, of "''b2''"] show ?thesis
    by (auto simp: NewService_def auth_store_def auth_db_def sample_db_def sample_user_def User0_def Let_def)
qed

end
