(* ===== verification/AuthLimits.thy ===== *)
theory AuthLimits
  imports AuthSafety
begin

text \<open>
  How often the service lets a client try: sequences of logins from any clients on any accounts,
  the number of wrong passwords the service compares for one account, and the number of
  logins from one address that get past the limiter.
\<close>

section \<open>Sequences of logins\<close>

record attempt =
  at_env :: auth_env
  at_req :: LoginRequest
  at_ip :: string
  at_agent :: string

definition login_at :: "auth_lib \<Rightarrow> attempt \<Rightarrow> Service \<Rightarrow> (string + LoginResponse) \<times> Service" where
  "login_at L a v = Login L (at_env a) (at_req a) (at_ip a) (at_agent a) v"

fun login_run :: "auth_lib \<Rightarrow> attempt list \<Rightarrow> Service \<Rightarrow> Service" where
  "login_run L [] v = v"
| "login_run L (a # as) v = login_run L as (snd (login_at L a v))"

section \<open>Wrong passwords\<close>

text \<open>A wrong password that was compared, and their number in a sequence.\<close>

definition wrong_guess :: "auth_lib \<Rightarrow> string \<Rightarrow> attempt \<Rightarrow> Service \<Rightarrow> bool" where
  "wrong_guess L name a v \<longleftrightarrow> lr_Username (at_req a) = name \<and> fst (checkLoginRate (e_clk (at_env a) 0) (at_ip a) v) = None
     \<and> (case GetUserByUsername name (sv_store v) of
          Inl _ \<Rightarrow> False
        | Inr user \<Rightarrow> u_Active user \<and> \<not> u_Locked user
            \<and> VerifyPassword (al_argon2 L) (lr_Password (at_req a)) (u_PasswordHash user) \<noteq> Inr True)"

fun guesses :: "auth_lib \<Rightarrow> string \<Rightarrow> attempt list \<Rightarrow> Service \<Rightarrow> nat" where
  "guesses L name [] v = 0"
| "guesses L name (a # as) v = (if wrong_guess L name a v then 1 else 0) + guesses L name as (snd (login_at L a v))"

definition guesses_left :: "User \<Rightarrow> nat" where
  "guesses_left u = (if u_Locked u then 0 else nat (max 1 (maxFailedAttempts - u_FailedAttempts u)))"

lemma GetUserByUsername_frame:
  "st_users s' = st_users s \<Longrightarrow> st_byName s' = st_byName s \<Longrightarrow> GetUserByUsername name s' = GetUserByUsername name s"
  by (simp only: GetUserByUsername_def)

lemma GetUserByUsername_other:
  assumes "store_ok s" "GetUserByUsername name s = Inr u" "GetUserByUsername other s = Inr w" "other \<noteq> name"
    and "\<And>i. i \<noteq> u_ID w \<Longrightarrow> map_of (st_users s') i = map_of (st_users s) i" "st_byName s' = st_byName s"
  shows "GetUserByUsername name s' = Inr u"
proof -
  have n: "map_of (st_byName s) name = Some (u_ID u)"
    using GetUserByUsername_stored [OF assms(1,2)] indexedD(2) [OF store_ok_indexed [OF assms(1)]] by blast
  have "u_ID u \<noteq> u_ID w"
    using GetUserByUsername_stored [OF assms(1,2)] GetUserByUsername_stored [OF assms(1,3)] assms(4) by (metis option.inject)
  then show ?thesis
    using n GetUserByUsername_stored(1) [OF assms(1,2)] assms(5,6) by (simp add: GetUserByUsername_def del: map_of_eq_Some_iff)
qed

lemma byName_ops:
  "st_byName (snd (ResetFailedLogin now e uid s)) = st_byName s" "st_byName (snd (RecordFailedLogin now e uid s)) = st_byName s"
  "st_byName (snd (UpdateUser now e u s)) = st_byName s" "CreateSession rnd now e ss s = (r, ss', s') \<Longrightarrow> st_byName s' = st_byName s"
  by (auto simp: user_op_defs CreateSession_def split: option.splits prod.splits)

lemma UpdateUser_other: "i \<noteq> u_ID u \<Longrightarrow> map_of (st_users (snd (UpdateUser now e u s))) i = map_of (st_users s) i"
  by (simp add: UpdateUser_def exec_users_def Let_def update_conv' split: option.split)

lemma login_session_other:
  assumes "login_session L E user ip ua v = (r, v')"
  shows "i \<noteq> u_ID user \<Longrightarrow> map_of (st_users (sv_store v')) i = map_of (st_users (sv_store v)) i" "st_byName (sv_store v') = st_byName (sv_store v)"
proof -
  define s1 where "s1 = snd (ResetFailedLogin (e_clk E 8) (e_err E 8) (u_ID user) (sv_store v))"
  have s1: "i \<noteq> u_ID user \<Longrightarrow> map_of (st_users s1) i = map_of (st_users (sv_store v)) i" "st_byName s1 = st_byName (sv_store v)" for i
    by (simp_all add: s1_def login_counters_users byName_ops)
  have "(i \<noteq> u_ID user \<longrightarrow> map_of (st_users (sv_store v')) i = map_of (st_users (sv_store v)) i) \<and> st_byName (sv_store v') = st_byName (sv_store v)" for i
    using assms s1_def
  proof (cases rule: login_session_cases)
    case refresh
    then show ?thesis using s1 by simp
  next
    case session
    then show ?thesis using s1 CreateSession_users byName_ops(4) by metis
  next
    case (ok raw h ss s2 tok ex)
    then obtain ev where v': "sv_store v' = WriteAuditEvent (e_id E 14) (e_clk E 14) (e_err E 14) ev
        (snd (UpdateUser (e_clk E 13) (e_err E 13) (user\<lparr>u_LastLogin := e_clk E 12\<rparr>) s2))" by blast
    then show ?thesis using s1 CreateSession_users [OF ok(2)] byName_ops(4) [OF ok(2)] by (simp add: byName_ops(3) UpdateUser_other)
  qed
  then show "i \<noteq> u_ID user \<Longrightarrow> map_of (st_users (sv_store v')) i = map_of (st_users (sv_store v)) i"
    "st_byName (sv_store v') = st_byName (sv_store v)" by blast+
qed

lemma RecordFailedLogin_user:
  assumes "store_ok s" "GetUserByUsername name s = Inr u"
  shows "\<exists>u'. GetUserByUsername name (snd (RecordFailedLogin now e (u_ID u) s)) = Inr u' \<and> u_PasswordHash u' = u_PasswordHash u
    \<and> (\<not> u_Locked u \<longrightarrow> guesses_left u = Suc (guesses_left u'))"
proof -
  note u = GetUserByUsername_stored [OF assms]
  have "map_of (st_byName s) name = Some (u_ID u)" using u indexedD(2) [OF store_ok_indexed [OF assms(1)]] by blast
  then show ?thesis
    using u(1) by (auto simp: GetUserByUsername_def login_counters_users byName_ops guesses_left_def maxFailedAttempts_def simp del: map_of_eq_Some_iff)
qed

text \<open>One login of somebody who does not know the password of the account.\<close>

lemma guess_step:
  assumes "store_ok (sv_store v)" "GetUserByUsername name (sv_store v) = Inr u"
    and "lr_Username (at_req a) = name \<longrightarrow> VerifyPassword (al_argon2 L) (lr_Password (at_req a)) (u_PasswordHash u) \<noteq> Inr True"
  shows "\<exists>u'. GetUserByUsername name (sv_store (snd (login_at L a v))) = Inr u' \<and> u_PasswordHash u' = u_PasswordHash u
    \<and> guesses_left u = (if wrong_guess L name a v then 1 else 0) + guesses_left u'"
proof -
  obtain r v' where l: "Login L (at_env a) (at_req a) (at_ip a) (at_agent a) v = (r, v')" by fastforce
  have "\<exists>u'. GetUserByUsername name (sv_store v') = Inr u' \<and> u_PasswordHash u' = u_PasswordHash u
    \<and> guesses_left u = (if wrong_guess L name a v then 1 else 0) + guesses_left u'"
    using l
  proof (cases rule: Login_cases)
    case (limited e)
    then have "\<not> wrong_guess L name a v" by (simp add: wrong_guess_def)
    then show ?thesis using limited(3) assms(2) by simp
  next
    case (rejected e)
    then have "\<not> wrong_guess L name a v" using assms(2) by (auto simp: wrong_guess_def)
    then show ?thesis using GetUserByUsername_frame [of "sv_store v'" "sv_store v"] audited_fields [OF rejected(2)] assms(2) by simp
  next
    case (wrong user ev)
    show ?thesis
    proof (cases "lr_Username (at_req a) = name")
      case True
      then have u: "user = u" using wrong(2) assms(2) by simp
      have g: "wrong_guess L name a v" using True wrong u by (simp add: wrong_guess_def)
      have "GetUserByUsername name (sv_store v') =
          GetUserByUsername name (snd (RecordFailedLogin (e_clk (at_env a) 4) (e_err (at_env a) 4) (u_ID user) (sv_store v)))"
        unfolding wrong(7) by (rule GetUserByUsername_frame) simp_all
      then show ?thesis
        using RecordFailedLogin_user [OF assms(1,2), of "e_clk (at_env a) 4" "e_err (at_env a) 4"] g u wrong(4) by auto
    next
      case False
      then have "\<not> wrong_guess L name a v" by (simp add: wrong_guess_def)
      moreover have "GetUserByUsername name (sv_store v') = Inr u"
        by (rule GetUserByUsername_other [OF assms(1,2) wrong(2) False]) (simp_all add: wrong(7) login_counters_users byName_ops)
      ultimately show ?thesis by simp
    qed
  next
    case (session user v1)
    have ne: "lr_Username (at_req a) \<noteq> name" using session(2,5) assms(2,3) by auto
    then have "\<not> wrong_guess L name a v" by (simp add: wrong_guess_def)
    moreover have "GetUserByUsername name (sv_store v') = Inr u"
      by (rule GetUserByUsername_other [OF assms(1,2) session(2) ne])
        (use login_session_other [OF session(8)] session(7) in simp_all)
    ultimately show ?thesis by simp
  qed
  then show ?thesis by (simp add: login_at_def l)
qed

lemma guesses_count:
  assumes "store_ok (sv_store v)" "GetUserByUsername name (sv_store v) = Inr u"
    and "list_all (\<lambda>a. lr_Username (at_req a) = name \<longrightarrow> VerifyPassword (al_argon2 L) (lr_Password (at_req a)) (u_PasswordHash u) \<noteq> Inr True) as"
  shows "\<exists>u'. GetUserByUsername name (sv_store (login_run L as v)) = Inr u' \<and> guesses_left u = guesses L name as v + guesses_left u'"
  using assms
proof (induction as arbitrary: v u)
  case (Cons a as)
  have ok: "store_ok (sv_store (snd (login_at L a v)))"
    using store_reach_ok [OF calls_reach [OF Login_calls [OF Cons.prems(1)]] Cons.prems(1)] by (simp add: login_at_def)
  obtain u1 where u1: "GetUserByUsername name (sv_store (snd (login_at L a v))) = Inr u1" "u_PasswordHash u1 = u_PasswordHash u"
      "guesses_left u = (if wrong_guess L name a v then 1 else 0) + guesses_left u1"
    using guess_step [OF Cons.prems(1,2), of a L] Cons.prems(3) by auto
  then show ?case using Cons.IH [OF ok u1(1)] Cons.prems(3) by auto
qed simp

text \<open>C5. Guessing is bounded.  However many logins are tried from however many addresses, with any errors of the
  database, as long as none of them has the password of an account, the service compares at most
  five wrong passwords for it, and the account is locked exactly when the last of them was used up.\<close>

theorem guesses_bounded:
  assumes "store_ok (sv_store v)" "GetUserByUsername name (sv_store v) = Inr u" "\<not> u_Locked u" "0 \<le> u_FailedAttempts u"
    and "list_all (\<lambda>a. lr_Username (at_req a) = name \<longrightarrow> VerifyPassword (al_argon2 L) (lr_Password (at_req a)) (u_PasswordHash u) \<noteq> Inr True) as"
  shows "guesses L name as v \<le> 5 \<and> (\<exists>u'. GetUserByUsername name (sv_store (login_run L as v)) = Inr u'
    \<and> (u_Locked u' \<longleftrightarrow> int (guesses L name as v) = max 1 (maxFailedAttempts - u_FailedAttempts u)))"
proof -
  obtain u' where u': "GetUserByUsername name (sv_store (login_run L as v)) = Inr u'" "guesses_left u = guesses L name as v + guesses_left u'"
    using guesses_count [OF assms(1,2,5)] by blast
  have l: "guesses_left u = nat (max 1 (maxFailedAttempts - u_FailedAttempts u))" using assms(3) by (simp add: guesses_left_def)
  have "guesses L name as v \<le> 5" using u'(2) l assms(4) by (simp add: maxFailedAttempts_def)
  moreover have "u_Locked u' \<longleftrightarrow> guesses_left u' = 0" by (simp add: guesses_left_def)
  ultimately show ?thesis using u' l by (intro conjI exI [of _ u']) auto
qed

definition sample_attempt :: attempt where
  "sample_attempt = \<lparr>at_env = sample_env, at_req = \<lparr>lr_Username = ''eve'', lr_Password = ''a wrong password'', lr_TOTPCode = []\<rparr>,
     at_ip = ''10.0.0.9:1'', at_agent = ''curl''\<rparr>"

theorem guesses_bounded_witness: "guesses sample_lib ''eve'' (replicate 1000 sample_attempt) sample_service \<le> 5"
proof -
  have ok: "store_ok (sv_store sample_service)" using NewStore_ok [OF auth_store] by (simp add: sample_service_def NewService_def)
  have w: "VerifyPassword prefix_kdf ''a wrong password'' sample_hash \<noteq> Inr True"
    unfolding sample_verify by (simp add: prefix_kdf_def str_bytes_def)
  show ?thesis
    by (rule conjunct1 [OF guesses_bounded [OF ok sample_facts(2)]])
      (use w in \<open>simp_all add: sample_user_def User0_def sample_attempt_def sample_lib_def list_all_iff\<close>)
qed

section \<open>Logins of an address\<close>

definition limiter_key :: "string \<Rightarrow> string" where
  "limiter_key addr = (let h = SplitHost addr in if h = [] then addr else h)"

definition admitted :: "string \<Rightarrow> attempt \<Rightarrow> Service \<Rightarrow> bool" where
  "admitted ip a v \<longleftrightarrow> limiter_key (at_ip a) = ip \<and> fst (checkLoginRate (e_clk (at_env a) 0) (at_ip a) v) = None"

fun admissions :: "auth_lib \<Rightarrow> string \<Rightarrow> attempt list \<Rightarrow> Service \<Rightarrow> nat" where
  "admissions L ip [] v = 0"
| "admissions L ip (a # as) v = (if admitted ip a v then 1 else 0) + admissions L ip as (snd (login_at L a v))"

lemma rl_frames [simp]:
  "sv_loginRL (on_store f v) = sv_loginRL v" "sv_loginRL (audit E n ev v) = sv_loginRL v"
  "sv_loginRL (auditLogin E n uid name ip ua ok reason v) = sv_loginRL v" "sv_loginRL (snd (verifyTOTP t secret code v)) = sv_loginRL v"
  by (simp_all add: on_store_def audit_def auditLogin_def verifyTOTP_def Let_def case_prod_unfold)

lemma login_session_rl [simp]: "sv_loginRL (snd (login_session L E user ip ua v)) = sv_loginRL v"
  by (simp add: login_session_def Let_def split: sum.split prod.split option.split)

lemma Login_rl: "sv_loginRL (snd (Login L E req ip ua v)) = sv_loginRL (snd (checkLoginRate (e_clk E 0) ip v))"
proof -
  have vt: "sv_loginRL w' = sv_loginRL w" if "verifyTOTP t secret code w = (ok, w')" for t secret code w ok w'
    using rl_frames(4) [of t secret code w] that by simp
  show ?thesis
    by (auto simp: Login_def Let_def vt split: sum.split prod.split option.split)
qed

abbreviation limiter :: "Service \<Rightarrow> string \<Rightarrow> loginRateLimiter option" where
  "limiter v \<equiv> map_of (sv_loginRL v)"

text \<open>One call: expired limiters go away, the one of the address is created or counts on.\<close>

lemma map_of_filter_val: "distinct (map fst xs) \<Longrightarrow> map_of (filter (\<lambda>(k, v). P v) xs) k = (case map_of xs k of None \<Rightarrow> None | Some v \<Rightarrow> if P v then Some v else None)"
proof (induction xs)
  case (Cons a xs)
  then have "map_of xs (fst a) = None" by (auto simp: map_of_eq_None_iff)
  then show ?case using Cons by (cases a) auto
qed simp

definition live_limiter :: "gotime \<Rightarrow> Service \<Rightarrow> string \<Rightarrow> loginRateLimiter option" where
  "live_limiter now v k = (case limiter v k of None \<Rightarrow> None | Some l \<Rightarrow> if now > lrl_resetAt l then None else Some l)"

lemma checkLoginRate_limiter:
  assumes "distinct (map fst (sv_loginRL v))" "checkLoginRate now addr v = (r, v')"
  shows "distinct (map fst (sv_loginRL v'))"
    and "k \<noteq> limiter_key addr \<Longrightarrow> limiter v' k = live_limiter now v k"
    and "live_limiter now v (limiter_key addr) = None \<Longrightarrow> r = None \<and> limiter v' (limiter_key addr) = Some \<lparr>lrl_attempts = 1, lrl_resetAt = now + Minute\<rparr>"
    and "live_limiter now v (limiter_key addr) = Some l \<Longrightarrow> (r = None \<longleftrightarrow> lrl_attempts l < 10) \<and> limiter v' (limiter_key addr) = Some (l\<lparr>lrl_attempts := lrl_attempts l + 1\<rparr>)"
proof -
  let ?rls = "filter (\<lambda>(_, r). \<not> time_After now (lrl_resetAt r)) (sv_loginRL v)"
  have live: "map_of ?rls = live_limiter now v"
    by (rule ext) (simp add: live_limiter_def map_of_filter_val [OF assms(1)] time_After_def split: option.split)
  have d: "distinct (map fst ?rls)" using assms(1) by (simp add: distinct_map_filter)
  have step: "checkLoginRate now addr v = (case live_limiter now v (limiter_key addr) of
        None \<Rightarrow> (None, v\<lparr>sv_loginRL := AList.update (limiter_key addr) \<lparr>lrl_attempts = 1, lrl_resetAt = now + Minute\<rparr> ?rls\<rparr>)
      | Some l \<Rightarrow> (if lrl_attempts l < 10 then None else Some ''too many login attempts'',
          v\<lparr>sv_loginRL := AList.update (limiter_key addr) (l\<lparr>lrl_attempts := lrl_attempts l + 1\<rparr>) ?rls\<rparr>))"
    unfolding checkLoginRate_def limiter_key_def [symmetric] Let_def
    by (simp add: live limiter_key_def Let_def loginRateWindow_def loginRateLimit_def time_Add_def split: option.split)
      (auto simp: live_limiter_def time_After_def split: option.splits if_splits)
  show "distinct (map fst (sv_loginRL v'))" "k \<noteq> limiter_key addr \<Longrightarrow> limiter v' k = live_limiter now v k"
    "live_limiter now v (limiter_key addr) = None \<Longrightarrow> r = None \<and> limiter v' (limiter_key addr) = Some \<lparr>lrl_attempts = 1, lrl_resetAt = now + Minute\<rparr>"
    "live_limiter now v (limiter_key addr) = Some l \<Longrightarrow> (r = None \<longleftrightarrow> lrl_attempts l < 10) \<and> limiter v' (limiter_key addr) = Some (l\<lparr>lrl_attempts := lrl_attempts l + 1\<rparr>)"
    using assms(2) step d by (auto simp: update_conv' live distinct_update split: option.splits if_splits)
qed

definition limiters_ok :: "Service \<Rightarrow> bool" where
  "limiters_ok v \<longleftrightarrow> distinct (map fst (sv_loginRL v)) \<and> (\<forall>k l. limiter v k = Some l \<longrightarrow> 1 \<le> lrl_attempts l)"

lemma limiters_okD:
  "limiters_ok v \<Longrightarrow> distinct (map fst (sv_loginRL v))" "limiters_ok v \<Longrightarrow> limiter v k = Some l \<Longrightarrow> 1 \<le> lrl_attempts l"
  unfolding limiters_ok_def by blast+

text \<open>The effect of a login on the limiters.\<close>

lemma login_limiter:
  assumes "limiters_ok v" "now = e_clk (at_env a) 0" "v' = snd (login_at L a v)"
  shows "limiters_ok v'"
    and "limiter_key (at_ip a) \<noteq> k \<Longrightarrow> \<not> admitted k a v \<and> limiter v' k = live_limiter now v k"
    and "limiter_key (at_ip a) = k \<Longrightarrow> live_limiter now v k = None \<Longrightarrow> admitted k a v \<and> limiter v' k = Some \<lparr>lrl_attempts = 1, lrl_resetAt = now + Minute\<rparr>"
    and "limiter_key (at_ip a) = k \<Longrightarrow> live_limiter now v k = Some l \<Longrightarrow> (admitted k a v \<longleftrightarrow> lrl_attempts l < 10) \<and> limiter v' k = Some (l\<lparr>lrl_attempts := lrl_attempts l + 1\<rparr>)"
proof -
  obtain r w where w: "checkLoginRate now (at_ip a) v = (r, w)" by fastforce
  have d: "distinct (map fst (sv_loginRL v))" using assms(1) by (simp add: limiters_ok_def)
  note c = checkLoginRate_limiter [OF d w]
  have rl: "sv_loginRL v' = sv_loginRL w" using w by (simp add: assms(2,3) login_at_def Login_rl)
  show other: "limiter_key (at_ip a) \<noteq> k \<Longrightarrow> \<not> admitted k a v \<and> limiter v' k = live_limiter now v k" for k
    using c(2) [of k] rl by (auto simp: admitted_def)
  show new: "limiter_key (at_ip a) = k \<Longrightarrow> live_limiter now v k = None \<Longrightarrow> admitted k a v \<and> limiter v' k = Some \<lparr>lrl_attempts = 1, lrl_resetAt = now + Minute\<rparr>" for k
    using c(3) rl w by (simp add: admitted_def assms(2))
  show count: "limiter_key (at_ip a) = k \<Longrightarrow> live_limiter now v k = Some l \<Longrightarrow> (admitted k a v \<longleftrightarrow> lrl_attempts l < 10) \<and> limiter v' k = Some (l\<lparr>lrl_attempts := lrl_attempts l + 1\<rparr>)" for k l
    using c(4) [of l] rl w by (simp add: admitted_def assms(2))
  have pos: "1 \<le> lrl_attempts l" if "live_limiter now v k = Some l" for k l
  proof -
    have "limiter v k = Some l" using that by (simp add: live_limiter_def split: option.splits if_splits)
    then show ?thesis by (rule limiters_okD(2) [OF assms(1)])
  qed
  have "1 \<le> lrl_attempts l" if "limiter v' k = Some l" for k l
  proof (cases "limiter_key (at_ip a) = k")
    case True
    show ?thesis
    proof (cases "live_limiter now v k")
      case None
      then show ?thesis using new [OF True None] that by auto
    next
      case (Some x)
      then show ?thesis using count [OF True Some] pos [OF Some] that by auto
    qed
  next
    case False
    then show ?thesis using other [OF False] pos that by metis
  qed
  then show "limiters_ok v'" using c(1) rl unfolding limiters_ok_def by simp
qed

text \<open>With a limiter that lasts to the end of the sequence, and in general.\<close>

lemma admissions_live:
  assumes "limiters_ok v" "limiter v ip = Some l" "u \<le> lrl_resetAt l" "\<forall>a\<in>set as. e_clk (at_env a) 0 \<le> u"
  shows "admissions L ip as v \<le> nat (10 - lrl_attempts l)"
  using assms
proof (induction as arbitrary: v l)
  case (Cons a as)
  note step = login_limiter [where a = a and L = L, OF Cons.prems(1) refl refl]
  have live: "live_limiter (e_clk (at_env a) 0) v ip = Some l"
    using Cons.prems by (auto simp: live_limiter_def simp del: map_of_eq_Some_iff)
  show ?case
  proof (cases "limiter_key (at_ip a) = ip")
    case True
    note s = step(4) [OF True live]
    have "admissions L ip as (snd (login_at L a v)) \<le> nat (10 - lrl_attempts (l\<lparr>lrl_attempts := lrl_attempts l + 1\<rparr>))"
      by (rule Cons.IH [OF step(1) conjunct2 [OF s]]) (use Cons.prems(3,4) in simp_all)
    then show ?thesis using s by auto
  next
    case False
    note s = step(2) [OF False, unfolded live]
    show ?thesis using Cons.IH [OF step(1) conjunct2 [OF s]] s Cons.prems(3,4) by simp
  qed
qed simp

lemma admissions_bound:
  assumes "limiters_ok v" "\<forall>a\<in>set as. t \<le> e_clk (at_env a) 0 \<and> e_clk (at_env a) 0 \<le> t + Minute"
  shows "admissions L ip as v \<le> (case limiter v ip of None \<Rightarrow> 10 | Some l \<Rightarrow> nat (10 - lrl_attempts l) + 10)"
  using assms
proof (induction as arbitrary: v)
  case (Cons a as)
  let ?v = "snd (login_at L a v)" and ?now = "e_clk (at_env a) 0"
  note step = login_limiter [where a = a and L = L, OF Cons.prems(1) refl refl]
  define live where "live = live_limiter ?now v ip"
  note IH = Cons.IH [OF step(1)]
  have bound: "(case live of None \<Rightarrow> 10 | Some l \<Rightarrow> nat (10 - lrl_attempts l) + 10) \<le> (case limiter v ip of None \<Rightarrow> 10 | Some l \<Rightarrow> nat (10 - lrl_attempts l) + 10)"
    by (auto simp: live_def live_limiter_def split: option.split)
  have "admissions L ip (a # as) v \<le> (case live of None \<Rightarrow> 10 | Some l \<Rightarrow> nat (10 - lrl_attempts l) + 10)"
  proof (cases "limiter_key (at_ip a) = ip")
    case False
    then show ?thesis using step(2) [OF False] IH Cons.prems(2) by (simp add: live_def)
  next
    case True
    show ?thesis
    proof (cases live)
      case None
      note s = step(3) [OF True None [unfolded live_def]]
      have "admissions L ip as ?v \<le> nat (10 - lrl_attempts \<lparr>lrl_attempts = 1, lrl_resetAt = ?now + Minute\<rparr>)"
        by (rule admissions_live [OF step(1) conjunct2 [OF s], where u = "t + Minute"]) (use Cons.prems(2) in simp_all)
      then show ?thesis using s None by simp
    next
      case (Some l)
      then show ?thesis using step(4) [OF True Some [unfolded live_def]] IH Cons.prems(2) by auto
    qed
  qed
  then show ?case using bound by linarith
qed (simp split: option.split)

lemma login_run_limiters: "limiters_ok v \<Longrightarrow> limiters_ok (login_run L as v)"
  by (induction as arbitrary: v) (simp_all add: login_limiter(1) [OF _ refl refl])

text \<open>C28. Logins per address are bounded.  Whatever logins came before and whatever other clients do, within
  any minute at most twenty logins from one address get past the limiter, and at most ten if the
  address had no limiter when the minute began.\<close>

theorem login_rate_bounded:
  assumes "v = login_run L before (NewService s cache)"
    and "\<forall>a\<in>set as. t \<le> e_clk (at_env a) 0 \<and> e_clk (at_env a) 0 \<le> t + Minute"
  shows "admissions L ip as v \<le> 20 \<and> (map_of (sv_loginRL v) ip = None \<longrightarrow> admissions L ip as v \<le> 10)"
proof -
  have ok: "limiters_ok v"
    unfolding assms(1) by (rule login_run_limiters) (simp add: limiters_ok_def NewService_def)
  have "nat (10 - lrl_attempts l) \<le> 10" if "limiter v ip = Some l" for l
    using limiters_okD(2) [OF ok that] by simp
  then show ?thesis using admissions_bound [OF ok assms(2), of L ip] by (auto split: option.splits)
qed

theorem login_rate_bounded_witness:
  "admissions sample_lib ''10.0.0.9'' (replicate 1000 sample_attempt) sample_service \<le> 10"
  using login_rate_bounded [of sample_service sample_lib "[]" auth_store "[]" "replicate 1000 sample_attempt" 5 "''10.0.0.9''"]
  by (simp add: sample_service_def NewService_def sample_attempt_def sample_env_def Minute_def Second_def)

end
