(* ===== verification/AuthHttp.thy ===== *)
theory AuthHttp
  imports AuthLimits
begin

text \<open>
  The middleware and the handlers of the authentication API (\<open>pkg/auth/middleware.go\<close>,
  \<open>handlers.go\<close>).  Of a request only what the code reads is kept; the body is the result of decoding
  its JSON.  A response is an error with its status, code and message, or a status with a value.
  The handlers that lock and unlock a user are part of the theory of the service.
\<close>

section \<open>Requests and responses\<close>

record http_request =
  hr_Method :: string
  hr_Authorization :: string
  hr_Cookie :: "string option"
  hr_Token :: string
  hr_XRealIP :: string
  hr_XForwardedFor :: string
  hr_RemoteAddr :: string
  hr_UserAgent :: string
  hr_Origin :: string

datatype 'a response = ApiError nat string string | Json nat 'a

definition em_dash :: string where
  "em_dash = [CHR 0x20, CHR 0xE2, CHR 0x80, CHR 0x94, CHR 0x20]"

section \<open>Middleware\<close>

text \<open>\<open>strings.SplitN(auth, " ", 2)\<close> and \<open>strings.EqualFold\<close> with a text of ASCII letters none of which is
  the folding of another character.\<close>

fun split_space :: "string \<Rightarrow> string list" where
  "split_space [] = [[]]"
| "split_space (c # cs) = (if c = CHR '' '' then [[], cs] else case split_space cs of w # ws \<Rightarrow> (c # w) # ws | [] \<Rightarrow> [[c]])"

definition extractBearerToken :: "http_request \<Rightarrow> string" where
  "extractBearerToken r =
     (if hr_Authorization r = [] then
        (case hr_Cookie r of Some c \<Rightarrow> c | None \<Rightarrow> if hr_Token r \<noteq> [] then hr_Token r else [])
      else case split_space (hr_Authorization r) of
        [a, b] \<Rightarrow> if to_upper a \<noteq> to_upper ''bearer'' then [] else b
      | _ \<Rightarrow> [])"

definition realIP :: "http_request \<Rightarrow> string" where
  "realIP r =
     (if hr_XRealIP r \<noteq> [] then hr_XRealIP r
      else if hr_XForwardedFor r \<noteq> [] then hd (split_on (CHR '','') (hr_XForwardedFor r))
      else hr_RemoteAddr r)"

definition RequireAuth :: "auth_lib \<Rightarrow> auth_env \<Rightarrow> http_request \<Rightarrow> Service \<Rightarrow> (TokenClaims response + TokenClaims) \<times> Service" where
  "RequireAuth L E r v =
     (let token = extractBearerToken r in
      if token = [] then (Inl (ApiError 401 ''missing_token'' ''Authorization header with Bearer token required''), v)
      else case ValidateRequest L E token v of
        (Inl err, v) \<Rightarrow>
          (Inl (if err = ErrInactivityTimeout
                then ApiError 401 ''session_expired'' (''Session expired due to inactivity'' @ em_dash @ ''please log in again'')
                else if err = ErrSessionRevoked then ApiError 401 ''session_revoked'' ''Session has been revoked''
                else ApiError 401 ''invalid_token'' ''Invalid or expired token''), v)
      | (Inr claims, v) \<Rightarrow> (Inr claims, v))"

text \<open>The other checks see the claims of the context, if there are any, and answer with an error or pass
  the request on.\<close>

type_synonym check = "TokenClaims option \<Rightarrow> TokenClaims response option"

definition RequireTFAVerified :: check where
  "RequireTFAVerified ctx =
     (case ctx of
        None \<Rightarrow> Some (ApiError 401 ''missing_claims'' ''Authentication required'')
      | Some claims \<Rightarrow>
          if \<not> tc_TFAVerified claims
          then Some (ApiError 403 ''tfa_setup_required''
            (''2FA setup required'' @ em_dash @ ''complete enrollment via /auth/totp/begin and /auth/totp/confirm''))
          else None)"

definition RequireScope :: "string \<Rightarrow> check" where
  "RequireScope scope ctx =
     (case ctx of
        None \<Rightarrow> Some (ApiError 401 ''missing_claims'' ''Authentication required'')
      | Some claims \<Rightarrow>
          if tc_Scope claims \<noteq> scope
          then Some (ApiError 403 ''insufficient_scope''
            (''Token scope '' @ [CHR 0x27] @ tc_Scope claims @ [CHR 0x27] @ '' does not satisfy required scope '' @ [CHR 0x27] @ scope @ [CHR 0x27]))
          else None)"

definition RequirePermission :: "Permission \<Rightarrow> check" where
  "RequirePermission perm ctx =
     (case ctx of
        None \<Rightarrow> Some (ApiError 401 ''missing_claims'' ''Authentication required'')
      | Some claims \<Rightarrow>
          if \<not> HasPermission (User0\<lparr>u_Role := tc_Role claims\<rparr>) perm
          then Some (ApiError 403 ''insufficient_permission'' (''Your role does not have permission: '' @ perm))
          else None)"

definition RequireRole :: "Role \<Rightarrow> check" where
  "RequireRole minRole ctx =
     (case ctx of
        None \<Rightarrow> Some (ApiError 401 ''missing_claims'' [])
      | Some claims \<Rightarrow>
          if Role_Level (tc_Role claims) < Role_Level minRole
          then Some (ApiError 403 ''insufficient_role'' (''Minimum required role: '' @ minRole))
          else None)"

text \<open>The headers a middleware sets under their canonical names, as an association list, and whether the request is passed on.\<close>

definition SecurityHeaders :: "(string \<times> string) list \<Rightarrow> (string \<times> string) list" where
  "SecurityHeaders h =
     AList.delete ''Server'' (AList.updates
       [''X-Content-Type-Options'', ''X-Frame-Options'', ''X-Xss-Protection'', ''Referrer-Policy'', ''Content-Security-Policy'',
        ''Strict-Transport-Security'', ''Cache-Control'']
       [''nosniff'', ''DENY'', ''1; mode=block'', ''strict-origin-when-cross-origin'',
        (let q = (\<lambda>s. [CHR 0x27] @ s @ [CHR 0x27]) in
         ''default-src '' @ q ''self'' @ ''; style-src '' @ q ''self'' @ '' '' @ q ''unsafe-inline'' @ ''; script-src '' @ q ''self'' @ '' '' @
         q ''unsafe-inline'' @ ''; img-src '' @ q ''self'' @ '' data:; connect-src '' @ q ''self'' @ '' ws: wss:; frame-ancestors '' @ q ''none'' @
         ''; base-uri '' @ q ''self''),
        ''max-age=63072000; includeSubDomains'', ''no-store''] h)"

definition CORS :: "string list \<Rightarrow> http_request \<Rightarrow> (string \<times> string) list \<Rightarrow> (string \<times> string) list \<times> nat option" where
  "CORS allowedOrigins r h =
     (let origin = hr_Origin r;
          h = (if origin \<in> set allowedOrigins
               then AList.update ''Vary'' ''Origin'' (AList.update ''Access-Control-Allow-Origin'' origin h) else h);
          h = AList.updates
            [''Access-Control-Allow-Methods'', ''Access-Control-Allow-Headers'', ''Access-Control-Allow-Credentials'', ''Access-Control-Max-Age'']
            [''GET,POST,PUT,PATCH,DELETE,OPTIONS'', ''Authorization,Content-Type'', ''true'', ''3600''] h
      in (h, if hr_Method r = ''OPTIONS'' then Some 204 else None))"

section \<open>Handlers\<close>

definition decodeJSON :: "string + 'b \<Rightarrow> ('b \<Rightarrow> Service \<Rightarrow> 'a response \<times> Service) \<Rightarrow> Service \<Rightarrow> 'a response \<times> Service" where
  "decodeJSON body k v = (case body of Inl e \<Rightarrow> (ApiError 400 ''invalid_json'' e, v) | Inr req \<Rightarrow> k req v)"

definition Handler_Login :: "auth_lib \<Rightarrow> auth_env \<Rightarrow> http_request \<Rightarrow> string + LoginRequest \<Rightarrow> Service \<Rightarrow> LoginResponse response \<times> Service" where
  "Handler_Login L E r body = decodeJSON body (\<lambda>req v.
     case Login L E req (realIP r) (hr_UserAgent r) v of
       (Inl err, v) \<Rightarrow>
         (if err = ErrInvalidCredentials then ApiError 401 ''invalid_credentials'' ''Invalid username or password''
          else if err = ErrAccountLocked then ApiError 403 ''account_locked'' (''Account is locked'' @ em_dash @ ''contact your administrator'')
          else if err = ErrTOTPRequired then ApiError 401 ''totp_required'' (''2FA code required'' @ em_dash @ ''enter your authenticator code'')
          else ApiError 429 ''rate_limited'' err, v)
     | (Inr resp, v) \<Rightarrow> (Json 200 resp, v))"

definition Handler_Logout :: "auth_env \<Rightarrow> http_request \<Rightarrow> TokenClaims \<Rightarrow> Service \<Rightarrow> string response \<times> Service" where
  "Handler_Logout E r claims v =
     (case Logout E (tc_SessionID claims) (tc_UserID claims) (realIP r) v of
        (Some err, v) \<Rightarrow> (ApiError 500 ''logout_failed'' err, v)
      | (None, v) \<Rightarrow> (Json 200 ''logged out'', v))"

definition Handler_LogoutAll :: "auth_env \<Rightarrow> http_request \<Rightarrow> TokenClaims \<Rightarrow> Service \<Rightarrow> string response \<times> Service" where
  "Handler_LogoutAll E r claims v =
     (case LogoutAll E (tc_UserID claims) (realIP r) v of
        (Some err, v) \<Rightarrow> (ApiError 500 ''logout_all_failed'' err, v)
      | (None, v) \<Rightarrow> (Json 200 ''all sessions revoked'', v))"

text \<open>The body of a refresh is the session id and the refresh token.\<close>

definition Handler_RefreshTokens :: "auth_lib \<Rightarrow> auth_env \<Rightarrow> string + (string \<times> string) \<Rightarrow> Service \<Rightarrow> TokenPair response \<times> Service" where
  "Handler_RefreshTokens L E body = decodeJSON body (\<lambda>(sessionID, refreshToken) v.
     case RefreshTokens L E sessionID refreshToken v of
       (Inl err, v) \<Rightarrow> (ApiError 401 ''refresh_failed'' err, v)
     | (Inr pair, v) \<Rightarrow> (Json 200 pair, v))"

definition Handler_Me :: "TokenClaims \<Rightarrow> Service \<Rightarrow> UserView response" where
  "Handler_Me claims v =
     (case GetUserByID (tc_UserID claims) (sv_store v) of
        Inl _ \<Rightarrow> ApiError 404 ''user_not_found'' []
      | Inr user \<Rightarrow> Json 200 (UserToView user))"

definition Handler_ChangePassword ::
    "auth_lib \<Rightarrow> auth_env \<Rightarrow> http_request \<Rightarrow> TokenClaims \<Rightarrow> string + ChangePasswordRequest \<Rightarrow> Service \<Rightarrow> string response \<times> Service" where
  "Handler_ChangePassword L E r claims body = decodeJSON body (\<lambda>req v.
     case ChangePassword L E (tc_UserID claims) req (realIP r) v of
       (Some err, v) \<Rightarrow> (ApiError 400 ''password_change_failed'' err, v)
     | (None, v) \<Rightarrow> (Json 200 (''password changed'' @ em_dash @ ''all sessions revoked, please log in again''), v))"

definition Handler_ListUsers :: "Service \<Rightarrow> (UserView list \<times> nat) response" where
  "Handler_ListUsers v = (let views = map UserToView (ListUsers (sv_store v)) in Json 200 (views, length views))"

definition Handler_CreateUser ::
    "auth_lib \<Rightarrow> auth_env \<Rightarrow> http_request \<Rightarrow> TokenClaims \<Rightarrow> string + RegisterRequest \<Rightarrow> Service \<Rightarrow> UserView response \<times> Service" where
  "Handler_CreateUser L E r claims body = decodeJSON body (\<lambda>req v.
     case Register L E req (tc_UserID claims) (realIP r) v of
       (Inl err, v) \<Rightarrow>
         (if err = ErrUserExists then ApiError 409 ''user_exists'' ''Username or email already in use''
          else ApiError 400 ''create_failed'' err, v)
     | (Inr view, v) \<Rightarrow> (Json 201 view, v))"

definition Handler_GetUser :: "string \<Rightarrow> Service \<Rightarrow> UserView response" where
  "Handler_GetUser id' v =
     (case GetUserByID id' (sv_store v) of
        Inl _ \<Rightarrow> ApiError 404 ''user_not_found'' []
      | Inr user \<Rightarrow> Json 200 (UserToView user))"

definition ListRoles :: "(Role \<times> int \<times> Permission list option) list response" where
  "ListRoles = Json 200
     [(RoleSuperAdmin, 5, RolePermissions RoleSuperAdmin), (RoleAdmin, 4, RolePermissions RoleAdmin),
      (RoleSeniorAnalyst, 3, RolePermissions RoleSeniorAnalyst), (RoleAnalyst, 2, RolePermissions RoleAnalyst),
      (RoleViewer, 1, RolePermissions RoleViewer)]"

definition TOTPBegin :: "auth_env \<Rightarrow> TokenClaims \<Rightarrow> Service \<Rightarrow> (string \<times> string list) response \<times> Service" where
  "TOTPBegin E claims v =
     (case BeginTOTPSetup E (tc_UserID claims) v of
        (Inl err, v) \<Rightarrow> (ApiError 500 ''totp_begin_failed'' err, v)
      | (Inr enroll, v) \<Rightarrow> (Json 200 enroll, v))"

text \<open>The answer has the backup codes and, if it could be signed, the upgraded token.  The token is
  issued from a second environment.\<close>

definition TOTPConfirm ::
    "auth_lib \<Rightarrow> auth_env \<Rightarrow> auth_env \<Rightarrow> TokenClaims \<Rightarrow> string + string \<Rightarrow> Service \<Rightarrow> (string list \<times> TokenPair option) response \<times> Service" where
  "TOTPConfirm L E E' claims body = decodeJSON body (\<lambda>code v.
     if length code \<noteq> 6 then (ApiError 400 ''invalid_code'' ''Code must be 6 digits'', v)
     else case ConfirmTOTPSetup L E (tc_UserID claims) code v of
       (Inl err, v) \<Rightarrow> (ApiError 400 ''totp_confirm_failed'' err, v)
     | (Inr backupCodes, v) \<Rightarrow>
         (Json 200 (backupCodes, case IssueUpgradedToken L E' (tc_UserID claims) (tc_SessionID claims) v of Inl _ \<Rightarrow> None | Inr pair \<Rightarrow> Some pair), v))"

definition TOTPDisable :: "auth_env \<Rightarrow> http_request \<Rightarrow> TokenClaims \<Rightarrow> string \<Rightarrow> Service \<Rightarrow> string response \<times> Service" where
  "TOTPDisable E r actorClaims targetID v =
     (case DisableTOTPSetup E targetID (tc_UserID actorClaims) (realIP r) v of
        (Some err, v) \<Rightarrow>
          (if err = ErrUserNotFound then ApiError 404 ''user_not_found'' [] else ApiError 500 ''totp_disable_failed'' err, v)
      | (None, v) \<Rightarrow> (Json 200 (''2FA disabled'' @ em_dash @ ''user sessions revoked, re-login required''), v))"

section \<open>Guarded requests\<close>

text \<open>The checks of a router in the order of their registration, after \<open>RequireAuth\<close>.\<close>

fun run_checks :: "check list \<Rightarrow> TokenClaims \<Rightarrow> TokenClaims response option" where
  "run_checks [] claims = None"
| "run_checks (c # cs) claims = (case c (Some claims) of Some e \<Rightarrow> Some e | None \<Rightarrow> run_checks cs claims)"

definition guarded :: "auth_lib \<Rightarrow> auth_env \<Rightarrow> check list \<Rightarrow> http_request \<Rightarrow> Service \<Rightarrow> (TokenClaims response + TokenClaims) \<times> Service" where
  "guarded L E checks r v =
     (case RequireAuth L E r v of
        (Inl e, v) \<Rightarrow> (Inl e, v)
      | (Inr claims, v) \<Rightarrow> (case run_checks checks claims of Some e \<Rightarrow> (Inl e, v) | None \<Rightarrow> (Inr claims, v)))"

lemma run_checks_None: "run_checks cs claims = None \<longleftrightarrow> (\<forall>c\<in>set cs. c (Some claims) = None)"
  by (induction cs) (auto split: option.split)

lemma check_passes:
  "RequireTFAVerified (Some claims) = None \<longleftrightarrow> tc_TFAVerified claims"
  "RequireScope scope (Some claims) = None \<longleftrightarrow> tc_Scope claims = scope"
  "RequirePermission perm (Some claims) = None \<longleftrightarrow> HasPermission (User0\<lparr>u_Role := tc_Role claims\<rparr>) perm"
  "RequireRole minRole (Some claims) = None \<longleftrightarrow> Role_Level minRole \<le> Role_Level (tc_Role claims)"
  by (auto simp: RequireTFAVerified_def RequireScope_def RequirePermission_def RequireRole_def)

text \<open>A session that is accepted at the two readings of the clock.\<close>

definition live_session :: "clock \<Rightarrow> string \<Rightarrow> Store \<Rightarrow> bool" where
  "live_session clk sid s \<longleftrightarrow>
     (case map_of (st_sessions s) sid of
        None \<Rightarrow> False
      | Some ss \<Rightarrow> \<not> s_Revoked ss \<and> \<not> Session_IsExpired (clk 0) ss \<and> \<not> Session_IsInactive (clk 1) (st_inactivityTimeout s) ss)"

lemma GetSession_live: "(\<exists>ss. GetSession clk sid s = Inr ss) \<longleftrightarrow> live_session clk sid s"
  by (auto simp: GetSession_def live_session_def split: option.split)

lemma ValidateRequest_Inr:
  "fst (ValidateRequest L E tok v) = Inr claims \<longleftrightarrow>
     VerifyAccessToken L (e_clk E 0) tok = Inr claims \<and> live_session (clk_from 1 (e_clk E)) (tc_SessionID claims) (sv_store v)"
  unfolding GetSession_live [symmetric] by (auto simp: ValidateRequest_def split: sum.splits)

lemma RequireAuth_Inr:
  "fst (RequireAuth L E r v) = Inr claims \<longleftrightarrow>
     extractBearerToken r \<noteq> [] \<and> VerifyAccessToken L (e_clk E 0) (extractBearerToken r) = Inr claims
     \<and> live_session (clk_from 1 (e_clk E)) (tc_SessionID claims) (sv_store v)"
proof -
  obtain x v' where x: "ValidateRequest L E (extractBearerToken r) v = (x, v')" by fastforce
  have "fst (RequireAuth L E r v) = Inr claims \<longleftrightarrow> extractBearerToken r \<noteq> [] \<and> fst (ValidateRequest L E (extractBearerToken r) v) = Inr claims"
    by (auto simp: RequireAuth_def Let_def x split: sum.split)
  then show ?thesis by (simp add: ValidateRequest_Inr)
qed

text \<open>C27. A request reaches a handler behind the full chain of checks exactly if it carries a token of the
  service, in the header, the cookie or the query, whose session exists and is neither revoked
  nor expired nor idle too long, with the second factor verified, the full scope and a role that
  has the permission of the handler.\<close>

theorem authed_request:
  "fst (guarded L E [RequireTFAVerified, RequireScope ScopeSession, RequirePermission perm] r v) = Inr claims \<longleftrightarrow>
     extractBearerToken r \<noteq> [] \<and> VerifyAccessToken L (e_clk E 0) (extractBearerToken r) = Inr claims
     \<and> live_session (clk_from 1 (e_clk E)) (tc_SessionID claims) (sv_store v)
     \<and> tc_TFAVerified claims \<and> tc_Scope claims = ScopeSession \<and> HasPermission (User0\<lparr>u_Role := tc_Role claims\<rparr>) perm"
proof -
  obtain x v' where x: "RequireAuth L E r v = (x, v')" by fastforce
  have "fst (guarded L E cs r v) = Inr claims \<longleftrightarrow> fst (RequireAuth L E r v) = Inr claims \<and> (\<forall>c\<in>set cs. c (Some claims) = None)" for cs
    by (auto simp: guarded_def x run_checks_None [symmetric] split: sum.split option.split)
  then show ?thesis by (auto simp: RequireAuth_Inr check_passes)
qed

text \<open>The token of a request, by the place it comes from.\<close>

lemma bearer_header:
  assumes "\<And>c. c \<in> set scheme \<Longrightarrow> c \<noteq> CHR '' ''" "to_upper scheme = ''BEARER''" "hr_Authorization r = scheme @ CHR '' '' # tok"
  shows "extractBearerToken r = tok"
proof -
  have "split_space (w @ CHR '' '' # tok) = [w, tok]" if "\<And>c. c \<in> set w \<Longrightarrow> c \<noteq> CHR '' ''" for w
    using that by (induction w) auto
  moreover have "to_upper ''bearer'' = ''BEARER''" by code_simp
  ultimately show ?thesis using assms by (simp add: extractBearerToken_def)
qed

text \<open>The limiter of logins goes by an address the client chooses: with a new value in the header
  \<open>X-Real-IP\<close> a login is never limited.\<close>

lemma spoofed_address_admitted:
  assumes "distinct (map fst (sv_loginRL v))" "map_of (sv_loginRL v) (limiter_key ip) = None" "ip \<noteq> []"
  shows "realIP (r\<lparr>hr_XRealIP := ip\<rparr>) = ip \<and> fst (checkLoginRate now (realIP (r\<lparr>hr_XRealIP := ip\<rparr>)) v) = None"
proof -
  obtain x v' where x: "checkLoginRate now ip v = (x, v')" by fastforce
  have "live_limiter now v (limiter_key ip) = None" using assms(2) by (simp add: live_limiter_def)
  then show ?thesis using checkLoginRate_limiter(3) [OF assms(1) x] x assms(3) by (simp add: realIP_def)
qed

lemma CORS_origin:
  assumes "map_of h ''Access-Control-Allow-Origin'' = None" "map_of (fst (CORS allowed r h)) ''Access-Control-Allow-Origin'' = Some x"
  shows "x = hr_Origin r \<and> x \<in> set allowed"
  using assms by (auto simp: CORS_def Let_def update_conv' split: if_splits)

section \<open>The upgrade after an enrolment\<close>

lemma ConfirmTOTPSetup_ok:
  assumes "ConfirmTOTPSetup L E uid code v = (Inr codes, v')"
  shows "\<exists>entry. map_of (sv_pendingTOTP v) uid = Some entry \<and> \<not> time_After (e_clk E 0) (pe_expiresAt entry)
    \<and> fst (VerifyTOTPCode (e_clk E 1) (pe_secret entry) code (sv_totpCache v)) \<and> codes = pe_plainCodes entry
    \<and> st_users (sv_store v') = update_key uid (\<lambda>u. u\<lparr>u_TOTPSecret := pe_secret entry, u_TOTPEnabled := True, u_UpdatedAt := e_clk E 2\<rparr>)
        (st_users (sv_store v))
    \<and> map_of (sv_pendingTOTP v') uid = None"
proof -
  obtain entry where entry: "map_of (sv_pendingTOTP v) uid = Some entry"
    using assms by (cases "map_of (sv_pendingTOTP v) uid") (auto simp: ConfirmTOTPSetup_def Let_def)
  obtain ok w where vt: "verifyTOTP (e_clk E 1) (pe_secret entry) code v = (ok, w)" by fastforce
  then have w: "sv_store w = sv_store v" "ok = fst (VerifyTOTPCode (e_clk E 1) (pe_secret entry) code (sv_totpCache v))"
      "sv_pendingTOTP w = sv_pendingTOTP v"
    by (auto simp: verifyTOTP_def Let_def case_prod_unfold)
  have upd: "e = None \<Longrightarrow> st_users s' = update_key uid (\<lambda>u. u\<lparr>u_TOTPSecret := secret, u_TOTPEnabled := True, u_UpdatedAt := t\<rparr>) (st_users (sv_store v))"
    if "UpdateTOTPSecret t err uid secret True (sv_store v) = (e, s')" for t err secret e s'
    using that by (auto simp: UpdateTOTPSecret_def exec_users_def Let_def split: option.splits)
  show ?thesis
    using assms unfolding ConfirmTOTPSetup_def Let_def entry option.case vt prod.case w(1)
    by (auto simp: w session_ops_users(5) on_store_def delete_conv' upd entry split: if_splits sum.splits prod.splits option.splits)
qed

text \<open>C26. The upgrade to a full session needs a code.  If the confirmation of an enrolment returns a token, the
  user had a pending enrolment that had not expired, the six characters sent were a valid code of
  its secret, and from then on the user has that second factor; the token is for this user and the session of
  the request, and the enrolment cannot be confirmed again.\<close>

theorem upgrade_needs_code:
  assumes "TOTPConfirm L E E' claims (Inr code) v = (Json 200 (codes, Some pair), v')"
  shows "\<exists>entry c user. map_of (sv_pendingTOTP v) (tc_UserID claims) = Some entry \<and> e_clk E 0 \<le> pe_expiresAt entry
    \<and> length code = 6 \<and> fst (VerifyTOTPCode (e_clk E 1) (pe_secret entry) code (sv_totpCache v))
    \<and> GetUserByID (tc_UserID claims) (sv_store v') = Inr user \<and> u_TOTPEnabled user \<and> u_TOTPSecret user = pe_secret entry
    \<and> al_sign L c = Inr (tp_AccessToken pair) \<and> fc_Subject c = u_ID user \<and> fc_Role c = u_Role user \<and> fc_SessionID c = tc_SessionID claims
    \<and> fc_TFAVerified c \<and> fc_Scope c = ScopeSession \<and> map_of (sv_pendingTOTP v') (tc_UserID claims) = None"
proof -
  obtain x w where x: "ConfirmTOTPSetup L E (tc_UserID claims) code v = (x, w)" by fastforce
  have len: "length code = 6" and ok: "x = Inr codes" "w = v'" and up: "IssueUpgradedToken L E' (tc_UserID claims) (tc_SessionID claims) v' = Inr pair"
    using assms by (auto simp: TOTPConfirm_def decodeJSON_def x split: if_splits sum.splits)
  obtain entry where entry: "map_of (sv_pendingTOTP v) (tc_UserID claims) = Some entry" "\<not> time_After (e_clk E 0) (pe_expiresAt entry)"
      "fst (VerifyTOTPCode (e_clk E 1) (pe_secret entry) code (sv_totpCache v))"
      "st_users (sv_store v') = update_key (tc_UserID claims) (\<lambda>u. u\<lparr>u_TOTPSecret := pe_secret entry, u_TOTPEnabled := True, u_UpdatedAt := e_clk E 2\<rparr>)
        (st_users (sv_store v))" "map_of (sv_pendingTOTP v') (tc_UserID claims) = None"
    using ConfirmTOTPSetup_ok [OF x [unfolded ok]] by blast
  obtain user where user: "GetUserByID (tc_UserID claims) (sv_store v') = Inr user"
      "al_sign L (access_claims L (e_clk E' 0) user (tc_SessionID claims) True ScopeSession) = Inr (tp_AccessToken pair)"
    using up by (auto simp: IssueUpgradedToken_def GenerateAccessToken_def split: sum.splits)
  have "u_TOTPEnabled user" "u_TOTPSecret user = pe_secret entry"
    using user(1) entry(4) by (auto simp: GetUserByID_def split: option.splits)
  then show ?thesis using user entry len
    by (intro exI [of _ entry] exI [of _ "access_claims L (e_clk E' 0) user (tc_SessionID claims) True ScopeSession"] exI [of _ user])
      (simp add: access_claims_def time_After_def)
qed

definition enrolling :: Service where
  "enrolling = sample_service\<lparr>sv_pendingTOTP := [(''b2'', \<lparr>pe_secret = ''KVKVEU2HKVKTEMKS'', pe_plainCodes = [], pe_expiresAt = 10\<rparr>)]\<rparr>"

definition sample_claims :: TokenClaims where
  "sample_claims = \<lparr>tc_UserID = ''b2'', tc_Username = ''eve'', tc_Role = RoleViewer, tc_SessionID = ''s1'', tc_IssuedAt = 0, tc_ExpiresAt = 900,
     tc_TokenType = ''access'', tc_TFAVerified = True, tc_Scope = ScopeSession, tc_Permissions = []\<rparr>"

theorem upgrade_needs_code_witness:
  "\<exists>code codes pair v' user. TOTPConfirm sample_lib sample_env sample_env sample_claims (Inr code) enrolling = (Json 200 (codes, Some pair), v')
     \<and> GetUserByID ''b2'' (sv_store v') = Inr user \<and> u_TOTPEnabled user"
proof -
  have "base32_DecodeString (to_upper ''KVKVEU2HKVKTEMKS'') \<noteq> None" by code_simp
  then obtain key where key: "base32_DecodeString (to_upper ''KVKVEU2HKVKTEMKS'') = Some key" by blast
  define code where "code = totp_string key (totp_counter (time_Unix 5) (- 1))"
  have v: "fst (VerifyTOTPCode 5 ''KVKVEU2HKVKTEMKS'' code [])" and l: "length code = 6"
    using length_totp_string by (simp_all add: VerifyTOTPCode_def key totp_deltas code_def totpDigits_def Let_def)
  obtain x w where x: "ConfirmTOTPSetup sample_lib sample_env ''b2'' code enrolling = (x, w)" by fastforce
  have w: "x = Inr [] \<and> map_of (st_users (sv_store w)) ''b2'' \<noteq> None"
    using x v unfolding ConfirmTOTPSetup_def
    by (auto simp: enrolling_def sample_service_def NewService_def sample_env_def time_After_def verifyTOTP_def case_prod_unfold Let_def
        UpdateTOTPSecret_def exec_users_def on_store_def session_ops_users(5) auth_store_def auth_db_def sample_db_def sample_user_def User0_def
        split: option.splits prod.splits if_splits)
  then obtain pair where "IssueUpgradedToken sample_lib sample_env ''b2'' ''s1'' w = Inr pair"
    by (auto simp: IssueUpgradedToken_def GetUserByID_def GenerateAccessToken_def sample_lib_def)
  then have c: "TOTPConfirm sample_lib sample_env sample_env sample_claims (Inr code) enrolling = (Json 200 ([], Some pair), w)"
    using l w by (simp add: TOTPConfirm_def decodeJSON_def sample_claims_def x)
  obtain user where "GetUserByID ''b2'' (sv_store w) = Inr user" "u_TOTPEnabled user"
    using upgrade_needs_code [OF c] by (auto simp: sample_claims_def)
  then show ?thesis using c by blast
qed

end
