(* ===== verification/SocServer.thy ===== *)
theory SocServer
  imports AuthHttp BpfManager EventBus
begin

text \<open>
  The SOC backend: the security handlers (\<open>soc-backend/internal/api/security_handler.go\<close>), the
  figures of the dashboard (\<open>dashboard_handler.go\<close>), and the table of routes, the history of metrics
  and the metrics streamer of the server (\<open>internal/server/server.go\<close>).  The map manager is an object that the handlers
  share by pointer: \<open>so_mgr\<close> is the object and \<open>so_sec\<close> and \<open>so_dash\<close> tell which handlers hold a pointer
  to it.  The sentinel file of the manual override is its modification time, \<open>falx.toml\<close> its
  contents; errors of the file system are arguments.  Floating point numbers are exact rationals.
\<close>

section \<open>History of metrics\<close>

record metricsRingBuffer =
  rb_buf :: "bytes list"
  rb_head :: int
  rb_size :: int

definition metricsRingBuffer0 :: metricsRingBuffer where
  "metricsRingBuffer0 = \<lparr>rb_buf = replicate 60 [], rb_head = 0, rb_size = 0\<rparr>"

definition RingBuffer_Add :: "bytes \<Rightarrow> metricsRingBuffer \<Rightarrow> metricsRingBuffer" where
  "RingBuffer_Add data rb =
     \<lparr>rb_buf = (rb_buf rb)[nat (rb_head rb) := data], rb_head = (rb_head rb + 1) mod 60,
      rb_size = (if rb_size rb < 60 then rb_size rb + 1 else rb_size rb)\<rparr>"

definition RingBuffer_Snapshot :: "metricsRingBuffer \<Rightarrow> bytes list" where
  "RingBuffer_Snapshot rb =
     (if rb_size rb = 0 then []
      else let start = (rb_head rb - rb_size rb + 60) mod 60
           in map (\<lambda>i. rb_buf rb ! nat ((start + int i) mod 60)) [0..<nat (rb_size rb)])"

section \<open>State\<close>

record MetricsRates =
  mr_PPS :: float64
  mr_DropPPS :: float64
  mr_PassPPS :: float64
  mr_LimitedPPS :: float64
  mr_MBps :: float64
  mr_SampledAt :: gotime

record soc =
  so_mgr :: "Manager option"
  so_sec :: bool
  so_dash :: bool
  so_bus :: Bus
  so_rates :: MetricsRates
  so_history :: metricsRingBuffer
  so_latch :: "gotime option"
  so_toml :: string

definition sec_mgr :: "soc \<Rightarrow> Manager option" where
  "sec_mgr st = (if so_sec st then so_mgr st else None)"

definition getBPFMgr :: "soc \<Rightarrow> Manager option" where
  "getBPFMgr st = (if so_dash st then so_mgr st else None)"

definition UpdateRates :: "MetricsRates \<Rightarrow> soc \<Rightarrow> soc" where
  "UpdateRates r st = st\<lparr>so_rates := r\<rparr>"

text \<open>\<open>se_id\<close> and \<open>se_now\<close> are what a publication draws and reads, \<open>se_fs\<close> numbers the errors of the file
  system.\<close>

record soc_env =
  se_clk :: clock
  se_id :: string
  se_now :: gotime
  se_fs :: "nat \<Rightarrow> error"

definition publish :: "soc_env \<Rightarrow> Event \<Rightarrow> soc \<Rightarrow> soc" where
  "publish E ev st = st\<lparr>so_bus := Bus_Publish (se_id E) (se_now E) ev (so_bus st)\<rparr>"

section \<open>Security handlers\<close>

record BlockRequest =
  bq_IP :: string
  bq_TTLSeconds :: u64
  bq_ThreatScore :: u8
  bq_Reason :: string
  bq_RuleID :: u8

definition soc_actor :: "TokenClaims \<Rightarrow> string" where
  "soc_actor claims = ''soc:'' @ tc_UserID claims"

text \<open>The answer is the address, the time to live and whether the block is permanent.\<close>

definition SecurityHandler_BlockIP ::
    "kernel \<Rightarrow> soc_env \<Rightarrow> TokenClaims \<Rightarrow> string + BlockRequest \<Rightarrow> soc \<Rightarrow> (string \<times> u64 \<times> bool) response \<times> soc" where
  "SecurityHandler_BlockIP K E claims body st =
     (case body of
        Inl e \<Rightarrow> (ApiError 400 ''invalid_json'' e, st)
      | Inr req \<Rightarrow>
          let ip = ParseIP (bq_IP req) in
          if ip = [] then (ApiError 400 ''invalid_ip'' (''Invalid IP: '' @ bq_IP req), st)
          else
          let ttl = (if tc_Role claims = RoleAnalyst \<and> (bq_TTLSeconds req = 0 \<or> bq_TTLSeconds req > 86400) then 86400 else bq_TTLSeconds req) in
          case sec_mgr st of
            None \<Rightarrow> (ApiError 503 ''bpf_unavailable'' ''BPF maps not accessible'', st)
          | Some mgr \<Rightarrow>
              let entry = BlockEntry0\<lparr>Action := ActionDrop, RuleID := bq_RuleID req, ThreatScore := bq_ThreatScore req,
                    ExpireAt := ttl, Reason := ReasonAIVerdict\<rparr>;
                  actor = soc_actor claims;
                  (err, mgr) = Manager_BlockIPv4 K (se_clk E) ip entry actor mgr;
                  st = st\<lparr>so_mgr := Some mgr\<rparr>
              in case err of
                   Some e \<Rightarrow> (ApiError 429 ''block_failed'' e, st)
                 | None \<Rightarrow>
                     let st = publish E (IPBlockedEvent (IP_String ip) actor (bq_Reason req) ttl) st
                     in (Json 200 (IP_String ip, ttl, ttl = 0), st))"

definition SecurityHandler_UnblockIP :: "kernel \<Rightarrow> soc_env \<Rightarrow> TokenClaims \<Rightarrow> string \<Rightarrow> soc \<Rightarrow> string response \<times> soc" where
  "SecurityHandler_UnblockIP K E claims ipStr st =
     (let ip = ParseIP ipStr in
      if ip = [] then (ApiError 400 ''invalid_ip'' (''Invalid IP: '' @ ipStr), st)
      else case sec_mgr st of
        None \<Rightarrow> (ApiError 503 ''bpf_unavailable'' [], st)
      | Some mgr \<Rightarrow>
          let actor = soc_actor claims;
              (err, mgr) = Manager_UnblockIPv4 K (se_clk E) ip actor mgr;
              st = st\<lparr>so_mgr := Some mgr\<rparr>
          in case err of
               Some e \<Rightarrow> (ApiError 404 ''unblock_failed'' e, st)
             | None \<Rightarrow> (Json 200 (IP_String ip), publish E (IPUnblockedEvent (IP_String ip) actor) st))"

text \<open>The body has the address and the time to live.\<close>

definition SecurityHandler_RedirectIP :: "kernel \<Rightarrow> soc_env \<Rightarrow> TokenClaims \<Rightarrow> string + (string \<times> u64) \<Rightarrow> soc \<Rightarrow> string response \<times> soc" where
  "SecurityHandler_RedirectIP K E claims body st =
     (case body of
        Inl e \<Rightarrow> (ApiError 400 ''invalid_json'' e, st)
      | Inr (ipStr, ttl) \<Rightarrow>
          let ip = ParseIP ipStr in
          if ip = [] then (ApiError 400 ''invalid_ip'' ipStr, st)
          else case sec_mgr st of
            None \<Rightarrow> (ApiError 503 ''bpf_unavailable'' [], st)
          | Some mgr \<Rightarrow>
              let entry = BlockEntry0\<lparr>Action := ActionRedirect, ExpireAt := ttl, Reason := ReasonAIVerdict\<rparr>;
                  (err, mgr) = Manager_BlockIPv4 K (se_clk E) ip entry (soc_actor claims) mgr;
                  st = st\<lparr>so_mgr := Some mgr\<rparr>
              in case err of
                   Some e \<Rightarrow> (ApiError 429 ''redirect_failed'' e, st)
                 | None \<Rightarrow> (Json 200 (IP_String ip), st))"

definition SecurityStats :: "kernel \<Rightarrow> soc \<Rightarrow> XdpStats option response" where
  "SecurityStats K st =
     (case sec_mgr st of
        None \<Rightarrow> Json 200 None
      | Some mgr \<Rightarrow> (case Manager_ReadStats K mgr of Inl e \<Rightarrow> ApiError 500 ''stats_failed'' e | Inr stats \<Rightarrow> Json 200 (Some stats)))"

text \<open>Whether the circuit is open, and the state if the maps are there.\<close>

definition FailsafeStatus :: "kernel \<Rightarrow> soc \<Rightarrow> (bool \<times> FailsafeState option) response" where
  "FailsafeStatus K st =
     (case sec_mgr st of
        None \<Rightarrow> Json 200 (False, None)
      | Some mgr \<Rightarrow>
          (case Manager_ReadFailsafeState K mgr of
             Inl e \<Rightarrow> ApiError 500 ''failsafe_read_failed'' e
           | Inr state \<Rightarrow> Json 200 (CircuitOpen state = 1, Some state)))"

text \<open>\<open>reqReason\<close> is what decoding left in the request, whose error is ignored.\<close>

definition ForceOpenCircuit :: "kernel \<Rightarrow> soc_env \<Rightarrow> TokenClaims \<Rightarrow> string \<Rightarrow> soc \<Rightarrow> string response \<times> soc" where
  "ForceOpenCircuit K E claims reqReason st =
     (case sec_mgr st of
        None \<Rightarrow> (ApiError 503 ''bpf_unavailable'' [], st)
      | Some mgr \<Rightarrow>
          let reason = ''soc_manual:'' @ tc_UserID claims @ '':'' @ reqReason;
              (err, mgr) = Manager_SetCircuitOpen K (se_clk E) True reason mgr;
              st = st\<lparr>so_mgr := Some mgr\<rparr>
          in case err of
               Some e \<Rightarrow> (ApiError 500 ''failsafe_failed'' e, st)
             | None \<Rightarrow>
                 let st = (if se_fs E 0 = None then st\<lparr>so_latch := None\<rparr> else st)
                 in (Json 200 reason, publish E (CircuitOpenEvent 0 reason) st))"

definition ForceCloseCircuit :: "kernel \<Rightarrow> soc_env \<Rightarrow> TokenClaims \<Rightarrow> soc \<Rightarrow> gotime response \<times> soc" where
  "ForceCloseCircuit K E claims st =
     (case sec_mgr st of
        None \<Rightarrow> (ApiError 503 ''bpf_unavailable'' [], st)
      | Some mgr \<Rightarrow>
          let reason = ''soc_manual:'' @ tc_UserID claims;
              (err, mgr) = Manager_SetCircuitOpen K (se_clk E) False reason mgr;
              st = st\<lparr>so_mgr := Some mgr\<rparr>
          in case err of
               Some e \<Rightarrow> (ApiError 500 ''failsafe_failed'' e, st)
             | None \<Rightarrow>
                 let st = (if se_fs E 0 = None then st\<lparr>so_latch := Some (se_clk E 3)\<rparr> else st);
                     st = publish E (CircuitClosedEvent 0) st
                 in (Json 200 (time_Add (se_clk E 4) (5 * Minute)), st))"

section \<open>Persistent thresholds\<close>

text \<open>The expressions \<open>(?m)^key\s*=\s*\d+\<close>: the rest after a match at the start of a text, and the
  replacement of every match, from left to right; \<open>bol\<close> tells whether a line begins here.\<close>

definition is_ws :: "char \<Rightarrow> bool" where
  "is_ws c \<longleftrightarrow> c \<in> {CHR 0x09, CHR 0x0A, CHR 0x0C, CHR 0x0D, CHR 0x20}"

definition match_assign :: "string \<Rightarrow> string \<Rightarrow> string option" where
  "match_assign key s =
     (if take (length key) s \<noteq> key then None
      else case dropWhile is_ws (drop (length key) s) of
        [] \<Rightarrow> None
      | c # r \<Rightarrow>
          if c \<noteq> CHR ''='' then None
          else let r = dropWhile is_ws r in
            if takeWhile is_dec_digit r = [] then None else Some (dropWhile is_dec_digit r))"

lemma match_assign_shorter: "match_assign key s = Some r \<Longrightarrow> length r < length s"
proof -
  assume m: "match_assign key s = Some r"
  then obtain c r' where d: "dropWhile is_ws (drop (length key) s) = c # r'"
      and r: "r = dropWhile is_dec_digit (dropWhile is_ws r')"
    by (auto simp: match_assign_def Let_def split: if_splits list.splits)
  have "length r \<le> length r'" unfolding r using length_dropWhile_le le_trans by blast
  moreover have "length (c # r') \<le> length s" using length_dropWhile_le [of is_ws "drop (length key) s"] unfolding d by simp
  ultimately show ?thesis by simp
qed

function replace_assign :: "string \<Rightarrow> string \<Rightarrow> bool \<Rightarrow> string \<Rightarrow> string" where
  "replace_assign key repl bol [] = []"
| "replace_assign key repl bol (c # cs) =
     (case (if bol then match_assign key (c # cs) else None) of
        Some rest \<Rightarrow> repl @ replace_assign key repl False rest
      | None \<Rightarrow> c # replace_assign key repl (c = CHR 0x0A) cs)"
  by pat_completeness auto

termination
  by (relation "measure (\<lambda>(key, repl, bol, s). length s)") (auto split: if_splits dest: match_assign_shorter)

definition patch_thresholds :: "u64 \<Rightarrow> u64 \<Rightarrow> string \<Rightarrow> string" where
  "patch_thresholds pps bps data =
     (let patched = replace_assign ''pps_threshold'' (''pps_threshold = '' @ dec (unat pps)) True data
      in replace_assign ''bps_threshold'' (''bps_threshold = '' @ dec (unat bps)) True patched)"

text \<open>Errors 0 to 2 are those of reading, writing and renaming.\<close>

definition persistFailsafeThresholds :: "(nat \<Rightarrow> error) \<Rightarrow> string \<Rightarrow> u64 \<Rightarrow> u64 \<Rightarrow> string \<Rightarrow> error \<times> string" where
  "persistFailsafeThresholds err path pps bps data =
     (case err 0 of
        Some e \<Rightarrow> (Some (''read '' @ path @ '': '' @ e), data)
      | None \<Rightarrow>
     (case err 1 of
        Some e \<Rightarrow> (Some (''write '' @ path @ ''.tmp: '' @ e), data)
      | None \<Rightarrow>
     (case err 2 of
        Some e \<Rightarrow> (Some (''rename '' @ path @ ''.tmp -> '' @ path @ '': '' @ e), data)
      | None \<Rightarrow> (None, patch_thresholds pps bps data))))"

definition falxTomlPath :: string where "falxTomlPath = ''/etc/falx/falx.toml''"

text \<open>The answer is the two thresholds and, if they could not be persisted, the error.  The reload of
  the daemon that follows is another process.\<close>

definition UpdateThresholds :: "kernel \<Rightarrow> soc_env \<Rightarrow> string + (u64 \<times> u64) \<Rightarrow> soc \<Rightarrow> (u64 \<times> u64 \<times> error) response \<times> soc" where
  "UpdateThresholds K E body st =
     (case body of
        Inl e \<Rightarrow> (ApiError 400 ''invalid_json'' e, st)
      | Inr (pps, bps) \<Rightarrow>
          if pps = 0 \<or> bps = 0
          then (ApiError 400 ''invalid_thresholds'' ''Both pps_threshold and bps_threshold must be > 0'', st)
          else case sec_mgr st of
            None \<Rightarrow> (ApiError 503 ''bpf_unavailable'' [], st)
          | Some mgr \<Rightarrow>
              let (err, mgr) = Manager_UpdateFailsafeThresholds K (se_clk E 0) pps bps mgr;
                  st = st\<lparr>so_mgr := Some mgr\<rparr>
              in case err of
                   Some e \<Rightarrow> (ApiError 500 ''update_failed'' e, st)
                 | None \<Rightarrow>
                     let (perr, toml) = persistFailsafeThresholds (se_fs E) falxTomlPath pps bps (so_toml st)
                     in (Json 200 (pps, bps, perr), st\<lparr>so_toml := toml\<rparr>))"

section \<open>Dashboard\<close>

definition drop_percentage :: "XdpStats \<Rightarrow> float64" where
  "drop_percentage stats =
     (if RxPackets stats > 0
      then of_nat (unat (Dropped stats + RateLimited stats)) / of_nat (unat (RxPackets stats)) * 100 else 0)"

definition computeThreatLevel :: "kernel \<Rightarrow> Manager option \<Rightarrow> string" where
  "computeThreatLevel K mgr =
     (case mgr of
        None \<Rightarrow> ''unknown''
      | Some m \<Rightarrow>
     (case Manager_ReadFailsafeState K m of
        Inl _ \<Rightarrow> ''unknown''
      | Inr fs \<Rightarrow>
          if CircuitOpen fs = 1 then ''critical''
          else (case Manager_ReadStats K m of
             Inl _ \<Rightarrow> ''unknown''
           | Inr stats \<Rightarrow>
               if RxPackets stats = 0 then ''low''
               else let totalDrops = Dropped stats + RateLimited stats;
                        ratio = of_nat (unat totalDrops) / of_nat (unat (RxPackets stats)) :: float64
                    in if ratio > 1 / 2 then ''high'' else if ratio > 1 / 5 then ''medium'' else ''low'')))"

section \<open>The metrics streamer\<close>

record streamer =
  sm_prevStats :: XdpStats
  sm_prevAt :: gotime
  sm_first :: bool

definition rate_of :: "u64 \<Rightarrow> u64 \<Rightarrow> float64 \<Rightarrow> float64" where
  "rate_of new old elapsed = of_nat (unat (new - old)) / elapsed"

definition clamp :: "float64 \<Rightarrow> float64" where
  "clamp r = (if r < 0 then 0 else r)"

text \<open>One tick with what \<open>ReadStats\<close> returned; \<open>marshal\<close> is the JSON encoder.\<close>

definition streamer_tick ::
    "(Event \<Rightarrow> string + bytes) \<Rightarrow> soc_env \<Rightarrow> gotime \<Rightarrow> string + XdpStats \<Rightarrow> streamer \<times> soc \<Rightarrow> streamer \<times> soc" where
  "streamer_tick marshal E now read s =
     (case s of (sm, st) \<Rightarrow>
     (case read of
        Inl _ \<Rightarrow> (sm, st)
      | Inr stats \<Rightarrow>
          if sm_first sm then (\<lparr>sm_prevStats = stats, sm_prevAt = now, sm_first = False\<rparr>, st)
          else
          let prev = sm_prevStats sm;
              elapsed = of_int (time_Sub now (sm_prevAt sm)) / of_int Second :: float64;
              elapsed = (if elapsed \<le> 0 then 1 else elapsed);
              pps = clamp (rate_of (RxPackets stats) (RxPackets prev) elapsed);
              dropPPS = clamp (rate_of (Dropped stats) (Dropped prev) elapsed);
              passPPS = clamp (rate_of (Passed stats) (Passed prev) elapsed);
              limitedPPS = clamp (rate_of (RateLimited stats) (RateLimited prev) elapsed);
              mbps = clamp (of_nat (unat (RxBytes stats - RxBytes prev)) * 8 / 1000000 / elapsed);
              st = UpdateRates \<lparr>mr_PPS = pps, mr_DropPPS = dropPPS, mr_PassPPS = passPPS, mr_LimitedPPS = limitedPPS,
                     mr_MBps = mbps, mr_SampledAt = now\<rparr> st;
              ev = MetricsSnapshotEvent pps dropPPS passPPS limitedPPS mbps;
              st = publish E ev st;
              st = (case marshal ev of Inl _ \<Rightarrow> st | Inr frame \<Rightarrow> st\<lparr>so_history := RingBuffer_Add frame (so_history st)\<rparr>)
          in (\<lparr>sm_prevStats = stats, sm_prevAt = now, sm_first = False\<rparr>, st)))"

text \<open>The start, with or without the maps, and the attachment of maps that appear later.\<close>

definition soc_start :: "Manager option \<Rightarrow> Bus \<Rightarrow> string \<Rightarrow> soc" where
  "soc_start mgr bus toml =
     \<lparr>so_mgr = mgr, so_sec = (mgr \<noteq> None), so_dash = (mgr \<noteq> None), so_bus = bus,
      so_rates = \<lparr>mr_PPS = 0, mr_DropPPS = 0, mr_PassPPS = 0, mr_LimitedPPS = 0, mr_MBps = 0, mr_SampledAt = 0\<rparr>,
      so_history = metricsRingBuffer0, so_latch = None, so_toml = toml\<rparr>"

definition late_attach :: "Manager \<Rightarrow> soc \<Rightarrow> soc" where
  "late_attach mgr st = st\<lparr>so_mgr := Some mgr, so_dash := True\<rparr>"

section \<open>Routes\<close>

datatype guard = GAuth | GTFA | GScope string | GPerm Permission | GRole Role

record route =
  rt_method :: string
  rt_path :: string
  rt_guards :: "guard list"
  rt_handler :: string

text \<open>The three subrouters: their prefix and their checks.\<close>

definition pub :: "string \<Rightarrow> string \<Rightarrow> string \<Rightarrow> route" where
  "pub m p h = \<lparr>rt_method = m, rt_path = ''/api/v1/auth'' @ p, rt_guards = [], rt_handler = h\<rparr>"

definition authOnly :: "string \<Rightarrow> string \<Rightarrow> string \<Rightarrow> route" where
  "authOnly m p h = \<lparr>rt_method = m, rt_path = ''/api/v1'' @ p, rt_guards = [GAuth], rt_handler = h\<rparr>"

definition authed :: "string \<Rightarrow> string \<Rightarrow> guard list \<Rightarrow> string \<Rightarrow> route" where
  "authed m p gs h = \<lparr>rt_method = m, rt_path = ''/api/v1'' @ p, rt_guards = [GAuth, GTFA, GScope ScopeSession] @ gs, rt_handler = h\<rparr>"

definition buildRouter :: "route list" where
  "buildRouter =
     [pub ''POST'' ''/login'' ''Login'', pub ''POST'' ''/refresh'' ''RefreshTokens'',
      authOnly ''POST'' ''/auth/logout'' ''Logout'', authOnly ''POST'' ''/auth/logout-all'' ''LogoutAll'', authOnly ''GET'' ''/auth/me'' ''Me'',
      authOnly ''POST'' ''/auth/totp/begin'' ''TOTPBegin'', authOnly ''POST'' ''/auth/totp/confirm'' ''TOTPConfirm'',
      authed ''PUT'' ''/auth/me/password'' [] ''ChangePassword'', authed ''GET'' ''/auth/roles'' [] ''ListRoles'',
      authed ''GET'' ''/dashboard'' [GPerm PermDashboardView] ''Overview'', authed ''GET'' ''/dashboard/stats'' [GPerm PermDashboardView] ''Stats'',
      authed ''GET'' ''/dashboard/threats'' [GPerm PermDashboardView] ''Threats'',
      authed ''GET'' ''/dashboard/timeline'' [GPerm PermDashboardView] ''Timeline'',
      authed ''GET'' ''/notifications'' [GPerm PermDashboardView] ''List'',
      authed ''PUT'' ''/notifications/{id}/read'' [GPerm PermDashboardView] ''MarkRead'',
      authed ''GET'' ''/notifications/unread-count'' [GPerm PermDashboardView] ''UnreadCount'',
      authed ''GET'' ''/system/health'' [GPerm PermDashboardView] ''Health'',
      authed ''GET'' ''/security/blocklist'' [GPerm PermTelemetryRead] ''ListBlocked'',
      authed ''POST'' ''/security/block'' [GPerm PermIPBlockTemp] ''BlockIP'',
      authed ''DELETE'' ''/security/block/{ip}'' [GPerm PermIPBlock] ''UnblockIP'',
      authed ''POST'' ''/security/redirect'' [GPerm PermIPBlock] ''RedirectIP'',
      authed ''GET'' ''/security/rate-buckets'' [GPerm PermTelemetryRead] ''RateBuckets'',
      authed ''GET'' ''/security/honeypot/sessions'' [GPerm PermTelemetryRead] ''HoneypotSessions'',
      authed ''GET'' ''/security/stats'' [GPerm PermTelemetryRead] ''SecurityStats'',
      authed ''GET'' ''/failsafe'' [GPerm PermFailsafeView] ''FailsafeStatus'',
      authed ''POST'' ''/failsafe/open'' [GPerm PermFailsafeControl] ''ForceOpenCircuit'',
      authed ''POST'' ''/failsafe/close'' [GPerm PermFailsafeControl] ''ForceCloseCircuit'',
      authed ''PUT'' ''/failsafe/thresholds'' [GPerm PermFailsafeControl] ''UpdateThresholds'',
      authed ''GET'' ''/policy/rules'' [GPerm PermPolicyRead] ''ListRules'', authed ''POST'' ''/policy/rules'' [GPerm PermPolicyCreate] ''CreateRule'',
      authed ''GET'' ''/policy/rules/{id}'' [GPerm PermPolicyRead] ''GetRule'', authed ''PUT'' ''/policy/rules/{id}'' [GPerm PermPolicyCreate] ''UpdateRule'',
      authed ''DELETE'' ''/policy/rules/{id}'' [GPerm PermPolicyDelete] ''DeleteRule'',
      authed ''POST'' ''/policy/rules/{id}/enable'' [GPerm PermPolicyCreate] ''EnableRule'',
      authed ''POST'' ''/policy/rules/{id}/disable'' [GPerm PermPolicyCreate] ''DisableRule'',
      authed ''POST'' ''/policy/reload'' [GPerm PermPolicyCreate] ''ReloadRules'', authed ''GET'' ''/policy/stats'' [GPerm PermPolicyRead] ''GetStats'',
      authed ''GET'' ''/users'' [GPerm PermUserList] ''ListUsers'', authed ''POST'' ''/users'' [GPerm PermUserCreate] ''CreateUser'',
      authed ''GET'' ''/users/{id}'' [GPerm PermUserList] ''GetUser'', authed ''PUT'' ''/users/{id}/lock'' [GPerm PermUserCreate] ''LockUser'',
      authed ''PUT'' ''/users/{id}/unlock'' [GPerm PermUserCreate] ''UnlockUser'',
      authed ''DELETE'' ''/users/{id}/totp'' [GRole RoleSuperAdmin] ''TOTPDisable'',
      authed ''GET'' ''/audit'' [GPerm PermAuditRead] ''GetAuditLog'',
      authed ''GET'' ''/system/config'' [GRole RoleSuperAdmin] ''GetConfig'', authed ''PUT'' ''/system/config'' [GRole RoleSuperAdmin] ''UpdateConfig'',
      authed ''GET'' ''/system/metrics-summary'' [GPerm PermUserList] ''MetricsSummary'',
      \<lparr>rt_method = [], rt_path = ''/ws'', rt_guards = [GAuth, GTFA], rt_handler = ''HandleUpgrade''\<rparr>,
      \<lparr>rt_method = ''GET'', rt_path = ''/healthz'', rt_guards = [], rt_handler = ''Liveness''\<rparr>,
      \<lparr>rt_method = ''GET'', rt_path = ''/readyz'', rt_guards = [], rt_handler = ''Readiness''\<rparr>,
      \<lparr>rt_method = [], rt_path = ''/'', rt_guards = [], rt_handler = ''serveDashboard''\<rparr>]"

section \<open>The history is the last sixty frames\<close>

lemma ring_state:
  assumes "rb = fold RingBuffer_Add xs metricsRingBuffer0"
  shows "length (rb_buf rb) = 60 \<and> rb_head rb = int (length xs mod 60) \<and> rb_size rb = int (min 60 (length xs))
    \<and> (\<forall>k < length xs. length xs \<le> k + 60 \<longrightarrow> rb_buf rb ! (k mod 60) = xs ! k)"
  using assms
proof (induction xs arbitrary: rb rule: rev_induct)
  case Nil
  then show ?case by (simp add: metricsRingBuffer0_def)
next
  case (snoc x xs)
  let ?n = "length xs"
  define r0 where "r0 = fold RingBuffer_Add xs metricsRingBuffer0"
  note IH = snoc.IH [OF r0_def]
  have rb: "rb = RingBuffer_Add x r0" using snoc.prems by (simp add: r0_def)
  have "(int (?n mod 60) + 1) mod 60 = int (Suc ?n mod 60)" unfolding zmod_int of_nat_Suc of_nat_numeral by presburger
  moreover have "rb_buf rb ! (k mod 60) = (xs @ [x]) ! k" if k: "k < Suc ?n" "Suc ?n \<le> k + 60" for k
  proof (cases "k = ?n")
    case True
    then show ?thesis using IH by (simp add: rb RingBuffer_Add_def)
  next
    case False
    then have lt: "k < ?n" using k(1) by simp
    have "k mod 60 \<noteq> ?n mod 60"
    proof
      assume "k mod 60 = ?n mod 60"
      then have "60 dvd ?n - k" using lt mod_eq_dvd_iff_nat [of k ?n 60] by (simp add: eq_commute)
      then show False using lt k(2) by (auto dest: dvd_imp_le)
    qed
    then show ?thesis using IH lt k(2) by (simp add: rb RingBuffer_Add_def nth_append)
  qed
  ultimately show ?case using IH by (auto simp: rb RingBuffer_Add_def)
qed

text \<open>C40. A new client is seeded with the recent history: whatever frames were added, in whatever number, the
  snapshot is the last sixty of them, oldest first.\<close>

theorem history_is_last_sixty:
  "RingBuffer_Snapshot (fold RingBuffer_Add xs metricsRingBuffer0) = drop (length xs - 60) xs"
proof -
  define rb where "rb = fold RingBuffer_Add xs metricsRingBuffer0"
  note st = ring_state [OF rb_def]
  define n m where "n = length xs" and "m = min 60 n"
  have sz: "rb_size rb = int m" "rb_head rb = int (n mod 60)" using st by (auto simp: n_def m_def)
  have idx: "nat (((rb_head rb - rb_size rb + 60) mod 60 + int i) mod 60) = (n - m + i) mod 60" for i
  proof -
    have "int (n - m + i) = int n - int m + int i" by (simp add: m_def of_nat_diff)
    moreover have "((int n mod 60 - int m + 60) mod 60 + int i) mod 60 = (int n - int m + int i) mod 60"
      unfolding mod_add_self2 mod_diff_left_eq mod_add_left_eq ..
    ultimately have "((rb_head rb - rb_size rb + 60) mod 60 + int i) mod 60 = int ((n - m + i) mod 60)"
      unfolding sz zmod_int of_nat_numeral by (simp only:)
    then show ?thesis by (simp only: nat_int)
  qed
  have "RingBuffer_Snapshot rb = map (\<lambda>i. rb_buf rb ! ((n - m + i) mod 60)) [0..<m]"
    by (simp only: RingBuffer_Snapshot_def Let_def idx) (simp add: sz(1))
  also have "\<dots> = map (\<lambda>i. xs ! (n - m + i)) [0..<m]"
    using st by (intro map_cong refl) (auto simp: n_def m_def)
  also have "\<dots> = drop (n - 60) xs" by (rule nth_equalityI) (auto simp: n_def m_def min_def)
  finally show ?thesis by (simp add: rb_def n_def)
qed

section \<open>Rates\<close>

text \<open>As long as a counter does not go back, its rate is the difference over the time; the
  difference of unsigned counters is never negative, so the clamping of negative rates never takes effect, and a
  counter that was reset shows as a rate near \<open>2\<^sup>64\<close>.\<close>

lemma rate_exact: "old \<le> new \<Longrightarrow> rate_of new old elapsed = (of_nat (unat new) - of_nat (unat old)) / elapsed"
  by (simp add: rate_of_def unat_sub word_le_nat_alt of_nat_diff)

lemma clamp_rate:
  assumes "0 < elapsed"
  shows "clamp (rate_of new old elapsed) = rate_of new old elapsed"
proof -
  have "0 \<le> rate_of new old elapsed" unfolding rate_of_def by (rule divide_nonneg_pos [OF of_nat_0_le_iff assms])
  then show ?thesis by (simp add: clamp_def)
qed

lemma counter_reset_spike:
  assumes "new < old" "0 < elapsed"
  shows "clamp (rate_of new old elapsed) = (2 ^ 64 - (of_nat (unat old) - of_nat (unat new))) / elapsed"
proof -
  have lt: "unat new < unat old" using assms(1) by (simp add: word_less_nat_alt)
  then have "unat (new - old) = 2 ^ 64 - (unat old - unat new)"
    using unat_sub_if_size [of new old] by (simp add: word_size)
  moreover have "unat old - unat new \<le> 2 ^ 64" using unsigned_less [of old, where ?'a = nat] by simp
  ultimately have "(of_nat (unat (new - old)) :: float64) = 2 ^ 64 - (of_nat (unat old) - of_nat (unat new))"
    using lt by (simp only: of_nat_diff less_imp_le of_nat_power of_nat_numeral)
  then show ?thesis using clamp_rate [OF assms(2), of new old] by (simp only: rate_of_def)
qed

text \<open>The security handlers were built before the maps appeared and do not get them later.\<close>

lemma late_attach_skips_security:
  "sec_mgr (late_attach mgr (soc_start None bus toml)) = None" "getBPFMgr (late_attach mgr (soc_start None bus toml)) = Some mgr"
  by (simp_all add: late_attach_def soc_start_def sec_mgr_def getBPFMgr_def)

section \<open>Blocking an address over the API\<close>

lemma publish_mgr [simp]: "so_mgr (publish E ev st) = so_mgr st"
  by (simp add: publish_def)

lemma BlockIP_ok:
  assumes "SecurityHandler_BlockIP K E claims body st = (Json 200 (ip, ttl, perm), st')"
  obtains req mgr mgr' entry where "body = Inr req" "sec_mgr st = Some mgr" "so_mgr st' = Some mgr'"
    "Manager_BlockIPv4 K (se_clk E) (ParseIP (bq_IP req)) entry (soc_actor claims) mgr = (None, mgr')"
    "ExpireAt entry = ttl" "Action entry = ActionDrop" "ip = IP_String (ParseIP (bq_IP req))" "perm \<longleftrightarrow> ttl = 0"
    "tc_Role claims = RoleAnalyst \<Longrightarrow> 0 < ttl \<and> ttl \<le> 86400"
proof -
  obtain req where body: "body = Inr req" using assms by (cases body) (auto simp: SecurityHandler_BlockIP_def)
  define t where "t = (if tc_Role claims = RoleAnalyst \<and> (bq_TTLSeconds req = 0 \<or> bq_TTLSeconds req > 86400) then 86400 else bq_TTLSeconds req)"
  define entry where "entry = BlockEntry0\<lparr>Action := ActionDrop, RuleID := bq_RuleID req, ThreatScore := bq_ThreatScore req,
      ExpireAt := t, Reason := ReasonAIVerdict\<rparr>"
  note step = assms [unfolded SecurityHandler_BlockIP_def body sum.case Let_def t_def [symmetric] entry_def [symmetric]]
  obtain mgr where mgr: "sec_mgr st = Some mgr" using step by (cases "sec_mgr st") (auto split: if_splits)
  obtain e mgr' where b: "Manager_BlockIPv4 K (se_clk E) (ParseIP (bq_IP req)) entry (soc_actor claims) mgr = (e, mgr')" by fastforce
  have r: "ParseIP (bq_IP req) \<noteq> []" "e = None" "ttl = t" "ip = IP_String (ParseIP (bq_IP req))" "perm = (t = 0)" "so_mgr st' = Some mgr'"
    using step by (auto simp: mgr b split: if_splits option.splits)
  have "0 < t \<and> t \<le> 86400" if "tc_Role claims = RoleAnalyst"
    using that by (simp add: t_def word_gt_0 not_less)
  then show thesis
    using r by (intro that [OF body mgr r(6) b [unfolded r(2)]]) (simp_all add: entry_def BlockEntry0_def)
qed

text \<open>C25. A block over the API takes effect, and an analyst cannot block for ever.  If the request is answered with
  success, the maps were attached and from then on every query finds the address blocked exactly until the
  time to live of the answer has passed, for ever when it is 0, and for an analyst at most a day.  This holds
  for times to live below a thousand million seconds; a greater one, which only a higher role can
  ask for, is answered with success as well, but taken for a point in time: the address is blocked until
  that many seconds after 1970, and not at all if that lies in the past.\<close>

theorem soc_block_effect:
  assumes "ebpf_reliable (k_v4 K)" "SecurityHandler_BlockIP K E claims (Inr req) st = (Json 200 (ip, ttl, perm), st')"
    and "0 \<le> time_Unix (se_clk E 1)" "time_Unix (se_clk E 1) < 2 ^ 63" "0 \<le> time_Unix now" "time_Unix now < 2 ^ 63"
  shows "\<exists>mgr. so_mgr st' = Some mgr
    \<and> (fst (Manager_IsBlockedIPv4 K now (ParseIP (bq_IP req)) mgr) \<longleftrightarrow> ttl = 0
         \<or> time_Unix now < (if ttl < 1000000000 then time_Unix (se_clk E 1) + int (unat ttl) else int (unat ttl)))
    \<and> (tc_Role claims = RoleAnalyst \<longrightarrow> 0 < ttl \<and> ttl \<le> 86400)"
proof (rule BlockIP_ok [OF assms(2)])
  fix req' mgr mgr' entry
  assume r: "Inr req = (Inr req' :: string + BlockRequest)" and m: "so_mgr st' = Some mgr'"
    and b: "Manager_BlockIPv4 K (se_clk E) (ParseIP (bq_IP req')) entry (soc_actor claims) mgr = (None, mgr')"
    and x: "ExpireAt entry = ttl" and a: "tc_Role claims = RoleAnalyst \<Longrightarrow> 0 < ttl \<and> ttl \<le> 86400"
  let ?q = "fst (Manager_IsBlockedIPv4 K now (ParseIP (bq_IP req)) mgr')"
  have u: "blocked_until (se_clk E 1) entry = (if ttl = 0 then None
      else Some (if ttl < 1000000000 then time_Unix (se_clk E 1) + int (unat ttl) else int (unat ttl)))"
    by (simp only: blocked_until_def x uint_nat split: if_split) simp
  have q: "?q \<longleftrightarrow> ttl = 0 \<or> time_Unix now < (if ttl < 1000000000 then time_Unix (se_clk E 1) + int (unat ttl) else int (unat ttl))"
    using blocked_query [OF assms(1) b _ assms(3-6), of "ParseIP (bq_IP req)"] r unfolding u by (cases "ttl = 0") auto
  then show ?thesis using m q a by blast
qed

definition analyst :: TokenClaims where
  "analyst = sample_claims\<lparr>tc_UserID := ''c3'', tc_Role := RoleAnalyst\<rparr>"

definition sample_soc :: soc where
  "sample_soc = soc_start (Some (falx_manager (\<lambda>_. 0) DefaultRateLimitConfig)) NewBus []"

definition sample_senv :: soc_env where
  "sample_senv = \<lparr>se_clk = (\<lambda>_. 62135597000000000000), se_id = ''e1'', se_now = 62135597000000000000, se_fs = (\<lambda>_. None)\<rparr>"

definition sample_block :: BlockRequest where
  "sample_block = \<lparr>bq_IP = ''10.0.0.1'', bq_TTLSeconds = 0, bq_ThreatScore = 9, bq_Reason = ''scan'', bq_RuleID = 1\<rparr>"

theorem soc_block_effect_witness:
  "\<exists>mgr. so_mgr (snd (SecurityHandler_BlockIP falx_kernel sample_senv analyst (Inr sample_block) sample_soc)) = Some mgr
     \<and> \<not> fst (Manager_IsBlockedIPv4 falx_kernel 62136000000000000000 (ParseIP ''10.0.0.1'') mgr)"
proof -
  have ip: "ParseIP ''10.0.0.1'' = v4InV6Prefix @ [10, 0, 0, 1]" by code_simp
  have str: "IP_String [0, 0, 0, 0, 0, 0, 0, 0, 0, 0, 255, 255, 10, 0, 0, 1] = ''10.0.0.1''" by code_simp
  have "fst (SecurityHandler_BlockIP falx_kernel sample_senv analyst (Inr sample_block) sample_soc) = Json 200 (''10.0.0.1'', 86400, False)"
    unfolding SecurityHandler_BlockIP_def Let_def sum.case
    by (simp add: sample_block_def ip str analyst_def sample_soc_def soc_start_def sec_mgr_def sample_senv_def manager_eval BlockEntry0_def)
  then obtain st' where s: "SecurityHandler_BlockIP falx_kernel sample_senv analyst (Inr sample_block) sample_soc = (Json 200 (''10.0.0.1'', 86400, False), st')"
    by (metis prod.collapse)
  have "\<exists>mgr. so_mgr st' = Some mgr \<and> \<not> fst (Manager_IsBlockedIPv4 falx_kernel 62136000000000000000 (ParseIP ''10.0.0.1'') mgr)"
    using soc_block_effect [OF falx_kernel_v4(1) s, of 62136000000000000000]
    by (auto simp: sample_senv_def time_Unix_def analyst_def sample_block_def)
  then show ?thesis by (simp only: s snd_conv)
qed

section \<open>Routes and roles\<close>

definition guard_check :: "guard \<Rightarrow> check" where
  "guard_check g =
     (case g of GAuth \<Rightarrow> (\<lambda>_. None) | GTFA \<Rightarrow> RequireTFAVerified | GScope s \<Rightarrow> RequireScope s | GPerm p \<Rightarrow> RequirePermission p | GRole r \<Rightarrow> RequireRole r)"

text \<open>The least level of a role for the handlers that change the protection, the rules, the users or the
  system, from the table of routes at the head of \<open>server.go\<close> and the comments of \<open>handlers.go\<close>.  Two
  levels are not stated there: thresholds count as control of the circuit breaker, and deletion of
  a rule, which the table gives to level three, needs a permission that starts at four.\<close>

definition required_level :: "string \<Rightarrow> int" where
  "required_level h =
     (if h = ''BlockIP'' then 2
      else if h \<in> {''UnblockIP'', ''RedirectIP'', ''ForceOpenCircuit'', ''ForceCloseCircuit'', ''UpdateThresholds'', ''CreateRule'', ''UpdateRule'',
        ''EnableRule'', ''DisableRule'', ''ReloadRules''} then 3
      else if h \<in> {''DeleteRule'', ''CreateUser'', ''LockUser'', ''UnlockUser''} then 4
      else if h \<in> {''TOTPDisable'', ''UpdateConfig''} then 5
      else 0)"

lemma permission_above:
  assumes "HasPermission (User0\<lparr>u_Role := r\<rparr>) p" "\<not> HasPermission (User0\<lparr>u_Role := low\<rparr>) p"
  shows "Role_Level low < Role_Level r"
  using permissions_level [of "User0\<lparr>u_Role := r\<rparr>" "User0\<lparr>u_Role := low\<rparr>" p] assms by force

lemmas permission_defs = PermUserCreate_def PermUserRead_def PermUserUpdate_def PermUserDelete_def PermUserList_def PermRoleAssign_def
  PermIPBlock_def PermIPUnblock_def PermIPBlockTemp_def PermPolicyCreate_def PermPolicyUpdate_def PermPolicyDelete_def PermPolicyRead_def
  PermHoneypotManage_def PermHoneypotView_def PermFailsafeControl_def PermFailsafeView_def PermDashboardView_def PermTelemetryRead_def
  PermAuditRead_def PermAlertRead_def PermAlertAcknowledge_def PermSystemConfig_def PermSystemHealth_def PermSystemRestart_def PermMetricsRead_def

lemma permission_levels:
  "HasPermission (User0\<lparr>u_Role := r\<rparr>) PermIPBlockTemp \<Longrightarrow> 2 \<le> Role_Level r"
  "HasPermission (User0\<lparr>u_Role := r\<rparr>) PermIPBlock \<Longrightarrow> 3 \<le> Role_Level r"
  "HasPermission (User0\<lparr>u_Role := r\<rparr>) PermFailsafeControl \<Longrightarrow> 3 \<le> Role_Level r"
  "HasPermission (User0\<lparr>u_Role := r\<rparr>) PermPolicyCreate \<Longrightarrow> 3 \<le> Role_Level r"
  "HasPermission (User0\<lparr>u_Role := r\<rparr>) PermPolicyDelete \<Longrightarrow> 4 \<le> Role_Level r"
  "HasPermission (User0\<lparr>u_Role := r\<rparr>) PermUserCreate \<Longrightarrow> 4 \<le> Role_Level r"
proof -
  have l: "Role_Level RoleViewer = 1" "Role_Level RoleAnalyst = 2" "Role_Level RoleSeniorAnalyst = 3" by simp_all
  have n: "\<not> HasPermission (User0\<lparr>u_Role := RoleViewer\<rparr>) PermIPBlockTemp" "\<not> HasPermission (User0\<lparr>u_Role := RoleAnalyst\<rparr>) PermIPBlock"
      "\<not> HasPermission (User0\<lparr>u_Role := RoleAnalyst\<rparr>) PermFailsafeControl" "\<not> HasPermission (User0\<lparr>u_Role := RoleAnalyst\<rparr>) PermPolicyCreate"
      "\<not> HasPermission (User0\<lparr>u_Role := RoleSeniorAnalyst\<rparr>) PermPolicyDelete" "\<not> HasPermission (User0\<lparr>u_Role := RoleSeniorAnalyst\<rparr>) PermUserCreate"
    by (simp_all add: HasPermission_def RolePermissions_def permission_defs)
  show "HasPermission (User0\<lparr>u_Role := r\<rparr>) PermIPBlockTemp \<Longrightarrow> 2 \<le> Role_Level r"
    using permission_above [OF _ n(1), of r] unfolding l by linarith
  show "HasPermission (User0\<lparr>u_Role := r\<rparr>) PermIPBlock \<Longrightarrow> 3 \<le> Role_Level r"
    "HasPermission (User0\<lparr>u_Role := r\<rparr>) PermFailsafeControl \<Longrightarrow> 3 \<le> Role_Level r"
    "HasPermission (User0\<lparr>u_Role := r\<rparr>) PermPolicyCreate \<Longrightarrow> 3 \<le> Role_Level r"
    using permission_above [OF _ n(2), of r] permission_above [OF _ n(3), of r] permission_above [OF _ n(4), of r] unfolding l by linarith+
  show "HasPermission (User0\<lparr>u_Role := r\<rparr>) PermPolicyDelete \<Longrightarrow> 4 \<le> Role_Level r"
    "HasPermission (User0\<lparr>u_Role := r\<rparr>) PermUserCreate \<Longrightarrow> 4 \<le> Role_Level r"
    using permission_above [OF _ n(5), of r] permission_above [OF _ n(6), of r] unfolding l by linarith+
qed

text \<open>What the guards of a route demand of the claims, as a check of the table by evaluation.\<close>

definition guards_level :: "guard list \<Rightarrow> int" where
  "guards_level gs =
     (if GRole RoleSuperAdmin \<in> set gs then 5
      else if GPerm PermPolicyDelete \<in> set gs \<or> GPerm PermUserCreate \<in> set gs then 4
      else if GPerm PermIPBlock \<in> set gs \<or> GPerm PermFailsafeControl \<in> set gs \<or> GPerm PermPolicyCreate \<in> set gs then 3
      else if GPerm PermIPBlockTemp \<in> set gs then 2 else 0)"

lemma guards_level_sound:
  assumes "\<forall>g\<in>set gs. guard_check g (Some claims) = None"
  shows "guards_level gs \<le> Role_Level (tc_Role claims)"
proof -
  have r: "GRole r \<in> set gs \<Longrightarrow> Role_Level r \<le> Role_Level (tc_Role claims)" for r
    using bspec [OF assms, of "GRole r"] by (simp add: guard_check_def check_passes)
  have p: "GPerm p \<in> set gs \<Longrightarrow> HasPermission (User0\<lparr>u_Role := tc_Role claims\<rparr>) p" for p
    using bspec [OF assms, of "GPerm p"] by (simp add: guard_check_def check_passes)
  show ?thesis
    using r [of RoleSuperAdmin] p [THEN permission_levels(1)] p [THEN permission_levels(2)] p [THEN permission_levels(3)]
      p [THEN permission_levels(4)] p [THEN permission_levels(5)] p [THEN permission_levels(6)] Role_Level_le(1) [of "tc_Role claims"]
    unfolding guards_level_def by (simp split: if_split)
qed

definition route_ok :: "route \<Rightarrow> bool" where
  "route_ok rt \<longleftrightarrow> required_level (rt_handler rt) \<le> guards_level (rt_guards rt)
     \<and> (required_level (rt_handler rt) > 0 \<longrightarrow> {GAuth, GTFA, GScope ScopeSession} \<subseteq> set (rt_guards rt))"

lemma buildRouter_ok: "list_all route_ok buildRouter"
  unfolding buildRouter_def list.pred_inject
  by (intro conjI TrueI)
    (simp_all add: route_ok_def required_level_def guards_level_def pub_def authOnly_def authed_def)

text \<open>C2. No route lets a low role change the system.  For every route of the server, a request that passes its checks comes
  from a role of at least the level its handler requires: two to block an address, three to unblock or
  redirect one, to control the circuit breaker and to change rules, four to delete a rule and to
  manage users, five to remove a second factor or change the configuration; and for all of these the
  session is live, the second factor is verified and the token has full scope.\<close>

theorem routes_guarded:
  assumes "rt \<in> set buildRouter" "0 < required_level (rt_handler rt)"
    and "fst (guarded L E (map guard_check (rt_guards rt)) r v) = Inr claims"
  shows "required_level (rt_handler rt) \<le> Role_Level (tc_Role claims) \<and> tc_TFAVerified claims \<and> tc_Scope claims = ScopeSession
    \<and> VerifyAccessToken L (e_clk E 0) (extractBearerToken r) = Inr claims
    \<and> live_session (clk_from 1 (e_clk E)) (tc_SessionID claims) (sv_store v)"
proof -
  have ok: "route_ok rt" using buildRouter_ok assms(1) by (simp add: list_all_iff)
  have auth: "fst (RequireAuth L E r v) = Inr claims" and checks: "\<forall>g\<in>set (rt_guards rt). guard_check g (Some claims) = None"
    using assms(3) by (auto simp: guarded_def run_checks_None split: prod.splits sum.splits option.splits)
  have sub: "GTFA \<in> set (rt_guards rt)" "GScope ScopeSession \<in> set (rt_guards rt)" using ok assms(2) by (auto simp: route_ok_def)
  have "required_level (rt_handler rt) \<le> Role_Level (tc_Role claims)"
    using ok guards_level_sound [OF checks] by (simp add: route_ok_def)
  moreover have "tc_TFAVerified claims" "tc_Scope claims = ScopeSession"
    using bspec [OF checks sub(1)] bspec [OF checks sub(2)] by (simp_all add: guard_check_def check_passes)
  ultimately show ?thesis using auth by (simp add: RequireAuth_Inr)
qed

text \<open>A super administrator with a live session on the route that changes the configuration.\<close>

definition root_lib :: auth_lib where
  "root_lib = sample_lib\<lparr>al_parse := (\<lambda>_ iss tok. Inr \<lparr>fc_Subject = ''a1'', fc_Issuer = iss, fc_IssuedAt = 0, fc_ExpiresAt = 900, fc_NotBefore = 0,
     fc_Username = ''admin'', fc_Role = RoleSuperAdmin, fc_SessionID = tok, fc_TokenType = ''access'', fc_TFAVerified = True,
     fc_Scope = ScopeSession, fc_Permissions = []\<rparr>)\<rparr>"

definition root_service :: Service where
  "root_service = on_store (\<lambda>s. s\<lparr>st_sessions := [(''s1'', \<lparr>Session.s_ID = ''s1'', s_UserID = ''a1'', s_RefreshToken = [], s_UserAgent = [], s_IPAddress = [],
     s_CreatedAt = 0, s_LastActivityAt = 0, s_ExpiresAt = 100, s_Revoked = False\<rparr>)]\<rparr>) sample_service"

definition root_request :: http_request where
  "root_request = \<lparr>hr_Method = ''PUT'', hr_Authorization = [], hr_Cookie = Some ''s1'', hr_Token = [], hr_XRealIP = [], hr_XForwardedFor = [],
     hr_RemoteAddr = ''10.0.0.2:9'', hr_UserAgent = [], hr_Origin = []\<rparr>"

theorem routes_guarded_witness:
  "\<exists>claims. fst (guarded root_lib sample_env (map guard_check (rt_guards (authed ''PUT'' ''/system/config'' [GRole RoleSuperAdmin] ''UpdateConfig'')))
       root_request root_service) = Inr claims \<and> 5 \<le> Role_Level (tc_Role claims)"
proof -
  let ?rt = "authed ''PUT'' ''/system/config'' [GRole RoleSuperAdmin] ''UpdateConfig''"
  have rt: "?rt \<in> set buildRouter" by (simp add: buildRouter_def)
  have lv: "required_level (rt_handler ?rt) = 5" by (simp add: authed_def required_level_def)
  have "\<exists>claims. fst (guarded root_lib sample_env (map guard_check (rt_guards ?rt)) root_request root_service) = Inr claims"
    by (simp add: guarded_def RequireAuth_def ValidateRequest_def VerifyAccessToken_def GetSession_def extractBearerToken_def root_lib_def sample_lib_def
        root_service_def root_request_def sample_env_def on_store_def sample_service_def NewService_def Session_IsExpired_def Session_IsInactive_def
        authed_def guard_check_def RequireTFAVerified_def RequireScope_def RequireRole_def auth_db_def sample_db_def time_After_def time_Sub_def auth_store_def clk_from_def Let_def Minute_def Second_def)
  then obtain claims where c: "fst (guarded root_lib sample_env (map guard_check (rt_guards ?rt)) root_request root_service) = Inr claims" ..
  from routes_guarded [OF rt _ c] c show ?thesis by (auto simp: lv)
qed

text \<open>The table at the top of the source promises more for reading than the routes demand: a viewer
  passes the checks of the threats, of the blocklist and of the rules, and a senior analyst those of the audit log.\<close>

lemma read_routes_open:
  "\<forall>p\<in>{PermDashboardView, PermTelemetryRead, PermPolicyRead}. HasPermission (User0\<lparr>u_Role := RoleViewer\<rparr>) p"
  "HasPermission (User0\<lparr>u_Role := RoleSeniorAnalyst\<rparr>) PermAuditRead"
  by (simp_all add: HasPermission_def RolePermissions_def)

end
