(* ===== verification/Spec2Isabelle.thy ===== *)
theory Spec2Isabelle
  imports Hardening FailsafeEngine SpscRing Sweeper GeoIP Policy IpcServer ControlGuards XdpControl SocServer
begin

text \<open>
  A verification of FALX V2, a DDoS mitigation system.  An XDP program in the kernel
  (\<open>src/ebpf-kern\<close>, Rust) judges every packet and counts what it does.  The Go control plane
  (\<open>src/control-plane\<close>) fills the maps of the program, watches its counters, opens a circuit breaker
  under a flood, applies the rules of the operators and takes verdicts from an inference engine over
  a Unix socket.  The SOC backend (\<open>src/soc-backend\<close>) offers the operators an HTTP API, guarded by the
  authentication package of the control plane.  The parts meet in the kernel maps: the map manager
  writes them, the XDP program reads them and writes its own bans and counters.

  \<^bold>\<open>Conventions.\<close>  Structs are records, one definition models one function with all its
  branches, state is passed explicitly.  Unsigned integers are words and wrap.  A time is the
  number of nanoseconds since Go's zero time; the readings of the clock within one call, the random
  bytes and the faults of the database or the file system are arguments, numbered in the order
  of their call sites.  A Go \<open>error\<close> is an optional text.  A \<open>float64\<close> is an exact rational; rounding is
  not modelled.  Log lines are left out.  Code outside the sources is a parameter: kernel maps
  (\<open>ebpf\<close>), the bloom filter, Argon2id, signing and parsing of tokens, ECDSA, the JSON codec.  What is relied on
  is a locale or a hypothesis, and each is shown to be satisfiable by an instance.

  \<^bold>\<open>Shared theories.\<close>
  \<^item> \<open>Prelude\<close>: machine types, time, byte orders, channels, generic lemmas, the collections \<open>go_time\<close> and \<open>go_bytes\<close>.
  \<^item> \<open>GoNet\<close>, \<open>GoScan\<close>, \<open>GoEncoding\<close>, \<open>GoSha1\<close>: the parts of Go's standard library in use, namely addresses and
    their texts, \<open>Sscanf\<close> and \<open>ParseCIDR\<close>, base32 and base64, SHA-1 and HMAC, as executable functions.
  \<^item> \<open>Ebpf\<close>: the interface of a kernel map.  The locale \<open>ebpf_map\<close> has the laws of update, delete, lookup and
    iteration; \<open>ebpf_reliable\<close> and \<open>ebpf_array\<close> extend it; the interpretations are a bounded hash map that evicts
    and an array.

  \<^bold>\<open>Maps of the control plane\<close> (\<open>pkg/bpfmaps\<close>).
  \<^item> \<open>BpfTypes\<close> (\<open>types.go\<close>): values of the maps, aggregation of the counters per CPU, address keys.
  \<^item> \<open>RateLimiter\<close> (\<open>ratelimiter.go\<close>): the locale \<open>token_bucket\<close> bounds what any bucket admits in any window; it is interpreted here and for the limiter of an IPC connection.
  \<^item> \<open>AuditLog\<close> (\<open>audit.go\<close>): the audit trail.
  \<^item> \<open>BpfManager\<close> (\<open>manager.go\<close>, \<open>expiry.go\<close>): every write of a map with rate limit and audit.  A blocked address is found
    blocked exactly until its time is over.
  \<^item> \<open>Hardening\<close> (\<open>hardening.go\<close>): dedup cache, write window, capacity check, batches.

  \<^bold>\<open>Circuit breaker\<close> (\<open>internal/failsafe\<close>).
  \<^item> \<open>Breaker\<close> (\<open>state.go\<close>, \<open>recovery.go\<close>) and \<open>Detector\<close> (\<open>detector.go\<close>): the state machine, the capped backoff and the
    four detection algorithms.
  \<^item> \<open>FailsafeEngine\<close> (\<open>engine.go\<close>): ticks and operator commands as the step relation \<open>engine_step\<close>; its
    histories \<open>engine_history\<close> let other programs write the failsafe map in between.  Engine
    and kernel agree on the flag as long as the engine has had the last word, a sustained flood opens the circuit,
    a single alarm does not, and one calm tick after the probe window closes it.

  \<^bold>\<open>Other services of the control plane.\<close>
  \<^item> \<open>SpscRing\<close>, \<open>Sweeper\<close>, \<open>GeoIP\<close>, \<open>ControlGuards\<close> (sections of \<open>control/failsafe.go\<close>).  The ring is modelled twice: its
    methods refine a bounded queue (the locale \<open>bounded_fifo\<close>), and the step relation \<open>spsc_step\<close> interleaves producer
    and consumer at single atomic accesses; a method that runs alone is a run of that relation
    (\<open>push_is_producer_run\<close>, \<open>pop_is_consumer_run\<close>).  \<open>GeoIP\<close> decodes databases byte by byte.
  \<^item> \<open>EventBus\<close> (\<open>pkg/events\<close>), \<open>Policy\<close> (\<open>pkg/policy\<close>): the enabled rule of highest priority that matches decides, and a
    block rule takes effect in the kernel.
  \<^item> \<open>IpcProtocol\<close> and \<open>IpcServer\<close> (\<open>internal/ipc\<close>): frames survive the stream, damage within four bytes is detected, and no map update of the
    inference engine blocks a protected network.

  \<^bold>\<open>XDP program\<close> (\<open>src/ebpf-kern/src\<close>).
  \<^item> \<open>XdpParser\<close> (\<open>parser.rs\<close>), \<open>XdpHoneypot\<close> (\<open>honeypot.rs\<close>), \<open>XdpMain\<close> (\<open>main.rs\<close>): the pipeline on the bytes of a packet, for one
    CPU.  A source gets no more packets through than its bucket allows, and a ban
    holds for its time, in each case as long as the kernel does not evict the entry; every verdict is counted, and the
    verdicts under an open circuit and of a redirect are given exactly.
  \<^item> \<open>XdpControl\<close>: the program and the control plane on the same map, with the two disagreements it shows
    (byte order of the keys, base of the expiry times).

  \<^bold>\<open>Authentication\<close> (\<open>pkg/auth\<close>).
  \<^item> \<open>AuthModels\<close>, \<open>AuthPassword\<close>, \<open>AuthTotp\<close>, \<open>AuthStore\<close> (\<open>models.go\<close>, \<open>password.go\<close>, \<open>totp.go\<close>, \<open>store.go\<close>): roles, hashes, one-time
    passwords, and the store as caches in front of tables with its invariant.
  \<^item> \<open>AuthService\<close> (\<open>jwt.go\<close>, \<open>service.go\<close>) with \<open>AuthSafety\<close> and \<open>AuthLimits\<close>: over any sequence of operations an ended
    session is never accepted again, no role rises, a login needs the credentials, and wrong guesses
    and logins per address are bounded.
  \<^item> \<open>AuthHttp\<close> (\<open>middleware.go\<close>, \<open>handlers.go\<close>): what a request has proved when a check passes it on.

  \<^bold>\<open>SOC backend.\<close>  \<open>SocServer\<close> (\<open>server.go\<close>, \<open>security_handler.go\<close>, part of \<open>dashboard_handler.go\<close>): the table of routes, each
  guarded for the level its handler requires, the handlers that change the protection (a block over the API holds for the answered time),
  and the history of metrics.

  \<^bold>\<open>Bounds.\<close>  Recursions are structural or have a termination proof.  The only fuel is that of \<open>skipMMDBValue\<close>,
  where nesting in a corrupt file is limited by its length alone: every level moves the
  position forward, so one more than the number of bytes is enough (\<open>skip_total\<close>).

  \<^bold>\<open>Not modelled.\<close>
  \<^item> AF_XDP (\<open>internal/afxdp\<close>): rings shared with the kernel through system calls and unsafe pointers.
  \<^item> The honeypot manager and its tracker (\<open>internal/honeypot\<close>), notifications (\<open>pkg/notifications\<close>) and QR codes
    (\<open>totp_qr.go\<close>): no modelled part depends on them, and they are left out.
  \<^item> Metrics exporter, subsystem manager, daemon, loader, entry point of the SOC backend and system handlers:
    libraries, system calls, wiring, and handlers that print values.
  \<^item> The inference client in Python, the dashboards, scripts and tests.
  \<^item> Within modelled parts: opening and pinning of maps, sockets and files, generation of RSA keys,
    the provisioning URI, matching of paths by the router, JSON texts, and concurrency other than that of the
    ring: the operations of a component run one after the other, as under its mutex.
\<close>

end
